(* ===== verification/Prelude.thy ===== *)
theory Prelude
  imports Main "HOL-Library.Word"
begin

text \<open>
  Shared vocabulary of the development: the C integer types of
  \<^verbatim>\<open>kernel/include/types.h\<close> as words of their width, the outcome type of a kernel
  function that may panic or run into undefined behaviour, checked array access, the
  page and address macros of \<^verbatim>\<open>kernel/include/kmem.h\<close> and
  \<^verbatim>\<open>kernel/include/vmem.h\<close>, and the word and list lemmas the components share.
\<close>

unbundle bit_operations_syntax

section \<open>C integer types\<close>

type_synonym uint8 = "8 word"
type_synonym uint16 = "16 word"
type_synonym uint32 = "32 word"
type_synonym uint64 = "64 word"
type_synonym ulong = "64 word"
type_synonym addr = "64 word"

section \<open>Outcomes\<close>

text \<open>
  \<^verbatim>\<open>panic(s)\<close> (\<^verbatim>\<open>kernel/signal.c\<close>) prints its argument and never returns: the
  outcome \<open>Inl (Panic s)\<close>. An access outside an array or through a null pointer is
  undefined in C: the outcome \<open>Inl Undefined\<close>. A busy wait that no step of the
  modelled hart can end is \<open>Inl Spins\<close>.
\<close>

datatype fault = Panic string | Undefined | Spins

type_synonym 'a res = "fault + 'a"

definition bindR :: "'a res \<Rightarrow> ('a \<Rightarrow> 'b res) \<Rightarrow> 'b res" where
  "bindR m f = (case m of Inl e \<Rightarrow> Inl e | Inr x \<Rightarrow> f x)"

lemma bindR_simps [simp]:
  "bindR (Inl e) f = Inl e"
  "bindR (Inr x) f = f x"
  by (simp_all add: bindR_def)

lemma bindR_Inr_iff: "bindR m f = Inr y \<longleftrightarrow> (\<exists>x. m = Inr x \<and> f x = Inr y)"
  by (cases m) simp_all

lemma bindR_assoc: "bindR (bindR m f) g = bindR m (\<lambda>x. bindR (f x) g)"
  by (cases m) simp_all

section \<open>Arrays\<close>

text \<open>Array access with C's bounds: outside them the behaviour is undefined.\<close>

definition rd :: "'a list \<Rightarrow> nat \<Rightarrow> 'a res" where
  "rd xs i = (if i < length xs then Inr (xs ! i) else Inl Undefined)"

definition wr :: "'a list \<Rightarrow> nat \<Rightarrow> 'a \<Rightarrow> 'a list res" where
  "wr xs i v = (if i < length xs then Inr (xs[i := v]) else Inl Undefined)"

lemma rd_in [simp]: "i < length xs \<Longrightarrow> rd xs i = Inr (xs ! i)"
  by (simp add: rd_def)

lemma wr_in [simp]: "i < length xs \<Longrightarrow> wr xs i v = Inr (xs[i := v])"
  by (simp add: wr_def)

lemma rd_Inr_iff: "rd xs i = Inr v \<longleftrightarrow> i < length xs \<and> v = xs ! i"
  by (auto simp: rd_def)

lemma wr_Inr_iff: "wr xs i v = Inr ys \<longleftrightarrow> i < length xs \<and> ys = xs[i := v]"
  by (auto simp: wr_def)

section \<open>Pages and addresses\<close>

definition PAGE_SHIFT :: nat where
  "PAGE_SHIFT = 12"

definition PAGE_SIZE :: ulong where
  "PAGE_SIZE = 0x1000"

definition PAGE_ROUND_UP :: "ulong \<Rightarrow> ulong" where
  "PAGE_ROUND_UP x = (x + PAGE_SIZE - 1) AND NOT (PAGE_SIZE - 1)"

definition PAGE_ROUND_DOWN :: "ulong \<Rightarrow> ulong" where
  "PAGE_ROUND_DOWN x = x AND NOT (PAGE_SIZE - 1)"

definition BINARY_ROUND_UP :: "ulong \<Rightarrow> ulong \<Rightarrow> ulong" where
  "BINARY_ROUND_UP x agn = (x + agn - 1) AND NOT (agn - 1)"

definition BINARY_ROUND_DOWN :: "ulong \<Rightarrow> ulong \<Rightarrow> ulong" where
  "BINARY_ROUND_DOWN x agn = x AND NOT (agn - 1)"

text \<open>The SV39 kernel window on physical memory.\<close>

definition VA_KERNEL_BEGIN :: ulong where
  "VA_KERNEL_BEGIN = 0xFFFFFFC000000000"

definition PMA_VA2PA :: "ulong \<Rightarrow> ulong" where
  "PMA_VA2PA va = va AND NOT VA_KERNEL_BEGIN"

definition PMA_PA2VA :: "ulong \<Rightarrow> ulong" where
  "PMA_PA2VA pa = pa OR VA_KERNEL_BEGIN"

named_theorems word_nat

lemma unat_of_nat64: "n < 2 ^ 64 \<Longrightarrow> unat (word_of_nat n :: ulong) = n"
  by (simp add: unat_of_nat)

lemma even_unat: "even (unat w) \<longleftrightarrow> even (w :: ulong)"
  using bit_unsigned_iff [of w 0] by (simp add: bit_0)

lemma unat_shiftr [word_nat]: "unat (drop_bit n (w :: 'a::len word)) = unat w div 2 ^ n"
proof -
  have "unat (drop_bit n w) = drop_bit n (unat w)" by (rule unat_drop_bit_eq)
  then show ?thesis by (simp only: drop_bit_eq_div)
qed

lemma unat_take_bit [word_nat]: "unat (take_bit n (w :: 'a::len word)) = unat w mod 2 ^ n"
proof -
  have "unat (take_bit n w) = take_bit n (unat w)" by (rule unsigned_take_bit_eq)
  then show ?thesis by (simp only: take_bit_eq_mod)
qed

lemma unat_shiftl [word_nat]:
  assumes "unat w * 2 ^ n < 2 ^ LENGTH('a)"
  shows "unat (push_bit n (w :: 'a::len word)) = unat w * 2 ^ n"
proof -
  have "unat (push_bit n w) = take_bit LENGTH('a) (push_bit n (unat w))"
    by (rule unsigned_push_bit_eq)
  then show ?thesis using assms by (simp add: push_bit_eq_mult take_bit_nat_eq_self)
qed

text \<open>Clearing the low \<open>n\<close> bits rounds down to a multiple of \<open>2 ^ n\<close>.\<close>

lemma and_not_mask: "w AND NOT (mask n) = push_bit n (drop_bit n w)" for w :: "'a::len word"
  by (intro bit_word_eqI) (auto simp: bit_simps)

lemma unat_round_down [word_nat]:
  "unat (w AND NOT (mask n)) = unat w div 2 ^ n * 2 ^ n" for w :: "'a::len word"
proof -
  have "unat w div 2 ^ n * 2 ^ n \<le> unat w" by simp
  also have "\<dots> < 2 ^ LENGTH('a)" by (rule unsigned_less)
  finally show ?thesis by (simp add: and_not_mask unat_shiftl unat_shiftr)
qed

lemma page_mask: "PAGE_SIZE - 1 = mask 12"
  by (simp add: PAGE_SIZE_def mask_eq_exp_minus_1)

lemma unat_PAGE_ROUND_DOWN [word_nat]: "unat (PAGE_ROUND_DOWN x) = unat x div 4096 * 4096"
  using unat_round_down [of x 12] by (simp add: PAGE_ROUND_DOWN_def page_mask)

lemma unat_PAGE_ROUND_UP [word_nat]:
  assumes "unat x + 4095 < 2 ^ 64"
  shows "unat (PAGE_ROUND_UP x) = (unat x + 4095) div 4096 * 4096"
proof -
  have "PAGE_ROUND_UP x = (x + 4095) AND NOT (mask 12)"
    by (simp add: PAGE_ROUND_UP_def PAGE_SIZE_def mask_eq_exp_minus_1 add.commute)
  moreover have "unat (x + 4095) = unat x + 4095"
    using assms by (simp add: unat_word_ariths)
  ultimately show ?thesis
    using unat_round_down [of "x + 4095" 12] by simp
qed

lemma not_kernel_begin: "NOT VA_KERNEL_BEGIN = mask 38"
  by (simp add: VA_KERNEL_BEGIN_def mask_eq_exp_minus_1)

lemma PMA_VA2PA_eq: "PMA_VA2PA va = take_bit 38 va"
  by (simp add: PMA_VA2PA_def not_kernel_begin take_bit_eq_mask)

text \<open>The window is a bijection on the physical addresses below \<open>2 ^ 38\<close>.\<close>

lemma PMA_roundtrip:
  assumes "unat pa < 2 ^ 38"
  shows "PMA_VA2PA (PMA_PA2VA pa) = pa"
proof -
  have "unat (take_bit 38 pa) = unat pa" using assms by (simp add: unat_take_bit)
  then have "take_bit 38 pa = pa" by (rule word_unat_eq_iff [THEN iffD2])
  moreover have "take_bit 38 VA_KERNEL_BEGIN = 0" by (simp add: VA_KERNEL_BEGIN_def)
  ultimately show ?thesis by (simp add: PMA_VA2PA_eq PMA_PA2VA_def take_bit_or)
qed

lemma PMA_PA2VA_nonzero [simp]: "PMA_PA2VA pa \<noteq> 0"
  by (simp add: PMA_PA2VA_def or_eq_0_iff VA_KERNEL_BEGIN_def)

text \<open>A loop \<^verbatim>\<open>for (i = b; i != e; i++)\<close> on unsigned integers ends, even with wrap-around.\<close>

lemma word_loop_measure [simp]:
  fixes i e :: "'a::len word"
  assumes "i \<noteq> e"
  shows "unat (e - (i + 1)) < unat (e - i)"
proof -
  have nz: "e - i \<noteq> 0" using assms by simp
  have "e - (i + 1) = (e - i) - 1" by simp
  then have "unat (e - (i + 1)) = unat (e - i) - 1"
    using unat_minus_one [OF nz] by (simp only:)
  moreover have "0 < unat (e - i)" using nz by (simp only: unat_gt_0) simp
  ultimately show ?thesis by linarith
qed

end
