(* ===== verification/Bytes.thy ===== *)
theory Bytes
  imports Prelude
begin

text \<open>
  \<^verbatim>\<open>kernel/utilities/bytes.c\<close>: the bitmap operations and the byte-order reversal.
  A bitmap is the array of bytes the code passes as \<^verbatim>\<open>uint8 *map\<close>; its bits are read
  off by \<open>bm\<close>.
\<close>

named_theorems bm_simps

section \<open>Bitmaps\<close>

definition test_bit :: "uint8 list \<Rightarrow> ulong \<Rightarrow> int res" where
  "test_bit mp index =
     bindR (rd mp (unat (drop_bit 3 index))) (\<lambda>b.
     Inr (uint (drop_bit (unat (index AND 7)) b AND 1)))"

definition test_and_set_bit :: "uint8 list \<Rightarrow> ulong \<Rightarrow> (int \<times> uint8 list) res" where
  "test_and_set_bit mp index =
     bindR (rd mp (unat (drop_bit 3 index))) (\<lambda>b.
     let ret = uint (drop_bit (unat (index AND 7)) b AND 1) in
     bindR (wr mp (unat (drop_bit 3 index)) (b OR push_bit (unat (index AND 7)) 1)) (\<lambda>mp'.
     Inr (ret, mp')))"

definition test_and_clear_bit :: "uint8 list \<Rightarrow> ulong \<Rightarrow> (int \<times> uint8 list) res" where
  "test_and_clear_bit mp index =
     bindR (rd mp (unat (drop_bit 3 index))) (\<lambda>b.
     let ret = uint (drop_bit (unat (index AND 7)) b AND 1) in
     bindR (wr mp (unat (drop_bit 3 index)) (b AND NOT (push_bit (unat (index AND 7)) 1)))
       (\<lambda>mp'. Inr (ret, mp')))"

definition toggle_bit :: "uint8 list \<Rightarrow> ulong \<Rightarrow> (int \<times> uint8 list) res" where
  "toggle_bit mp index =
     bindR (rd mp (unat (drop_bit 3 index))) (\<lambda>b.
     bindR (wr mp (unat (drop_bit 3 index)) (b XOR push_bit (unat (index AND 7)) 1)) (\<lambda>mp'.
     bindR (rd mp' (unat (drop_bit 3 index))) (\<lambda>b'.
     Inr (uint (drop_bit (unat (index AND 7)) b' AND 1), mp'))))"

text \<open>The abstract view: bit \<open>i\<close> of the map.\<close>

definition bm :: "uint8 list \<Rightarrow> nat \<Rightarrow> bool" where
  "bm mp i = bit (mp ! (i div 8)) (i mod 8)"

lemma index_split:
  "unat (drop_bit 3 (i :: ulong)) = unat i div 8" "unat (i AND 7) = unat i mod 8"
proof -
  have "unat (drop_bit 3 i) = drop_bit 3 (unat i)"
    by (rule unat_drop_bit_eq)
  then show "unat (drop_bit 3 i) = unat i div 8"
    by (simp add: drop_bit_eq_div)
  have "i AND 7 = take_bit 3 i"
    by (simp add: take_bit_eq_mask mask_eq_exp_minus_1)
  moreover have "unat (take_bit 3 i) = take_bit 3 (unat i)"
    by (rule unsigned_take_bit_eq)
  ultimately show "unat (i AND 7) = unat i mod 8"
    by (simp add: take_bit_eq_mod)
qed

lemma bit_read: "uint (drop_bit k (b :: uint8) AND 1) = of_bool (bit b k)"
  by (simp add: and_one_eq bit_iff_odd_drop_bit mod_2_eq_odd)

lemma index_bound: "i < 8 * length mp \<Longrightarrow> i div 8 < length mp"
  by (simp add: less_mult_imp_div_less mult.commute)

text \<open>The bitmap after one bit is assigned.\<close>

definition bm_put :: "uint8 list \<Rightarrow> nat \<Rightarrow> bool \<Rightarrow> uint8 list" where
  "bm_put mp i v = mp[i div 8 := (if v then set_bit (i mod 8) (mp ! (i div 8))
                                  else unset_bit (i mod 8) (mp ! (i div 8)))]"

lemma length_bm_put [simp]: "length (bm_put mp i v) = length mp"
  by (simp add: bm_put_def)

lemma bm_bm_put:
  assumes "i < 8 * length mp"
  shows "bm (bm_put mp i v) = (bm mp)(i := v)"
proof
  fix j
  have eq: "j = i \<longleftrightarrow> j div 8 = i div 8 \<and> j mod 8 = i mod 8"
    by (metis div_mult_mod_eq)
  have "i mod 8 < LENGTH(8)" by simp
  with index_bound [OF assms] eq show "bm (bm_put mp i v) j = ((bm mp)(i := v)) j"
    by (cases "j div 8 = i div 8")
      (auto simp: bm_def bm_put_def bit_set_bit_iff bit_unset_bit_iff)
qed

lemma test_bit_eq [bm_simps]:
  "unat i < 8 * length mp \<Longrightarrow> test_bit mp i = Inr (of_bool (bm mp (unat i)))"
  by (simp add: test_bit_def index_split bit_read bm_def index_bound)

lemma test_and_set_bit_eq [bm_simps]:
  "unat i < 8 * length mp \<Longrightarrow>
   test_and_set_bit mp i = Inr (of_bool (bm mp (unat i)), bm_put mp (unat i) True)"
  by (simp add: test_and_set_bit_def index_split bit_read bm_def index_bound bm_put_def
      set_bit_eq_or)

lemma test_and_clear_bit_eq [bm_simps]:
  "unat i < 8 * length mp \<Longrightarrow>
   test_and_clear_bit mp i = Inr (of_bool (bm mp (unat i)), bm_put mp (unat i) False)"
  by (simp add: test_and_clear_bit_def index_split bit_read bm_def index_bound bm_put_def
      unset_bit_eq_and_not)

lemma toggle_bit_eq [bm_simps]:
  assumes "unat i < 8 * length mp"
  shows "toggle_bit mp i =
     Inr (of_bool (\<not> bm mp (unat i)), bm_put mp (unat i) (\<not> bm mp (unat i)))"
proof -
  let ?k = "unat i mod 8" and ?b = "mp ! (unat i div 8)"
  have "flip_bit ?k ?b = (if \<not> bit ?b ?k then set_bit ?k ?b else unset_bit ?k ?b)"
    by (rule bit_eqI) (auto simp: bit_flip_bit_iff bit_set_bit_iff bit_unset_bit_iff)
  then have flip: "?b XOR 2 ^ ?k = (if \<not> bit ?b ?k then set_bit ?k ?b else unset_bit ?k ?b)"
    by (simp add: flip_bit_eq_xor)
  show ?thesis
    using assms by (simp add: toggle_bit_def index_split bit_read bm_def index_bound bm_put_def
        flip bit_set_bit_iff bit_unset_bit_iff)
qed

text \<open>Outside the array every operation is undefined behaviour, never a silent success.\<close>

lemma bitmap_out_of_bounds:
  assumes "8 * length mp \<le> unat i"
  shows "test_bit mp i = Inl Undefined" "test_and_set_bit mp i = Inl Undefined"
    "test_and_clear_bit mp i = Inl Undefined" "toggle_bit mp i = Inl Undefined"
proof -
  have "\<not> unat i div 8 < length mp" using assms by linarith
  then show "test_bit mp i = Inl Undefined" "test_and_set_bit mp i = Inl Undefined"
    "test_and_clear_bit mp i = Inl Undefined" "toggle_bit mp i = Inl Undefined"
    by (simp_all add: test_bit_def test_and_set_bit_def test_and_clear_bit_def toggle_bit_def
        index_split rd_def)
qed

section \<open>Byte order reversal\<close>

text \<open>
  The bytes of an integer in memory, least significant first (RISC-V is little endian),
  and the integer a byte array holds.
\<close>

definition le_bytes :: "nat \<Rightarrow> 'a::len word \<Rightarrow> uint8 list" where
  "le_bytes n w = map (\<lambda>i. ucast (drop_bit (8 * i) w)) [0..<n]"

definition le_word :: "uint8 list \<Rightarrow> 'a::len word" where
  "le_word bs = word_rcat (rev bs)"

function flip_loop :: "uint8 list \<Rightarrow> int \<Rightarrow> int \<Rightarrow> uint8 list res" where
  "flip_loop x lft rig =
     (if lft < rig then
        bindR (rd x (nat lft)) (\<lambda>tmp.
        bindR (rd x (nat rig)) (\<lambda>r.
        bindR (wr x (nat lft) r) (\<lambda>x1.
        bindR (wr x1 (nat rig) tmp) (\<lambda>x2.
        flip_loop x2 (lft + 1) (rig - 1)))))
      else Inr x)"
  by pat_completeness auto
termination
  by (relation "measure (\<lambda>(x, lft, rig). nat (rig - lft))") auto

declare flip_loop.simps [simp del]

definition flip_bytes_inplace :: "uint8 list \<Rightarrow> nat \<Rightarrow> uint8 list res" where
  "flip_bytes_inplace x numOfBytes = flip_loop x 0 (int numOfBytes - 1)"

definition flip_bytes_16 :: "uint16 \<Rightarrow> uint16 res" where
  "flip_bytes_16 x = bindR (flip_bytes_inplace (le_bytes 2 x) 2) (\<lambda>b. Inr (le_word b))"

definition flip_bytes_32 :: "uint32 \<Rightarrow> uint32 res" where
  "flip_bytes_32 x = bindR (flip_bytes_inplace (le_bytes 4 x) 4) (\<lambda>b. Inr (le_word b))"

definition flip_bytes_64 :: "uint64 \<Rightarrow> uint64 res" where
  "flip_bytes_64 x = bindR (flip_bytes_inplace (le_bytes 8 x) 8) (\<lambda>b. Inr (le_word b))"

lemma length_le_bytes [simp]: "length (le_bytes n w) = n"
  by (simp add: le_bytes_def)

lemma bit_le_word:
  "bit (le_word bs :: 'a::len word) n \<longleftrightarrow>
     n < LENGTH('a) \<and> n div 8 < length bs \<and> bit (bs ! (n div 8)) (n mod 8)"
  using bit_horner_sum_uint_exp_iff [of bs n]
  by (simp add: le_word_def word_rcat_def bit_word_of_int_iff)

text \<open>The two-pointer loop reverses the segment between the pointers.\<close>

lemma flip_loop_reverses:
  assumes "0 \<le> l" "r < int (length x)"
  shows "\<exists>y. flip_loop x l r = Inr y \<and> length y = length x \<and>
     (\<forall>i < length x. y ! i = (if l \<le> int i \<and> int i \<le> r then x ! nat (l + r - int i) else x ! i))"
  using assms
proof (induction "nat (r - l)" arbitrary: x l r rule: less_induct)
  case (less l r x)
  show ?case
  proof (cases "l < r")
    case False
    then have "nat (l + r - int i) = i" if "l \<le> int i" "int i \<le> r" for i
      using that by arith
    with False show ?thesis
      by (simp add: flip_loop.simps [of x l r])
  next
    case True
    let ?x' = "x[nat l := x ! nat r, nat r := x ! nat l]"
    have bounds: "nat l < length x" "nat r < length x" "nat l \<noteq> nat r"
      using True less.prems by auto
    have step: "flip_loop x l r = flip_loop ?x' (l + 1) (r - 1)"
      using True bounds by (simp add: flip_loop.simps [of x l r])
    from less.hyps [of "r - 1" "l + 1" ?x'] less.prems True obtain y where
      y: "flip_loop ?x' (l + 1) (r - 1) = Inr y" "length y = length x"
        "\<forall>i < length x. y ! i = (if l + 1 \<le> int i \<and> int i \<le> r - 1
            then ?x' ! nat (l + r - int i) else ?x' ! i)"
      by (auto simp: algebra_simps)
    have "y ! i = (if l \<le> int i \<and> int i \<le> r then x ! nat (l + r - int i) else x ! i)"
      if "i < length x" for i
    proof -
      consider "i = nat l" | "i = nat r" | "l < int i" "int i < r" | "int i < l \<or> r < int i"
        using True less.prems by linarith
      then show ?thesis
      proof cases
        case 3
        then have "nat (l + r - int i) \<noteq> nat l" "nat (l + r - int i) \<noteq> nat r"
          using True less.prems by arith+
        with 3 y(3) that show ?thesis by simp
      next
        case 4
        then have "i \<noteq> nat l" "i \<noteq> nat r" using True less.prems by arith+
        with 4 y(3) that show ?thesis by auto
      qed (use y(3) bounds True less.prems in auto)
    qed
    with y step show ?thesis by auto
  qed
qed

lemma flip_bytes_inplace_rev: "flip_bytes_inplace x (length x) = Inr (rev x)"
proof -
  obtain y where y: "flip_loop x 0 (int (length x) - 1) = Inr y" "length y = length x"
    "\<forall>i < length x. y ! i = (if 0 \<le> int i \<and> int i \<le> int (length x) - 1
        then x ! nat (0 + (int (length x) - 1) - int i) else x ! i)"
    using flip_loop_reverses [of 0 "int (length x) - 1" x] by auto
  have "nat (int n - 1 - int i) = n - Suc i" for n i :: nat by arith
  then have "y = rev x"
    using y(2,3) by (intro nth_equalityI) (auto simp: rev_nth)
  with y(1) show ?thesis by (simp add: flip_bytes_inplace_def)
qed

lemma le_word_le_bytes:
  assumes "LENGTH('a::len) = 8 * n"
  shows "le_word (le_bytes n w) = (w :: 'a word)"
proof (rule bit_word_eqI)
  fix i assume i: "i < LENGTH('a)"
  then have "i div 8 < n" "i mod 8 < LENGTH('a)"
    using assms by (simp, metis le_less_trans mod_less_eq_dividend)
  then show "bit (le_word (le_bytes n w) :: 'a word) i \<longleftrightarrow> bit w i"
    using i by (simp add: bit_le_word le_bytes_def bit_word_ucast_iff bit_drop_bit_eq)
qed

lemma le_bytes_le_word:
  assumes "LENGTH('a::len) = 8 * n" "length bs = n"
  shows "le_bytes n (le_word bs :: 'a word) = bs"
proof (rule nth_equalityI)
  fix i assume "i < length (le_bytes n (le_word bs :: 'a word))"
  then have i: "i < n" by simp
  show "le_bytes n (le_word bs :: 'a word) ! i = bs ! i"
  proof (rule bit_word_eqI)
    fix j assume j: "j < LENGTH(8)"
    then have "(8 * i + j) div 8 = i" "(8 * i + j) mod 8 = j" "8 * i + j < 8 * n"
      using i by simp_all
    then show "bit (le_bytes n (le_word bs :: 'a word) ! i) j \<longleftrightarrow> bit (bs ! i) j"
      using i j assms
      by (simp add: bit_le_word le_bytes_def bit_word_ucast_iff bit_drop_bit_eq)
  qed
qed (use assms in simp)

lemma flip_bytes_eq:
  "flip_bytes_16 x16 = Inr (le_word (rev (le_bytes 2 x16)))"
  "flip_bytes_32 x32 = Inr (le_word (rev (le_bytes 4 x32)))"
  "flip_bytes_64 x64 = Inr (le_word (rev (le_bytes 8 x64)))"
  using flip_bytes_inplace_rev [of "le_bytes 2 x16"] flip_bytes_inplace_rev [of "le_bytes 4 x32"]
    flip_bytes_inplace_rev [of "le_bytes 8 x64"]
  by (simp_all add: flip_bytes_16_def flip_bytes_32_def flip_bytes_64_def)

text \<open>Byte-order reversal always returns, and applying it twice gives the original value
  back, at all three widths.\<close>

theorem flip_bytes_involution:
  "bindR (flip_bytes_16 x16) flip_bytes_16 = Inr x16 \<and>
   bindR (flip_bytes_32 x32) flip_bytes_32 = Inr x32 \<and>
   bindR (flip_bytes_64 x64) flip_bytes_64 = Inr x64"
  by (simp add: flip_bytes_eq le_bytes_le_word le_word_le_bytes)

end
