(* ===== verification/Locks.thy ===== *)
theory Locks
  imports Prelude
begin

text \<open>
  \<^verbatim>\<open>kernel/asm/hart.c\<close>, \<^verbatim>\<open>kernel/spinlock.c\<close> and the interrupt-enable accessors of
  \<^verbatim>\<open>kernel/include/asm/csr.h\<close>. The record \<open>cpu\<close> is the part of the machine one
  hart sees: its \<^verbatim>\<open>tp\<close> and \<^verbatim>\<open>sstatus\<close> registers and the array
  \<^verbatim>\<open>harts\<close>. Every later kernel state extends it. The nesting depth is an integer without a bound: the
  overflow of \<^verbatim>\<open>trap_pushoff_dep\<close> after \<open>2 ^ 31\<close> nested critical sections is not a case of the model.
\<close>

named_theorems lock_simps

section \<open>Harts and interrupt nesting\<close>

definition MAX_CPU :: nat where
  "MAX_CPU = 16"

definition SSTATUS_SIE :: uint64 where
  "SSTATUS_SIE = push_bit 1 1"

record context_struct =
  cx_ra :: uint64
  cx_sp :: uint64
  cx_s0 :: uint64
  cx_s1 :: uint64
  cx_s2 :: uint64
  cx_s3 :: uint64
  cx_s4 :: uint64
  cx_s5 :: uint64
  cx_s6 :: uint64
  cx_s7 :: uint64
  cx_s8 :: uint64
  cx_s9 :: uint64
  cx_s10 :: uint64
  cx_s11 :: uint64

definition zero_context :: context_struct where
  "zero_context = \<lparr>cx_ra = 0, cx_sp = 0, cx_s0 = 0, cx_s1 = 0, cx_s2 = 0, cx_s3 = 0, cx_s4 = 0, cx_s5 = 0,
     cx_s6 = 0, cx_s7 = 0, cx_s8 = 0, cx_s9 = 0, cx_s10 = 0, cx_s11 = 0\<rparr>"

record hart_struct =
  enabled :: bool
  running_proc :: addr
  hart_context :: context_struct
  trap_pushoff_dep :: int
  trap_enabled :: int

record cpu =
  tp :: uint64
  sstatus :: uint64
  harts :: "hart_struct list"

definition read_interrupt :: "'a cpu_scheme \<Rightarrow> int" where
  "read_interrupt s = uint (sstatus s AND SSTATUS_SIE)"

definition enable_interrupt :: "'a cpu_scheme \<Rightarrow> 'a cpu_scheme" where
  "enable_interrupt s = s\<lparr>sstatus := sstatus s OR SSTATUS_SIE\<rparr>"

definition disable_interrupt :: "'a cpu_scheme \<Rightarrow> 'a cpu_scheme" where
  "disable_interrupt s = s\<lparr>sstatus := sstatus s AND NOT SSTATUS_SIE\<rparr>"

text \<open>A pointer into \<^verbatim>\<open>harts\<close> is its index.\<close>

definition current_hart_id :: "'a cpu_scheme \<Rightarrow> uint32" where
  "current_hart_id s = ucast (tp s)"

definition current_hart :: "'a cpu_scheme \<Rightarrow> nat" where
  "current_hart s = unat (current_hart_id s)"

definition pushoff_hart :: "'a cpu_scheme \<Rightarrow> 'a cpu_scheme res" where
  "pushoff_hart s =
     (let prev_mode = read_interrupt s;
          s = disable_interrupt s;
          chart = current_hart s
      in bindR (rd (harts s) chart) (\<lambda>c.
         let c = (if trap_pushoff_dep c = 0 then c\<lparr>trap_enabled := prev_mode\<rparr> else c);
             c = c\<lparr>trap_pushoff_dep := trap_pushoff_dep c + 1\<rparr>
         in Inr (s\<lparr>harts := (harts s)[chart := c]\<rparr>)))"

definition popoff_hart :: "'a cpu_scheme \<Rightarrow> 'a cpu_scheme res" where
  "popoff_hart s =
     (let chart = current_hart s in
      if read_interrupt s \<noteq> 0 then Inl (Panic ''popoff_hart - already enabled;'')
      else bindR (rd (harts s) chart) (\<lambda>c.
        if trap_pushoff_dep c < 1 then Inl (Panic ''popoff_hart - non-matching popoff;'')
        else
          let c = c\<lparr>trap_pushoff_dep := trap_pushoff_dep c - 1\<rparr>;
              s = s\<lparr>harts := (harts s)[chart := c]\<rparr>
          in Inr (if trap_pushoff_dep c = 0 \<and> trap_enabled c \<noteq> 0
                  then enable_interrupt s else s)))"

section \<open>Spinlocks\<close>

record spinlock =
  locked :: uint32
  description :: string
  lk_hart :: "nat option"

definition spinlock_init :: "string \<Rightarrow> spinlock" where
  "spinlock_init d = \<lparr>locked = 0, description = d, lk_hart = None\<rparr>"

definition is_holding_spinlock :: "spinlock \<Rightarrow> 'a cpu_scheme \<Rightarrow> bool" where
  "is_holding_spinlock lk s \<longleftrightarrow> lk_hart lk = Some (current_hart s) \<and> locked lk \<noteq> 0"

text \<open>
  The test-and-set loop ends at once when the lock word is 0; while another hart owns the
  lock, this hart alone never leaves the loop.
\<close>

definition spinlock_acquire ::
  "spinlock \<Rightarrow> 'a cpu_scheme \<Rightarrow> (spinlock \<times> 'a cpu_scheme) res" where
  "spinlock_acquire lk s =
     bindR (pushoff_hart s) (\<lambda>s.
     if is_holding_spinlock lk s then Inl (Panic ''spinlock_acquire - spinlock held;'')
     else if locked lk \<noteq> 0 then Inl Spins
     else Inr (lk\<lparr>locked := 1, lk_hart := Some (current_hart s)\<rparr>, s))"

definition spinlock_release ::
  "spinlock \<Rightarrow> 'a cpu_scheme \<Rightarrow> (spinlock \<times> 'a cpu_scheme) res" where
  "spinlock_release lk s =
     (if \<not> is_holding_spinlock lk s then Inl (Panic ''spinlock_release - spinlock not held;'')
      else bindR (popoff_hart s) (\<lambda>s. Inr (lk\<lparr>locked := 0, lk_hart := None\<rparr>, s)))"

section \<open>Nesting is balanced\<close>

text \<open>
  The state of a hart between kernel operations: it is one of the harts, its nesting
  depth is not negative, and inside a critical section interrupts are off.
\<close>

definition cpu_ok :: "'a cpu_scheme \<Rightarrow> bool" where
  "cpu_ok s \<longleftrightarrow> current_hart s < length (harts s) \<and>
     0 \<le> trap_pushoff_dep (harts s ! current_hart s) \<and>
     (0 < trap_pushoff_dep (harts s ! current_hart s) \<longrightarrow> read_interrupt s = 0)"

text \<open>
  The registers and harts, but for \<^verbatim>\<open>trap_enabled\<close> of the current hart at depth 0, which
  \<^verbatim>\<open>pushoff_hart\<close> uses as scratch there.
\<close>

definition cpu_eq :: "'a cpu_scheme \<Rightarrow> 'b cpu_scheme \<Rightarrow> bool" where
  "cpu_eq s t \<longleftrightarrow> tp t = tp s \<and> sstatus t = sstatus s \<and>
     (\<exists>v. harts t = (harts s)[current_hart s := (harts s ! current_hart s)\<lparr>trap_enabled := v\<rparr>] \<and>
        (0 < trap_pushoff_dep (harts s ! current_hart s) \<longrightarrow> v = trap_enabled (harts s ! current_hart s)))"

lemma current_hart_cong: "tp t = tp s \<Longrightarrow> current_hart t = current_hart s"
  by (simp add: current_hart_def current_hart_id_def)

lemma read_interrupt_cong: "sstatus t = sstatus s \<Longrightarrow> read_interrupt t = read_interrupt s"
  by (simp add: read_interrupt_def)

lemma cpu_eq_same: "tp t = tp s \<Longrightarrow> sstatus t = sstatus s \<Longrightarrow> harts t = harts s \<Longrightarrow> cpu_eq s t"
  unfolding cpu_eq_def by (auto intro!: exI [of _ "trap_enabled (harts s ! current_hart s)"])

lemma cpu_eq_refl: "cpu_eq s s"
  by (rule cpu_eq_same) simp_all

lemma cpu_eq_ok:
  assumes "cpu_eq s t" "cpu_ok s"
  shows "cpu_ok t"
proof -
  obtain v where t: "tp t = tp s" "sstatus t = sstatus s"
    "harts t = (harts s)[current_hart s := (harts s ! current_hart s)\<lparr>trap_enabled := v\<rparr>]"
    using assms(1) unfolding cpu_eq_def by blast
  then show ?thesis using assms(2)
    by (simp add: cpu_ok_def current_hart_cong [OF t(1)] read_interrupt_cong [OF t(2)])
qed

lemma cpu_eq_trans:
  assumes "cpu_eq s t" "cpu_eq t u" "cpu_ok s"
  shows "cpu_eq s u"
proof -
  let ?c = "current_hart s" and ?h = "harts s ! current_hart s"
  have ct: "current_hart t = ?c" using assms(1) unfolding cpu_eq_def by (blast intro: current_hart_cong)
  obtain v where v: "harts t = (harts s)[?c := ?h\<lparr>trap_enabled := v\<rparr>]" "0 < trap_pushoff_dep ?h \<longrightarrow> v = trap_enabled ?h"
    using assms(1) unfolding cpu_eq_def by blast
  then have h: "harts t ! ?c = ?h\<lparr>trap_enabled := v\<rparr>" using assms(3) by (simp add: cpu_ok_def)
  obtain w where w: "harts u = (harts t)[?c := (harts t ! ?c)\<lparr>trap_enabled := w\<rparr>]"
    "0 < trap_pushoff_dep (harts t ! ?c) \<longrightarrow> w = trap_enabled (harts t ! ?c)"
    using assms(2) unfolding cpu_eq_def ct by blast
  have "harts u = (harts s)[?c := ?h\<lparr>trap_enabled := w\<rparr>]" using v(1) w(1) unfolding h by simp
  moreover have "0 < trap_pushoff_dep ?h \<longrightarrow> w = trap_enabled ?h" using v(2) w(2) unfolding h by simp
  moreover have "tp u = tp s" "sstatus u = sstatus s" using assms(1,2) by (simp_all add: cpu_eq_def)
  ultimately show ?thesis unfolding cpu_eq_def by blast
qed

lemma sie_restore:
  assumes "uint (x AND SSTATUS_SIE) \<noteq> 0"
  shows "(x AND NOT SSTATUS_SIE) OR SSTATUS_SIE = x"
proof -
  have one: "SSTATUS_SIE = push_bit 1 1" by (simp add: SSTATUS_SIE_def)
  have "bit x 1"
  proof (rule ccontr)
    assume "\<not> bit x 1"
    then have "x AND SSTATUS_SIE = 0"
      unfolding one by (intro bit_word_eqI) (auto simp: bit_simps)
    with assms show False by simp
  qed
  then show ?thesis unfolding one by (intro bit_word_eqI) (auto simp: bit_simps)
qed

lemma sie_off: "uint ((x AND NOT SSTATUS_SIE) AND SSTATUS_SIE) = 0"
proof -
  have "(x AND NOT SSTATUS_SIE) AND SSTATUS_SIE = 0"
    by (intro bit_word_eqI) (auto simp: bit_simps)
  then show ?thesis by simp
qed

lemma sie_keep:
  assumes "uint (x AND SSTATUS_SIE) = 0"
  shows "x AND NOT SSTATUS_SIE = x"
proof (rule bit_word_eqI)
  fix n assume n: "n < LENGTH(64)"
  from assms have "x AND SSTATUS_SIE = 0" by (simp add: uint_0_iff)
  then have "\<not> bit (x AND SSTATUS_SIE) n" by simp
  with n show "bit (x AND NOT SSTATUS_SIE) n \<longleftrightarrow> bit x n" by (auto simp: bit_simps)
qed

text \<open>
  A critical section: acquiring a free lock succeeds with interrupts off, and releasing it after a
  body that leaves the cpu alone gives back a free lock and the cpu as it was, but for the scratch
  field \<^verbatim>\<open>trap_enabled\<close>. Sections nest, since the body runs at a positive depth.
\<close>

lemma cpu_eq_nested: "cpu_eq s t \<Longrightarrow> 0 < trap_pushoff_dep (harts s ! current_hart s) \<Longrightarrow> harts t = harts s"
  by (auto simp: cpu_eq_def)

lemma lock_roundtrip:
  assumes ok: "cpu_ok s" and free: "locked lk = 0"
  obtains x H H' where
    "spinlock_acquire lk s =
       Inr (lk\<lparr>locked := 1, lk_hart := Some (current_hart s)\<rparr>, s\<lparr>sstatus := x, harts := H\<rparr>)"
    "cpu_ok (s\<lparr>sstatus := x, harts := H\<rparr>)"
    "\<And>t :: 'b cpu_scheme. cpu_eq (s\<lparr>sstatus := x, harts := H\<rparr>) t \<Longrightarrow>
       spinlock_release (lk\<lparr>locked := 1, lk_hart := Some (current_hart s)\<rparr>) t =
       Inr (lk\<lparr>locked := 0, lk_hart := None\<rparr>, t\<lparr>sstatus := sstatus s, harts := H'\<rparr>)"
    "\<And>t :: 'c cpu_scheme. tp t = tp s \<Longrightarrow> sstatus t = sstatus s \<Longrightarrow> harts t = H' \<Longrightarrow> cpu_eq s t"
proof -
  let ?c = "current_hart s" and ?h = "harts s ! current_hart s"
  let ?x = "sstatus s AND NOT SSTATUS_SIE"
  define v where "v = (if trap_pushoff_dep ?h = 0 then read_interrupt s else trap_enabled ?h)"
  define h' where "h' = ?h\<lparr>trap_enabled := v, trap_pushoff_dep := trap_pushoff_dep ?h + 1\<rparr>"
  define H where "H = (harts s)[?c := h']"
  let ?s = "s\<lparr>sstatus := ?x, harts := H\<rparr>"
  have c: "?c < length (harts s)" and dep: "0 \<le> trap_pushoff_dep ?h"
    and off: "0 < trap_pushoff_dep ?h \<Longrightarrow> read_interrupt s = 0"
    using ok by (auto simp: cpu_ok_def)
  have cs: "current_hart ?s = ?c" by (rule current_hart_cong) simp
  have hs: "H ! ?c = h'" "trap_pushoff_dep h' = trap_pushoff_dep ?h + 1" using c by (simp_all add: H_def h'_def)
  have acq: "spinlock_acquire lk s = Inr (lk\<lparr>locked := 1, lk_hart := Some ?c\<rparr>, ?s)"
    using c free by (simp add: spinlock_acquire_def pushoff_hart_def Let_def disable_interrupt_def
        is_holding_spinlock_def current_hart_def current_hart_id_def h'_def v_def H_def)
  have ok': "cpu_ok ?s" using c dep hs by (simp add: cpu_ok_def cs read_interrupt_def sie_off) (simp add: H_def)
  have rel: "spinlock_release (lk\<lparr>locked := 1, lk_hart := Some ?c\<rparr>) t =
       Inr (lk\<lparr>locked := 0, lk_hart := None\<rparr>,
            t\<lparr>sstatus := sstatus s, harts := (harts s)[?c := ?h\<lparr>trap_enabled := v\<rparr>]\<rparr>)"
    if e: "cpu_eq ?s t" for t :: "'b cpu_scheme"
  proof -
    have t: "tp t = tp s" "sstatus t = ?x" using e by (simp_all add: cpu_eq_def)
    have th: "harts t = H" using cpu_eq_nested [OF e] dep hs by (simp add: cs)
    have ct: "current_hart t = ?c" using t(1) by (rule current_hart_cong)
    have ri: "read_interrupt t = 0" using t(2) by (simp add: read_interrupt_def sie_off)
    have "?x OR SSTATUS_SIE = sstatus s" if "trap_pushoff_dep ?h = 0" "v \<noteq> 0"
      using that by (intro sie_restore) (simp add: v_def read_interrupt_def)
    moreover have "?x = sstatus s" if "trap_pushoff_dep ?h \<noteq> 0 \<or> v = 0"
      using that dep off by (intro sie_keep) (auto simp: v_def read_interrupt_def split: if_splits)
    ultimately show ?thesis
      using t th ct ri c dep
      by (auto simp: spinlock_release_def is_holding_spinlock_def popoff_hart_def Let_def
          enable_interrupt_def h'_def H_def)
  qed
  have "cpu_eq s t" if "tp t = tp s" "sstatus t = sstatus s" "harts t = (harts s)[?c := ?h\<lparr>trap_enabled := v\<rparr>]"
    for t :: "'c cpu_scheme"
    unfolding cpu_eq_def using that by (intro conjI exI [of _ v]) (simp_all add: v_def)
  from that [OF acq ok' rel this] show thesis .
qed

text \<open>Acquiring a lock this hart already holds panics; so does releasing one it does not.\<close>

lemma reacquire_panics:
  assumes "current_hart s < length (harts s)" "is_holding_spinlock lk s"
  shows "spinlock_acquire lk s = Inl (Panic ''spinlock_acquire - spinlock held;'')"
  using assms
  by (simp add: spinlock_acquire_def pushoff_hart_def Let_def disable_interrupt_def
      is_holding_spinlock_def current_hart_def current_hart_id_def)

end
