(* ===== verification/Bootmem.thy ===== *)
theory Bootmem
  imports Bytes Locks
begin

text \<open>
  \<^verbatim>\<open>kernel/memory/bootmem.c\<close>: the boot-time allocator over a bitmap with one bit per
  page (1 is reserved). The record \<open>uma_node\<close> is \<^verbatim>\<open>struct bootmem_node_struct\<close>;
  the array its \<^verbatim>\<open>mem_map\<close> points to is the field \<open>mem_map\<close>, which the page
  allocator later shares.
\<close>

section \<open>State and operations\<close>

record ram_segment =
  pa_begin :: uint64
  pa_len :: uint64

record uma_node = cpu +
  uma_begin_ppn :: ulong
  uma_num_ppn :: ulong
  mem_map :: "uint8 list"
  uma_mem_map_size :: ulong
  last_page :: ulong
  last_page_offset :: ulong

text \<open>Setting or clearing the bits \<open>i, i + 1, \<dots>\<close> up to \<open>e\<close>, with the double-use panic.\<close>

function set_bits :: "string \<Rightarrow> ulong \<Rightarrow> ulong \<Rightarrow> uint8 list \<Rightarrow> uint8 list res" where
  "set_bits msg i e mp =
     (if i \<noteq> e then
        bindR (test_and_set_bit mp i) (\<lambda>(old, mp').
        if old \<noteq> 0 then Inl (Panic msg) else set_bits msg (i + 1) e mp')
      else Inr mp)"
  by pat_completeness auto
termination
  by (relation "measure (\<lambda>(msg, i, e, mp). unat (e - i))") auto

function clear_bits :: "string \<Rightarrow> ulong \<Rightarrow> ulong \<Rightarrow> uint8 list \<Rightarrow> uint8 list res" where
  "clear_bits msg i e mp =
     (if i \<noteq> e then
        bindR (test_and_clear_bit mp i) (\<lambda>(old, mp').
        if old = 0 then Inl (Panic msg) else clear_bits msg (i + 1) e mp')
      else Inr mp)"
  by pat_completeness auto
termination
  by (relation "measure (\<lambda>(msg, i, e, mp). unat (e - i))") auto

declare set_bits.simps [simp del] clear_bits.simps [simp del]

text \<open>The bounds of the available memory, over the segments of the RAM descriptor.\<close>

definition bootmem_seg_bounds :: "ulong \<times> ulong \<Rightarrow> ram_segment \<Rightarrow> ulong \<times> ulong" where
  "bootmem_seg_bounds ul seg =
     (let (upper_ppn, lower_ppn) = ul;
          beg_paddr = pa_begin seg;
          end_paddr = beg_paddr + pa_len seg;
          beg_ppn = drop_bit PAGE_SHIFT (PAGE_ROUND_UP beg_paddr);
          end_ppn = drop_bit PAGE_SHIFT (PAGE_ROUND_DOWN end_paddr)
      in (if upper_ppn < end_ppn then end_ppn else upper_ppn,
          if lower_ppn > beg_ppn then beg_ppn else lower_ppn))"

definition bootmem_init_uma_node ::
  "ram_segment list \<Rightarrow> 'a uma_node_scheme \<Rightarrow> 'a uma_node_scheme" where
  "bootmem_init_uma_node segs s =
     (let (upper_ppn, lower_ppn) = foldl bootmem_seg_bounds (0, - 1) segs;
          num = upper_ppn - lower_ppn;
          siz = drop_bit 3 (num + 7)
      in s\<lparr>uma_begin_ppn := lower_ppn, uma_num_ppn := num, uma_mem_map_size := siz,
           mem_map := replicate (unat siz) 0xff\<rparr>)"

definition bootmem_reserve :: "ulong \<Rightarrow> ulong \<Rightarrow> 'a uma_node_scheme \<Rightarrow> 'a uma_node_scheme res" where
  "bootmem_reserve paddr siz s =
     (let beg_ppn = drop_bit PAGE_SHIFT (PAGE_ROUND_DOWN paddr);
          end_ppn = drop_bit PAGE_SHIFT (PAGE_ROUND_UP (paddr + siz))
      in if beg_ppn < uma_begin_ppn s then Inl (Panic ''bootmem_reserve - begin_ppn error'')
      else if end_ppn > uma_begin_ppn s + uma_num_ppn s
           then Inl (Panic ''bootmem_reserve - end_ppn error'')
      else let bidx = beg_ppn - uma_begin_ppn s;
               eidx = end_ppn - uma_begin_ppn s
      in bindR (set_bits ''bootmem_reserve - reserved twice'' bidx eidx (mem_map s)) (\<lambda>mp.
         Inr (s\<lparr>mem_map := mp\<rparr>)))"

definition bootmem_free :: "ulong \<Rightarrow> ulong \<Rightarrow> 'a uma_node_scheme \<Rightarrow> 'a uma_node_scheme res" where
  "bootmem_free paddr siz s =
     (let beg_ppn = drop_bit PAGE_SHIFT (PAGE_ROUND_DOWN paddr);
          end_ppn = drop_bit PAGE_SHIFT (PAGE_ROUND_UP (paddr + siz))
      in if beg_ppn < uma_begin_ppn s then Inl (Panic ''bootmem_free - begin_ppn error'')
      else if end_ppn > uma_begin_ppn s + uma_num_ppn s
           then Inl (Panic ''bootmem_free - end_ppn error'')
      else let bidx = beg_ppn - uma_begin_ppn s;
               eidx = end_ppn - uma_begin_ppn s
      in bindR (clear_bits ''bootmem_free - freed twice'' bidx eidx (mem_map s)) (\<lambda>mp.
         Inr (s\<lparr>mem_map := mp\<rparr>)))"

primrec bootmem_free_available_segments ::
  "ram_segment list \<Rightarrow> 'a uma_node_scheme \<Rightarrow> 'a uma_node_scheme res" where
  "bootmem_free_available_segments [] s = Inr s"
| "bootmem_free_available_segments (seg # segs) s =
     bindR (bootmem_free (pa_begin seg) (pa_len seg) s) (bootmem_free_available_segments segs)"

text \<open>\<^verbatim>\<open>uma_node.mem_map\<close> is placed at the first page of the managed memory.\<close>

definition bootmem_init :: "ram_segment list \<Rightarrow> 'a uma_node_scheme \<Rightarrow> 'a uma_node_scheme res" where
  "bootmem_init segs s =
     (let s = bootmem_init_uma_node segs s;
          mem_map_addr = PMA_PA2VA (push_bit PAGE_SHIFT (uma_begin_ppn s))
      in bindR (bootmem_free_available_segments segs s) (\<lambda>s.
         bootmem_reserve (PMA_VA2PA mem_map_addr) (uma_mem_map_size s) s))"

text \<open>
  The two scanning loops of \<^verbatim>\<open>bootmem_alloc\<close>: \<open>scan_run\<close> is the inner loop over
  \<open>j\<close>, \<open>scan_from\<close> the loop over \<open>i\<close>; the result is the spot, if any.
\<close>

function scan_run :: "ulong \<Rightarrow> ulong \<Rightarrow> ulong \<Rightarrow> uint8 list \<Rightarrow> bool res" where
  "scan_run j e num mp =
     (if j < e then
        if j \<ge> num then Inr False
        else bindR (test_bit mp j) (\<lambda>b. if b \<noteq> 0 then Inr False else scan_run (j + 1) e num mp)
      else Inr True)"
  by pat_completeness auto
termination
  by (relation "measure (\<lambda>(j, e, num, mp). unat (e - j))") auto

function scan_from :: "ulong \<Rightarrow> ulong \<Rightarrow> ulong \<Rightarrow> uint8 list \<Rightarrow> ulong option res" where
  "scan_from i area_size num mp =
     (if i < num then
        bindR (test_bit mp i) (\<lambda>b.
        if b \<noteq> 0 then scan_from (i + 1) area_size num mp
        else bindR (scan_run (i + 1) (i + area_size) num mp) (\<lambda>found.
          if found then Inr (Some i) else scan_from (i + 1) area_size num mp))
      else Inr None)"
  by pat_completeness auto
termination
  by (relation "measure (\<lambda>(i, area_size, num, mp). unat (num - i))") auto

declare scan_run.simps [simp del] scan_from.simps [simp del]

text \<open>The page \<^verbatim>\<open>bootmem_alloc\<close> settles on: from the goal first, then from the start.\<close>

definition bootmem_spot ::
  "ulong \<Rightarrow> ulong \<Rightarrow> ulong \<Rightarrow> 'a uma_node_scheme \<Rightarrow> ulong option res" where
  "bootmem_spot siz alignment goal s =
     (let begin = uma_begin_ppn s; num = uma_num_ppn s;
          ppn_offset = (if alignment \<noteq> 0
            then (alignment - (push_bit PAGE_SHIFT begin AND (alignment - 1))) AND (alignment - 1)
            else 0);
          ppn_offset = drop_bit PAGE_SHIFT ppn_offset;
          preferred = (if goal \<noteq> 0 \<and> drop_bit PAGE_SHIFT goal \<ge> begin \<and>
                          drop_bit PAGE_SHIFT goal < begin + num
                       then goal - push_bit PAGE_SHIFT begin else 0);
          preferred = drop_bit PAGE_SHIFT ((preferred + alignment - 1) AND NOT (alignment - 1));
          preferred = preferred + ppn_offset;
          area_size = drop_bit PAGE_SHIFT (siz + PAGE_SIZE - 1)
      in bindR (scan_from preferred area_size num (mem_map s)) (\<lambda>spot.
         if spot = None then scan_from ppn_offset area_size num (mem_map s) else Inr spot))"

text \<open>
  Appending to the last page or starting on the spot: the physical address, the number of
  pages to take from the spot on, and the new \<^verbatim>\<open>last_page\<close> and \<^verbatim>\<open>last_page_offset\<close>.
\<close>

definition bootmem_place ::
  "ulong \<Rightarrow> ulong \<Rightarrow> ulong \<Rightarrow> 'a uma_node_scheme \<Rightarrow> ulong \<times> ulong \<times> ulong \<times> ulong" where
  "bootmem_place siz alignment spot s =
     (let begin = uma_begin_ppn s;
          area_size = drop_bit PAGE_SHIFT (siz + PAGE_SIZE - 1)
      in if alignment \<le> PAGE_SIZE \<and> last_page_offset s \<noteq> 0 \<and> last_page s + 1 = spot then
           let offset = (last_page_offset s + alignment - 1) AND NOT (alignment - 1);
               rem_size = PAGE_SIZE - offset;
               ret_addr = offset + push_bit PAGE_SHIFT (last_page s + begin)
           in if siz < rem_size
              then (ret_addr, 0, last_page s, (offset + siz) AND (PAGE_SIZE - 1))
              else let back_size = siz - rem_size;
                       area_size = drop_bit PAGE_SHIFT (back_size + PAGE_SIZE - 1)
                   in (ret_addr, area_size, spot + area_size - 1, back_size AND (PAGE_SIZE - 1))
         else (push_bit PAGE_SHIFT (spot + begin), area_size, spot + area_size - 1,
               siz AND (PAGE_SIZE - 1)))"

text \<open>
  \<^verbatim>\<open>bootmem_alloc\<close> returns the address (0 for \<^verbatim>\<open>NULL\<close>) and the new state. The
  zeroing of the returned bytes is the business of the caller's typed view of them.
\<close>

definition bootmem_alloc ::
  "ulong \<Rightarrow> ulong \<Rightarrow> ulong \<Rightarrow> 'a uma_node_scheme \<Rightarrow> (addr \<times> 'a uma_node_scheme) res" where
  "bootmem_alloc siz alignment goal s =
     (if siz = 0 then Inr (0, s)
      else if alignment AND (alignment - 1) \<noteq> 0 then Inr (0, s)
      else bindR (bootmem_spot siz alignment goal s) (\<lambda>found.
        case found of None \<Rightarrow> Inr (0, s)
        | Some spot \<Rightarrow>
          let (ret_addr, area_size, last', off') = bootmem_place siz alignment spot s
          in bindR (set_bits ''bootmem_alloc'' spot (spot + area_size) (mem_map s)) (\<lambda>mp.
             Inr (PMA_PA2VA ret_addr,
                  s\<lparr>mem_map := mp, last_page := last', last_page_offset := off'\<rparr>))))"

section \<open>What the bitmap loops do\<close>

lemma unat_Suc: "unat (i :: ulong) < unat (e :: ulong) \<Longrightarrow> unat (i + 1) = Suc (unat i)"
proof -
  assume "unat i < unat e"
  moreover have "unat e < 2 ^ LENGTH(64)" by (rule unsigned_less)
  ultimately have "unat i + 1 < 2 ^ LENGTH(64)" by linarith
  then show ?thesis by (simp add: unat_word_ariths)
qed

text \<open>On a range inside the bitmap: panic at the first bit already set, else all set.\<close>

lemma set_bits_spec:
  assumes "unat i \<le> unat e" "unat e \<le> 8 * length mp"
  shows "if \<exists>j. unat i \<le> j \<and> j < unat e \<and> bm mp j then set_bits msg i e mp = Inl (Panic msg)
    else \<exists>mp'. set_bits msg i e mp = Inr mp' \<and> length mp' = length mp \<and>
      (\<forall>j. bm mp' j \<longleftrightarrow> bm mp j \<or> unat i \<le> j \<and> j < unat e)"
  using assms
proof (induction "unat e - unat i" arbitrary: i mp)
  case 0
  then have "i = e" by (simp add: word_unat_eq_iff)
  then show ?case by (auto simp: set_bits.simps [of _ e e])
next
  case (Suc n)
  then have lt: "unat i < unat e" and ne: "i \<noteq> e" by auto
  have i1: "unat (i + 1) = Suc (unat i)" using lt by (rule unat_Suc)
  have bnd: "unat i < 8 * length mp" using lt Suc.prems by simp
  let ?mp = "bm_put mp (unat i) True"
  have bm: "bm ?mp = (bm mp)(unat i := True)" using bnd by (rule bm_bm_put)
  have step: "set_bits msg i e mp =
      (if bm mp (unat i) then Inl (Panic msg) else set_bits msg (i + 1) e ?mp)"
    using ne bnd by (simp add: set_bits.simps [of _ i e] bm_simps)
  have n: "n = unat e - Suc (unat i)" "Suc (unat i) \<le> unat e" "unat e \<le> 8 * length ?mp"
    using Suc.hyps(2) Suc.prems lt by simp_all
  have IH: "if \<exists>j. Suc (unat i) \<le> j \<and> j < unat e \<and> bm ?mp j
      then set_bits msg (i + 1) e ?mp = Inl (Panic msg)
    else \<exists>mp'. set_bits msg (i + 1) e ?mp = Inr mp' \<and> length mp' = length ?mp \<and>
      (\<forall>j. bm mp' j \<longleftrightarrow> bm ?mp j \<or> Suc (unat i) \<le> j \<and> j < unat e)"
    by (rule Suc.hyps(1) [of "i + 1" ?mp, unfolded i1, OF n])
  have ex: "(\<exists>j. Suc (unat i) \<le> j \<and> j < unat e \<and> bm ?mp j) \<longleftrightarrow>
      (\<exists>j. Suc (unat i) \<le> j \<and> j < unat e \<and> bm mp j)"
    by (intro arg_cong [of _ _ Ex] ext) (auto simp: bm)
  have split: "(\<exists>j. unat i \<le> j \<and> j < unat e \<and> bm mp j) \<longleftrightarrow>
      bm mp (unat i) \<or> (\<exists>j. Suc (unat i) \<le> j \<and> j < unat e \<and> bm mp j)"
    using lt by (metis Suc_leD Suc_leI le_neq_implies_less order_refl)
  show ?case
  proof (cases "bm mp (unat i)")
    case True
    then show ?thesis using step lt by auto
  next
    case False
    have rng: "(bm ?mp j \<or> Suc (unat i) \<le> j \<and> j < unat e) \<longleftrightarrow>
        (bm mp j \<or> unat i \<le> j \<and> j < unat e)" for j
      using lt by (auto simp: bm)
    show ?thesis using IH unfolding ex split rng step
      by (simp only: False simp_thms if_False length_bm_put)
  qed
qed

lemma clear_bits_spec:
  assumes "unat i \<le> unat e" "unat e \<le> 8 * length mp"
  shows "if \<exists>j. unat i \<le> j \<and> j < unat e \<and> \<not> bm mp j then clear_bits msg i e mp = Inl (Panic msg)
    else \<exists>mp'. clear_bits msg i e mp = Inr mp' \<and> length mp' = length mp \<and>
      (\<forall>j. bm mp' j \<longleftrightarrow> bm mp j \<and> \<not> (unat i \<le> j \<and> j < unat e))"
  using assms
proof (induction "unat e - unat i" arbitrary: i mp)
  case 0
  then have "i = e" by (simp add: word_unat_eq_iff)
  then show ?case by (auto simp: clear_bits.simps [of _ e e])
next
  case (Suc n)
  then have lt: "unat i < unat e" and ne: "i \<noteq> e" by auto
  have i1: "unat (i + 1) = Suc (unat i)" using lt by (rule unat_Suc)
  have bnd: "unat i < 8 * length mp" using lt Suc.prems by simp
  let ?mp = "bm_put mp (unat i) False"
  have bm: "bm ?mp = (bm mp)(unat i := False)" using bnd by (rule bm_bm_put)
  have step: "clear_bits msg i e mp =
      (if \<not> bm mp (unat i) then Inl (Panic msg) else clear_bits msg (i + 1) e ?mp)"
    using ne bnd by (simp add: clear_bits.simps [of _ i e] bm_simps)
  have n: "n = unat e - Suc (unat i)" "Suc (unat i) \<le> unat e" "unat e \<le> 8 * length ?mp"
    using Suc.hyps(2) Suc.prems lt by simp_all
  have IH: "if \<exists>j. Suc (unat i) \<le> j \<and> j < unat e \<and> \<not> bm ?mp j
      then clear_bits msg (i + 1) e ?mp = Inl (Panic msg)
    else \<exists>mp'. clear_bits msg (i + 1) e ?mp = Inr mp' \<and> length mp' = length ?mp \<and>
      (\<forall>j. bm mp' j \<longleftrightarrow> bm ?mp j \<and> \<not> (Suc (unat i) \<le> j \<and> j < unat e))"
    by (rule Suc.hyps(1) [of "i + 1" ?mp, unfolded i1, OF n])
  have ex: "(\<exists>j. Suc (unat i) \<le> j \<and> j < unat e \<and> \<not> bm ?mp j) \<longleftrightarrow>
      (\<exists>j. Suc (unat i) \<le> j \<and> j < unat e \<and> \<not> bm mp j)"
    by (intro arg_cong [of _ _ Ex] ext) (auto simp: bm)
  have split: "(\<exists>j. unat i \<le> j \<and> j < unat e \<and> \<not> bm mp j) \<longleftrightarrow>
      \<not> bm mp (unat i) \<or> (\<exists>j. Suc (unat i) \<le> j \<and> j < unat e \<and> \<not> bm mp j)"
    using lt by (metis Suc_leD Suc_leI le_neq_implies_less order_refl)
  show ?case
  proof (cases "bm mp (unat i)")
    case False
    then show ?thesis using step lt by auto
  next
    case True
    have rng: "(bm ?mp j \<and> \<not> (Suc (unat i) \<le> j \<and> j < unat e)) \<longleftrightarrow>
        (bm mp j \<and> \<not> (unat i \<le> j \<and> j < unat e))" for j
      using lt by (auto simp: bm)
    show ?thesis using IH unfolding ex split rng step
      by (simp only: True simp_thms if_False length_bm_put)
  qed
qed

end
