(* ===== verification/Buddy_Spec.thy ===== *)
theory Buddy_Spec
  imports Prelude
begin

text \<open>
  The abstract buddy system the page allocator of \<^verbatim>\<open>kernel/memory/buddy.c\<close>
  implements. Page numbers count from 0; block \<open>k\<close> of order \<open>d\<close> is the run of
  \<open>2 ^ d\<close> pages that starts at \<open>k * 2 ^ d\<close>. A state is the set of free blocks of every
  order below \<open>MAX_MEM_ORDER\<close>.
\<close>

definition MAX_MEM_ORDER :: nat where
  "MAX_MEM_ORDER = 11"

type_synonym blocks = "nat \<Rightarrow> nat set"

definition pages :: "nat \<Rightarrow> nat \<Rightarrow> nat set" where
  "pages d k = {p. p div 2 ^ d = k}"

definition free_pages :: "blocks \<Rightarrow> nat set" where
  "free_pages F = {p. \<exists>d<MAX_MEM_ORDER. p div 2 ^ d \<in> F d}"

definition buddy :: "nat \<Rightarrow> nat" where
  "buddy k = (if even k then k + 1 else k - 1)"

text \<open>
  The invariant: blocks lie inside the managed pages, no page lies in two free blocks,
  and below the largest order no block is free together with its buddy.
\<close>

definition buddy_inv :: "nat \<Rightarrow> blocks \<Rightarrow> bool" where
  "buddy_inv n F \<longleftrightarrow>
     (\<forall>d<MAX_MEM_ORDER. \<forall>k\<in>F d. (k + 1) * 2 ^ d \<le> n) \<and>
     (\<forall>p d e. d < MAX_MEM_ORDER \<longrightarrow> e < MAX_MEM_ORDER \<longrightarrow>
        p div 2 ^ d \<in> F d \<longrightarrow> p div 2 ^ e \<in> F e \<longrightarrow> d = e) \<and>
     (\<forall>d. Suc d < MAX_MEM_ORDER \<longrightarrow> (\<forall>k\<in>F d. buddy k \<notin> F d))"

lemma buddy_invD:
  assumes "buddy_inv n F"
  shows "\<And>d k. d < MAX_MEM_ORDER \<Longrightarrow> k \<in> F d \<Longrightarrow> (k + 1) * 2 ^ d \<le> n"
    and "\<And>p d e. \<lbrakk>d < MAX_MEM_ORDER; e < MAX_MEM_ORDER; p div 2 ^ d \<in> F d; p div 2 ^ e \<in> F e\<rbrakk>
      \<Longrightarrow> d = e"
    and "\<And>d k. Suc d < MAX_MEM_ORDER \<Longrightarrow> k \<in> F d \<Longrightarrow> buddy k \<notin> F d"
  using assms unfolding buddy_inv_def by blast+

lemma buddy_div2 [simp]: "buddy k div 2 = k div 2"
  by (auto simp: buddy_def elim!: oddE)

lemma buddy_buddy [simp]: "buddy (buddy k) = k"
  by (auto simp: buddy_def elim!: oddE)

lemma buddy_neq [simp]: "buddy k \<noteq> k" "k \<noteq> buddy k"
  by (auto simp: buddy_def elim!: oddE)

lemma same_pair: "j div 2 = k div 2 \<longleftrightarrow> j = k \<or> j = buddy k"
  by (auto simp: buddy_def elim!: oddE evenE)

lemma div_order: "p div 2 ^ Suc d = p div 2 ^ d div (2 :: nat)"
  by (metis div_mult2_eq power_Suc2)

lemma block_pair: "k * 2 ^ d div 2 ^ (d + 1) = k div (2 :: nat)"
  using div_mult2_eq [of "k * 2 ^ d" "2 ^ d" 2] by (simp add: mult.commute)

lemma pages_Suc: "pages (Suc d) (k div 2) = pages d k \<union> pages d (buddy k)"
  unfolding pages_def div_order same_pair by auto

lemma pages_disjoint: "j \<noteq> k \<Longrightarrow> pages d j \<inter> pages d k = {}"
  by (auto simp: pages_def)

lemma pages_first [simp]: "k * 2 ^ d \<in> pages d k"
  by (simp add: pages_def)

lemma block_bound: "p \<in> pages d k \<Longrightarrow> (k + 1) * 2 ^ d \<le> n \<Longrightarrow> p < n"
proof -
  assume "p \<in> pages d k" "(k + 1) * 2 ^ d \<le> n"
  moreover have "p < (p div 2 ^ d + 1) * 2 ^ d"
    using dividend_less_div_times [of "2 ^ d" p] by simp
  ultimately show ?thesis by (simp add: pages_def)
qed

lemma free_pages_bound: "buddy_inv n F \<Longrightarrow> p \<in> free_pages F \<Longrightarrow> p < n"
  by (auto simp: free_pages_def dest!: buddy_invD(1) intro: block_bound [of p _ "p div 2 ^ _"]
      simp: pages_def)

lemma disjoint_notin:
  assumes "pages d k \<inter> free_pages F = {}" "d < MAX_MEM_ORDER"
  shows "k \<notin> F d"
proof
  assume "k \<in> F d"
  then have "k * 2 ^ d \<in> free_pages F" using assms(2) by (auto simp: free_pages_def)
  with assms(1) pages_first show False by blast
qed

section \<open>Removing, inserting and merging blocks\<close>

lemma remove_block:
  assumes inv: "buddy_inv n F" and d: "d < MAX_MEM_ORDER" and k: "k \<in> F d"
  shows "buddy_inv n (F(d := F d - {k}))"
    and "free_pages (F(d := F d - {k})) = free_pages F - pages d k"
proof -
  show "buddy_inv n (F(d := F d - {k}))"
    using inv unfolding buddy_inv_def by (auto split: if_splits)
  have "p div 2 ^ e = k" if "e < MAX_MEM_ORDER" "p div 2 ^ e \<in> F e" "p div 2 ^ d = k" "e = d" for p e
    using that by simp
  moreover have "e = d" if "e < MAX_MEM_ORDER" "p div 2 ^ e \<in> F e" "p div 2 ^ d = k" for p e
    using buddy_invD(2) [OF inv that(1) d that(2)] that k by simp
  ultimately show "free_pages (F(d := F d - {k})) = free_pages F - pages d k"
    using d by (auto simp: free_pages_def pages_def split: if_splits) metis+
qed

lemma insert_block:
  assumes inv: "buddy_inv n F" and d: "d < MAX_MEM_ORDER" and bound: "(k + 1) * 2 ^ d \<le> n"
    and disj: "pages d k \<inter> free_pages F = {}"
    and co: "Suc d < MAX_MEM_ORDER \<Longrightarrow> buddy k \<notin> F d"
  shows "buddy_inv n (F(d := insert k (F d)))"
    and "free_pages (F(d := insert k (F d))) = free_pages F \<union> pages d k"
proof -
  have uniq: "p div 2 ^ e \<notin> F e" if "p div 2 ^ d = k" "e < MAX_MEM_ORDER" for p e
    using that disj by (auto simp: pages_def free_pages_def)
  have nb: "buddy j \<noteq> k" if "j \<in> F d" "Suc d < MAX_MEM_ORDER" for j
    using co that by force
  show "buddy_inv n (F(d := insert k (F d)))"
    unfolding buddy_inv_def using buddy_invD [OF inv] bound uniq nb co
    by (auto split: if_splits)
  show "free_pages (F(d := insert k (F d))) = free_pages F \<union> pages d k"
    using d by (auto simp: free_pages_def pages_def split: if_splits)
qed

text \<open>Freeing: while the buddy is free, take it out and go on with the merged block.\<close>

lemma merge_step:
  assumes inv: "buddy_inv n F" and d: "Suc d < MAX_MEM_ORDER"
    and disj: "pages d k \<inter> free_pages F = {}" and b: "buddy k \<in> F d"
    and bound: "(k + 1) * 2 ^ d \<le> n"
  defines "F' \<equiv> F(d := F d - {buddy k})"
  shows "buddy_inv n F'" "pages (Suc d) (k div 2) \<inter> free_pages F' = {}"
    "free_pages F' \<union> pages (Suc d) (k div 2) = free_pages F \<union> pages d k"
    "(k div 2 + 1) * 2 ^ Suc d \<le> n"
proof -
  have d': "d < MAX_MEM_ORDER" using d by simp
  note rem = remove_block [OF inv d' b]
  show "buddy_inv n F'" unfolding F'_def by (rule rem)
  have fre: "free_pages F' = free_pages F - pages d (buddy k)" unfolding F'_def by (rule rem)
  have sub: "pages d (buddy k) \<subseteq> free_pages F"
    using b d' by (auto simp: pages_def free_pages_def)
  show "pages (Suc d) (k div 2) \<inter> free_pages F' = {}"
    using disj fre by (auto simp: pages_Suc)
  show "free_pages F' \<union> pages (Suc d) (k div 2) = free_pages F \<union> pages d k"
    using fre sub by (auto simp: pages_Suc)
  have "(buddy k + 1) * 2 ^ d \<le> n" using buddy_invD(1) [OF inv d' b] .
  with bound have "(max k (buddy k) + 1) * 2 ^ d \<le> n" by (simp add: max_def)
  moreover have "max k (buddy k) + 1 = 2 * (k div 2 + 1)"
    by (auto simp: buddy_def max_def elim!: oddE evenE)
  ultimately show "(k div 2 + 1) * 2 ^ Suc d \<le> n" by (simp add: mult.assoc mult.left_commute)
qed

text \<open>Allocating: the right half of a split block becomes free at the next lower order.\<close>

lemma split_step:
  assumes inv: "buddy_inv n G" and d: "d < MAX_MEM_ORDER"
    and bound: "(k + 1) * 2 ^ Suc d \<le> n" and disj: "pages (Suc d) k \<inter> free_pages G = {}"
  defines "G' \<equiv> G(d := insert (2 * k + 1) (G d))"
  shows "buddy_inv n G'" "free_pages G' = free_pages G \<union> pages d (2 * k + 1)"
    "pages d (2 * k) \<inter> free_pages G' = {}" "(2 * k + 1) * 2 ^ d \<le> n"
    "2 * k \<notin> G d" "2 * k + 1 \<notin> G d"
proof -
  have b: "buddy (2 * k + 1) = 2 * k" by (simp add: buddy_def)
  have split: "pages (Suc d) k = pages d (2 * k + 1) \<union> pages d (2 * k)"
    using pages_Suc [of d "2 * k + 1"] b by simp
  have out: "j \<notin> G d" if "pages d j \<subseteq> pages (Suc d) k" for j
    by (rule disjoint_notin [OF _ d]) (use that disj in blast)
  show out2: "2 * k \<notin> G d" "2 * k + 1 \<notin> G d" by (rule out; simp add: split)+
  have bnd: "(2 * k + 1 + 1) * 2 ^ d \<le> n" using bound by (simp add: algebra_simps)
  then show "(2 * k + 1) * 2 ^ d \<le> n" by (simp add: algebra_simps)
  have dis: "pages d (2 * k + 1) \<inter> free_pages G = {}" using disj split by auto
  note ins = insert_block [OF inv d bnd dis]
  show "buddy_inv n G'" unfolding G'_def using out2 b by (intro ins) simp
  show fre: "free_pages G' = free_pages G \<union> pages d (2 * k + 1)"
    unfolding G'_def using out2 b by (intro ins) simp
  show "pages d (2 * k) \<inter> free_pages G' = {}"
    unfolding fre using disj split pages_disjoint [of "2 * k" "2 * k + 1" d] by auto
qed

section \<open>Complete coalescing\<close>

text \<open>
  Because buddies never stay free apart, an aligned run of free pages always lies inside
  one free block of at least its order.
\<close>

lemma coalesced:
  assumes inv: "buddy_inv n F" and "d < MAX_MEM_ORDER" "pages d k \<subseteq> free_pages F"
  shows "\<exists>c. d \<le> c \<and> c < MAX_MEM_ORDER \<and> k div 2 ^ (c - d) \<in> F c"
  using assms(2,3)
proof (induction d arbitrary: k)
  case 0
  then have "k \<in> free_pages F" by (auto simp: pages_def)
  then show ?case by (auto simp: free_pages_def)
next
  case (Suc d)
  have sub: "pages d (2 * k) \<subseteq> free_pages F" "pages d (2 * k + 1) \<subseteq> free_pages F"
    using Suc.prems(2) pages_Suc [of d "2 * k"] by (auto simp: buddy_def)
  have up: ?case if "d \<le> c" "c < MAX_MEM_ORDER" "j div 2 ^ (c - d) \<in> F c" "c \<noteq> d" "j div 2 = k" for c j
  proof -
    have "c - d = Suc (c - Suc d)" using that(1,4) by simp
    then have "j div 2 ^ (c - d) = k div 2 ^ (c - Suc d)"
      using that(5) by (simp add: div_mult2_eq)
    with that show ?case by (metis Suc_leI le_neq_implies_less)
  qed
  obtain c1 where c1: "d \<le> c1" "c1 < MAX_MEM_ORDER" "2 * k div 2 ^ (c1 - d) \<in> F c1"
    using Suc.IH [OF _ sub(1)] Suc.prems(1) by auto
  obtain c2 where c2: "d \<le> c2" "c2 < MAX_MEM_ORDER" "(2 * k + 1) div 2 ^ (c2 - d) \<in> F c2"
    using Suc.IH [OF _ sub(2)] Suc.prems(1) by auto
  show ?case
  proof (cases "c1 = d \<and> c2 = d")
    case True
    with c1 c2 have "2 * k \<in> F d" "buddy (2 * k) \<in> F d" by (simp_all add: buddy_def)
    with buddy_invD(3) [OF inv Suc.prems(1)] show ?thesis by blast
  next
    case False
    then show ?thesis using up [OF c1] up [OF c2] by auto
  qed
qed

end
