(* ===== verification/Intrusive_List.thy ===== *)
theory Intrusive_List
  imports Prelude
begin

text \<open>
  \<^verbatim>\<open>kernel/utilities/algorithm/list.c\<close>: doubly linked lists whose nodes live inside
  other objects. The same two routines appear three times in the kernel (\<^verbatim>\<open>list.c\<close>,
  the object headers of \<^verbatim>\<open>memory/object.c\<close> and the process list of
  \<^verbatim>\<open>proc/proc.c\<close>); the locale \<open>intrusive_list\<close> states their common contract
  once and derives from it how insertion and detachment act on the lists a head carries.
  Memory is a total function from addresses to nodes; address 0 is \<^verbatim>\<open>NULL\<close>.
\<close>

section \<open>The list a head carries\<close>

text \<open>
  \<open>dll P N h xs\<close>: following the next pointers \<open>N\<close> from \<open>h\<close> visits \<open>xs\<close> and
  ends at null, and every previous pointer in \<open>P\<close> leads back.
\<close>

primrec dll :: "(addr \<Rightarrow> addr) \<Rightarrow> (addr \<Rightarrow> addr) \<Rightarrow> addr \<Rightarrow> addr list \<Rightarrow> bool" where
  "dll P N h [] \<longleftrightarrow> N h = 0"
| "dll P N h (x # xs) \<longleftrightarrow> N h = x \<and> x \<noteq> 0 \<and> P x = h \<and> dll P N x xs"

lemma dll_cong:
  assumes "\<And>a. a \<in> set (h # xs) \<Longrightarrow> N' a = N a" "\<And>a. a \<in> set xs \<Longrightarrow> P' a = P a"
  shows "dll P' N' h xs = dll P N h xs"
  using assms by (induction xs arbitrary: h) auto

lemma dll_append:
  "dll P N h (xs @ y # ys) \<longleftrightarrow>
     dll P (N(last (h # xs) := 0)) h xs \<and> N (last (h # xs)) = y \<and> y \<noteq> 0 \<and>
     P y = last (h # xs) \<and> dll P N y ys"
  if "distinct (h # xs)"
  using that
proof (induction xs arbitrary: h)
  case (Cons x xs)
  then have "last (x # xs) \<noteq> h" by (metis distinct.simps(2) last_in_set list.distinct(1))
  with Cons.IH [of x] Cons.prems show ?case by auto
qed auto

lemma dll_nonzero: "dll P N h xs \<Longrightarrow> 0 \<notin> set xs"
  by (induction xs arbitrary: h) auto

text \<open>A well-formed list: a non-null head, no node twice, all links consistent.\<close>

definition dlist :: "(addr \<Rightarrow> addr) \<Rightarrow> (addr \<Rightarrow> addr) \<Rightarrow> addr \<Rightarrow> addr list \<Rightarrow> bool" where
  "dlist P N h xs \<longleftrightarrow> h \<noteq> 0 \<and> distinct (h # xs) \<and> dll P N h xs"

lemma dlist_first:
  "dlist P N h xs \<Longrightarrow> N h = (case xs of [] \<Rightarrow> 0 | x # _ \<Rightarrow> x)"
  by (cases xs) (auto simp: dlist_def)

lemma dlist_nonzero: "dlist P N h xs \<Longrightarrow> 0 \<notin> set (h # xs)"
  by (auto simp: dlist_def dest: dll_nonzero)

lemma dlist_frame:
  assumes "dlist P N h xs"
    and "\<And>a. a \<in> set (h # xs) \<Longrightarrow> N' a = N a" "\<And>a. a \<in> set xs \<Longrightarrow> P' a = P a"
  shows "dlist P' N' h xs"
  using assms dll_cong [of h xs N' N P' P] by (auto simp: dlist_def)

text \<open>The pointer updates of an insertion behind the head and of a detachment.\<close>

lemma dlist_insert:
  assumes "dlist P N h xs" "x \<noteq> 0" "x \<notin> set (h # xs)"
    and N': "N' = N(x := N h, h := x)"
    and P': "P' = (if N h \<noteq> 0 then P(x := h, N h := x) else P(x := h))"
  shows "dlist P' N' h (x # xs)"
proof (cases xs)
  case Nil
  with assms show ?thesis by (auto simp: dlist_def)
next
  case (Cons y ys)
  with assms(1) have *: "N h = y" "y \<noteq> 0" "dll P N y ys" "distinct (h # y # ys)"
    by (auto simp: dlist_def)
  have "dll P' N' y ys"
    using * assms(3) Cons N' P' by (subst dll_cong [of y ys N' N P' P]) auto
  with * assms Cons show ?thesis by (auto simp: dlist_def)
qed

lemma dlist_detach:
  assumes dl: "dlist P N h (as @ x # bs)"
    and N': "N' = N(P x := N x, x := 0)"
    and P': "P' = (if N x \<noteq> 0 then P(N x := P x, x := 0) else P(x := 0))"
  shows "dlist P' N' h (as @ bs)"
proof -
  let ?p = "last (h # as)"
  from dl have dist: "distinct (h # as @ x # bs)" and "h \<noteq> 0" by (auto simp: dlist_def)
  then have "distinct (h # as)" by auto
  with dl have *: "dll P (N(?p := 0)) h as" "N ?p = x" "x \<noteq> 0" "P x = ?p" "dll P N x bs"
    by (auto simp: dlist_def dll_append simp del: last.simps)
  have p: "?p \<in> set (h # as)" by (rule last_in_set) simp
  with dist have px: "?p \<noteq> x" by auto
  have keep: "N' a = N a" if "a \<noteq> ?p" "a \<noteq> x" for a
    using that * N' by simp
  show ?thesis
  proof (cases bs)
    case Nil
    with *(5) have nx: "N x = 0" by simp
    have "dll P' N' h as = dll P (N(?p := 0)) h as"
      using dist px p N' P' nx *(4) by (intro dll_cong) auto
    with * Nil dist \<open>h \<noteq> 0\<close> show ?thesis by (auto simp: dlist_def)
  next
    case (Cons b cs)
    with * have nx: "N x = b" "b \<noteq> 0" "dll P N b cs" by auto
    have pb: "?p \<noteq> b" "?p \<notin> set cs" "b \<noteq> x" "b \<notin> set cs" using p dist Cons by auto
    have "dll P' (N'(?p := 0)) h as = dll P (N(?p := 0)) h as"
      using dist px p N' P' nx *(4) Cons by (intro dll_cong) auto
    moreover have "dll P' N' b cs = dll P N b cs"
      using dist px pb N' P' nx *(4) Cons by (intro dll_cong) auto
    moreover have "N' ?p = b" "P' b = ?p" using N' P' nx *(4) px pb by auto
    ultimately have "dll P' N' h (as @ b # cs)"
      using * nx \<open>distinct (h # as)\<close> by (simp add: dll_append del: last.simps)
    with Cons dist \<open>h \<noteq> 0\<close> show ?thesis by (auto simp: dlist_def)
  qed
qed

section \<open>The contract of insertion and detachment\<close>

text \<open>
  Several lists in one memory: a family of heads and their contents, no address in two
  lists and no head among the nodes.
\<close>

definition dlists ::
  "(addr \<Rightarrow> addr) \<Rightarrow> (addr \<Rightarrow> addr) \<Rightarrow> 'i set \<Rightarrow> ('i \<Rightarrow> addr) \<Rightarrow> ('i \<Rightarrow> addr list) \<Rightarrow> bool" where
  "dlists P N I hp ls \<longleftrightarrow> (\<forall>i\<in>I. dlist P N (hp i) (ls i)) \<and>
     (\<forall>i\<in>I. \<forall>j\<in>I. i \<noteq> j \<longrightarrow> set (hp i # ls i) \<inter> set (hp j # ls j) = {})"

locale intrusive_list =
  fixes prv_of :: "'h \<Rightarrow> addr \<Rightarrow> addr"
    and nxt_of :: "'h \<Rightarrow> addr \<Rightarrow> addr"
    and ins :: "addr \<Rightarrow> addr \<Rightarrow> 'h \<Rightarrow> 'h res"
    and det :: "addr \<Rightarrow> 'h \<Rightarrow> 'h res"
  assumes ins_null: "head = 0 \<or> node = 0 \<Longrightarrow> \<exists>m. ins head node s = Inl (Panic m)"
    and det_null: "\<exists>m. det 0 s = Inl (Panic m)"
    and ins_law: "\<lbrakk>head \<noteq> 0; node \<noteq> 0; head \<noteq> node; nxt_of s head \<noteq> node\<rbrakk> \<Longrightarrow>
      \<exists>s'. ins head node s = Inr s' \<and>
        nxt_of s' = (nxt_of s)(node := nxt_of s head, head := node) \<and>
        prv_of s' = (if nxt_of s head \<noteq> 0
                     then (prv_of s)(node := head, nxt_of s head := node)
                     else (prv_of s)(node := head))"
    and det_law: "\<lbrakk>node \<noteq> 0; prv_of s node \<noteq> 0; prv_of s node \<noteq> node; nxt_of s node \<noteq> node\<rbrakk> \<Longrightarrow>
      \<exists>s'. det node s = Inr s' \<and>
        nxt_of s' = (nxt_of s)(prv_of s node := nxt_of s node, node := 0) \<and>
        prv_of s' = (if nxt_of s node \<noteq> 0
                     then (prv_of s)(nxt_of s node := prv_of s node, node := 0)
                     else (prv_of s)(node := 0))"
begin

abbreviation carries :: "'h \<Rightarrow> addr \<Rightarrow> addr list \<Rightarrow> bool" where
  "carries s \<equiv> dlist (prv_of s) (nxt_of s)"

abbreviation family :: "'h \<Rightarrow> 'i set \<Rightarrow> ('i \<Rightarrow> addr) \<Rightarrow> ('i \<Rightarrow> addr list) \<Rightarrow> bool" where
  "family s \<equiv> dlists (prv_of s) (nxt_of s)"

text \<open>Insertion puts the node in front; lists that share no address are untouched.\<close>

lemma ins_carries:
  assumes "carries s h xs" "x \<noteq> 0" "x \<notin> set (h # xs)"
  obtains s' where "ins h x s = Inr s'" "carries s' h (x # xs)"
    "\<And>h' ys. carries s h' ys \<Longrightarrow> set (h' # ys) \<inter> set (x # h # xs) = {} \<Longrightarrow> carries s' h' ys"
proof -
  have first: "nxt_of s h = (case xs of [] \<Rightarrow> 0 | y # _ \<Rightarrow> y)"
    using assms(1) by (rule dlist_first)
  then have "nxt_of s h \<noteq> x" "nxt_of s h = 0 \<or> nxt_of s h \<in> set xs"
    using assms by (cases xs; auto)+
  moreover have "h \<noteq> 0" using assms(1) by (simp add: dlist_def)
  ultimately obtain s' where s': "ins h x s = Inr s'"
    "nxt_of s' = (nxt_of s)(x := nxt_of s h, h := x)"
    "prv_of s' = (if nxt_of s h \<noteq> 0 then (prv_of s)(x := h, nxt_of s h := x)
                  else (prv_of s)(x := h))"
    using assms ins_law [of h x s] by auto
  show thesis
  proof (rule that [OF s'(1)])
    show "carries s' h (x # xs)"
      using assms s'(2,3) by (rule dlist_insert)
  next
    fix h' ys assume "carries s h' ys" "set (h' # ys) \<inter> set (x # h # xs) = {}"
    with \<open>nxt_of s h = 0 \<or> nxt_of s h \<in> set xs\<close> show "carries s' h' ys"
      by (elim dlist_frame) (auto simp: s' dest: dlist_nonzero)
  qed
qed

text \<open>Detachment removes the node from the list that carries it and from no other.\<close>

lemma det_carries:
  assumes "carries s h xs" "x \<in> set xs"
  obtains s' where "det x s = Inr s'" "carries s' h (remove1 x xs)"
    "\<And>h' ys. carries s h' ys \<Longrightarrow> set (h' # ys) \<inter> set (h # xs) = {} \<Longrightarrow> carries s' h' ys"
proof -
  from assms(2) obtain as bs where xs: "xs = as @ x # bs" "x \<notin> set as"
    by (meson split_list_first)
  from assms(1) have dist: "distinct (h # as @ x # bs)" by (simp add: dlist_def xs)
  have p: "prv_of s x = last (h # as)" "dll (prv_of s) (nxt_of s) x bs" "x \<noteq> 0"
    using assms(1) dist by (auto simp: dlist_def xs dll_append simp del: last.simps)
  have pin: "prv_of s x \<in> set (h # as)" unfolding p(1) by (rule last_in_set) simp
  have nin: "nxt_of s x = 0 \<or> nxt_of s x \<in> set bs" using p(2) by (cases bs) auto
  have "0 \<notin> set (h # xs)" using assms(1) by (rule dlist_nonzero)
  with pin nin dist xs p(3) obtain s' where s': "det x s = Inr s'"
    "nxt_of s' = (nxt_of s)(prv_of s x := nxt_of s x, x := 0)"
    "prv_of s' = (if nxt_of s x \<noteq> 0 then (prv_of s)(nxt_of s x := prv_of s x, x := 0)
                  else (prv_of s)(x := 0))"
    using det_law [of x s] by fastforce
  show thesis
  proof (rule that [OF s'(1)])
    have "carries s' h (as @ bs)"
      using assms(1) s'(2,3) unfolding xs by (rule dlist_detach)
    moreover have "remove1 x xs = as @ bs" using xs by (simp add: remove1_append)
    ultimately show "carries s' h (remove1 x xs)" by simp
  next
    fix h' ys assume *: "carries s h' ys" "set (h' # ys) \<inter> set (h # xs) = {}"
    have "nxt_of s' a = nxt_of s a" if "a \<in> set (h' # ys)" for a
      using that * pin xs s'(2) by auto
    moreover have "prv_of s' a = prv_of s a" if "a \<in> set ys" for a
      using that * nin xs s'(3) by (auto dest: dlist_nonzero)
    ultimately show "carries s' h' ys" by (rule dlist_frame [OF *(1)])
  qed
qed

lemma family_ins:
  assumes "family s I hp ls" "i \<in> I" "x \<noteq> 0" "\<And>j. j \<in> I \<Longrightarrow> x \<notin> set (hp j # ls j)"
  obtains s' where "ins (hp i) x s = Inr s'" "family s' I hp (ls(i := x # ls i))"
proof -
  from assms(1,2) have "carries s (hp i) (ls i)" by (simp add: dlists_def)
  from ins_carries [OF this assms(3) assms(4) [OF assms(2)]]
  obtain s' where s': "ins (hp i) x s = Inr s'" "carries s' (hp i) (x # ls i)"
    "\<And>h' ys. carries s h' ys \<Longrightarrow> set (h' # ys) \<inter> set (x # hp i # ls i) = {} \<Longrightarrow> carries s' h' ys"
    by metis
  have "carries s' (hp j) ((ls(i := x # ls i)) j)" if "j \<in> I" for j
  proof (cases "j = i")
    case False
    then have "set (hp j # ls j) \<inter> set (x # hp i # ls i) = {}"
      using assms(1,2,4) that unfolding dlists_def by (metis (no_types, lifting) Int_insert_right list.simps(15))
    with False s'(3) assms(1) that show ?thesis by (simp add: dlists_def)
  qed (use s' in simp)
  moreover have "set (hp j # (ls(i := x # ls i)) j) \<inter> set (hp k # (ls(i := x # ls i)) k) = {}"
    if "j \<in> I" "k \<in> I" "j \<noteq> k" for j k
    using assms(1) assms(4) [OF that(1)] assms(4) [OF that(2)] that
    unfolding dlists_def by (auto split: if_splits)
  ultimately have "family s' I hp (ls(i := x # ls i))" by (simp add: dlists_def)
  with s'(1) that show thesis by blast
qed

lemma family_det:
  assumes "family s I hp ls" "i \<in> I" "x \<in> set (ls i)"
  obtains s' where "det x s = Inr s'" "family s' I hp (ls(i := remove1 x (ls i)))"
proof -
  from assms(1,2) have "carries s (hp i) (ls i)" by (simp add: dlists_def)
  from det_carries [OF this assms(3)]
  obtain s' where s': "det x s = Inr s'" "carries s' (hp i) (remove1 x (ls i))"
    "\<And>h' ys. carries s h' ys \<Longrightarrow> set (h' # ys) \<inter> set (hp i # ls i) = {} \<Longrightarrow> carries s' h' ys"
    by metis
  have sub: "set (remove1 x (ls i)) \<subseteq> set (ls i)" by (rule set_remove1_subset)
  have "carries s' (hp j) ((ls(i := remove1 x (ls i))) j)" if "j \<in> I" for j
    using s' assms(1,2) that by (cases "j = i") (auto simp: dlists_def)
  moreover have "set (hp j # (ls(i := remove1 x (ls i))) j) \<inter>
      set (hp k # (ls(i := remove1 x (ls i))) k) = {}"
    if "j \<in> I" "k \<in> I" "j \<noteq> k" for j k
    using assms(1) that sub unfolding dlists_def by (auto split: if_splits) blast+
  ultimately have "family s' I hp (ls(i := remove1 x (ls i)))" by (simp add: dlists_def)
  with s'(1) that show thesis by blast
qed

lemma family_first:
  "family s I hp ls \<Longrightarrow> i \<in> I \<Longrightarrow> nxt_of s (hp i) = (case ls i of [] \<Rightarrow> 0 | x # _ \<Rightarrow> x)"
  unfolding dlists_def by (blast intro: dlist_first)

end

section \<open>The routines of list.c\<close>

record list_node =
  prv :: addr
  nxt :: addr
  val :: addr

type_synonym list_heap = "addr \<Rightarrow> list_node"

definition list_insert :: "addr \<Rightarrow> addr \<Rightarrow> list_heap \<Rightarrow> list_heap res" where
  "list_insert head node h =
     (if head = 0 \<or> node = 0 then Inl (Panic ''list_insert - null parameters'')
      else
        let h = h(node := (h node)\<lparr>prv := head\<rparr>);
            h = h(node := (h node)\<lparr>nxt := nxt (h head)\<rparr>);
            h = (if nxt (h node) \<noteq> 0
                 then h(nxt (h node) := (h (nxt (h node)))\<lparr>prv := node\<rparr>) else h);
            h = h(head := (h head)\<lparr>nxt := node\<rparr>)
        in Inr h)"

definition list_detach :: "addr \<Rightarrow> list_heap \<Rightarrow> list_heap res" where
  "list_detach node h =
     (if node = 0 then Inl (Panic ''list_detach - null parameters'')
      else
        let h = (if prv (h node) \<noteq> 0
                 then h(prv (h node) := (h (prv (h node)))\<lparr>nxt := nxt (h node)\<rparr>) else h);
            h = (if nxt (h node) \<noteq> 0
                 then h(nxt (h node) := (h (nxt (h node)))\<lparr>prv := prv (h node)\<rparr>) else h);
            h = h(node := (h node)\<lparr>nxt := 0\<rparr>);
            h = h(node := (h node)\<lparr>prv := 0\<rparr>)
        in Inr h)"

interpretation ll: intrusive_list "\<lambda>h a. prv (h a)" "\<lambda>h a. nxt (h a)" list_insert list_detach
  by unfold_locales (simp_all add: list_insert_def list_detach_def Let_def, auto simp: fun_eq_iff)

end
