(* ===== verification/Buddy.thy ===== *)
theory Buddy
  imports Bootmem Buddy_Spec Intrusive_List
begin

text \<open>
  \<^verbatim>\<open>kernel/memory/buddy.c\<close>: the page allocator. \<open>kmem_node\<close> is
  \<^verbatim>\<open>struct kmem_node_struct\<close>; it extends the boot allocator's node because
  \<^verbatim>\<open>kmem_init\<close> makes both share one \<^verbatim>\<open>mem_map\<close>. A free block is linked through
  a \<^verbatim>\<open>struct list_node\<close> stored in its first page: \<open>list_mem\<close> is the memory that
  holds those nodes and the heads, and \<open>free_page_list\<close> is the address of a head.
\<close>

section \<open>State and operations\<close>

record free_area =
  free_page_list :: addr
  free_area_map :: "uint8 list"
  free_area_map_size :: ulong

record kmem_node = uma_node +
  begin_ppn :: ulong
  num_ppn :: ulong
  mem_map_size :: ulong
  page_manager_lock :: spinlock
  free_areas :: "free_area list"
  list_mem :: list_heap

definition acquire_page_manager :: "'a kmem_node_scheme \<Rightarrow> 'a kmem_node_scheme res" where
  "acquire_page_manager s =
     bindR (spinlock_acquire (page_manager_lock s) s) (\<lambda>(lk, s). Inr (s\<lparr>page_manager_lock := lk\<rparr>))"

definition release_page_manager :: "'a kmem_node_scheme \<Rightarrow> 'a kmem_node_scheme res" where
  "release_page_manager s =
     bindR (spinlock_release (page_manager_lock s) s) (\<lambda>(lk, s). Inr (s\<lparr>page_manager_lock := lk\<rparr>))"

definition toggle_area :: "nat \<Rightarrow> ulong \<Rightarrow> 'a kmem_node_scheme \<Rightarrow> (int \<times> 'a kmem_node_scheme) res" where
  "toggle_area ord pos s =
     bindR (rd (free_areas s) ord) (\<lambda>fa.
     bindR (toggle_bit (free_area_map fa) pos) (\<lambda>(b, mp).
     Inr (b, s\<lparr>free_areas := (free_areas s)[ord := fa\<lparr>free_area_map := mp\<rparr>]\<rparr>)))"

definition detach_node :: "addr \<Rightarrow> 'a kmem_node_scheme \<Rightarrow> 'a kmem_node_scheme res" where
  "detach_node a s = bindR (list_detach a (list_mem s)) (\<lambda>h. Inr (s\<lparr>list_mem := h\<rparr>))"

definition insert_node :: "nat \<Rightarrow> addr \<Rightarrow> 'a kmem_node_scheme \<Rightarrow> 'a kmem_node_scheme res" where
  "insert_node ord a s =
     bindR (rd (free_areas s) ord) (\<lambda>fa.
     bindR (list_insert (free_page_list fa) a (list_mem s)) (\<lambda>h. Inr (s\<lparr>list_mem := h\<rparr>)))"

text \<open>The loop of \<^verbatim>\<open>kmem_free_page\<close>: merge with the free buddy, or link the block.\<close>

function free_loop :: "nat \<Rightarrow> ulong \<Rightarrow> 'a kmem_node_scheme \<Rightarrow> 'a kmem_node_scheme res" where
  "free_loop dep pn s =
     (if dep < MAX_MEM_ORDER then
        let current_pn = pn AND NOT (push_bit dep 1 - 1);
            buddy_pn = current_pn XOR push_bit dep 1;
            map_pos = drop_bit (dep + 1) current_pn
        in bindR (toggle_area dep map_pos s) (\<lambda>(b, s).
           if b = 0 \<and> dep \<noteq> MAX_MEM_ORDER - 1 then
             bindR (detach_node (PMA_PA2VA (push_bit PAGE_SHIFT (buddy_pn + begin_ppn s))) s)
               (\<lambda>s. free_loop (dep + 1) pn s)
           else
             insert_node dep (PMA_PA2VA (push_bit PAGE_SHIFT (current_pn + begin_ppn s))) s)
      else Inr s)"
  by pat_completeness auto
termination
  by (relation "measure (\<lambda>(dep, pn, s). MAX_MEM_ORDER - dep)") auto

declare free_loop.simps [simp del]

definition kmem_free_page :: "addr \<Rightarrow> 'a kmem_node_scheme \<Rightarrow> 'a kmem_node_scheme res" where
  "kmem_free_page a s =
     (if a AND (PAGE_SIZE - 1) \<noteq> 0 then Inl (Panic ''kmem_free_page - bad address alignment'')
      else
        let pn = drop_bit PAGE_SHIFT (PMA_VA2PA a) - begin_ppn s
        in bindR (acquire_page_manager s) (\<lambda>s.
           bindR (test_and_clear_bit (mem_map s) pn) (\<lambda>(old, mp).
           let s = s\<lparr>mem_map := mp\<rparr> in
           if old = 0 then Inl (Panic ''kmem_free_page - freed twice'')
           else bindR (free_loop 0 pn s) release_page_manager)))"

primrec free_pages_loop :: "nat \<Rightarrow> addr \<Rightarrow> 'a kmem_node_scheme \<Rightarrow> 'a kmem_node_scheme res" where
  "free_pages_loop 0 vaddr s = Inr s"
| "free_pages_loop (Suc n) vaddr s =
     bindR (kmem_free_page vaddr s) (free_pages_loop n (vaddr + PAGE_SIZE))"

definition kmem_free_pages :: "addr \<Rightarrow> ulong \<Rightarrow> 'a kmem_node_scheme \<Rightarrow> 'a kmem_node_scheme res" where
  "kmem_free_pages a page_count s =
     (if a AND (PAGE_SIZE - 1) \<noteq> 0 then Inl (Panic ''kmem_free_pages - bad address alignment'')
      else free_pages_loop (unat page_count) a s)"

text \<open>
  The splitting loop of \<^verbatim>\<open>kmem_alloc_pages\<close> runs \<open>n\<close> times, from order
  \<open>order + n\<close> down to \<open>order + 1\<close>, always on the left half.
\<close>

primrec split_loop :: "nat \<Rightarrow> nat \<Rightarrow> addr \<Rightarrow> 'a kmem_node_scheme \<Rightarrow> 'a kmem_node_scheme res" where
  "split_loop 0 order page_vaddr s = Inr s"
| "split_loop (Suc n) order page_vaddr s =
     (let ord = order + Suc n;
          block_vaddr = page_vaddr;
          block_pn = drop_bit PAGE_SHIFT (PMA_VA2PA block_vaddr) - begin_ppn s;
          left_part = block_vaddr;
          right_part = block_vaddr + push_bit PAGE_SHIFT (push_bit (ord - 1) 1)
      in bindR (detach_node left_part s) (\<lambda>s.
         bindR (toggle_area ord (drop_bit (ord + 1) block_pn) s) (\<lambda>(_, s).
         bindR (insert_node (ord - 1) left_part s) (\<lambda>s.
         bindR (insert_node (ord - 1) right_part s) (\<lambda>s.
         split_loop n order page_vaddr s)))))"

definition take_block :: "nat \<Rightarrow> nat \<Rightarrow> 'a kmem_node_scheme \<Rightarrow> (addr \<times> 'a kmem_node_scheme) res" where
  "take_block current_order order s =
     (if current_order < order then Inl (Panic ''kmem_alloc_pages - wrong direction'')
      else bindR (rd (free_areas s) current_order) (\<lambda>fa.
        let page_vaddr = nxt (list_mem s (free_page_list fa))
        in bindR (split_loop (current_order - order) order page_vaddr s) (\<lambda>s.
           let page_pn = drop_bit PAGE_SHIFT (PMA_VA2PA page_vaddr) - begin_ppn s
           in bindR (detach_node page_vaddr s) (\<lambda>s.
              bindR (toggle_area order (drop_bit (order + 1) page_pn) s) (\<lambda>(_, s).
              bindR (set_bits ''kmem_alloc_pages - allocated'' page_pn
                       (page_pn + push_bit order 1) (mem_map s)) (\<lambda>mp.
              Inr (page_vaddr, s\<lparr>mem_map := mp\<rparr>)))))))"

function alloc_search :: "nat \<Rightarrow> nat \<Rightarrow> 'a kmem_node_scheme \<Rightarrow> (addr \<times> 'a kmem_node_scheme) res" where
  "alloc_search current_order order s =
     (if current_order < MAX_MEM_ORDER then
        bindR (rd (free_areas s) current_order) (\<lambda>fa.
        if nxt (list_mem s (free_page_list fa)) \<noteq> 0 then take_block current_order order s
        else alloc_search (current_order + 1) order s)
      else Inr (0, s))"
  by pat_completeness auto
termination
  by (relation "measure (\<lambda>(c, ord, s). MAX_MEM_ORDER - c)") auto

declare alloc_search.simps [simp del]

definition kmem_alloc_pages :: "ulong \<Rightarrow> 'a kmem_node_scheme \<Rightarrow> (addr \<times> 'a kmem_node_scheme) res" where
  "kmem_alloc_pages order s =
     (if unat order \<ge> MAX_MEM_ORDER then Inl (Panic ''kmem_alloc_pages - too large'')
      else bindR (acquire_page_manager s) (\<lambda>s.
           bindR (alloc_search (unat order) (unat order) s) (\<lambda>(ret, s).
           bindR (release_page_manager s) (\<lambda>s. Inr (ret, s)))))"

section \<open>Page numbers and addresses\<close>

text \<open>The virtual address of page \<open>p\<close> of the managed range.\<close>

definition page_va :: "ulong \<Rightarrow> nat \<Rightarrow> addr" where
  "page_va b p = PMA_PA2VA (push_bit PAGE_SHIFT (word_of_nat p + b))"

text \<open>The managed range fits the kernel's window on physical memory.\<close>

abbreviation range_ok :: "ulong \<Rightarrow> nat \<Rightarrow> bool" where
  "range_ok b n \<equiv> unat b + n \<le> 2 ^ 26"

lemma unat_page:
  assumes "range_ok b n" "p < n"
  shows "unat (word_of_nat p + b :: ulong) = p + unat b"
    "unat (push_bit PAGE_SHIFT (word_of_nat p + b :: ulong)) = (p + unat b) * 4096"
proof -
  show *: "unat (word_of_nat p + b) = p + unat b"
    using assms by (simp add: unat_word_ariths unat_of_nat)
  show "unat (push_bit PAGE_SHIFT (word_of_nat p + b)) = (p + unat b) * 4096"
    using assms * by (subst unat_shiftl) (simp_all add: PAGE_SHIFT_def)
qed

lemma page_va_pa:
  assumes "range_ok b n" "p < n"
  shows "drop_bit PAGE_SHIFT (PMA_VA2PA (page_va b p)) - b = word_of_nat p"
proof -
  have "PMA_VA2PA (page_va b p) = push_bit PAGE_SHIFT (word_of_nat p + b)"
    unfolding page_va_def using assms unat_page [OF assms] by (intro PMA_roundtrip) simp
  moreover have "drop_bit PAGE_SHIFT (push_bit PAGE_SHIFT (word_of_nat p + b)) = word_of_nat p + b"
    using unat_page [OF assms] by (simp add: word_unat_eq_iff unat_shiftr PAGE_SHIFT_def)
  ultimately show ?thesis by simp
qed

lemma page_va_inj:
  assumes "range_ok b n" "p < n" "q < n" "page_va b p = page_va b q"
  shows "p = q"
proof -
  have "(word_of_nat p :: ulong) = word_of_nat q"
    using page_va_pa [OF assms(1,2)] page_va_pa [OF assms(1,3)] assms(4) by simp
  then have "unat (word_of_nat p :: ulong) = unat (word_of_nat q :: ulong)" by simp
  then show ?thesis using assms by (simp add: unat_of_nat)
qed

lemma page_va_nonzero [simp]: "page_va b p \<noteq> 0"
  by (simp add: page_va_def)

lemma page_va_aligned: "page_va b p AND (PAGE_SIZE - 1) = 0"
proof -
  have "take_bit 12 VA_KERNEL_BEGIN = 0" by (simp add: VA_KERNEL_BEGIN_def)
  moreover have "take_bit 12 (push_bit PAGE_SHIFT w) = 0" for w :: ulong
    by (simp add: PAGE_SHIFT_def take_bit_push_bit)
  ultimately show ?thesis
    by (simp add: page_va_def PMA_PA2VA_def page_mask take_bit_or flip: take_bit_eq_mask)
qed

text \<open>The word computations of \<^verbatim>\<open>kmem_free_page\<close> on page numbers.\<close>

lemma current_pn:
  assumes "p < 2 ^ 26"
  shows "(word_of_nat p :: ulong) AND NOT (push_bit d 1 - 1) = word_of_nat (p div 2 ^ d * 2 ^ d)"
proof -
  have m: "push_bit d 1 - 1 = (mask d :: ulong)" by (simp add: mask_eq_exp_minus_1)
  have up: "unat (word_of_nat p :: ulong) = p" using assms by (simp add: unat_of_nat)
  have "p div 2 ^ d * 2 ^ d \<le> p" by simp
  then have "p div 2 ^ d * 2 ^ d < 2 ^ 64" by (rule le_less_trans) (use assms in simp)
  then show ?thesis unfolding m
    by (intro word_unat_eq_iff [THEN iffD2])
      (simp add: unat_round_down up unat_of_nat64 del: of_nat_mult)
qed

lemma buddy_pn:
  assumes "p < 2 ^ 26" "d < 11"
  shows "((word_of_nat p :: ulong) AND NOT (push_bit d 1 - 1)) XOR push_bit d 1 =
    word_of_nat (buddy (p div 2 ^ d) * 2 ^ d)"
proof -
  let ?x = "drop_bit d (word_of_nat p) :: ulong" and ?k = "p div 2 ^ d"
  have m: "push_bit d 1 - 1 = (mask d :: ulong)" by (simp add: mask_eq_exp_minus_1)
  have x: "unat ?x = ?k" using assms by (simp add: unat_shiftr unat_of_nat)
  have ev: "even ?x \<longleftrightarrow> even ?k" using x by (metis even_unat)
  have kb: "?k < 2 ^ 26" using assms(1) by (rule le_less_trans [OF div_le_dividend])
  have "unat (?x XOR 1) = buddy ?k"
  proof (cases "even ?k")
    case True
    with ev have "?x XOR 1 = ?x + 1" by (simp add: xor_one_eq)
    then show ?thesis using True kb x by (simp add: buddy_def unat_word_ariths)
  next
    case False
    with ev have "?x XOR 1 = ?x - 1" by (simp add: xor_one_eq)
    moreover have "?x \<noteq> 0" using False x by (metis even_zero unat_0)
    ultimately show ?thesis using False x by (simp add: buddy_def unat_minus_one)
  qed
  moreover have bb: "buddy ?k * 2 ^ d < 2 ^ 64"
  proof -
    have "buddy ?k \<le> 2 ^ 26" using kb unfolding buddy_def by (simp split: if_splits) linarith
    moreover have "(2::nat) ^ d \<le> 2 ^ 10" using assms(2) by (intro power_increasing) auto
    ultimately have "buddy ?k * 2 ^ d \<le> 2 ^ 26 * 2 ^ 10" by (rule mult_le_mono)
    then show ?thesis by (rule le_less_trans) simp
  qed
  ultimately have "unat (push_bit d (?x XOR 1)) = buddy ?k * 2 ^ d"
    by (subst unat_shiftl) simp_all
  moreover have "(word_of_nat p AND NOT (push_bit d 1 - 1)) XOR push_bit d 1 = push_bit d (?x XOR 1)"
    unfolding m and_not_mask push_bit_xor ..
  ultimately show ?thesis
    using bb by (simp add: word_unat_eq_iff unat_of_nat64 del: of_nat_mult)
qed

lemma map_pos:
  assumes "p < 2 ^ 26"
  shows "unat (drop_bit (d + 1) ((word_of_nat p :: ulong) AND NOT (push_bit d 1 - 1))) =
    p div 2 ^ d div 2"
proof -
  have "p div 2 ^ d * 2 ^ d \<le> p" by simp
  then have "p div 2 ^ d * 2 ^ d < 2 ^ 64" by (rule le_less_trans) (use assms in simp)
  then have "unat (word_of_nat (p div 2 ^ d * 2 ^ d) :: ulong) = p div 2 ^ d * 2 ^ d"
    by (rule unat_of_nat64)
  then show ?thesis unfolding current_pn [OF assms] unat_shiftr by (simp only: block_pair)
qed

lemma PMA_PA2VA_add:
  assumes "unat pa < 2 ^ 38"
  shows "PMA_PA2VA pa = pa + VA_KERNEL_BEGIN"
proof -
  have "unat (take_bit 38 pa) = unat pa" using assms by (simp add: unat_take_bit)
  then have "take_bit 38 pa = pa" by (rule word_unat_eq_iff [THEN iffD2])
  then have "pa AND VA_KERNEL_BEGIN = (pa AND mask 38) AND VA_KERNEL_BEGIN"
    by (simp add: take_bit_eq_mask)
  also have "\<dots> = 0" unfolding and.assoc
    by (simp add: VA_KERNEL_BEGIN_def mask_eq_exp_minus_1)
  finally show ?thesis by (simp add: PMA_PA2VA_def disjunctive_add_eq_or)
qed

lemma page_va_add:
  assumes "range_ok b n" "p + 2 ^ e < n"
  shows "page_va b p + push_bit PAGE_SHIFT (push_bit e 1) = page_va b (p + 2 ^ e)"
proof -
  have lt: "p < n" using assms(2) by simp
  have pa: "unat (push_bit PAGE_SHIFT (word_of_nat p + b :: ulong)) < 2 ^ 38"
    "unat (push_bit PAGE_SHIFT (word_of_nat (p + 2 ^ e) + b :: ulong)) < 2 ^ 38"
    using unat_page(2) [OF assms(1) lt] unat_page(2) [OF assms] assms lt by simp_all
  show ?thesis
    unfolding page_va_def PMA_PA2VA_add [OF pa(1)] PMA_PA2VA_add [OF pa(2)]
    by (simp add: push_bit_eq_mult algebra_simps PAGE_SHIFT_def)
qed

end
