(* ===== verification/Buddy_Refine.thy ===== *)
theory Buddy_Refine
  imports Buddy
begin

text \<open>
  The page allocator of \<open>Buddy\<close> refines the abstract buddy system of
  \<open>Buddy_Spec\<close>. A concrete state represents a family of free-block sets when its eleven
  linked lists carry exactly those blocks and bit \<open>j\<close> of the order-\<open>d\<close> map is the
  exclusive or of the freedom of blocks \<open>2 j\<close> and \<open>2 j + 1\<close>.
\<close>

section \<open>The representation relation\<close>

definition lists_rep :: "ulong \<Rightarrow> (nat \<Rightarrow> addr) \<Rightarrow> list_heap \<Rightarrow> blocks \<Rightarrow> bool" where
  "lists_rep b hp h F \<longleftrightarrow> (\<exists>fl.
     dlists (\<lambda>a. prv (h a)) (\<lambda>a. nxt (h a)) {..<MAX_MEM_ORDER} hp
       (\<lambda>d. map (\<lambda>k. page_va b (k * 2 ^ d)) (fl d)) \<and>
     (\<forall>d<MAX_MEM_ORDER. set (fl d) = F d))"

definition maps_rep :: "free_area list \<Rightarrow> blocks \<Rightarrow> bool" where
  "maps_rep fas F \<longleftrightarrow> (\<forall>d<MAX_MEM_ORDER. \<forall>j<8 * length (free_area_map (fas ! d)).
     bm (free_area_map (fas ! d)) j \<longleftrightarrow> (2 * j \<in> F d) \<noteq> (2 * j + 1 \<in> F d))"

abbreviation heads :: "'a kmem_node_scheme \<Rightarrow> nat \<Rightarrow> addr" where
  "heads s \<equiv> \<lambda>d. free_page_list (free_areas s ! d)"

abbreviation npages :: "'a kmem_node_scheme \<Rightarrow> nat" where
  "npages s \<equiv> unat (num_ppn s)"

text \<open>What never changes: sizes of the arrays and the place of the list heads.\<close>

definition shape :: "'a kmem_node_scheme \<Rightarrow> bool" where
  "shape s \<longleftrightarrow> length (free_areas s) = MAX_MEM_ORDER \<and> range_ok (begin_ppn s) (npages s) \<and>
     npages s \<le> 8 * length (mem_map s) \<and>
     (\<forall>d<MAX_MEM_ORDER. \<forall>p<npages s. heads s d \<noteq> page_va (begin_ppn s) p) \<and>
     (\<forall>d<MAX_MEM_ORDER. \<forall>p<npages s.
        p div 2 ^ d div 2 < 8 * length (free_area_map (free_areas s ! d)))"

definition rep :: "'a kmem_node_scheme \<Rightarrow> blocks \<Rightarrow> bool" where
  "rep s F \<longleftrightarrow> shape s \<and> lists_rep (begin_ppn s) (heads s) (list_mem s) F \<and>
     maps_rep (free_areas s) F \<and> (\<forall>d<MAX_MEM_ORDER. \<forall>k\<in>F d. (k + 1) * 2 ^ d \<le> npages s)"

section \<open>Lists\<close>

lemma map_remove1_inj:
  "inj_on f (insert k (set xs)) \<Longrightarrow> remove1 (f k) (map f xs) = map f (remove1 k xs)"
  by (induction xs) (auto simp: inj_on_def)

lemma lists_insert:
  assumes rep: "lists_rep b hp h F" and d: "d < MAX_MEM_ORDER"
    and heads: "\<And>e. e < MAX_MEM_ORDER \<Longrightarrow> hp e \<noteq> page_va b (k * 2 ^ d)"
    and fresh: "\<And>e j. e < MAX_MEM_ORDER \<Longrightarrow> j \<in> F e \<Longrightarrow> page_va b (j * 2 ^ e) \<noteq> page_va b (k * 2 ^ d)"
  obtains h' where "list_insert (hp d) (page_va b (k * 2 ^ d)) h = Inr h'"
    "lists_rep b hp h' (F(d := insert k (F d)))"
proof -
  let ?ls = "\<lambda>fl d. map (\<lambda>k. page_va b (k * 2 ^ d)) (fl d)"
  from rep obtain fl where fl: "ll.family h {..<MAX_MEM_ORDER} hp (?ls fl)"
    "\<forall>d<MAX_MEM_ORDER. set (fl d) = F d"
    by (auto simp: lists_rep_def)
  have "page_va b (k * 2 ^ d) \<notin> set (hp e # ?ls fl e)" if "e \<in> {..<MAX_MEM_ORDER}" for e
    using that heads [of e] fresh [of e, THEN not_sym] fl(2) by auto
  from ll.family_ins [OF fl(1) _ page_va_nonzero this] d obtain h' where
    h': "list_insert (hp d) (page_va b (k * 2 ^ d)) h = Inr h'"
      "ll.family h' {..<MAX_MEM_ORDER} hp ((?ls fl)(d := page_va b (k * 2 ^ d) # ?ls fl d))"
    by blast
  have "(?ls fl)(d := page_va b (k * 2 ^ d) # ?ls fl d) = ?ls (fl(d := k # fl d))"
    by auto
  with h' fl(2) d have "lists_rep b hp h' (F(d := insert k (F d)))"
    unfolding lists_rep_def by (intro exI [of _ "fl(d := k # fl d)"]) auto
  with h'(1) that show thesis by blast
qed

lemma lists_detach:
  assumes rep: "lists_rep b hp h F" and d: "d < MAX_MEM_ORDER" and k: "k \<in> F d"
    and inj: "inj_on (\<lambda>k. page_va b (k * 2 ^ d)) (F d)"
  obtains h' where "list_detach (page_va b (k * 2 ^ d)) h = Inr h'"
    "lists_rep b hp h' (F(d := F d - {k}))"
proof -
  let ?ls = "\<lambda>fl d. map (\<lambda>k. page_va b (k * 2 ^ d)) (fl d)"
  from rep obtain fl where fl: "ll.family h {..<MAX_MEM_ORDER} hp (?ls fl)"
    "\<forall>d<MAX_MEM_ORDER. set (fl d) = F d"
    by (auto simp: lists_rep_def)
  have "page_va b (k * 2 ^ d) \<in> set (?ls fl d)" using fl(2) d k by auto
  with ll.family_det [OF fl(1)] d obtain h' where
    h': "list_detach (page_va b (k * 2 ^ d)) h = Inr h'"
      "ll.family h' {..<MAX_MEM_ORDER} hp ((?ls fl)(d := remove1 (page_va b (k * 2 ^ d)) (?ls fl d)))"
    by blast
  have "remove1 (page_va b (k * 2 ^ d)) (?ls fl d) = ?ls (fl(d := remove1 k (fl d))) d"
    using map_remove1_inj [of "\<lambda>k. page_va b (k * 2 ^ d)" k "fl d"] inj fl(2) d k
    by (simp add: insert_absorb)
  then have "(?ls fl)(d := remove1 (page_va b (k * 2 ^ d)) (?ls fl d)) =
      ?ls (fl(d := remove1 k (fl d)))"
    by auto
  moreover have "distinct (?ls fl d)" using fl(1) d by (simp add: dlists_def dlist_def)
  then have "set (remove1 k (fl d)) = F d - {k}"
    using fl(2) d by (simp add: distinct_map)
  ultimately have "lists_rep b hp h' (F(d := F d - {k}))"
    using h'(2) fl(2) unfolding lists_rep_def
    by (intro exI [of _ "fl(d := remove1 k (fl d))"]) auto
  with h'(1) that show thesis by blast
qed

lemma lists_first:
  assumes "lists_rep b hp h F" "d < MAX_MEM_ORDER"
  shows "nxt (h (hp d)) = 0 \<longleftrightarrow> F d = {}"
    and "nxt (h (hp d)) \<noteq> 0 \<Longrightarrow> \<exists>k\<in>F d. nxt (h (hp d)) = page_va b (k * 2 ^ d)"
proof -
  let ?ls = "\<lambda>fl d. map (\<lambda>k. page_va b (k * 2 ^ d)) (fl d)"
  from assms(1) obtain fl where fl: "ll.family h {..<MAX_MEM_ORDER} hp (?ls fl)"
    "\<forall>d<MAX_MEM_ORDER. set (fl d) = F d"
    by (auto simp: lists_rep_def)
  have "nxt (h (hp d)) = (case ?ls fl d of [] \<Rightarrow> 0 | x # _ \<Rightarrow> x)"
    using ll.family_first [OF fl(1)] assms(2) by simp
  moreover have "set (fl d) = F d" using fl(2) assms(2) by simp
  ultimately show "nxt (h (hp d)) = 0 \<longleftrightarrow> F d = {}"
    "nxt (h (hp d)) \<noteq> 0 \<Longrightarrow> \<exists>k\<in>F d. nxt (h (hp d)) = page_va b (k * 2 ^ d)"
    by (cases "fl d"; force)+
qed

section \<open>Bitmaps\<close>

text \<open>Toggling the pair bit records that block \<open>k\<close> entered or left its free set.\<close>

lemma maps_toggle:
  assumes len: "length (free_areas s) = MAX_MEM_ORDER" and d: "d < MAX_MEM_ORDER"
    and rep: "maps_rep (free_areas s) F"
    and pos: "unat pos = k div 2" "k div 2 < 8 * length (free_area_map (free_areas s ! d))"
    and X: "\<And>j. j \<in> X \<longleftrightarrow> (if j = k then k \<notin> F d else j \<in> F d)"
  obtains mp where
    "toggle_area d pos s = Inr (of_bool ((k \<in> X) \<noteq> (buddy k \<in> X)),
       s\<lparr>free_areas := (free_areas s)[d := (free_areas s ! d)\<lparr>free_area_map := mp\<rparr>]\<rparr>)"
    "length mp = length (free_area_map (free_areas s ! d))"
    "maps_rep ((free_areas s)[d := (free_areas s ! d)\<lparr>free_area_map := mp\<rparr>]) (F(d := X))"
proof -
  let ?m = "free_area_map (free_areas s ! d)" and ?j = "k div 2"
  let ?mp = "bm_put ?m ?j (\<not> bm ?m ?j)"
  have pair: "((k \<in> A) \<noteq> (buddy k \<in> A)) \<longleftrightarrow> (2 * ?j \<in> A) \<noteq> (2 * ?j + 1 \<in> A)" for A
    by (cases "even k") (auto simp: buddy_def elim!: evenE oddE)
  have bmj: "bm ?m ?j \<longleftrightarrow> (2 * ?j \<in> F d) \<noteq> (2 * ?j + 1 \<in> F d)"
    using rep d pos(2) by (simp add: maps_rep_def)
  have flip: "((k \<in> X) \<noteq> (buddy k \<in> X)) \<longleftrightarrow> \<not> ((k \<in> F d) \<noteq> (buddy k \<in> F d))"
    using X [of k] X [of "buddy k"] by simp
  have new: "(\<not> bm ?m ?j) \<longleftrightarrow> ((k \<in> X) \<noteq> (buddy k \<in> X))"
    using bmj flip pair by blast
  have bm: "bm ?mp = (bm ?m)(?j := (\<not> bm ?m ?j))" using pos(2) by (rule bm_bm_put)
  have "toggle_area d pos s = Inr (of_bool (\<not> bm ?m ?j),
      s\<lparr>free_areas := (free_areas s)[d := (free_areas s ! d)\<lparr>free_area_map := ?mp\<rparr>]\<rparr>)"
    using len d pos by (simp add: toggle_area_def bm_simps)
  moreover have "bm ?mp j \<longleftrightarrow> (2 * j \<in> X) \<noteq> (2 * j + 1 \<in> X)" if "j < 8 * length ?m" for j
  proof (cases "j = ?j")
    case True
    then show ?thesis using new pair bm by simp
  next
    case False
    then have "2 * j \<noteq> k" "2 * j + 1 \<noteq> k" by auto
    then show ?thesis using False bm X rep d that by (simp add: maps_rep_def)
  qed
  then have "maps_rep ((free_areas s)[d := (free_areas s ! d)\<lparr>free_area_map := ?mp\<rparr>]) (F(d := X))"
    using rep len d by (auto simp: maps_rep_def nth_list_update)
  ultimately show thesis using that new by simp
qed

text \<open>A pair that becomes free together leaves its bit as it is.\<close>

lemma maps_pair:
  assumes "maps_rep fas F" "2 * k \<notin> F d" "2 * k + 1 \<notin> F d"
  shows "maps_rep fas (F(d := insert (2 * k + 1) (insert (2 * k) (F d))))"
proof -
  have "2 * j \<noteq> Suc (2 * k)" "Suc (2 * j) \<noteq> 2 * k" for j by presburger+
  with assms show ?thesis unfolding maps_rep_def by auto
qed

section \<open>One block enters or leaves the free sets\<close>

lemma heads_upd [simp]:
  "free_page_list (fas[d := (fas ! d)\<lparr>free_area_map := mp\<rparr>] ! e) = free_page_list (fas ! e)"
  by (cases "e = d"; cases "d < length fas") (auto simp: list_update_beyond)

lemma map_len_upd:
  "length mp = length (free_area_map (fas ! d)) \<Longrightarrow>
   length (free_area_map (fas[d := (fas ! d)\<lparr>free_area_map := mp\<rparr>] ! e)) =
   length (free_area_map (fas ! e))"
  by (cases "e = d"; cases "d < length fas") (auto simp: list_update_beyond)

lemma shape_upd:
  assumes "shape s" "length mp = length (free_area_map (free_areas s ! d))"
  shows "shape (s\<lparr>free_areas := (free_areas s)[d := (free_areas s ! d)\<lparr>free_area_map := mp\<rparr>],
    list_mem := h\<rparr>)"
  using assms(1) by (simp add: shape_def map_len_upd [OF assms(2)])

lemma rep_block: "rep s F \<Longrightarrow> e < MAX_MEM_ORDER \<Longrightarrow> j \<in> F e \<Longrightarrow> (j + 1) * 2 ^ e \<le> npages s"
  unfolding rep_def by blast

lemma rep_bound: "rep s F \<Longrightarrow> e < MAX_MEM_ORDER \<Longrightarrow> j \<in> F e \<Longrightarrow> j * 2 ^ e < npages s"
  by (rule block_bound [OF pages_first rep_block])

lemma rep_range: "rep s F \<Longrightarrow> range_ok (begin_ppn s) (npages s)"
  by (simp add: rep_def shape_def)

lemma rep_inj:
  assumes "rep s F" "d < MAX_MEM_ORDER"
  shows "inj_on (\<lambda>k. page_va (begin_ppn s) (k * 2 ^ d)) (F d)"
proof (rule inj_onI)
  fix x y assume x: "x \<in> F d" and y: "y \<in> F d"
    and eq: "page_va (begin_ppn s) (x * 2 ^ d) = page_va (begin_ppn s) (y * 2 ^ d)"
  have "x * 2 ^ d = y * 2 ^ d"
    by (rule page_va_inj [OF rep_range [OF assms(1)] rep_bound [OF assms x] rep_bound [OF assms y] eq])
  then show "x = y" by simp
qed

lemma rep_fresh:
  assumes rep: "rep s F" and e: "e < MAX_MEM_ORDER" "j \<in> F e"
    and k: "(k + 1) * 2 ^ d \<le> npages s" and disj: "pages d k \<inter> free_pages F = {}"
  shows "page_va (begin_ppn s) (j * 2 ^ e) \<noteq> page_va (begin_ppn s) (k * 2 ^ d)"
proof
  assume "page_va (begin_ppn s) (j * 2 ^ e) = page_va (begin_ppn s) (k * 2 ^ d)"
  then have "j * 2 ^ e = k * 2 ^ d"
    using page_va_inj [OF rep_range [OF rep] rep_bound [OF rep e]] block_bound [OF pages_first k]
    by simp
  then have "j * 2 ^ e \<in> pages d k" by simp
  moreover have "j * 2 ^ e \<in> free_pages F" using e by (auto simp: free_pages_def)
  ultimately show False using disj by blast
qed

lemma rep_lists_insert:
  assumes rep: "rep s F" and d: "d < MAX_MEM_ORDER"
    and k: "(k + 1) * 2 ^ d \<le> npages s" and disj: "pages d k \<inter> free_pages F = {}"
  obtains h where "list_insert (heads s d) (page_va (begin_ppn s) (k * 2 ^ d)) (list_mem s) = Inr h"
    "lists_rep (begin_ppn s) (heads s) h (F(d := insert k (F d)))"
proof (rule lists_insert [of "begin_ppn s" "heads s" "list_mem s" F d k])
  show "lists_rep (begin_ppn s) (heads s) (list_mem s) F" using rep by (simp add: rep_def)
  show "heads s e \<noteq> page_va (begin_ppn s) (k * 2 ^ d)" if "e < MAX_MEM_ORDER" for e
    using rep that block_bound [OF pages_first k] by (simp add: rep_def shape_def)
qed (use d rep_fresh [OF rep _ _ k disj] that in auto)

lemma rep_lists_detach:
  assumes rep: "rep s F" and d: "d < MAX_MEM_ORDER" and k: "k \<in> F d"
  obtains h where "list_detach (page_va (begin_ppn s) (k * 2 ^ d)) (list_mem s) = Inr h"
    "lists_rep (begin_ppn s) (heads s) h (F(d := F d - {k}))"
  by (rule lists_detach [of "begin_ppn s" "heads s" "list_mem s" F d k])
    (use assms rep_inj [OF rep d] that in \<open>auto simp: rep_def\<close>)

lemma rep_map_pos:
  assumes "rep s F" "d < MAX_MEM_ORDER" "(k + 1) * 2 ^ d \<le> npages s"
  shows "k div 2 < 8 * length (free_area_map (free_areas s ! d))"
proof -
  have "k * 2 ^ d < npages s" by (rule block_bound [OF pages_first assms(3)])
  then have "k * 2 ^ d div 2 ^ d div 2 < 8 * length (free_area_map (free_areas s ! d))"
    using assms(1,2) unfolding rep_def shape_def by blast
  then show ?thesis by simp
qed

lemma toggle_area_frame:
  "toggle_area d pos (s\<lparr>list_mem := h\<rparr>) =
   bindR (toggle_area d pos s) (\<lambda>(b, t). Inr (b, t\<lparr>list_mem := h\<rparr>))"
  by (simp add: toggle_area_def bindR_def split: sum.splits prod.splits)

text \<open>
  The two outcomes of one round of the freeing loop, and the removal at the start of a
  split: toggling the pair bit and relinking re-establish the representation.
\<close>

lemma rep_toggle:
  assumes rep: "rep s F" and d: "d < MAX_MEM_ORDER" and pos: "unat pos = k div 2"
    and k: "(k + 1) * 2 ^ d \<le> npages s"
    and X: "\<And>j. j \<in> X \<longleftrightarrow> (if j = k then k \<notin> F d else j \<in> F d)"
    and h: "lists_rep (begin_ppn s) (heads s) h (F(d := X))"
  obtains fas where
    "\<And>h'. toggle_area d pos (s\<lparr>list_mem := h'\<rparr>) =
       Inr (of_bool ((k \<in> X) \<noteq> (buddy k \<in> X)), s\<lparr>free_areas := fas, list_mem := h'\<rparr>)"
    "rep (s\<lparr>free_areas := fas, list_mem := h\<rparr>) (F(d := X))"
    "\<And>e. free_page_list (fas ! e) = heads s e" "length fas = MAX_MEM_ORDER"
proof -
  have len: "length (free_areas s) = MAX_MEM_ORDER" and maps: "maps_rep (free_areas s) F"
    and sh: "shape s" using rep by (auto simp: rep_def shape_def)
  obtain mp where mp:
    "toggle_area d pos s = Inr (of_bool ((k \<in> X) \<noteq> (buddy k \<in> X)),
       s\<lparr>free_areas := (free_areas s)[d := (free_areas s ! d)\<lparr>free_area_map := mp\<rparr>]\<rparr>)"
    "length mp = length (free_area_map (free_areas s ! d))"
    "maps_rep ((free_areas s)[d := (free_areas s ! d)\<lparr>free_area_map := mp\<rparr>]) (F(d := X))"
    by (rule maps_toggle [OF len d maps pos rep_map_pos [OF rep d k] X])
  let ?fas = "(free_areas s)[d := (free_areas s ! d)\<lparr>free_area_map := mp\<rparr>]"
  have bnd: "\<forall>e<MAX_MEM_ORDER. \<forall>j\<in>(F(d := X)) e. (j + 1) * 2 ^ e \<le> npages s"
    using rep k X by (auto simp: rep_def split: if_splits)
  show thesis
  proof (rule that [of ?fas])
    show "toggle_area d pos (s\<lparr>list_mem := h'\<rparr>) =
       Inr (of_bool ((k \<in> X) \<noteq> (buddy k \<in> X)), s\<lparr>free_areas := ?fas, list_mem := h'\<rparr>)" for h'
      by (simp add: toggle_area_frame mp(1))
    show "rep (s\<lparr>free_areas := ?fas, list_mem := h\<rparr>) (F(d := X))"
      using shape_upd [OF sh mp(2)] h mp(3) bnd by (simp add: rep_def)
  qed (use len in auto)
qed

section \<open>Freeing\<close>

text \<open>From any round on, the loop frees the whole block it has merged so far.\<close>

lemma free_loop_correct:
  assumes "rep s F" "buddy_inv (npages s) F" "dep < MAX_MEM_ORDER" "p < npages s"
    and "pages dep (p div 2 ^ dep) \<inter> free_pages F = {}"
    and "(p div 2 ^ dep + 1) * 2 ^ dep \<le> npages s"
  shows "\<exists>fas h F'. free_loop dep (word_of_nat p) s = Inr (s\<lparr>free_areas := fas, list_mem := h\<rparr>) \<and>
     rep (s\<lparr>free_areas := fas, list_mem := h\<rparr>) F' \<and> buddy_inv (npages s) F' \<and>
     free_pages F' = free_pages F \<union> pages dep (p div 2 ^ dep)"
  using assms
proof (induction "MAX_MEM_ORDER - dep" arbitrary: dep s F rule: less_induct)
  case less
  let ?k = "p div 2 ^ dep" and ?b = "begin_ppn s"
  note rep = less.prems(1) and inv = less.prems(2) and d = less.prems(3) and p = less.prems(4)
    and disj = less.prems(5) and bound = less.prems(6)
  have p26: "p < 2 ^ 26" using p rep_range [OF rep] by simp
  have d11: "dep < 11" using d by (simp add: MAX_MEM_ORDER_def)
  have notin: "?k \<notin> F dep" using disj d by (rule disjoint_notin)
  have cur: "PMA_PA2VA (push_bit PAGE_SHIFT (word_of_nat (?k * 2 ^ dep) + ?b)) = page_va ?b (?k * 2 ^ dep)"
    "PMA_PA2VA (push_bit PAGE_SHIFT (word_of_nat (buddy ?k * 2 ^ dep) + ?b)) = page_va ?b (buddy ?k * 2 ^ dep)"
    by (simp_all add: page_va_def)
  define pos :: ulong where
    "pos = drop_bit (dep + 1) (word_of_nat p AND NOT (push_bit dep 1 - 1))"
  have pos: "unat pos = ?k div 2" unfolding pos_def by (rule map_pos [OF p26])
  have unfold: "free_loop dep (word_of_nat p) s =
      bindR (toggle_area dep pos s) (\<lambda>(b, s).
         if b = 0 \<and> dep \<noteq> MAX_MEM_ORDER - 1
         then bindR (detach_node (PMA_PA2VA (push_bit PAGE_SHIFT
                (word_of_nat (buddy ?k * 2 ^ dep) + begin_ppn s))) s) (\<lambda>s. free_loop (dep + 1) (word_of_nat p) s)
         else insert_node dep (PMA_PA2VA (push_bit PAGE_SHIFT
                (word_of_nat (?k * 2 ^ dep) + begin_ppn s))) s)"
    using d unfolding free_loop.simps [of dep] Let_def pos_def
    by (simp only: current_pn [OF p26] buddy_pn [OF p26 d11, unfolded current_pn [OF p26]] if_True)
  show ?case
  proof (cases "buddy ?k \<in> F dep \<and> dep \<noteq> MAX_MEM_ORDER - 1")
    case True
    then have bin: "buddy ?k \<in> F dep" and d': "Suc dep < MAX_MEM_ORDER" using d by auto
    let ?X = "F dep - {buddy ?k}"
    have bk: "(buddy ?k + 1) * 2 ^ dep \<le> npages s" by (rule rep_block [OF rep d bin])
    obtain h where h: "list_detach (page_va ?b (buddy ?k * 2 ^ dep)) (list_mem s) = Inr h"
      "lists_rep ?b (heads s) h (F(dep := ?X))"
      by (rule rep_lists_detach [OF rep d bin])
    have X: "j \<in> ?X \<longleftrightarrow> (if j = buddy ?k then buddy ?k \<notin> F dep else j \<in> F dep)" for j
      using bin by auto
    have posb: "unat pos = buddy ?k div 2" using pos by simp
    obtain fas where fas: "\<And>h'. toggle_area dep pos (s\<lparr>list_mem := h'\<rparr>) =
        Inr (of_bool ((buddy ?k \<in> ?X) \<noteq> (buddy (buddy ?k) \<in> ?X)), s\<lparr>free_areas := fas, list_mem := h'\<rparr>)"
      "rep (s\<lparr>free_areas := fas, list_mem := h\<rparr>) (F(dep := ?X))"
      by (rule rep_toggle [OF rep d posb bk X h(2)]) blast
    let ?s = "s\<lparr>free_areas := fas, list_mem := h\<rparr>"
    have tog: "toggle_area dep pos s = Inr (0, s\<lparr>free_areas := fas\<rparr>)"
      using fas(1) [of "list_mem s"] notin by simp
    have step: "free_loop dep (word_of_nat p) s = free_loop (Suc dep) (word_of_nat p) ?s"
      unfolding unfold tog using True h(1) by (simp add: detach_node_def cur(2) [simplified])
    note m = merge_step [OF inv d' disj bin bound]
    have kk: "p div 2 ^ Suc dep = ?k div 2" by (rule div_order)
    have "\<exists>fas' h' F'. free_loop (Suc dep) (word_of_nat p) ?s = Inr (?s\<lparr>free_areas := fas', list_mem := h'\<rparr>) \<and>
       rep (?s\<lparr>free_areas := fas', list_mem := h'\<rparr>) F' \<and> buddy_inv (npages ?s) F' \<and>
       free_pages F' = free_pages (F(dep := ?X)) \<union> pages (Suc dep) (p div 2 ^ Suc dep)"
      by (rule less.hyps) (use d' fas(2) m p in \<open>simp_all only: kk, auto\<close>)
    then show ?thesis unfolding step kk m(3) by auto
  next
    case False
    let ?X = "insert ?k (F dep)"
    obtain h where h: "list_insert (heads s dep) (page_va ?b (?k * 2 ^ dep)) (list_mem s) = Inr h"
      "lists_rep ?b (heads s) h (F(dep := ?X))"
      by (rule rep_lists_insert [OF rep d bound disj])
    have X: "j \<in> ?X \<longleftrightarrow> (if j = ?k then ?k \<notin> F dep else j \<in> F dep)" for j
      using notin by auto
    obtain fas where fas: "\<And>h'. toggle_area dep pos (s\<lparr>list_mem := h'\<rparr>) =
        Inr (of_bool ((?k \<in> ?X) \<noteq> (buddy ?k \<in> ?X)), s\<lparr>free_areas := fas, list_mem := h'\<rparr>)"
      "rep (s\<lparr>free_areas := fas, list_mem := h\<rparr>) (F(dep := ?X))"
      "\<And>e. free_page_list (fas ! e) = heads s e" "length fas = MAX_MEM_ORDER"
      by (rule rep_toggle [OF rep d pos bound X h(2)]) blast
    let ?s = "s\<lparr>free_areas := fas, list_mem := h\<rparr>"
    have tog: "toggle_area dep pos s = Inr (of_bool (buddy ?k \<notin> F dep), s\<lparr>free_areas := fas\<rparr>)"
      using fas(1) [of "list_mem s"] by simp
    have step: "free_loop dep (word_of_nat p) s = Inr ?s"
      unfolding unfold tog using False h(1) fas(3,4) d
      by (auto simp: insert_node_def cur(1) [simplified])
    have co: "Suc dep < MAX_MEM_ORDER \<Longrightarrow> buddy ?k \<notin> F dep" using False by auto
    note ins = insert_block [OF inv d bound disj co]
    show ?thesis using step fas(2) ins by blast
  qed
qed

section \<open>Splitting\<close>

lemma rep_pair:
  assumes rep: "rep s G" and d: "d < MAX_MEM_ORDER" and bnd: "(2 * k + 1 + 1) * 2 ^ d \<le> npages s"
    and disj: "pages (Suc d) k \<inter> free_pages G = {}"
  obtains h h' where
    "list_insert (heads s d) (page_va (begin_ppn s) (2 * k * 2 ^ d)) (list_mem s) = Inr h"
    "list_insert (heads s d) (page_va (begin_ppn s) ((2 * k + 1) * 2 ^ d)) h = Inr h'"
    "rep (s\<lparr>list_mem := h'\<rparr>) (G(d := insert (2 * k + 1) (insert (2 * k) (G d))))"
proof -
  let ?b = "begin_ppn s" and ?G1 = "G(d := insert (2 * k) (G d))"
  have split: "pages (Suc d) k = pages d (2 * k) \<union> pages d (2 * k + 1)"
    using pages_Suc [of d "2 * k"] by (simp add: buddy_def)
  have dis: "pages d (2 * k) \<inter> free_pages G = {}" "pages d (2 * k + 1) \<inter> free_pages G = {}"
    using disj split by auto
  have bnd1: "(2 * k + 1) * 2 ^ d \<le> npages s" using bnd by (simp add: algebra_simps)
  have lt: "2 * k * 2 ^ d < npages s" "(2 * k + 1) * 2 ^ d < npages s"
    by (rule block_bound [OF pages_first bnd1], rule block_bound [OF pages_first bnd])
  obtain h where h: "list_insert (heads s d) (page_va ?b (2 * k * 2 ^ d)) (list_mem s) = Inr h"
    "lists_rep ?b (heads s) h ?G1"
    by (rule rep_lists_insert [OF rep d bnd1 dis(1)])
  have hd: "heads s e \<noteq> page_va ?b ((2 * k + 1) * 2 ^ d)" if "e < MAX_MEM_ORDER" for e
    using rep that lt(2) by (simp add: rep_def shape_def)
  have fresh: "page_va ?b (j * 2 ^ e) \<noteq> page_va ?b ((2 * k + 1) * 2 ^ d)"
    if "e < MAX_MEM_ORDER" "j \<in> ?G1 e" for e j
  proof (cases "j \<in> G e")
    case True
    then show ?thesis using rep_fresh [OF rep that(1) _ bnd dis(2)] by blast
  next
    case False
    with that have "e = d" "j = 2 * k" by (auto split: if_splits)
    then show ?thesis using page_va_inj [OF rep_range [OF rep] lt] by auto
  qed
  obtain h' where h': "list_insert (heads s d) (page_va ?b ((2 * k + 1) * 2 ^ d)) h = Inr h'"
    "lists_rep ?b (heads s) h' (?G1(d := insert (2 * k + 1) (?G1 d)))"
    by (rule lists_insert [OF h(2) d hd fresh])
  have "maps_rep (free_areas s) (G(d := insert (2 * k + 1) (insert (2 * k) (G d))))"
    by (rule maps_pair) (use rep dis disjoint_notin [OF _ d] in \<open>auto simp: rep_def\<close>)
  then have "rep (s\<lparr>list_mem := h'\<rparr>) (G(d := insert (2 * k + 1) (insert (2 * k) (G d))))"
    using rep h'(2) bnd bnd1 by (auto simp: rep_def shape_def split: if_splits)
  with h h' that show thesis by blast
qed

text \<open>Both loops of the allocator take a block out by unlinking it and toggling its pair bit.\<close>

lemma rep_remove:
  assumes rep: "rep s (G(d := insert k (G d)))" and d: "d < MAX_MEM_ORDER"
    and disj: "pages d k \<inter> free_pages G = {}"
  obtains b fas h where
    "detach_node (page_va (begin_ppn s) (k * 2 ^ d)) s = Inr (s\<lparr>list_mem := h\<rparr>)"
    "toggle_area d (drop_bit (d + 1) (drop_bit PAGE_SHIFT
       (PMA_VA2PA (page_va (begin_ppn s) (k * 2 ^ d))) - begin_ppn s)) (s\<lparr>list_mem := h\<rparr>) =
     Inr (b, s\<lparr>free_areas := fas, list_mem := h\<rparr>)"
    "rep (s\<lparr>free_areas := fas, list_mem := h\<rparr>) G" "length fas = MAX_MEM_ORDER"
proof -
  let ?b = "begin_ppn s" and ?F = "G(d := insert k (G d))"
  let ?pos = "drop_bit (d + 1) (drop_bit PAGE_SHIFT (PMA_VA2PA (page_va ?b (k * 2 ^ d))) - ?b)"
  have notin: "k \<notin> G d" by (rule disjoint_notin [OF disj d])
  have F: "?F(d := G d) = G" by auto
  have kin: "k \<in> ?F d" by simp
  have p: "k * 2 ^ d < npages s" by (rule rep_bound [OF rep d kin])
  have bnd: "(k + 1) * 2 ^ d \<le> npages s" by (rule rep_block [OF rep d kin])
  have "?F d - {k} = G d" using notin by auto
  then obtain h where h: "list_detach (page_va ?b (k * 2 ^ d)) (list_mem s) = Inr h"
    "lists_rep ?b (heads s) h (?F(d := G d))"
    using rep_lists_detach [OF rep d kin] by metis
  have "unat (word_of_nat (k * 2 ^ d) :: ulong) = k * 2 ^ d"
    by (rule unat_of_nat64) (use p rep_range [OF rep] in simp)
  then have pos: "unat ?pos = k div 2"
    unfolding page_va_pa [OF rep_range [OF rep] p] unat_shiftr by (simp only: block_pair)
  have X: "j \<in> G d \<longleftrightarrow> (if j = k then k \<notin> ?F d else j \<in> ?F d)" for j
    using notin by auto
  obtain fas where fas: "\<And>h'. toggle_area d ?pos (s\<lparr>list_mem := h'\<rparr>) =
      Inr (of_bool ((k \<in> G d) \<noteq> (buddy k \<in> G d)), s\<lparr>free_areas := fas, list_mem := h'\<rparr>)"
    "rep (s\<lparr>free_areas := fas, list_mem := h\<rparr>) (?F(d := G d))" "length fas = MAX_MEM_ORDER"
    by (rule rep_toggle [OF rep d pos bnd X h(2)]) blast
  show thesis
    by (rule that [OF _ fas(1)]) (use h(1) fas(2,3) in \<open>simp_all only: F detach_node_def bindR_simps\<close>)
qed

text \<open>One round of splitting leaves the right half free and goes on with the left half.\<close>

lemma split_round:
  assumes rep: "rep s (G(Suc d := insert k (G (Suc d))))" and inv: "buddy_inv (npages s) G"
    and D: "Suc d < MAX_MEM_ORDER" and disj: "pages (Suc d) k \<inter> free_pages G = {}"
    and ord: "Suc d = order + Suc n"
  obtains fas h where
    "split_loop (Suc n) order (page_va (begin_ppn s) (2 * k * 2 ^ d)) s =
       split_loop n order (page_va (begin_ppn s) (2 * k * 2 ^ d)) (s\<lparr>free_areas := fas, list_mem := h\<rparr>)"
    "rep (s\<lparr>free_areas := fas, list_mem := h\<rparr>)
       (G(d := insert (2 * k + 1) (insert (2 * k) (G d))))"
proof -
  let ?b = "begin_ppn s"
  have d: "d < MAX_MEM_ORDER" using D by simp
  obtain x fas h where rem:
    "detach_node (page_va ?b (k * 2 ^ Suc d)) s = Inr (s\<lparr>list_mem := h\<rparr>)"
    "toggle_area (Suc d) (drop_bit (Suc d + 1) (drop_bit PAGE_SHIFT
       (PMA_VA2PA (page_va ?b (k * 2 ^ Suc d))) - ?b)) (s\<lparr>list_mem := h\<rparr>) =
     Inr (x, s\<lparr>free_areas := fas, list_mem := h\<rparr>)"
    "rep (s\<lparr>free_areas := fas, list_mem := h\<rparr>) G" "length fas = MAX_MEM_ORDER"
    by (rule rep_remove [OF rep D disj])
  let ?s = "s\<lparr>free_areas := fas, list_mem := h\<rparr>"
  have "(k + 1) * 2 ^ Suc d \<le> npages s" by (rule rep_block [OF rep D]) simp
  then have bnd: "(2 * k + 1 + 1) * 2 ^ d \<le> npages ?s" by (simp add: algebra_simps)
  obtain h1 h2 where h12:
    "list_insert (heads ?s d) (page_va ?b (2 * k * 2 ^ d)) h = Inr h1"
    "list_insert (heads ?s d) (page_va ?b ((2 * k + 1) * 2 ^ d)) h1 = Inr h2"
    "rep (?s\<lparr>list_mem := h2\<rparr>) (G(d := insert (2 * k + 1) (insert (2 * k) (G d))))"
    by (rule rep_pair [OF rem(3) d bnd disj]) simp
  have left: "k * 2 ^ Suc d = 2 * k * 2 ^ d" by simp
  have "2 * k * 2 ^ d + 2 ^ d = (2 * k + 1) * 2 ^ d" by (simp add: algebra_simps)
  moreover have "(2 * k + 1) * 2 ^ d < npages s" using block_bound [OF pages_first bnd] by simp
  ultimately have right: "page_va ?b (k * 2 ^ Suc d) + push_bit PAGE_SHIFT (push_bit d 1) =
      page_va ?b ((2 * k + 1) * 2 ^ d)"
    using page_va_add [OF rep_range [OF rep], of "2 * k * 2 ^ d" d] unfolding left
    by (simp add: add.commute)
  have ins: "insert_node d (page_va ?b (k * 2 ^ Suc d)) ?s = Inr (s\<lparr>free_areas := fas, list_mem := h1\<rparr>)"
    "insert_node d (page_va ?b ((2 * k + 1) * 2 ^ d)) (s\<lparr>free_areas := fas, list_mem := h1\<rparr>) =
       Inr (s\<lparr>free_areas := fas, list_mem := h2\<rparr>)"
    using h12(1,2) rem(4) d unfolding left by (simp_all add: insert_node_def)
  have step: "split_loop (Suc n) order (page_va ?b (k * 2 ^ Suc d)) s =
      split_loop n order (page_va ?b (k * 2 ^ Suc d)) (s\<lparr>free_areas := fas, list_mem := h2\<rparr>)"
    unfolding split_loop.simps Let_def ord [symmetric] diff_Suc_1 rem(1,2) bindR_simps split right ins ..
  have "rep (s\<lparr>free_areas := fas, list_mem := h2\<rparr>) (G(d := insert (2 * k + 1) (insert (2 * k) (G d))))"
    using h12(3) by simp
  then show thesis by (rule that [OF step [unfolded left]])
qed

lemma split_loop_correct:
  assumes "rep s (G(order + n := insert k (G (order + n))))" "buddy_inv (npages s) G"
    and "order + n < MAX_MEM_ORDER" "pages (order + n) k \<inter> free_pages G = {}"
  shows "\<exists>fas h G'. split_loop n order (page_va (begin_ppn s) (k * 2 ^ (order + n))) s =
       Inr (s\<lparr>free_areas := fas, list_mem := h\<rparr>) \<and>
     rep (s\<lparr>free_areas := fas, list_mem := h\<rparr>) (G'(order := insert (k * 2 ^ n) (G' order))) \<and>
     buddy_inv (npages s) G' \<and> pages order (k * 2 ^ n) \<inter> free_pages G' = {} \<and>
     free_pages G' \<union> pages order (k * 2 ^ n) = free_pages G \<union> pages (order + n) k"
  using assms
proof (induction n arbitrary: s G k)
  case 0
  have "s = s\<lparr>free_areas := free_areas s, list_mem := list_mem s\<rparr>" by simp
  with 0 show ?case by (metis add_0_right mult.right_neutral power_0 split_loop.simps(1))
next
  case (Suc n)
  let ?d = "order + n"
  let ?G = "G(?d := insert (2 * k + 1) (G ?d))"
  note prems = Suc.prems [unfolded add_Suc_right]
  have d: "?d < MAX_MEM_ORDER" using prems(3) by simp
  have bnd: "(k + 1) * 2 ^ Suc ?d \<le> npages s" by (rule rep_block [OF prems(1,3)]) simp
  obtain fas h where step: "split_loop (Suc n) order (page_va (begin_ppn s) (2 * k * 2 ^ ?d)) s =
       split_loop n order (page_va (begin_ppn s) (2 * k * 2 ^ ?d)) (s\<lparr>free_areas := fas, list_mem := h\<rparr>)"
    "rep (s\<lparr>free_areas := fas, list_mem := h\<rparr>) (G(?d := insert (2 * k + 1) (insert (2 * k) (G ?d))))"
    by (rule split_round [OF prems(1,2,3,4)]) simp
  let ?s = "s\<lparr>free_areas := fas, list_mem := h\<rparr>"
  note sp = split_step [OF prems(2) d bnd prems(4)]
  have rep: "rep ?s (?G(?d := insert (2 * k) (?G ?d)))"
    using step(2) by (simp add: insert_commute)
  have inv: "buddy_inv (npages ?s) ?G" using sp(1) by simp
  have s: "begin_ppn ?s = begin_ppn s" "npages ?s = npages s"
    "\<And>f g. ?s\<lparr>free_areas := f, list_mem := g\<rparr> = s\<lparr>free_areas := f, list_mem := g\<rparr>" by simp_all
  have kn: "k * 2 ^ Suc n = 2 * k * 2 ^ n" "k * 2 ^ Suc ?d = 2 * k * 2 ^ ?d" by simp_all
  have un: "free_pages ?G \<union> pages ?d (2 * k) = free_pages G \<union> pages (Suc ?d) k"
    using sp(2) pages_Suc [of ?d "2 * k"] by (auto simp: buddy_def)
  show ?case unfolding add_Suc_right kn step(1) un [symmetric]
    by (rule Suc.IH [OF rep inv d sp(3), unfolded s])
qed

end
