(* ===== verification/Buddy_Correct.thy ===== *)
theory Buddy_Correct
  imports Buddy_Refine
begin

text \<open>
  Correctness of \<^verbatim>\<open>kmem_alloc_pages\<close>, \<^verbatim>\<open>kmem_free_page\<close> and \<^verbatim>\<open>kmem_free_pages\<close>
  as their callers see them: on states that satisfy the invariant of the allocator, with the
  page manager's lock free.
\<close>

section \<open>The invariant\<close>

definition kmem_inv :: "'a kmem_node_scheme \<Rightarrow> blocks \<Rightarrow> bool" where
  "kmem_inv s F \<longleftrightarrow> rep s F \<and> buddy_inv (npages s) F \<and>
     (\<forall>p<npages s. bm (mem_map s) p \<longleftrightarrow> p \<notin> free_pages F)"

definition lock_free :: "'a kmem_node_scheme \<Rightarrow> bool" where
  "lock_free s \<longleftrightarrow> cpu_ok s \<and> locked (page_manager_lock s) = 0"

definition kmem_ok :: "'a kmem_node_scheme \<Rightarrow> bool" where
  "kmem_ok s \<longleftrightarrow> (\<exists>F. kmem_inv s F) \<and> lock_free s"

definition free_set :: "'a kmem_node_scheme \<Rightarrow> nat set" where
  "free_set s = {p. p < npages s \<and> \<not> bm (mem_map s) p}"

text \<open>What an operation of the page allocator leaves alone.\<close>

definition page_frame :: "'a kmem_node_scheme \<Rightarrow> 'a kmem_node_scheme \<Rightarrow> bool" where
  "page_frame s t \<longleftrightarrow> cpu_eq s t \<and> (\<exists>mp lk fas h x H. t = s\<lparr>sstatus := x, harts := H, mem_map := mp,
     page_manager_lock := lk, free_areas := fas, list_mem := h\<rparr>)"

lemma kmem_inv_free_set: "kmem_inv s F \<Longrightarrow> free_set s = free_pages F"
  by (auto simp: kmem_inv_def free_set_def dest: free_pages_bound)

lemma page_frame_fields:
  assumes "page_frame s t"
  shows "begin_ppn t = begin_ppn s" "num_ppn t = num_ppn s" "cpu_eq s t"
    "kmem_node.more t = kmem_node.more s"
  using assms by (auto simp: page_frame_def)

lemma page_frame_trans:
  assumes "page_frame s t" "page_frame t u" "cpu_ok s"
  shows "page_frame s u"
proof -
  have "cpu_eq s u" using assms cpu_eq_trans by (auto simp: page_frame_def)
  moreover from assms(1,2) obtain mp lk fas h x H where
    "u = s\<lparr>sstatus := x, harts := H, mem_map := mp, page_manager_lock := lk, free_areas := fas, list_mem := h\<rparr>"
    by (force simp: page_frame_def)
  ultimately show ?thesis unfolding page_frame_def by blast
qed

text \<open>The critical section every operation runs in.\<close>

lemma page_manager_section:
  assumes "lock_free s"
  obtains x H lk u where
    "acquire_page_manager s = Inr (s\<lparr>sstatus := x, harts := H, page_manager_lock := lk\<rparr>)"
    "\<And>mp fas h. \<exists>t. release_page_manager (s\<lparr>sstatus := x, harts := H, page_manager_lock := lk,
        mem_map := mp, free_areas := fas, list_mem := h\<rparr>) = Inr t \<and> page_frame s t \<and> lock_free t \<and>
        mem_map t = mp \<and> free_areas t = fas \<and> list_mem t = h"
proof -
  let ?lk = "page_manager_lock s"
  have ok: "cpu_ok s" "locked ?lk = 0" using assms by (simp_all add: lock_free_def)
  obtain x H H' where l:
    "spinlock_acquire ?lk s =
       Inr (?lk\<lparr>locked := 1, lk_hart := Some (current_hart s)\<rparr>, s\<lparr>sstatus := x, harts := H\<rparr>)"
    "\<And>t :: 'a kmem_node_scheme. cpu_eq (s\<lparr>sstatus := x, harts := H\<rparr>) t \<Longrightarrow>
       spinlock_release (?lk\<lparr>locked := 1, lk_hart := Some (current_hart s)\<rparr>) t =
       Inr (?lk\<lparr>locked := 0, lk_hart := None\<rparr>, t\<lparr>sstatus := sstatus s, harts := H'\<rparr>)"
    "\<And>t :: 'a kmem_node_scheme. tp t = tp s \<Longrightarrow> sstatus t = sstatus s \<Longrightarrow> harts t = H' \<Longrightarrow> cpu_eq s t"
    by (rule lock_roundtrip [OF ok]) blast
  let ?lk' = "?lk\<lparr>locked := 1, lk_hart := Some (current_hart s)\<rparr>"
  show thesis
  proof (rule that)
    show "acquire_page_manager s = Inr (s\<lparr>sstatus := x, harts := H, page_manager_lock := ?lk'\<rparr>)"
      by (simp add: acquire_page_manager_def l(1))
    fix mp fas h
    let ?u = "s\<lparr>sstatus := x, harts := H, page_manager_lock := ?lk', mem_map := mp, free_areas := fas, list_mem := h\<rparr>"
    let ?t = "s\<lparr>sstatus := sstatus s, harts := H', mem_map := mp,
      page_manager_lock := ?lk\<lparr>locked := 0, lk_hart := None\<rparr>, free_areas := fas, list_mem := h\<rparr>"
    have "cpu_eq (s\<lparr>sstatus := x, harts := H\<rparr>) ?u" by (rule cpu_eq_same) simp_all
    from l(2) [OF this] have "release_page_manager ?u = Inr ?t" by (simp add: release_page_manager_def)
    moreover have eq: "cpu_eq s ?t" by (rule l(3)) simp_all
    then have "page_frame s ?t" unfolding page_frame_def by blast
    moreover have "lock_free ?t" using cpu_eq_ok [OF eq ok(1)] by (simp add: lock_free_def)
    ultimately show "\<exists>t. release_page_manager ?u = Inr t \<and> page_frame s t \<and> lock_free t \<and>
        mem_map t = mp \<and> free_areas t = fas \<and> list_mem t = h"
      by (intro exI [of _ ?t] conjI) simp_all
  qed
qed

text \<open>The representation reads the bitmap only for its length.\<close>

lemma rep_cong:
  assumes "rep s F" "begin_ppn t = begin_ppn s" "num_ppn t = num_ppn s"
    "length (mem_map t) = length (mem_map s)" "free_areas t = free_areas s" "list_mem t = list_mem s"
  shows "rep t F"
  using assms unfolding rep_def shape_def by simp

section \<open>Freeing a page\<close>

lemma free_page_step:
  assumes rep: "rep s F" and inv: "buddy_inv (npages s) F" and p: "p < npages s"
    and used: "bm (mem_map s) p" "p \<notin> free_pages F" and lk: "lock_free s"
  obtains t F' where "kmem_free_page (page_va (begin_ppn s) p) s = Inr t" "page_frame s t" "lock_free t"
    "rep t F'" "buddy_inv (npages t) F'" "free_pages F' = insert p (free_pages F)"
    "mem_map t = bm_put (mem_map s) p False"
proof -
  let ?b = "begin_ppn s" and ?mp = "bm_put (mem_map s) p False"
  obtain x H lk where sec:
    "acquire_page_manager s = Inr (s\<lparr>sstatus := x, harts := H, page_manager_lock := lk\<rparr>)"
    "\<And>mp fas h. \<exists>t. release_page_manager (s\<lparr>sstatus := x, harts := H, page_manager_lock := lk,
        mem_map := mp, free_areas := fas, list_mem := h\<rparr>) = Inr t \<and> page_frame s t \<and> lock_free t \<and>
        mem_map t = mp \<and> free_areas t = fas \<and> list_mem t = h"
    by (rule page_manager_section [OF lk]) blast
  let ?s = "s\<lparr>sstatus := x, harts := H, page_manager_lock := lk, mem_map := ?mp\<rparr>"
  have len: "p < 8 * length (mem_map s)" using rep p by (simp add: rep_def shape_def)
  have up: "unat (word_of_nat p :: ulong) = p"
    by (rule unat_of_nat64) (use p rep_range [OF rep] in simp)
  have clr: "test_and_clear_bit (mem_map s) (word_of_nat p) = Inr (1, ?mp)"
    using test_and_clear_bit_eq [of "word_of_nat p" "mem_map s"] len used(1) by (simp add: up)
  have rep': "rep ?s F" by (rule rep_cong [OF rep]) simp_all
  have "\<exists>fas h F'. free_loop 0 (word_of_nat p) ?s = Inr (?s\<lparr>free_areas := fas, list_mem := h\<rparr>) \<and>
     rep (?s\<lparr>free_areas := fas, list_mem := h\<rparr>) F' \<and> buddy_inv (npages ?s) F' \<and>
     free_pages F' = free_pages F \<union> pages 0 (p div 2 ^ 0)"
    by (rule free_loop_correct [OF rep'])
      (use inv p used(2) in \<open>auto simp: MAX_MEM_ORDER_def pages_def\<close>)
  then obtain fas h F' where f: "free_loop 0 (word_of_nat p) ?s = Inr (?s\<lparr>free_areas := fas, list_mem := h\<rparr>)"
    "rep (?s\<lparr>free_areas := fas, list_mem := h\<rparr>) F'" "buddy_inv (npages s) F'"
    "free_pages F' = insert p (free_pages F)"
    by (auto simp: pages_def)
  obtain t where t: "release_page_manager (?s\<lparr>free_areas := fas, list_mem := h\<rparr>) = Inr t"
    "page_frame s t" "lock_free t" "mem_map t = ?mp" "free_areas t = fas" "list_mem t = h"
    using sec(2) [where mp = ?mp and fas = fas and h = h] by auto
  have run: "kmem_free_page (page_va ?b p) s = Inr t"
    using page_va_pa [OF rep_range [OF rep] p] page_va_aligned [of ?b p]
    by (simp add: kmem_free_page_def Let_def sec(1) clr f(1) t(1))
  have rept: "rep t F'" by (rule rep_cong [OF f(2)]) (use page_frame_fields [OF t(2)] t in simp_all)
  show thesis
    by (rule that [OF run t(2,3) rept _ f(4) t(4)]) (use f(3) page_frame_fields [OF t(2)] in simp)
qed

section \<open>Allocating a block\<close>

lemma pages_range: "p \<in> pages d k \<longleftrightarrow> k * 2 ^ d \<le> p \<and> p < (k + 1) * 2 ^ d"
proof -
  have "(0::nat) < 2 ^ d" by simp
  then show ?thesis unfolding pages_def mem_Collect_eq
    by (metis Suc_eq_plus1 div_less_iff_less_mult less_Suc_eq_le less_eq_div_iff_mult_less_eq nle_le order.antisym)
qed

lemma set_block_bits:
  assumes "(k + 1) * 2 ^ d \<le> 8 * length mp" "(k + 1) * 2 ^ d < 2 ^ 64" "\<forall>p\<in>pages d k. \<not> bm mp p"
  obtains mp' where
    "set_bits msg (word_of_nat (k * 2 ^ d)) (word_of_nat (k * 2 ^ d) + push_bit d 1) mp = Inr mp'"
    "length mp' = length mp" "\<And>p. bm mp' p \<longleftrightarrow> bm mp p \<or> p \<in> pages d k"
proof -
  let ?i = "word_of_nat (k * 2 ^ d) :: ulong"
  let ?e = "?i + push_bit d 1"
  have e: "?e = word_of_nat ((k + 1) * 2 ^ d)" by (simp add: algebra_simps)
  have "k * 2 ^ d \<le> (k + 1) * 2 ^ d" by simp
  then have i: "unat ?i = k * 2 ^ d" using assms(2) by (intro unat_of_nat64) linarith
  have ue: "unat ?e = (k + 1) * 2 ^ d" unfolding e by (rule unat_of_nat64 [OF assms(2)])
  have "\<not> (\<exists>j. unat ?i \<le> j \<and> j < unat ?e \<and> bm mp j)"
    using assms(3) unfolding i ue by (meson pages_range)
  moreover have "unat ?i \<le> unat ?e" "unat ?e \<le> 8 * length mp" unfolding i ue using assms(1) by simp_all
  ultimately have "\<exists>mp'. set_bits msg ?i ?e mp = Inr mp' \<and> length mp' = length mp \<and>
      (\<forall>j. bm mp' j \<longleftrightarrow> bm mp j \<or> unat ?i \<le> j \<and> j < unat ?e)"
    using set_bits_spec [of ?i ?e mp msg] by presburger
  then show thesis using that unfolding i ue pages_range by blast
qed

lemma take_block_correct:
  assumes inv: "kmem_inv s F" and c: "order \<le> c" "c < MAX_MEM_ORDER" and j: "j \<in> F c"
    and nxt: "nxt (list_mem s (heads s c)) = page_va (begin_ppn s) (j * 2 ^ c)"
  obtains k mp fas h F' where
    "take_block c order s = Inr (page_va (begin_ppn s) (k * 2 ^ order),
       s\<lparr>mem_map := mp, free_areas := fas, list_mem := h\<rparr>)"
    "kmem_inv (s\<lparr>mem_map := mp, free_areas := fas, list_mem := h\<rparr>) F'"
    "pages order k \<subseteq> free_pages F" "free_pages F' = free_pages F - pages order k"
    "(k + 1) * 2 ^ order \<le> npages s"
proof -
  let ?b = "begin_ppn s" and ?n = "c - order" and ?G = "F(c := F c - {j})"
  let ?k = "j * 2 ^ ?n"
  have rep: "rep s F" and bi: "buddy_inv (npages s) F"
    and bits: "\<forall>p<npages s. bm (mem_map s) p \<longleftrightarrow> p \<notin> free_pages F"
    using inv by (auto simp: kmem_inv_def)
  note rem = remove_block [OF bi c(2) j]
  have F: "?G(order + ?n := insert j (?G (order + ?n))) = F"
    using c(1) j by (simp add: insert_absorb)
  have pj: "pages c j \<subseteq> free_pages F" using c(2) j by (auto simp: free_pages_def pages_def)
  have "\<exists>fas h G'. split_loop ?n order (page_va ?b (j * 2 ^ (order + ?n))) s =
       Inr (s\<lparr>free_areas := fas, list_mem := h\<rparr>) \<and>
     rep (s\<lparr>free_areas := fas, list_mem := h\<rparr>) (G'(order := insert ?k (G' order))) \<and>
     buddy_inv (npages s) G' \<and> pages order ?k \<inter> free_pages G' = {} \<and>
     free_pages G' \<union> pages order ?k = free_pages ?G \<union> pages (order + ?n) j"
    by (rule split_loop_correct [of s ?G]) (use rep c rem in \<open>simp_all only: F, auto\<close>)
  then obtain fas h G' where sp:
    "split_loop ?n order (page_va ?b (j * 2 ^ c)) s = Inr (s\<lparr>free_areas := fas, list_mem := h\<rparr>)"
    "rep (s\<lparr>free_areas := fas, list_mem := h\<rparr>) (G'(order := insert ?k (G' order)))"
    "buddy_inv (npages s) G'" "pages order ?k \<inter> free_pages G' = {}"
    "free_pages G' \<union> pages order ?k = free_pages ?G \<union> pages c j"
    using c(1) by auto
  let ?s = "s\<lparr>free_areas := fas, list_mem := h\<rparr>"
  have o: "order < MAX_MEM_ORDER" using c by simp
  obtain x fas' h' where t:
    "detach_node (page_va (begin_ppn ?s) (?k * 2 ^ order)) ?s = Inr (?s\<lparr>list_mem := h'\<rparr>)"
    "toggle_area order (drop_bit (order + 1) (drop_bit PAGE_SHIFT
       (PMA_VA2PA (page_va (begin_ppn ?s) (?k * 2 ^ order))) - begin_ppn ?s)) (?s\<lparr>list_mem := h'\<rparr>) =
     Inr (x, ?s\<lparr>free_areas := fas', list_mem := h'\<rparr>)"
    "rep (?s\<lparr>free_areas := fas', list_mem := h'\<rparr>) G'"
    by (rule rep_remove [OF sp(2) o sp(4)])
  have addr: "j * 2 ^ c = ?k * 2 ^ order" using c(1) by (simp flip: power_add)
  have bnd: "(?k + 1) * 2 ^ order \<le> npages s" using rep_block [OF sp(2) o] by simp
  have sub: "pages order ?k \<subseteq> free_pages F" and G': "free_pages G' = free_pages F - pages order ?k"
    using sp(4,5) rem(2) pj by auto
  have clear: "\<forall>p\<in>pages order ?k. \<not> bm (mem_map s) p"
    using bits sub block_bound [OF _ bnd] by blast
  have len: "npages s \<le> 8 * length (mem_map s)" "(?k + 1) * 2 ^ order < 2 ^ 64"
    using rep bnd by (auto simp: rep_def shape_def)
  obtain mp where mp: "set_bits ''kmem_alloc_pages - allocated'' (word_of_nat (?k * 2 ^ order))
      (word_of_nat (?k * 2 ^ order) + push_bit order 1) (mem_map s) = Inr mp"
    "length mp = length (mem_map s)" "\<And>p. bm mp p \<longleftrightarrow> bm (mem_map s) p \<or> p \<in> pages order ?k"
    by (rule set_block_bits [of ?k order "mem_map s"]) (use bnd len clear in auto)
  have pn: "drop_bit PAGE_SHIFT (PMA_VA2PA (page_va ?b (?k * 2 ^ order))) - ?b = word_of_nat (?k * 2 ^ order)"
    by (rule page_va_pa [OF rep_range [OF rep] block_bound [OF pages_first bnd]])
  have hd: "heads s c = free_page_list (free_areas s ! c)" "c < length (free_areas s)"
    using rep c by (simp_all add: rep_def shape_def)
  have "take_block c order s = Inr (page_va ?b (?k * 2 ^ order),
      s\<lparr>mem_map := mp, free_areas := fas', list_mem := h'\<rparr>)"
    using c(1) hd nxt sp(1) t(1,2) mp(1) pn unfolding addr
    by (simp add: take_block_def Let_def del: of_nat_mult)
  moreover have "rep (s\<lparr>mem_map := mp, free_areas := fas', list_mem := h'\<rparr>) G'"
    by (rule rep_cong [OF t(3)]) (simp_all add: mp(2))
  then have "kmem_inv (s\<lparr>mem_map := mp, free_areas := fas', list_mem := h'\<rparr>) G'"
    using sp(3) bits mp(3) G' by (auto simp: kmem_inv_def)
  ultimately show thesis using sub G' bnd by (rule that)
qed

text \<open>
  The search takes the first order with a free block; when no order from \<open>c\<close> on has one,
  it answers \<^verbatim>\<open>NULL\<close> and changes nothing.
\<close>

lemma alloc_search_correct:
  assumes inv: "kmem_inv s F" and "order \<le> c"
  shows "(\<exists>k mp fas h F'. alloc_search c order s = Inr (page_va (begin_ppn s) (k * 2 ^ order),
       s\<lparr>mem_map := mp, free_areas := fas, list_mem := h\<rparr>) \<and>
       kmem_inv (s\<lparr>mem_map := mp, free_areas := fas, list_mem := h\<rparr>) F' \<and>
       pages order k \<subseteq> free_pages F \<and> free_pages F' = free_pages F - pages order k \<and>
       (k + 1) * 2 ^ order \<le> npages s) \<or>
    alloc_search c order s = Inr (0, s) \<and> (\<forall>e. c \<le> e \<and> e < MAX_MEM_ORDER \<longrightarrow> F e = {})"
  using assms(2)
proof (induction "MAX_MEM_ORDER - c" arbitrary: c)
  case 0
  then show ?case by (auto simp: alloc_search.simps)
next
  case (Suc n)
  have c: "c < MAX_MEM_ORDER" using Suc.hyps(2) by simp
  have rep: "rep s F" and len: "c < length (free_areas s)"
    and lists: "lists_rep (begin_ppn s) (heads s) (list_mem s) F"
    using inv c by (auto simp: kmem_inv_def rep_def shape_def)
  note first = lists_first [OF lists c]
  show ?case
  proof (cases "nxt (list_mem s (heads s c)) = 0")
    case True
    with first(1) have "F c = {}" by simp
    then have none: "(\<forall>e. c \<le> e \<and> e < MAX_MEM_ORDER \<longrightarrow> F e = {}) \<longleftrightarrow>
        (\<forall>e. Suc c \<le> e \<and> e < MAX_MEM_ORDER \<longrightarrow> F e = {})"
      by (metis Suc_leD Suc_leI le_neq_implies_less)
    have step: "alloc_search c order s = alloc_search (Suc c) order s"
      using c len True by (simp add: alloc_search.simps [of c])
    show ?thesis unfolding step none by (rule Suc.hyps(1)) (use Suc.hyps(2) Suc.prems in auto)
  next
    case False
    then obtain j where j: "j \<in> F c" "nxt (list_mem s (heads s c)) = page_va (begin_ppn s) (j * 2 ^ c)"
      using first(2) by blast
    have step: "alloc_search c order s = take_block c order s"
      using c len False by (simp add: alloc_search.simps [of c])
    show ?thesis unfolding step
      by (rule disjI1, rule take_block_correct [OF inv Suc.prems c j], intro exI conjI)
  qed
qed

section \<open>The operations as callers see them\<close>

lemma free_page_correct:
  assumes ok: "kmem_ok s" and p: "p < npages s" "p \<notin> free_set s"
  shows "\<exists>t. kmem_free_page (page_va (begin_ppn s) p) s = Inr t \<and> kmem_ok t \<and>
    free_set t = insert p (free_set s) \<and> page_frame s t"
proof -
  obtain F where inv: "kmem_inv s F" and lk: "lock_free s" using ok by (auto simp: kmem_ok_def)
  note fs = kmem_inv_free_set [OF inv]
  have rep: "rep s F" "buddy_inv (npages s) F" and bits: "\<forall>p<npages s. bm (mem_map s) p \<longleftrightarrow> p \<notin> free_pages F"
    using inv by (auto simp: kmem_inv_def)
  have used: "bm (mem_map s) p" "p \<notin> free_pages F" using p bits fs by auto
  obtain t F' where t: "kmem_free_page (page_va (begin_ppn s) p) s = Inr t" "page_frame s t" "lock_free t"
    "rep t F'" "buddy_inv (npages t) F'" "free_pages F' = insert p (free_pages F)"
    "mem_map t = bm_put (mem_map s) p False"
    by (rule free_page_step [OF rep p(1) used lk])
  have "p < 8 * length (mem_map s)" using rep(1) p(1) by (simp add: rep_def shape_def)
  then have "kmem_inv t F'"
    using t bits page_frame_fields [OF t(2)] by (auto simp: kmem_inv_def bm_bm_put)
  moreover from this have "free_set t = insert p (free_set s)"
    using kmem_inv_free_set t(6) fs by metis
  ultimately show ?thesis using t(1,2,3) by (auto simp: kmem_ok_def)
qed

lemma alloc_pages_correct:
  assumes ok: "kmem_ok s" and order: "unat order < MAX_MEM_ORDER"
  shows "\<exists>a t. kmem_alloc_pages order s = Inr (a, t) \<and> kmem_ok t \<and> page_frame s t \<and>
    (if \<exists>k. pages (unat order) k \<subseteq> free_set s
     then \<exists>k. a = page_va (begin_ppn s) (k * 2 ^ unat order) \<and> (k + 1) * 2 ^ unat order \<le> npages s \<and>
       pages (unat order) k \<subseteq> free_set s \<and> free_set t = free_set s - pages (unat order) k
     else a = 0 \<and> free_set t = free_set s)"
proof -
  let ?d = "unat order"
  obtain F where inv: "kmem_inv s F" and lk: "lock_free s" using ok by (auto simp: kmem_ok_def)
  note fs = kmem_inv_free_set [OF inv]
  obtain x H lk where sec:
    "acquire_page_manager s = Inr (s\<lparr>sstatus := x, harts := H, page_manager_lock := lk\<rparr>)"
    "\<And>mp fas h. \<exists>t. release_page_manager (s\<lparr>sstatus := x, harts := H, page_manager_lock := lk,
        mem_map := mp, free_areas := fas, list_mem := h\<rparr>) = Inr t \<and> page_frame s t \<and> lock_free t \<and>
        mem_map t = mp \<and> free_areas t = fas \<and> list_mem t = h"
    by (rule page_manager_section [OF lk]) blast
  let ?s = "s\<lparr>sstatus := x, harts := H, page_manager_lock := lk\<rparr>"
  have inv': "kmem_inv ?s F" using inv rep_cong [of s F ?s] by (auto simp: kmem_inv_def)
  have finish: "\<exists>t. release_page_manager (?s\<lparr>mem_map := mp, free_areas := fas, list_mem := h\<rparr>) = Inr t \<and>
      kmem_ok t \<and> page_frame s t \<and> free_set t = free_pages F'"
    if "kmem_inv (?s\<lparr>mem_map := mp, free_areas := fas, list_mem := h\<rparr>) F'" for mp fas h F'
  proof -
    obtain t where t: "release_page_manager (?s\<lparr>mem_map := mp, free_areas := fas, list_mem := h\<rparr>) = Inr t"
      "page_frame s t" "lock_free t" "mem_map t = mp" "free_areas t = fas" "list_mem t = h"
      using sec(2) [where mp = mp and fas = fas and h = h] by auto
    have "kmem_inv t F'"
      using that t rep_cong [of "?s\<lparr>mem_map := mp, free_areas := fas, list_mem := h\<rparr>" F' t]
        page_frame_fields [OF t(2)] by (auto simp: kmem_inv_def)
    then show ?thesis using t kmem_inv_free_set by (auto simp: kmem_ok_def)
  qed
  have run: "kmem_alloc_pages order s = Inr (a, t)"
    if "alloc_search ?d ?d ?s = Inr (a, u)" "release_page_manager u = Inr t" for a t u
    using order that by (simp add: kmem_alloc_pages_def sec(1))
  from alloc_search_correct [OF inv' order_refl, of ?d] show ?thesis
  proof (elim disjE exE conjE)
    fix k mp fas h F'
    assume a: "alloc_search ?d ?d ?s = Inr (page_va (begin_ppn ?s) (k * 2 ^ ?d),
        ?s\<lparr>mem_map := mp, free_areas := fas, list_mem := h\<rparr>)"
      "kmem_inv (?s\<lparr>mem_map := mp, free_areas := fas, list_mem := h\<rparr>) F'"
      "pages ?d k \<subseteq> free_pages F" "free_pages F' = free_pages F - pages ?d k" "(k + 1) * 2 ^ ?d \<le> npages ?s"
    obtain t where "release_page_manager (?s\<lparr>mem_map := mp, free_areas := fas, list_mem := h\<rparr>) = Inr t"
      "kmem_ok t" "page_frame s t" "free_set t = free_pages F'"
      using finish [OF a(2)] by blast
    with run [OF a(1) this(1)] show ?thesis using a(3,4,5) fs by auto
  next
    assume a: "alloc_search ?d ?d ?s = Inr (0, ?s)" "\<forall>e. ?d \<le> e \<and> e < MAX_MEM_ORDER \<longrightarrow> F e = {}"
    have none: "\<not> (\<exists>k. pages ?d k \<subseteq> free_set s)"
      using coalesced [OF _ order] inv a(2) unfolding fs kmem_inv_def by blast
    have s: "?s\<lparr>mem_map := mem_map ?s, free_areas := free_areas ?s, list_mem := list_mem ?s\<rparr> = ?s"
      by simp
    obtain t where "release_page_manager ?s = Inr t" "kmem_ok t" "page_frame s t" "free_set t = free_pages F"
      using finish [where mp = "mem_map ?s" and fas = "free_areas ?s" and h = "list_mem ?s" and F' = F] inv' unfolding s by blast
    with run [OF a(1) this(1)] none fs show ?thesis by auto
  qed
qed

end
