(* ===== verification/Page_Alloc.thy ===== *)
theory Page_Alloc
  imports Buddy_Correct
begin

text \<open>
  The page allocator as an interface. The locale \<open>page_allocator\<close> is what the object
  allocator, the page tables and the process code rely on: what allocation and release do to
  the set of free pages. Its lemmas hold for every such allocator; the interpretation at
  \<^verbatim>\<open>kmem_alloc_pages\<close> and \<^verbatim>\<open>kmem_free_page\<close> gives them for the kernel's.
\<close>

section \<open>The contract\<close>

locale page_allocator =
  fixes ok :: "'s \<Rightarrow> bool" and total :: "'s \<Rightarrow> nat" and free :: "'s \<Rightarrow> nat set"
    and same :: "'s \<Rightarrow> 's \<Rightarrow> bool" and addr_of :: "'s \<Rightarrow> nat \<Rightarrow> addr"
    and alloc :: "ulong \<Rightarrow> 's \<Rightarrow> (addr \<times> 's) res" and release :: "addr \<Rightarrow> 's \<Rightarrow> 's res"
  assumes alloc_law: "ok s \<Longrightarrow> unat order < MAX_MEM_ORDER \<Longrightarrow>
      \<exists>a t. alloc order s = Inr (a, t) \<and> ok t \<and> same s t \<and>
        (if \<exists>k. pages (unat order) k \<subseteq> free s
         then \<exists>k. a = addr_of s (k * 2 ^ unat order) \<and> (k + 1) * 2 ^ unat order \<le> total s \<and>
           pages (unat order) k \<subseteq> free s \<and> free t = free s - pages (unat order) k
         else a = 0 \<and> free t = free s)"
    and release_law: "ok s \<Longrightarrow> p < total s \<Longrightarrow> p \<notin> free s \<Longrightarrow>
      \<exists>t. release (addr_of s p) s = Inr t \<and> ok t \<and> free t = insert p (free s) \<and> same s t"
    and same_refl: "same s s"
    and same_trans: "ok s \<Longrightarrow> same s t \<Longrightarrow> same t u \<Longrightarrow> same s u"
    and same_addr: "same s t \<Longrightarrow> addr_of t = addr_of s"
    and same_total: "same s t \<Longrightarrow> total t = total s"
    and free_bound: "ok s \<Longrightarrow> p \<in> free s \<Longrightarrow> p < total s"
    and addr_next: "ok s \<Longrightarrow> Suc p < total s \<Longrightarrow> addr_of s p + PAGE_SIZE = addr_of s (Suc p)"
begin

lemma alloc_total:
  assumes "ok s" "unat order < MAX_MEM_ORDER"
  obtains (block) k t where "alloc order s = Inr (addr_of s (k * 2 ^ unat order), t)" "ok t" "same s t"
      "(k + 1) * 2 ^ unat order \<le> total s" "pages (unat order) k \<subseteq> free s"
      "free t = free s - pages (unat order) k"
  | (full) t where "alloc order s = Inr (0, t)" "ok t" "same s t" "free t = free s"
      "\<And>k. \<not> pages (unat order) k \<subseteq> free s"
  using alloc_law [OF assms] by (auto split: if_splits)

text \<open>Any loop that releases a page and goes on with the next one frees the whole run.\<close>

lemma release_run:
  assumes loop: "\<And>a s. run 0 a s = Inr s"
      "\<And>n a s. run (Suc n) a s = bindR (release a s) (run n (a + PAGE_SIZE))"
    and "ok s" "p + n \<le> total s" "{p..<p + n} \<inter> free s = {}"
  shows "\<exists>t. run n (addr_of s p) s = Inr t \<and> ok t \<and> free t = free s \<union> {p..<p + n} \<and> same s t"
  using assms(3-)
proof (induction n arbitrary: s p)
  case 0
  then show ?case by (simp add: loop(1) same_refl)
next
  case (Suc n)
  have "p \<in> {p..<p + Suc n}" by simp
  then have p: "p < total s" "p \<notin> free s" using Suc.prems(2,3) by (simp, blast)
  obtain t where t: "release (addr_of s p) s = Inr t" "ok t" "free t = insert p (free s)" "same s t"
    using release_law [OF Suc.prems(1) p] by blast
  have run: "run (Suc n) (addr_of s p) s = run n (addr_of s p + PAGE_SIZE) t"
    unfolding loop(2) t(1) by simp
  show ?case
  proof (cases n)
    case 0
    with t show ?thesis unfolding run by (auto simp: loop(1))
  next
    case (Suc m)
    have "{Suc p..<Suc p + n} \<subseteq> {p..<p + Suc n}" by auto
    then have rest: "{Suc p..<Suc p + n} \<inter> free s = {}" using Suc.prems(3) by blast
    have next_page: "addr_of s p + PAGE_SIZE = addr_of t (Suc p)"
      using addr_next [OF Suc.prems(1), of p] Suc.prems(2) Suc same_addr [OF t(4)] by simp
    obtain u where u: "run n (addr_of t (Suc p)) t = Inr u" "ok u"
      "free u = free t \<union> {Suc p..<Suc p + n}" "same t u"
      using Suc.IH [of t "Suc p"] Suc.prems(2) rest t(2,3) same_total [OF t(4)] by auto
    have "{p..<p + Suc n} = insert p {Suc p..<Suc p + n}" by auto
    then have "free u = free s \<union> {p..<p + Suc n}" unfolding u(3) t(3) by simp
    with u(1,2) same_trans [OF Suc.prems(1) t(4) u(4)] show ?thesis unfolding run next_page by blast
  qed
qed

lemma release_block:
  assumes loop: "\<And>a s. run 0 a s = Inr s"
      "\<And>n a s. run (Suc n) a s = bindR (release a s) (run n (a + PAGE_SIZE))"
    and ok: "ok s" and k: "(k + 1) * 2 ^ d \<le> total s" "pages d k \<inter> free s = {}"
  shows "\<exists>t. run (2 ^ d) (addr_of s (k * 2 ^ d)) s = Inr t \<and> ok t \<and> free t = free s \<union> pages d k \<and> same s t"
proof -
  have pages: "pages d k = {k * 2 ^ d..<k * 2 ^ d + 2 ^ d}" by (auto simp: pages_range algebra_simps)
  have "k * 2 ^ d + 2 ^ d \<le> total s" using k(1) by (simp add: algebra_simps)
  from release_run [OF loop ok this k(2) [unfolded pages]] show ?thesis unfolding pages .
qed

end

section \<open>The kernel's allocator provides it\<close>

lemma page_va_next:
  assumes "range_ok b n" "Suc p < n"
  shows "page_va b p + PAGE_SIZE = page_va b (Suc p)"
  using page_va_add [of b n p 0] assms by (simp add: PAGE_SIZE_def PAGE_SHIFT_def)

lemma kmem_ok_range: "kmem_ok s \<Longrightarrow> range_ok (begin_ppn s) (npages s)"
  using rep_range by (auto simp: kmem_ok_def kmem_inv_def)

interpretation pa: page_allocator kmem_ok npages free_set page_frame "\<lambda>s. page_va (begin_ppn s)"
  kmem_alloc_pages kmem_free_page
proof (unfold_locales, goal_cases)
  case (1 s order)
  then show ?case by (rule alloc_pages_correct)
next
  case (2 s p)
  then show ?case by (rule free_page_correct)
next
  case (3 s)
  have "s = s\<lparr>sstatus := sstatus s, harts := harts s, mem_map := mem_map s,
      page_manager_lock := page_manager_lock s, free_areas := free_areas s, list_mem := list_mem s\<rparr>"
    by simp
  with cpu_eq_refl [of s] show ?case unfolding page_frame_def by blast
next
  case (4 s t u)
  then show ?case using page_frame_trans by (auto simp: kmem_ok_def lock_free_def)
next
  case (8 s p)
  then show ?case using page_va_next [OF kmem_ok_range] by blast
qed (auto simp: page_frame_fields free_set_def)

text \<open>\<^verbatim>\<open>kmem_free_pages\<close> is such a releasing loop.\<close>

lemma free_block_correct:
  assumes "kmem_ok s" "(k + 1) * 2 ^ d \<le> npages s" "pages d k \<inter> free_set s = {}"
  shows "\<exists>t. kmem_free_pages (page_va (begin_ppn s) (k * 2 ^ d)) (push_bit d 1) s = Inr t \<and> kmem_ok t \<and>
    free_set t = free_set s \<union> pages d k \<and> page_frame s t"
proof -
  have "(2::nat) ^ d \<le> (k + 1) * 2 ^ d" by simp
  also have "\<dots> \<le> 2 ^ 26" using assms(2) kmem_ok_range [OF assms(1)] by simp
  finally have "unat (word_of_nat (2 ^ d) :: ulong) = 2 ^ d" by (intro unat_of_nat64) simp
  then have "unat (push_bit d 1 :: ulong) = 2 ^ d" by simp
  then show ?thesis using pa.release_block [OF free_pages_loop.simps assms] page_va_aligned
    by (simp add: kmem_free_pages_def)
qed

section \<open>Histories of allocations\<close>

text \<open>
  A client holds a set \<open>L\<close> of live blocks \<open>(d, k)\<close>. It allocates blocks, is told that there
  is none, or gives a block back.
\<close>

inductive client_step ::
  "'a kmem_node_scheme \<times> (nat \<times> nat) set \<Rightarrow> 'a kmem_node_scheme \<times> (nat \<times> nat) set \<Rightarrow> bool" where
  client_alloc: "kmem_alloc_pages order s = Inr (page_va (begin_ppn s) (k * 2 ^ unat order), t) \<Longrightarrow>
    (k + 1) * 2 ^ unat order \<le> npages s \<Longrightarrow> client_step (s, L) (t, insert (unat order, k) L)"
| client_full: "kmem_alloc_pages order s = Inr (0, t) \<Longrightarrow> client_step (s, L) (t, L)"
| client_free: "(d, k) \<in> L \<Longrightarrow>
    kmem_free_pages (page_va (begin_ppn s) (k * 2 ^ d)) (push_bit d 1) s = Inr t \<Longrightarrow>
    client_step (s, L) (t, L - {(d, k)})"

definition block_pages :: "nat \<times> nat \<Rightarrow> nat set" where
  "block_pages x = pages (fst x) (snd x)"

definition live_pages :: "(nat \<times> nat) set \<Rightarrow> nat set" where
  "live_pages L = (\<Union>x\<in>L. block_pages x)"

text \<open>
  Live blocks lie in the managed range and never overlap, no live page is free, and no page
  is lost or invented.
\<close>

definition client_inv :: "nat set \<Rightarrow> 'a kmem_node_scheme \<times> (nat \<times> nat) set \<Rightarrow> bool" where
  "client_inv A = (\<lambda>(s, L). kmem_ok s \<and>
     (\<forall>(d, k)\<in>L. (k + 1) * 2 ^ d \<le> npages s) \<and>
     pairwise (\<lambda>x y. disjnt (block_pages x) (block_pages y)) L \<and>
     live_pages L \<inter> free_set s = {} \<and> live_pages L \<union> free_set s = A)"

lemma alloc_pages_order: "kmem_alloc_pages order s = Inr r \<Longrightarrow> unat order < MAX_MEM_ORDER"
  by (auto simp: kmem_alloc_pages_def split: if_splits)

lemma live_pages_simps [simp]:
  "live_pages {} = {}" "live_pages (insert x L) = block_pages x \<union> live_pages L"
  by (simp_all add: live_pages_def)

lemma client_inv_insert:
  assumes inv: "client_inv A (s, L)" and t: "kmem_ok t" "npages t = npages s"
    and k: "(k + 1) * 2 ^ d \<le> npages s" "pages d k \<subseteq> free_set s"
    and fs: "free_set t = free_set s - pages d k"
  shows "client_inv A (t, insert (d, k) L)"
proof -
  have I: "pairwise (\<lambda>x y. disjnt (block_pages x) (block_pages y)) L" "live_pages L \<inter> free_set s = {}"
    "live_pages L \<union> free_set s = A" "\<forall>(d, k)\<in>L. (k + 1) * 2 ^ d \<le> npages s"
    using inv unfolding client_inv_def by simp_all
  have bp: "block_pages (d, k) = pages d k" by (simp add: block_pages_def)
  have "disjnt (block_pages x) (pages d k)" if "x \<in> L" for x
    using that I(2) k(2) unfolding live_pages_def disjnt_def by blast
  then have "pairwise (\<lambda>x y. disjnt (block_pages x) (block_pages y)) (insert (d, k) L)"
    using I(1) by (simp add: pairwise_insert bp disjnt_sym)
  moreover have "live_pages (insert (d, k) L) \<inter> free_set t = {}" "live_pages (insert (d, k) L) \<union> free_set t = A"
    using I(2,3) k(2) unfolding fs bp live_pages_simps by blast+
  ultimately show ?thesis using I(4) t k(1) unfolding client_inv_def by simp
qed

lemma client_inv_remove:
  assumes inv: "client_inv A (s, L)" and t: "kmem_ok t" "npages t = npages s"
    and k: "(d, k) \<in> L" and fs: "free_set t = free_set s \<union> pages d k"
  shows "client_inv A (t, L - {(d, k)})"
proof -
  let ?M = "L - {(d, k)}"
  have I: "pairwise (\<lambda>x y. disjnt (block_pages x) (block_pages y)) L" "live_pages L \<inter> free_set s = {}"
    "live_pages L \<union> free_set s = A" "\<forall>(d, k)\<in>L. (k + 1) * 2 ^ d \<le> npages s"
    using inv unfolding client_inv_def by simp_all
  have bp: "block_pages (d, k) = pages d k" by (simp add: block_pages_def)
  have L: "live_pages L = pages d k \<union> live_pages ?M"
    using k live_pages_simps(2) [of "(d, k)" ?M] by (simp add: insert_absorb bp)
  have "live_pages ?M \<inter> pages d k = {}"
    using I(1) k unfolding live_pages_def pairwise_def disjnt_def bp [symmetric] by blast
  then have "live_pages ?M \<inter> free_set t = {}" "live_pages ?M \<union> free_set t = A"
    using I(2,3) unfolding fs L by blast+
  then show ?thesis using I(1,4) t unfolding client_inv_def by (simp add: pairwise_subset)
qed

lemma client_step_inv:
  assumes "client_step x y" "client_inv A x"
  shows "client_inv A y"
  using assms
proof (induction rule: client_step.induct)
  case (client_alloc order s k t L)
  have ok: "kmem_ok s" using client_alloc(3) by (simp add: client_inv_def)
  show ?case
  proof (rule pa.alloc_total [OF ok alloc_pages_order [OF client_alloc(1)]])
    fix j u assume a: "kmem_alloc_pages order s = Inr (page_va (begin_ppn s) (j * 2 ^ unat order), u)"
      "kmem_ok u" "page_frame s u" "(j + 1) * 2 ^ unat order \<le> npages s"
      "pages (unat order) j \<subseteq> free_set s" "free_set u = free_set s - pages (unat order) j"
    have "j * 2 ^ unat order = k * 2 ^ unat order"
      by (rule page_va_inj [OF kmem_ok_range [OF ok]])
        (use block_bound [OF pages_first] client_alloc(1,2) a(1,4) in auto)
    then have jk: "j = k" by simp
    have "u = t" using a(1) client_alloc(1) by simp
    with a(2,3,6) show ?case unfolding jk
      by (intro client_inv_insert [OF client_alloc(3) _ _ client_alloc(2) a(5) [unfolded jk]])
        (simp_all add: page_frame_fields)
  qed (use client_alloc in auto)
next
  case (client_full order s t L)
  have ok: "kmem_ok s" using client_full(2) by (simp add: client_inv_def)
  show ?case
    by (rule pa.alloc_total [OF ok alloc_pages_order [OF client_full(1)]])
      (use client_full in \<open>auto simp: client_inv_def page_frame_fields\<close>)
next
  case (client_free d k L s t)
  have "block_pages (d, k) \<subseteq> live_pages L" using client_free(1) unfolding live_pages_def by blast
  then have inv: "kmem_ok s" "(k + 1) * 2 ^ d \<le> npages s" "pages d k \<inter> free_set s = {}"
    using client_free(1,3) by (auto simp: client_inv_def block_pages_def)
  have "kmem_ok t" "npages t = npages s" "free_set t = free_set s \<union> pages d k"
    using free_block_correct [OF inv] client_free(2) by (auto simp: page_frame_fields)
  then show ?case by (rule client_inv_remove [OF client_free(3) _ _ client_free(1)])
qed

lemma client_reachable_inv:
  assumes "client_step\<^sup>*\<^sup>* (s, L) (t, M)" "client_inv A (s, L)"
  shows "client_inv A (t, M)"
  using assms by (induction rule: rtranclp_induct) (auto intro: client_step_inv)

end
