(* ===== verification/Bootmem_Correct.thy ===== *)
theory Bootmem_Correct
  imports Bootmem
begin

text \<open>
  Correctness of the boot allocator. A page whose bit is clear is free; besides, the bytes of
  \<^verbatim>\<open>last_page\<close> from \<^verbatim>\<open>last_page_offset\<close> on are free, because small requests are
  packed into the page the previous one ended in.
\<close>

section \<open>Scanning\<close>

definition run_free :: "uint8 list \<Rightarrow> nat \<Rightarrow> nat \<Rightarrow> nat \<Rightarrow> bool" where
  "run_free mp num a b \<longleftrightarrow> (\<forall>q. a \<le> q \<and> q < b \<longrightarrow> q < num \<and> \<not> bm mp q)"

lemma run_free_empty: "b \<le> a \<Longrightarrow> run_free mp num a b"
  by (auto simp: run_free_def)

lemma run_free_step:
  "a < b \<Longrightarrow> run_free mp num a b \<longleftrightarrow> a < num \<and> \<not> bm mp a \<and> run_free mp num (Suc a) b"
  unfolding run_free_def by (metis Suc_leD Suc_leI le_neq_implies_less order_refl)

lemma scan_run_spec:
  assumes "unat num \<le> 8 * length mp"
  shows "scan_run j e num mp = Inr (run_free mp (unat num) (unat j) (unat e))"
proof (induction "unat e - unat j" arbitrary: j)
  case 0
  then show ?case by (simp add: scan_run.simps [of j] word_less_nat_alt run_free_empty)
next
  case (Suc n)
  have lt: "unat j < unat e" using Suc.hyps(2) by simp
  note j1 = unat_Suc [OF lt]
  have IH: "scan_run (j + 1) e num mp = Inr (run_free mp (unat num) (Suc (unat j)) (unat e))"
    using Suc.hyps(1) [of "j + 1"] Suc.hyps(2) unfolding j1 by simp
  show ?case using lt assms unfolding run_free_step [OF lt]
    by (simp add: scan_run.simps [of j] word_less_nat_alt word_le_nat_alt bm_simps IH)
qed

lemma scan_from_spec:
  assumes "unat num \<le> 8 * length mp" "unat num \<le> 2 ^ 26" "0 < unat n" "unat n \<le> 2 ^ 27"
  shows "\<exists>r. scan_from i n num mp = Inr r \<and>
    (case r of None \<Rightarrow> \<forall>q\<ge>unat i. \<not> run_free mp (unat num) q (q + unat n)
     | Some p \<Rightarrow> run_free mp (unat num) (unat p) (unat p + unat n))"
proof (induction "unat num - unat i" arbitrary: i)
  case 0
  then have "\<not> run_free mp (unat num) q (q + unat n)" if "q \<ge> unat i" for q
    using that assms(3) by (auto simp: run_free_def)
  then show ?case using 0 by (simp add: scan_from.simps [of i] word_less_nat_alt)
next
  case (Suc k)
  have lt: "unat i < unat num" using Suc.hyps(2) by simp
  note i1 = unat_Suc [OF lt]
  have e: "unat (i + n) = unat i + unat n"
    using lt assms by (simp add: unat_word_ariths)
  let ?ok = "run_free mp (unat num) (unat i) (unat i + unat n)"
  have ok: "?ok \<longleftrightarrow> \<not> bm mp (unat i) \<and> run_free mp (unat num) (Suc (unat i)) (unat i + unat n)"
    using run_free_step [of "unat i" "unat i + unat n"] lt assms(3) by simp
  have step: "scan_from i n num mp = (if ?ok then Inr (Some i) else scan_from (i + 1) n num mp)"
    using lt assms(1) unfolding ok
    by (simp add: scan_from.simps [of i] bm_simps scan_run_spec word_less_nat_alt i1 e)
  have IH: "\<exists>r. scan_from (i + 1) n num mp = Inr r \<and>
      (case r of None \<Rightarrow> \<forall>q\<ge>Suc (unat i). \<not> run_free mp (unat num) q (q + unat n)
       | Some p \<Rightarrow> run_free mp (unat num) (unat p) (unat p + unat n))"
    using Suc.hyps(1) [of "i + 1"] Suc.hyps(2) unfolding i1 by simp
  show ?case
  proof (cases ?ok)
    case False
    then have none: "(\<forall>q\<ge>Suc (unat i). \<not> run_free mp (unat num) q (q + unat n)) \<longleftrightarrow>
        (\<forall>q\<ge>unat i. \<not> run_free mp (unat num) q (q + unat n))"
      by (metis Suc_leD Suc_leI le_neq_implies_less)
    show ?thesis using IH False unfolding step none by simp
  qed (simp add: step)
qed

section \<open>Allocation\<close>

definition bootmem_inv :: "'a uma_node_scheme \<Rightarrow> bool" where
  "bootmem_inv s \<longleftrightarrow> unat (uma_begin_ppn s) + unat (uma_num_ppn s) \<le> 2 ^ 26 \<and>
     unat (uma_num_ppn s) \<le> 8 * length (mem_map s) \<and> unat (last_page_offset s) < 4096 \<and>
     (last_page_offset s \<noteq> 0 \<longrightarrow> unat (last_page s) < unat (uma_num_ppn s) \<and>
        bm (mem_map s) (unat (last_page s)))"

text \<open>Byte \<open>x\<close> counts from the first managed page.\<close>

definition free_bytes :: "'a uma_node_scheme \<Rightarrow> nat set" where
  "free_bytes s = {x. x div 4096 < unat (uma_num_ppn s) \<and>
     (\<not> bm (mem_map s) (x div 4096) \<or>
      last_page_offset s \<noteq> 0 \<and> x div 4096 = unat (last_page s) \<and> unat (last_page_offset s) \<le> x mod 4096)}"

lemma mask_words: "(push_bit a 1 - 1 :: ulong) = mask a"
  by (simp add: mask_eq_exp_minus_1)

lemma unat_area_size:
  assumes "unat siz \<le> 2 ^ 38"
  shows "unat (drop_bit PAGE_SHIFT (siz + PAGE_SIZE - 1 :: ulong)) = (unat siz + 4095) div 4096"
proof -
  have *: "siz + PAGE_SIZE - 1 = siz + 4095" by (simp add: PAGE_SIZE_def)
  have "unat (siz + 4095) = unat siz + 4095" using assms by (simp add: unat_word_ariths)
  then show ?thesis unfolding * by (simp add: unat_shiftr PAGE_SHIFT_def)
qed

lemma bootmem_spot_spec:
  assumes inv: "bootmem_inv s" and siz: "0 < unat siz" "unat siz \<le> 2 ^ 38" and a: "a \<le> 12"
  defines "n \<equiv> (unat siz + 4095) div 4096"
  shows "\<exists>r. bootmem_spot siz (push_bit a 1) goal s = Inr r \<and>
    (case r of None \<Rightarrow> \<forall>q. \<not> run_free (mem_map s) (unat (uma_num_ppn s)) q (q + n)
     | Some p \<Rightarrow> run_free (mem_map s) (unat (uma_num_ppn s)) (unat p) (unat p + n))"
proof -
  let ?n = "drop_bit PAGE_SHIFT (siz + PAGE_SIZE - 1) :: ulong" and ?num = "uma_num_ppn s" and ?mp = "mem_map s"
  have "drop_bit 12 (x AND mask a) = 0" for x :: ulong
    using a by (intro bit_word_eqI) (auto simp: bit_simps)
  then have off: "drop_bit PAGE_SHIFT (if c then x AND (push_bit a 1 - 1) else 0) = 0" for c and x :: ulong
    unfolding mask_words PAGE_SHIFT_def by simp
  have n: "unat ?n = n" unfolding n_def by (rule unat_area_size [OF siz(2)])
  have "unat ?num \<le> 8 * length ?mp" "unat ?num \<le> 2 ^ 26" using inv by (auto simp: bootmem_inv_def)
  moreover have "0 < n" "n \<le> 2 ^ 27" using siz unfolding n_def by (simp_all add: div_greater_zero_iff)
  ultimately have "unat ?num \<le> 8 * length ?mp" "unat ?num \<le> 2 ^ 26" "0 < unat ?n" "unat ?n \<le> 2 ^ 27"
    unfolding n by simp_all
  note sc = scan_from_spec [OF this, unfolded n]
  obtain pref where unf: "bootmem_spot siz (push_bit a 1) goal s = bindR (scan_from pref ?n ?num ?mp)
      (\<lambda>spot. if spot = None then scan_from 0 ?n ?num ?mp else Inr spot)"
    unfolding bootmem_spot_def Let_def off by blast
  obtain r where r: "scan_from pref ?n ?num ?mp = Inr r"
    "case r of None \<Rightarrow> True | Some p \<Rightarrow> run_free ?mp (unat ?num) (unat p) (unat p + n)"
    using sc [of pref] by (auto split: option.splits)
  show ?thesis
  proof (cases r)
    case None
    from sc [of 0] obtain r0 where r0: "scan_from 0 ?n ?num ?mp = Inr r0 \<and>
      (case r0 of None \<Rightarrow> \<forall>q\<ge>unat (0 :: ulong). \<not> run_free ?mp (unat ?num) q (q + n)
       | Some p \<Rightarrow> run_free ?mp (unat ?num) (unat p) (unat p + n))" ..
    then show ?thesis using None unfolding unf r(1) by (cases r0) simp_all
  next
    case (Some p)
    then show ?thesis using r unfolding unf by simp
  qed
qed

text \<open>Page \<open>q\<close> meets the byte range from \<open>x\<close> to \<open>e\<close>.\<close>

definition touches :: "nat \<Rightarrow> nat \<Rightarrow> nat \<Rightarrow> bool" where
  "touches q x e \<longleftrightarrow> q * 4096 < e \<and> x < q * 4096 + 4096"

lemma unat_round_up:
  assumes "unat x \<le> 2 ^ 40" "a \<le> 12"
  shows "unat ((x + push_bit a 1 - 1) AND NOT (push_bit a 1 - 1) :: ulong) =
    (unat x + 2 ^ a - 1) div 2 ^ a * 2 ^ a"
proof -
  define w :: ulong where "w = push_bit a 1"
  have p: "(2::nat) ^ a \<le> 4096" using power_increasing [of a 12 "2::nat"] assms(2) by simp
  have w: "unat w = 2 ^ a"
    using unat_shiftl [of "1 :: ulong" a] p unfolding w_def by simp
  have "unat (x + w) = unat x + 2 ^ a"
    unfolding w [symmetric] by (rule unat_add_lem [THEN iffD1]) (use assms(1) p w in simp)
  moreover from this have "unat (x + w) \<noteq> 0" by simp
  then have "x + w \<noteq> 0" by (metis unat_0)
  ultimately have "unat (x + w - 1) = unat x + 2 ^ a - 1" by (simp add: unat_minus_one)
  then show ?thesis
    unfolding w_def [symmetric] unfolding w_def mask_words unat_round_down by simp
qed

lemma page_split:
  obtains d r where "y div 4096 = d" "y mod 4096 = r" "y = d * 4096 + r" "r < (4096 :: nat)"
  by (rule that [OF refl refl div_mult_mod_eq [symmetric]]) simp

lemma touches_div:
  assumes "y div 4096 = q" "x \<le> y" "y < e"
  shows "touches q x e"
proof -
  obtain r where "y = q * 4096 + r" "r < 4096" using page_split [of y] assms(1) by metis
  then show ?thesis using assms(2,3) unfolding touches_def by - (rule conjI, linarith+)
qed

lemma pages_needed:
  assumes "n = (siz + 4095) div (4096 :: nat)"
  shows "siz \<le> n * 4096" "n * 4096 < siz + 4096"
proof -
  define r where "r = (siz + 4095) mod 4096"
  have "n * 4096 + r = siz + 4095" unfolding assms r_def by (rule div_mult_mod_eq)
  moreover have "r < 4096" unfolding r_def by simp
  ultimately show "siz \<le> n * 4096" "n * 4096 < siz + 4096" by linarith+
qed

lemma below_pages:
  assumes "n = (siz + 4095) div (4096 :: nat)"
  shows "q * 4096 < p * 4096 + siz \<longleftrightarrow> q < p + n"
  using pages_needed [OF assms] by linarith

lemma touches_new:
  assumes "n = (siz + 4095) div (4096 :: nat)"
  shows "touches q (p * 4096) (p * 4096 + siz) \<longleftrightarrow> p \<le> q \<and> q < p + n"
  unfolding touches_def below_pages [OF assms] by auto

lemma touches_back:
  assumes o': "o' \<le> 4096" and siz: "siz = 4096 - o' + back" "0 < siz" and n: "n = (back + 4095) div (4096 :: nat)"
  shows "touches q (l * 4096 + o') (l * 4096 + o' + siz) \<longleftrightarrow>
    (l + 1 \<le> q \<and> q < l + 1 + n) \<or> (q = l \<and> o' < 4096)"
proof -
  have e: "l * 4096 + o' + siz = (l + 1) * 4096 + back" using assms by simp
  have "l * 4096 + o' < q * 4096 + 4096 \<longleftrightarrow> l + 1 \<le> q \<or> (q = l \<and> o' < 4096)"
    using o' by (cases q l rule: linorder_cases) simp_all
  then show ?thesis unfolding touches_def e below_pages [OF n] by auto
qed

text \<open>The placement, by cases: a fresh page, the rest of the last page, or both.\<close>

lemma unat_page_mod: "unat (x AND (PAGE_SIZE - 1)) = unat x mod 4096"
  using unat_take_bit [of 12 x] by (simp add: page_mask take_bit_eq_mask)

lemma last_page_end:
  assumes siz: "unat siz \<le> 2 ^ 38"
    and n: "n = (unat siz + 4095) div 4096" "unat p + n \<le> 2 ^ 26" and nz: "unat siz mod 4096 \<noteq> 0"
  shows "unat (p + drop_bit PAGE_SHIFT (siz + PAGE_SIZE - 1) - 1) * 4096 + unat siz mod 4096 =
    unat p * 4096 + unat siz"
proof -
  let ?m = "drop_bit PAGE_SHIFT (siz + PAGE_SIZE - 1) :: ulong"
  have m: "unat ?m = n" unfolding n(1) by (rule unat_area_size [OF siz])
  obtain d r where dr: "unat siz div 4096 = d" "unat siz mod 4096 = r" "unat siz = d * 4096 + r" "r < 4096"
    by (rule page_split)
  then have nd: "n = d + 1" using pages_needed [OF n(1)] nz by linarith
  have "unat (p + ?m) = unat p + n" using n(2) m by (simp add: unat_word_ariths)
  moreover from this nd have "unat (p + ?m) \<noteq> 0" by simp
  then have "p + ?m \<noteq> 0" by (metis unat_0)
  ultimately have "unat (p + ?m - 1) = unat p + n - 1" by (simp add: unat_minus_one)
  then show ?thesis using nd dr by simp
qed

lemma unat_append:
  assumes "unat (l :: ulong) + unat (b :: ulong) < 2 ^ 26" "unat (f :: ulong) \<le> 4096"
  shows "unat (f + push_bit PAGE_SHIFT (l + b)) = unat b * 4096 + (unat l * 4096 + unat f)"
proof -
  have "unat (l + b) = unat l + unat b" using assms by (simp add: unat_word_ariths)
  then have "unat (push_bit PAGE_SHIFT (l + b) :: ulong) = (unat l + unat b) * 4096"
    using assms by (subst unat_shiftl) (simp_all add: PAGE_SHIFT_def)
  then show ?thesis using assms by (simp add: unat_word_ariths)
qed

lemma range_free:
  assumes "\<And>q. touches q x e \<Longrightarrow> q < unat (uma_num_ppn s) \<and> (\<not> bm (mem_map s) q \<or>
    last_page_offset s \<noteq> 0 \<and> q = unat (last_page s) \<and> q * 4096 + unat (last_page_offset s) \<le> x)"
  shows "{x..<e} \<subseteq> free_bytes s"
proof
  fix y assume "y \<in> {x..<e}"
  then have y: "x \<le> y" "y < e" by simp_all
  obtain q r where q: "y div 4096 = q" "y mod 4096 = r" "y = q * 4096 + r" "r < 4096" by (rule page_split)
  from assms [OF touches_div [OF q(1) y]] y q show "y \<in> free_bytes s"
    unfolding free_bytes_def mem_Collect_eq q(1,2) by auto
qed

text \<open>Rounding an offset within a page up to a power of two stays within the page.\<close>

lemma round_up_page:
  assumes "x \<le> 4096" "a \<le> 12"
  shows "x \<le> (x + 2 ^ a - 1) div 2 ^ a * 2 ^ a" "(x + 2 ^ a - 1) div 2 ^ a * 2 ^ a \<le> (4096 :: nat)"
proof -
  define c :: nat where "c = 2 ^ a"
  define n where "n = (x + c - 1) div c"
  obtain e where e: "4096 = c * e" using le_imp_power_dvd [OF assms(2), of "2::nat"] unfolding c_def by auto
  have c: "0 < c" unfolding c_def by simp
  have nr: "n * c + (x + c - 1) mod c = x + c - 1" unfolding n_def by (rule div_mult_mod_eq)
  moreover have "(x + c - 1) mod c < c" using c by simp
  ultimately have "x \<le> n * c" "n * c < c * e + c" using assms(1) c unfolding e by linarith+
  moreover from this(2) have "n * c < (e + 1) * c" by (simp add: algebra_simps)
  then have "n < e + 1" by (simp only: mult_less_cancel2)
  then have "n \<le> e" by simp
  then have "n * c \<le> e * c" by (rule mult_le_mono1)
  ultimately show "x \<le> (x + 2 ^ a - 1) div 2 ^ a * 2 ^ a" "(x + 2 ^ a - 1) div 2 ^ a * 2 ^ a \<le> 4096"
    unfolding e c_def [symmetric] n_def [symmetric] by (simp_all add: mult.commute)
qed

lemma bootmem_place_append:
  assumes inv: "bootmem_inv s" and siz: "0 < unat siz" "unat siz \<le> 2 ^ 38" and a: "a \<le> 12"
    and app: "last_page_offset s \<noteq> 0" "last_page s + 1 = p"
    and run: "run_free (mem_map s) (unat (uma_num_ppn s)) (unat p) (unat p + (unat siz + 4095) div 4096)"
  obtains r m l off x where "bootmem_place siz (push_bit a 1) p s = (r, m, l, off)"
    "unat r = unat (uma_begin_ppn s) * 4096 + x" "2 ^ a dvd x" "{x..<x + unat siz} \<subseteq> free_bytes s"
    "unat p + unat m \<le> unat (uma_num_ppn s)"
    "\<And>q. unat p \<le> q \<and> q < unat p + unat m \<longleftrightarrow> \<not> bm (mem_map s) q \<and> touches q x (x + unat siz)"
    "unat off < 4096" "off \<noteq> 0 \<Longrightarrow> unat l * 4096 + unat off = x + unat siz"
proof -
  let ?b = "uma_begin_ppn s" and ?num = "uma_num_ppn s" and ?l = "unat (last_page s)"
  let ?S = "unat siz" and ?lo = "unat (last_page_offset s)"
  define f where "f = (last_page_offset s + push_bit a 1 - 1) AND NOT (push_bit a 1 - 1)"
  define rst where "rst = siz - (PAGE_SIZE - f)"
  define m :: ulong where "m = drop_bit PAGE_SHIFT (rst + PAGE_SIZE - 1)"
  have I: "unat ?b + unat ?num \<le> 2 ^ 26" "?lo < 4096" "?l < unat ?num" "bm (mem_map s) ?l"
    using inv app(1) by (auto simp: bootmem_inv_def)
  have p: "unat p = ?l + 1" using unat_Suc [OF I(3)] app(2) by simp
  have uf: "unat f = (?lo + 2 ^ a - 1) div 2 ^ a * 2 ^ a"
    unfolding f_def by (rule unat_round_up) (use I(2) a in simp_all)
  have f: "?lo \<le> unat f" "unat f \<le> 4096" "2 ^ a dvd unat f"
    unfolding uf using round_up_page [of ?lo a] I(2) a by simp_all
  have "unat (push_bit a 1 :: ulong) \<le> 4096"
    using unat_shiftl [of "1 :: ulong" a] power_increasing [of a 12 "2::nat"] a by simp
  then have al: "push_bit a 1 \<le> PAGE_SIZE" by (simp add: word_le_nat_alt PAGE_SIZE_def)
  have dvd: "2 ^ a dvd ?l * 4096 + unat f"
    using f(3) a le_imp_power_dvd [of a 12 "2::nat"] by (intro dvd_add dvd_mult) simp_all
  have r: "unat (f + push_bit PAGE_SHIFT (last_page s + ?b)) = unat ?b * 4096 + (?l * 4096 + unat f)"
    by (rule unat_append) (use I f in linarith)+
  have R: "unat (PAGE_SIZE - f) = 4096 - unat f"
    using f(2) by (subst unat_sub) (simp_all add: word_le_nat_alt PAGE_SIZE_def)
  show thesis
  proof (cases "siz < PAGE_SIZE - f")
    case True
    then have lt: "unat f + ?S < 4096" using R f(2) by (simp add: word_less_nat_alt)
    then have fs: "unat (f + siz) = unat f + ?S" by (simp add: unat_word_ariths)
    have off: "unat ((f + siz) AND (PAGE_SIZE - 1)) = unat f + ?S"
      using unat_take_bit [of 12 "f + siz"] lt by (simp add: page_mask take_bit_eq_mask fs)
    have t: "touches q (?l * 4096 + unat f) (?l * 4096 + unat f + ?S) \<longleftrightarrow> q = ?l" for q
      unfolding touches_def using lt siz(1) by (cases q ?l rule: linorder_cases) simp_all
    have "bootmem_place siz (push_bit a 1) p s = (f + push_bit PAGE_SHIFT (last_page s + ?b), 0, last_page s,
        (f + siz) AND (PAGE_SIZE - 1))"
      unfolding bootmem_place_def Let_def f_def [symmetric] using al app True by simp
    then show thesis
    proof (rule that [OF _ r dvd])
      show "{?l * 4096 + unat f..<?l * 4096 + unat f + ?S} \<subseteq> free_bytes s"
        by (rule range_free) (use t I(3) f(1) app(1) in simp)
      show "unat p + unat (0 :: ulong) \<le> unat ?num" using p I(3) by simp
      show "unat p \<le> q \<and> q < unat p + unat (0 :: ulong) \<longleftrightarrow>
          \<not> bm (mem_map s) q \<and> touches q (?l * 4096 + unat f) (?l * 4096 + unat f + ?S)" for q
        unfolding t using I(4) by auto
    qed (simp_all only: off lt add.assoc)
  next
    case False
    then have ge: "4096 - unat f \<le> ?S" using R by (simp add: word_less_nat_alt)
    have ub: "unat rst = ?S - (4096 - unat f)"
      unfolding rst_def using False by (subst unat_sub) (simp_all add: R)
    then have S: "?S = 4096 - unat f + unat rst" using ge by simp
    have um: "unat m = (unat rst + 4095) div 4096"
      unfolding m_def by (rule unat_area_size) (use ub siz in simp)
    have mn: "unat m \<le> (?S + 4095) div 4096" unfolding um by (rule div_le_mono) (use S in linarith)
    have free: "q < unat ?num \<and> \<not> bm (mem_map s) q" if q: "unat p \<le> q" "q < unat p + unat m" for q
      using run q(1) less_le_trans [OF q(2) add_left_mono [OF mn]] unfolding run_free_def by blast
    have pm: "unat p + unat m \<le> unat ?num"
      using free [of "unat p + unat m - 1"] I(3) p by (cases "unat m") auto
    note t = touches_back [OF f(2) S siz(1) um, of _ ?l]
    have "bootmem_place siz (push_bit a 1) p s = (f + push_bit PAGE_SHIFT (last_page s + ?b), m, p + m - 1,
        rst AND (PAGE_SIZE - 1))"
      unfolding bootmem_place_def Let_def f_def [symmetric] rst_def [symmetric] m_def [symmetric]
      using al app False by simp
    then show thesis
    proof (rule that [OF _ r dvd])
      show "{?l * 4096 + unat f..<?l * 4096 + unat f + ?S} \<subseteq> free_bytes s"
        by (rule range_free) (use t free I(3) f(1) app(1) p in auto)
      show "unat p \<le> q \<and> q < unat p + unat m \<longleftrightarrow>
          \<not> bm (mem_map s) q \<and> touches q (?l * 4096 + unat f) (?l * 4096 + unat f + ?S)" for q
        using t free [of q] I(4) p by auto
      have fr: "unat rst \<le> 2 ^ 38" "unat p + unat m \<le> 2 ^ 26" using ub siz pm I by auto
      have um': "unat (rst AND (PAGE_SIZE - 1)) = unat rst mod 4096" by (rule unat_page_mod)
      show "unat (rst AND (PAGE_SIZE - 1)) < 4096" unfolding um' by simp
      show "unat (p + m - 1) * 4096 + unat (rst AND (PAGE_SIZE - 1)) = ?l * 4096 + unat f + ?S"
        if "rst AND (PAGE_SIZE - 1) \<noteq> 0"
      proof -
        have "unat rst mod 4096 \<noteq> 0" using that um' by (metis unat_0 word_unat_eq_iff)
        from last_page_end [OF fr(1) um fr(2) this, folded m_def] show ?thesis
          unfolding um' p S using f(2) by simp
      qed
    qed (rule pm)
  qed
qed

lemma bootmem_place_fresh:
  assumes inv: "bootmem_inv s" and siz: "0 < unat siz" "unat siz \<le> 2 ^ 38" and a: "a \<le> 12"
    and app: "\<not> (last_page_offset s \<noteq> 0 \<and> last_page s + 1 = p)"
    and run: "run_free (mem_map s) (unat (uma_num_ppn s)) (unat p) (unat p + (unat siz + 4095) div 4096)"
  obtains r m l off x where "bootmem_place siz (push_bit a 1) p s = (r, m, l, off)"
    "unat r = unat (uma_begin_ppn s) * 4096 + x" "2 ^ a dvd x" "{x..<x + unat siz} \<subseteq> free_bytes s"
    "unat p + unat m \<le> unat (uma_num_ppn s)"
    "\<And>q. unat p \<le> q \<and> q < unat p + unat m \<longleftrightarrow> \<not> bm (mem_map s) q \<and> touches q x (x + unat siz)"
    "unat off < 4096" "off \<noteq> 0 \<Longrightarrow> unat l * 4096 + unat off = x + unat siz"
proof -
  let ?b = "uma_begin_ppn s" and ?num = "uma_num_ppn s" and ?S = "unat siz"
  define m :: ulong where "m = drop_bit PAGE_SHIFT (siz + PAGE_SIZE - 1)"
  have um: "unat m = (?S + 4095) div 4096" unfolding m_def by (rule unat_area_size [OF siz(2)])
  have I: "unat ?b + unat ?num \<le> 2 ^ 26" using inv by (simp add: bootmem_inv_def)
  have free: "q < unat ?num \<and> \<not> bm (mem_map s) q" if q: "unat p \<le> q" "q < unat p + unat m" for q
    using run q unfolding um run_free_def by blast
  have m0: "0 < unat m" using pages_needed [OF um] siz(1) by linarith
  then have pm: "unat p + unat m \<le> unat ?num" using free [of "unat p + unat m - 1"] by (cases "unat m") auto
  note t = touches_new [OF um, of _ "unat p"]
  have "bootmem_place siz (push_bit a 1) p s = (push_bit PAGE_SHIFT (p + ?b), m, p + m - 1,
      siz AND (PAGE_SIZE - 1))"
    unfolding bootmem_place_def Let_def m_def [symmetric] using app by auto
  then show thesis
  proof (rule that)
    show "unat (push_bit PAGE_SHIFT (p + ?b)) = unat ?b * 4096 + unat p * 4096"
      using unat_append [of p ?b 0] pm m0 I by simp
    show "2 ^ a dvd unat p * 4096" using a le_imp_power_dvd [of a 12 "2::nat"] by simp
    show "{unat p * 4096..<unat p * 4096 + ?S} \<subseteq> free_bytes s"
      by (rule range_free) (use t free in blast)
    show "unat p \<le> q \<and> q < unat p + unat m \<longleftrightarrow>
        \<not> bm (mem_map s) q \<and> touches q (unat p * 4096) (unat p * 4096 + ?S)" for q
      using t free by blast
    have um': "unat (siz AND (PAGE_SIZE - 1)) = ?S mod 4096" by (rule unat_page_mod)
    show "unat (siz AND (PAGE_SIZE - 1)) < 4096" unfolding um' by simp
    show "unat (p + m - 1) * 4096 + unat (siz AND (PAGE_SIZE - 1)) = unat p * 4096 + ?S"
      if "siz AND (PAGE_SIZE - 1) \<noteq> 0"
    proof -
      have nz: "?S mod 4096 \<noteq> 0" using that um' by (metis unat_0 word_unat_eq_iff)
      have "unat p + unat m \<le> 2 ^ 26" using pm I by simp
      from last_page_end [OF siz(2) um this nz, folded m_def] show ?thesis unfolding um' .
    qed
  qed (rule pm)
qed

lemma bootmem_place_spec:
  assumes inv: "bootmem_inv s" and siz: "0 < unat siz" "unat siz \<le> 2 ^ 38" and a: "a \<le> 12"
    and run: "run_free (mem_map s) (unat (uma_num_ppn s)) (unat p) (unat p + (unat siz + 4095) div 4096)"
  obtains r m l off x where "bootmem_place siz (push_bit a 1) p s = (r, m, l, off)"
    "unat r = unat (uma_begin_ppn s) * 4096 + x" "2 ^ a dvd x" "{x..<x + unat siz} \<subseteq> free_bytes s"
    "unat p + unat m \<le> unat (uma_num_ppn s)"
    "\<And>q. unat p \<le> q \<and> q < unat p + unat m \<longleftrightarrow> \<not> bm (mem_map s) q \<and> touches q x (x + unat siz)"
    "unat off < 4096" "off \<noteq> 0 \<Longrightarrow> unat l * 4096 + unat off = x + unat siz"
proof (cases "last_page_offset s \<noteq> 0 \<and> last_page s + 1 = p")
  case True
  then have app: "last_page_offset s \<noteq> 0" "last_page s + 1 = p" by simp_all
  show thesis by (rule bootmem_place_append [OF inv siz a app run]) (rule that)
next
  case False
  show thesis by (rule bootmem_place_fresh [OF inv siz a False run]) (rule that)
qed

text \<open>
  After a placement, what is left free was free before and lies outside the range given out.
\<close>

lemma free_bytes_after:
  assumes siz: "0 < S" and sub: "{x..<x + S} \<subseteq> free_bytes s"
    and bits: "\<And>q. bm mp q \<longleftrightarrow> bm (mem_map s) q \<or> touches q x (x + S)"
    and off: "off \<noteq> 0 \<Longrightarrow> unat l * 4096 + unat off = x + S" "unat off < 4096"
    and t: "t = s\<lparr>mem_map := mp, last_page := l, last_page_offset := off\<rparr>"
  shows "free_bytes t \<subseteq> free_bytes s - {x..<x + S}"
proof
  fix y assume y: "y \<in> free_bytes t"
  obtain q r where q: "y div 4096 = q" "y mod 4096 = r" "y = q * 4096 + r" "r < 4096" by (rule page_split)
  show "y \<in> free_bytes s - {x..<x + S}"
  proof (cases "bm mp q")
    case False
    then have "y \<notin> {x..<x + S}" using bits touches_div [OF q(1)] by auto
    with y q False bits show ?thesis by (auto simp: free_bytes_def t)
  next
    case True
    with y q have l: "off \<noteq> 0" "q = unat l" "unat off \<le> r" "q < unat (uma_num_ppn s)"
      by (auto simp: free_bytes_def t)
    obtain u where u: "unat off = Suc u" using l(1) by (metis not0_implies_Suc unat_eq_zero)
    let ?z = "x + S - 1"
    have z: "?z = q * 4096 + u" "u < 4096" using off(1) [OF l(1)] off(2) l(2) u by auto
    have "?z \<in> free_bytes s" using sub siz by auto
    moreover have "?z div 4096 = q" "?z mod 4096 = u" unfolding z(1) using z(2) by simp_all
    ultimately have "y \<in> free_bytes s" unfolding free_bytes_def mem_Collect_eq q(1,2) using l(3) u by auto
    moreover have "x + S \<le> y" using off(1) [OF l(1)] l(2,3) q(3) by simp
    ultimately show ?thesis by simp
  qed
qed

text \<open>
  What the caller gets. With an alignment of at most a page: a range of bytes that were free,
  aligned as asked; afterwards exactly the pages it meets are reserved and none of its bytes
  is free. \<^verbatim>\<open>NULL\<close> is returned only when no run of free pages is long enough.
\<close>

definition boot_frame :: "'a uma_node_scheme \<Rightarrow> 'a uma_node_scheme \<Rightarrow> bool" where
  "boot_frame s t \<longleftrightarrow> (\<exists>mp l off. t = s\<lparr>mem_map := mp, last_page := l, last_page_offset := off\<rparr>)"

lemma boot_frame_refl: "boot_frame s s"
proof -
  have "s = s\<lparr>mem_map := mem_map s, last_page := last_page s, last_page_offset := last_page_offset s\<rparr>"
    by simp
  then show ?thesis unfolding boot_frame_def by blast
qed

lemma bootmem_alloc_correct:
  assumes inv: "bootmem_inv s" and siz: "0 < unat siz" "unat siz \<le> 2 ^ 38" and a: "a \<le> 12"
  shows "\<exists>v t. bootmem_alloc siz (push_bit a 1) goal s = Inr (v, t) \<and> bootmem_inv t \<and> boot_frame s t \<and>
    (if v = 0 then t = s \<and> (\<forall>q. \<not> run_free (mem_map s) (unat (uma_num_ppn s)) q (q + (unat siz + 4095) div 4096))
     else \<exists>x. v = PMA_PA2VA (word_of_nat (unat (uma_begin_ppn s) * 4096 + x)) \<and> 2 ^ a dvd x \<and>
       {x..<x + unat siz} \<subseteq> free_bytes s \<and> free_bytes t \<subseteq> free_bytes s - {x..<x + unat siz} \<and>
       (\<forall>q. bm (mem_map t) q \<longleftrightarrow> bm (mem_map s) q \<or> touches q x (x + unat siz)))"
proof -
  let ?num = "unat (uma_num_ppn s)" and ?n = "(unat siz + 4095) div 4096" and ?al = "push_bit a 1 :: ulong"
  have nz: "siz \<noteq> 0" using siz(1) by auto
  have pow: "?al AND (?al - 1) = 0" unfolding mask_words by (rule bit_word_eqI) (auto simp: bit_simps)
  obtain f where f: "bootmem_spot siz ?al goal s = Inr f" and cs: "case f of
      None \<Rightarrow> \<forall>q. \<not> run_free (mem_map s) ?num q (q + ?n)
    | Some p \<Rightarrow> run_free (mem_map s) ?num (unat p) (unat p + ?n)"
    using bootmem_spot_spec [OF inv siz a] by blast
  show ?thesis
  proof (cases f)
    case None
    then show ?thesis using f cs nz pow inv boot_frame_refl by (simp add: bootmem_alloc_def)
  next
    case (Some p)
    then have run: "run_free (mem_map s) ?num (unat p) (unat p + ?n)" using cs by simp
    obtain r m l off x where pl: "bootmem_place siz ?al p s = (r, m, l, off)"
      "unat r = unat (uma_begin_ppn s) * 4096 + x" "2 ^ a dvd x" "{x..<x + unat siz} \<subseteq> free_bytes s"
      "unat p + unat m \<le> ?num"
      "\<And>q. unat p \<le> q \<and> q < unat p + unat m \<longleftrightarrow> \<not> bm (mem_map s) q \<and> touches q x (x + unat siz)"
      "unat off < 4096" "off \<noteq> 0 \<Longrightarrow> unat l * 4096 + unat off = x + unat siz"
      by (rule bootmem_place_spec [OF inv siz a run]) blast
    have I: "unat (uma_begin_ppn s) + ?num \<le> 2 ^ 26" "?num \<le> 8 * length (mem_map s)"
      using inv by (auto simp: bootmem_inv_def)
    have e: "unat (p + m) = unat p + unat m" using pl(5) I by (simp add: unat_word_ariths)
    have clear: "\<not> (\<exists>j. unat p \<le> j \<and> j < unat (p + m) \<and> bm (mem_map s) j)" unfolding e using pl(6) by blast
    have "unat p \<le> unat (p + m)" "unat (p + m) \<le> 8 * length (mem_map s)"
      unfolding e using pl(5) I(2) by linarith+
    then obtain mp where mp: "set_bits ''bootmem_alloc'' p (p + m) (mem_map s) = Inr mp"
      "length mp = length (mem_map s)" "\<forall>j. bm mp j \<longleftrightarrow> bm (mem_map s) j \<or> unat p \<le> j \<and> j < unat (p + m)"
      using set_bits_spec [of p "p + m" "mem_map s" "''bootmem_alloc''"] clear by auto
    have bits: "bm mp q \<longleftrightarrow> bm (mem_map s) q \<or> touches q x (x + unat siz)" for q
      using mp(3) pl(6) unfolding e by blast
    let ?t = "s\<lparr>mem_map := mp, last_page := l, last_page_offset := off\<rparr>"
    have run': "bootmem_alloc siz ?al goal s = Inr (PMA_PA2VA r, ?t)"
      using f Some nz pow pl(1) mp(1) by (simp add: bootmem_alloc_def)
    have "r = word_of_nat (unat (uma_begin_ppn s) * 4096 + x)" unfolding pl(2) [symmetric] by simp
    moreover have "free_bytes ?t \<subseteq> free_bytes s - {x..<x + unat siz}"
      by (rule free_bytes_after [OF siz(1) pl(4) bits pl(8,7) refl])
    moreover have "unat l < ?num \<and> bm mp (unat l)" if o: "off \<noteq> 0"
    proof -
      obtain u where u: "unat off = Suc u" using o by (metis not0_implies_Suc unat_eq_zero)
      have z: "x + unat siz - 1 = unat l * 4096 + u" "u < 4096" using pl(7) pl(8) [OF o] u by linarith+
      have "x + unat siz - 1 \<in> free_bytes s" using pl(4) siz(1) by auto
      moreover have d: "(x + unat siz - 1) div 4096 = unat l" unfolding z(1) using z(2) by simp
      ultimately have "unat l < ?num" unfolding free_bytes_def by simp
      moreover have "touches (unat l) x (x + unat siz)" by (rule touches_div [OF d]) (use siz(1) in linarith)+
      ultimately show ?thesis using bits by blast
    qed
    then have "bootmem_inv ?t" using I mp(2) pl(7) unfolding bootmem_inv_def by simp
    moreover have "boot_frame s ?t" unfolding boot_frame_def by blast
    ultimately show ?thesis using run' pl(3,4) bits by auto
  qed
qed

end
