(* ===== verification/Buddy_Init.thy ===== *)
theory Buddy_Init
  imports Page_Alloc Bootmem_Correct
begin

text \<open>
  \<^verbatim>\<open>kmem_page_manager_init\<close> of \<^verbatim>\<open>kernel/memory/buddy.c\<close>: the hand-over from the
  boot allocator. The pair maps come from \<^verbatim>\<open>bootmem_alloc\<close>, which zeroes them, and every
  page the boot allocator left free is marked and freed into the empty lists.
\<close>

section \<open>Operations\<close>

definition area_map_size :: "ulong \<Rightarrow> nat \<Rightarrow> ulong" where
  "area_map_size num ord = drop_bit 3 (drop_bit (ord + 1) num + 8 - 1)"

text \<open>A null map has no bytes: any access to it is out of bounds.\<close>

function init_areas :: "nat \<Rightarrow> 'a kmem_node_scheme \<Rightarrow> 'a kmem_node_scheme res" where
  "init_areas ord s =
     (if ord < MAX_MEM_ORDER then
        let siz = area_map_size (num_ppn s) ord
        in bindR (bootmem_alloc siz 1 0 s) (\<lambda>(a, s).
           bindR (rd (free_areas s) ord) (\<lambda>fa.
           init_areas (ord + 1) (s\<lparr>free_areas := (free_areas s)[ord :=
             fa\<lparr>free_area_map_size := siz,
                free_area_map := (if a = 0 then [] else replicate (unat siz) 0)\<rparr>]\<rparr>)))
      else Inr s)"
  by pat_completeness auto
termination
  by (relation "measure (\<lambda>(ord, s). MAX_MEM_ORDER - ord)") auto

function free_unreserved :: "ulong \<Rightarrow> ulong \<Rightarrow> 'a kmem_node_scheme \<Rightarrow> 'a kmem_node_scheme res" where
  "free_unreserved pn num s =
     (if pn < num then
        bindR (test_bit (mem_map s) pn) (\<lambda>b.
        if b = 0 then
          bindR (test_and_set_bit (mem_map s) pn) (\<lambda>(_, mp).
          bindR (kmem_free_page (PMA_PA2VA (push_bit PAGE_SHIFT (pn + begin_ppn s))) (s\<lparr>mem_map := mp\<rparr>)) (\<lambda>s.
          free_unreserved (pn + 1) num s))
        else free_unreserved (pn + 1) num s)
      else Inr s)"
  by pat_completeness auto
termination
  by (relation "measure (\<lambda>(pn, num, s). unat (num - pn))") auto

declare init_areas.simps [simp del] free_unreserved.simps [simp del]

definition kmem_page_manager_init :: "'a kmem_node_scheme \<Rightarrow> 'a kmem_node_scheme res" where
  "kmem_page_manager_init s =
     bindR (init_areas 0 (s\<lparr>page_manager_lock := spinlock_init ''page_manager_lock''\<rparr>)) (\<lambda>s.
     free_unreserved 0 (num_ppn s) s)"

section \<open>Correctness of the hand-over\<close>

text \<open>
  Halfway: the pages below \<open>n\<close> are managed already, the others wait with their boot bits.
\<close>

definition handed_over :: "(nat \<Rightarrow> bool) \<Rightarrow> nat \<Rightarrow> 'a kmem_node_scheme \<Rightarrow> blocks \<Rightarrow> bool" where
  "handed_over B n s F \<longleftrightarrow> rep s F \<and> buddy_inv (npages s) F \<and> lock_free s \<and>
     (\<forall>p<npages s. bm (mem_map s) p \<longleftrightarrow> B p) \<and> free_pages F = {p. p < n \<and> \<not> B p}"

lemma page_frame_mem_map: "page_frame s (s\<lparr>mem_map := mp\<rparr>)"
proof -
  have "s\<lparr>mem_map := mp\<rparr> = s\<lparr>sstatus := sstatus s, harts := harts s, mem_map := mp,
      page_manager_lock := page_manager_lock s, free_areas := free_areas s, list_mem := list_mem s\<rparr>"
    by simp
  moreover have "cpu_eq s (s\<lparr>mem_map := mp\<rparr>)" by (rule cpu_eq_same) simp_all
  ultimately show ?thesis unfolding page_frame_def by blast
qed

lemma handed_over_step:
  assumes "handed_over B (unat pn) s F" "unat pn < npages s" "\<not> B (unat pn)"
  obtains mp t F' where "test_and_set_bit (mem_map s) pn = Inr (0, mp)"
    "kmem_free_page (PMA_PA2VA (push_bit PAGE_SHIFT (pn + begin_ppn s))) (s\<lparr>mem_map := mp\<rparr>) = Inr t"
    "handed_over B (Suc (unat pn)) t F'" "page_frame s t"
proof -
  let ?p = "unat pn" and ?mp = "bm_put (mem_map s) (unat pn) True"
  let ?s = "s\<lparr>mem_map := ?mp\<rparr>"
  have H: "rep s F" "buddy_inv (npages s) F" "lock_free s" "\<And>p. p < npages s \<Longrightarrow> bm (mem_map s) p \<longleftrightarrow> B p"
    "free_pages F = {p. p < ?p \<and> \<not> B p}"
    using assms(1) by (auto simp: handed_over_def)
  have len: "?p < 8 * length (mem_map s)" using H(1) assms(2) by (auto simp: rep_def shape_def)
  have tas: "test_and_set_bit (mem_map s) pn = Inr (0, ?mp)"
    using len assms(2,3) H(4) by (simp add: bm_simps)
  have rep: "rep ?s F" by (rule rep_cong [OF H(1)]) simp_all
  have lk: "lock_free ?s" using H(3) by (auto simp: lock_free_def cpu_ok_def current_hart_def
    current_hart_id_def read_interrupt_def)
  have va: "PMA_PA2VA (push_bit PAGE_SHIFT (pn + begin_ppn s)) = page_va (begin_ppn ?s) ?p"
    by (simp add: page_va_def)
  obtain t F' where t: "kmem_free_page (page_va (begin_ppn ?s) ?p) ?s = Inr t" "page_frame ?s t" "lock_free t"
    "rep t F'" "buddy_inv (npages t) F'" "free_pages F' = insert ?p (free_pages F)"
    "mem_map t = bm_put (mem_map ?s) ?p False"
    by (rule free_page_step [OF rep _ _ _ _ lk, of ?p]) (use H assms(2) len in \<open>auto simp: bm_bm_put\<close>)
  have "bm (mem_map t) = (bm (mem_map s))(?p := False)" using len by (simp add: t(7) bm_bm_put)
  then have "handed_over B (Suc ?p) t F'"
    using t(3-6) page_frame_fields(2) [OF t(2)] H(4,5) assms(2,3)
    by (auto simp: handed_over_def less_Suc_eq)
  moreover have "page_frame s t"
    by (rule page_frame_trans [OF page_frame_mem_map t(2)]) (use H(3) in \<open>simp add: lock_free_def\<close>)
  ultimately show thesis using tas t(1) va that by metis
qed

lemma free_unreserved_correct:
  assumes "handed_over B (unat pn) s F" "unat pn \<le> npages s"
  shows "\<exists>t F'. free_unreserved pn (num_ppn s) s = Inr t \<and> handed_over B (npages s) t F' \<and> page_frame s t"
  using assms
proof (induction "npages s - unat pn" arbitrary: pn s F)
  case 0
  then have "unat pn = npages s" by simp
  then show ?case using 0 pa.same_refl [of s] by (auto simp: free_unreserved.simps [of pn] word_less_nat_alt)
next
  case (Suc n)
  have lt: "unat pn < npages s" using Suc.hyps(2) by simp
  note pn1 = unat_Suc [OF lt]
  have len: "unat pn < 8 * length (mem_map s)" and bit: "bm (mem_map s) (unat pn) \<longleftrightarrow> B (unat pn)"
    and ok: "cpu_ok s"
    using Suc.prems(1) lt by (auto simp: handed_over_def rep_def shape_def lock_free_def)
  have unf: "free_unreserved pn (num_ppn s) s = (if B (unat pn) then free_unreserved (pn + 1) (num_ppn s) s
      else bindR (test_and_set_bit (mem_map s) pn) (\<lambda>(_, mp).
        bindR (kmem_free_page (PMA_PA2VA (push_bit PAGE_SHIFT (pn + begin_ppn s))) (s\<lparr>mem_map := mp\<rparr>))
          (free_unreserved (pn + 1) (num_ppn s))))"
    using lt len bit by (simp add: free_unreserved.simps [of pn] word_less_nat_alt bm_simps)
  show ?case
  proof (cases "B (unat pn)")
    case True
    then have "handed_over B (unat (pn + 1)) s F"
      using Suc.prems(1) unfolding pn1 by (auto simp: handed_over_def less_Suc_eq)
    with Suc.hyps(1) [of s "pn + 1" F] Suc.hyps(2) lt True show ?thesis unfolding unf pn1 by simp
  next
    case False
    obtain mp t F' where t: "test_and_set_bit (mem_map s) pn = Inr (0, mp)"
      "kmem_free_page (PMA_PA2VA (push_bit PAGE_SHIFT (pn + begin_ppn s))) (s\<lparr>mem_map := mp\<rparr>) = Inr t"
      "handed_over B (Suc (unat pn)) t F'" "page_frame s t"
      by (rule handed_over_step [OF Suc.prems(1) lt False])
    note n = page_frame_fields(2) [OF t(4)]
    have "n = npages t - unat (pn + 1)" "unat (pn + 1) \<le> npages t" "handed_over B (unat (pn + 1)) t F'"
      using Suc.hyps(2) lt t(3) unfolding n pn1 by simp_all
    then obtain u F'' where "free_unreserved (pn + 1) (num_ppn t) t = Inr u" "handed_over B (npages t) u F''"
      "page_frame t u"
      using Suc.hyps(1) by blast
    then show ?thesis using page_frame_trans [OF t(4) _ ok] False t(1,2) unfolding unf n by auto
  qed
qed

text \<open>The state in which the maps are in place and every list is still empty.\<close>

definition init_ready :: "'a kmem_node_scheme \<Rightarrow> bool" where
  "init_ready s \<longleftrightarrow> shape s \<and> lock_free s \<and> distinct (map (heads s) [0..<MAX_MEM_ORDER]) \<and>
     (\<forall>d<MAX_MEM_ORDER. heads s d \<noteq> 0 \<and> nxt (list_mem s (heads s d)) = 0 \<and>
        (\<forall>b\<in>set (free_area_map (free_areas s ! d)). b = 0))"

lemma init_ready_handed_over:
  assumes "init_ready s"
  shows "handed_over (bm (mem_map s)) 0 s (\<lambda>_. {})"
proof -
  have "dlists (\<lambda>a. prv (list_mem s a)) (\<lambda>a. nxt (list_mem s a)) {..<MAX_MEM_ORDER} (heads s)
      (\<lambda>d. map (\<lambda>k. page_va (begin_ppn s) (k * 2 ^ d)) [])"
    using assms by (auto simp: dlists_def dlist_def init_ready_def distinct_conv_nth)
  then have "lists_rep (begin_ppn s) (heads s) (list_mem s) (\<lambda>_. {})"
    unfolding lists_rep_def by (intro exI [of _ "\<lambda>_. []"]) simp
  moreover have "\<not> bm mp j" if "\<forall>b\<in>set mp. b = 0" "j < 8 * length mp" for mp j
  proof -
    have "mp ! (j div 8) = 0" using that(1) nth_mem [OF index_bound [OF that(2)]] by blast
    then show ?thesis by (simp add: bm_def)
  qed
  then have "maps_rep (free_areas s) (\<lambda>_. {})" using assms by (simp add: maps_rep_def init_ready_def)
  ultimately show ?thesis using assms
    by (simp add: handed_over_def init_ready_def rep_def buddy_inv_def free_pages_def)
qed

lemma hand_over_correct:
  assumes "init_ready s"
  shows "\<exists>t. free_unreserved 0 (num_ppn s) s = Inr t \<and> kmem_ok t \<and> free_set t = free_set s \<and> page_frame s t"
proof -
  have "handed_over (bm (mem_map s)) (unat (0 :: ulong)) s (\<lambda>_. {})"
    using init_ready_handed_over [OF assms] by simp
  then obtain t F where t: "free_unreserved 0 (num_ppn s) s = Inr t" "handed_over (bm (mem_map s)) (npages s) t F"
    "page_frame s t"
    using free_unreserved_correct by fastforce
  have "kmem_inv t F" using t(2) page_frame_fields(2) [OF t(3)]
    by (auto simp: handed_over_def kmem_inv_def)
  moreover have "free_pages F = free_set s" using t(2) by (simp add: handed_over_def free_set_def)
  then have "free_set t = free_set s" using kmem_inv_free_set calculation by metis
  ultimately show ?thesis using t by (auto simp: kmem_ok_def handed_over_def)
qed

section \<open>The pair maps\<close>

lemma touches_two:
  assumes "touches q x (x + n)" "n \<le> 4096"
  shows "q \<in> {x div 4096, Suc (x div 4096)}"
proof -
  obtain d r where x: "x div 4096 = d" "x mod 4096 = r" "x = d * 4096 + r" "r < 4096" by (rule page_split)
  have "q * 4096 < x + n" "x < q * 4096 + 4096" using assms(1) by (simp_all add: touches_def)
  then have "d \<le> q" "q \<le> Suc d" using x(3,4) assms(2) by linarith+
  then show ?thesis unfolding x(1) by auto
qed

lemma card_diff_two:
  assumes "finite A"
  shows "card A \<le> card (A - {x, y :: nat}) + 2"
proof -
  have "card A \<le> card ((A - {x, y}) \<union> {x, y})" by (rule card_mono) (use assms in auto)
  also have "\<dots> \<le> card (A - {x, y}) + card {x, y}" by (rule card_Un_le)
  also have "card {x, y} \<le> 2" by (simp add: card_insert_if)
  finally show ?thesis by simp
qed

lemma map_alloc:
  assumes inv: "bootmem_inv s" and siz: "unat siz \<le> 2 ^ 38" and num: "uma_num_ppn s = num_ppn s"
  obtains v t where "bootmem_alloc siz 1 0 s = Inr (v, t)" "bootmem_inv t" "boot_frame s t"
    "\<And>p. bm (mem_map s) p \<Longrightarrow> bm (mem_map t) p"
    "unat siz \<le> 4096 \<Longrightarrow> free_set s \<noteq> {} \<Longrightarrow>
       (v = 0 \<longrightarrow> siz = 0) \<and> card (free_set s) \<le> card (free_set t) + 2"
proof (cases "siz = 0")
  case True
  show thesis by (rule that [of 0 s]) (use True inv boot_frame_refl in \<open>simp_all add: bootmem_alloc_def\<close>)
next
  case False
  then have pos: "0 < unat siz" by (simp add: unat_gt_0)
  obtain v t where t: "bootmem_alloc siz 1 0 s = Inr (v, t)" "bootmem_inv t" "boot_frame s t"
    "if v = 0 then t = s \<and> (\<forall>q. \<not> run_free (mem_map s) (unat (uma_num_ppn s)) q (q + (unat siz + 4095) div 4096))
     else \<exists>x. v = PMA_PA2VA (word_of_nat (unat (uma_begin_ppn s) * 4096 + x)) \<and> 2 ^ 0 dvd x \<and>
       {x..<x + unat siz} \<subseteq> free_bytes s \<and> free_bytes t \<subseteq> free_bytes s - {x..<x + unat siz} \<and>
       (\<forall>q. bm (mem_map t) q \<longleftrightarrow> bm (mem_map s) q \<or> touches q x (x + unat siz))"
    using bootmem_alloc_correct [OF inv pos siz, of 0 0] by auto
  have fin: "finite (free_set s)" by (simp add: free_set_def)
  have fr: "num_ppn t = num_ppn s" using t(3) by (auto simp: boot_frame_def)
  show thesis
  proof (rule that [OF t(1-3)])
    show "bm (mem_map t) p" if "bm (mem_map s) p" for p using t(4) that by (auto split: if_splits)
    assume le: "unat siz \<le> 4096" and ne: "free_set s \<noteq> {}"
    then obtain q where q: "q < npages s" "\<not> bm (mem_map s) q" by (auto simp: free_set_def)
    have "(unat siz + 4095) div 4096 = 1" using pos le by (intro div_nat_eqI) simp_all
    moreover have "run_free (mem_map s) (npages s) q (q + 1)" 
      using q run_free_step [of q "q + 1"] run_free_empty [of "q + 1" "Suc q"] by simp
    ultimately have v: "v \<noteq> 0" using t(4) num by (auto split: if_splits)
    then obtain x where "\<forall>q. bm (mem_map t) q \<longleftrightarrow> bm (mem_map s) q \<or> touches q x (x + unat siz)"
      using t(4) by auto
    then have "free_set s - {x div 4096, Suc (x div 4096)} \<subseteq> free_set t"
      using touches_two [OF _ le] fr unfolding free_set_def by fastforce
    then have "card (free_set s - {x div 4096, Suc (x div 4096)}) \<le> card (free_set t)"
      by (rule card_mono [rotated]) (simp add: free_set_def)
    then show "(v = 0 \<longrightarrow> siz = 0) \<and> card (free_set s) \<le> card (free_set t) + 2"
      using card_diff_two [OF fin, of "x div 4096" "Suc (x div 4096)"] v by auto
  qed
qed

definition area_frame :: "'a kmem_node_scheme \<Rightarrow> 'a kmem_node_scheme \<Rightarrow> bool" where
  "area_frame s t \<longleftrightarrow> (\<exists>mp l off fas. t = s\<lparr>mem_map := mp, last_page := l, last_page_offset := off, free_areas := fas\<rparr>)"

lemma area_frame_step:
  assumes "boot_frame s w" "area_frame (w\<lparr>free_areas := fas\<rparr>) t"
  shows "area_frame s t"
  using assms by (force simp: boot_frame_def area_frame_def)

lemma area_frame_refl: "area_frame s s"
proof -
  have "s = s\<lparr>mem_map := mem_map s, last_page := last_page s, last_page_offset := last_page_offset s,
    free_areas := free_areas s\<rparr>" by simp
  then show ?thesis unfolding area_frame_def by blast
qed

text \<open>
  Every map is zeroed and as long as the size says, or null; the boot allocator only reserves.
\<close>

definition maps_ready :: "nat \<Rightarrow> 'a kmem_node_scheme \<Rightarrow> 'a kmem_node_scheme \<Rightarrow> bool" where
  "maps_ready ord s t \<longleftrightarrow> area_frame s t \<and> bootmem_inv t \<and> length (free_areas t) = MAX_MEM_ORDER \<and>
    (\<forall>p. bm (mem_map s) p \<longrightarrow> bm (mem_map t) p) \<and> (\<forall>d. heads t d = heads s d) \<and>
    (\<forall>d<ord. free_areas t ! d = free_areas s ! d) \<and>
    (\<forall>d<MAX_MEM_ORDER. ord \<le> d \<longrightarrow> free_area_map (free_areas t ! d) = [] \<or>
       free_area_map (free_areas t ! d) = replicate (unat (area_map_size (num_ppn s) d)) 0) \<and>
    (npages s \<le> 2 ^ 16 \<and> 2 * (MAX_MEM_ORDER - ord) < card (free_set s) \<longrightarrow>
       card (free_set s) \<le> card (free_set t) + 2 * (MAX_MEM_ORDER - ord) \<and>
       (\<forall>d<MAX_MEM_ORDER. ord \<le> d \<longrightarrow>
          free_area_map (free_areas t ! d) = replicate (unat (area_map_size (num_ppn s) d)) 0))"

lemma maps_readyD:
  assumes "maps_ready ord s t"
  shows "area_frame s t" "bootmem_inv t" "length (free_areas t) = MAX_MEM_ORDER"
    "\<And>p. bm (mem_map s) p \<Longrightarrow> bm (mem_map t) p" "\<And>d. heads t d = heads s d"
    "\<And>d. d < ord \<Longrightarrow> free_areas t ! d = free_areas s ! d"
    "\<And>d. d < MAX_MEM_ORDER \<Longrightarrow> ord \<le> d \<Longrightarrow> free_area_map (free_areas t ! d) = [] \<or>
       free_area_map (free_areas t ! d) = replicate (unat (area_map_size (num_ppn s) d)) 0"
    "npages s \<le> 2 ^ 16 \<Longrightarrow> 2 * (MAX_MEM_ORDER - ord) < card (free_set s) \<Longrightarrow>
       card (free_set s) \<le> card (free_set t) + 2 * (MAX_MEM_ORDER - ord)"
    "npages s \<le> 2 ^ 16 \<Longrightarrow> 2 * (MAX_MEM_ORDER - ord) < card (free_set s) \<Longrightarrow>
       d < MAX_MEM_ORDER \<Longrightarrow> ord \<le> d \<Longrightarrow>
       free_area_map (free_areas t ! d) = replicate (unat (area_map_size (num_ppn s) d)) 0"
  using assms unfolding maps_ready_def by blast+

lemma order_cases: "(\<forall>d<n. k \<le> d \<longrightarrow> P d) \<longleftrightarrow> P k \<and> (\<forall>d<n. Suc k \<le> d \<longrightarrow> P d)" if "k < (n :: nat)"
  using that by (metis Suc_leD Suc_leI le_neq_implies_less order_refl)

lemma unat_area_map_size:
  assumes "unat num \<le> 2 ^ 26"
  shows "unat (area_map_size num d) = (unat num div 2 ^ (d + 1) + 7) div 8"
proof -
  have "unat num div 2 ^ (d + 1) \<le> unat num" by (rule div_le_dividend)
  then have le: "unat (drop_bit (d + 1) num) \<le> 2 ^ 26" using assms unfolding unat_shiftr by linarith
  have *: "drop_bit (d + 1) num + 8 - 1 = drop_bit (d + 1) num + 7" by simp
  have **: "unat (drop_bit (d + 1) num + 7) = unat (drop_bit (d + 1) num) + 7"
    using le by (simp add: unat_word_ariths)
  show ?thesis unfolding area_map_size_def * unat_shiftr ** by simp
qed

lemma init_areas_correct:
  assumes "bootmem_inv s" "length (free_areas s) = MAX_MEM_ORDER" "npages s \<le> 2 ^ 26" "ord \<le> MAX_MEM_ORDER"
    "uma_num_ppn s = num_ppn s"
  shows "\<exists>t. init_areas ord s = Inr t \<and> maps_ready ord s t"
  using assms
proof (induction "MAX_MEM_ORDER - ord" arbitrary: ord s)
  case 0
  then have "init_areas ord s = Inr s" by (subst init_areas.simps) simp
  then show ?case using 0 area_frame_refl [of s] by (auto simp: maps_ready_def)
next
  case (Suc n)
  let ?siz = "area_map_size (num_ppn s) ord"
  have o: "ord < MAX_MEM_ORDER" using Suc.hyps(2) by simp
  define x where "x = npages s div 2 ^ (ord + 1)"
  have "x \<le> npages s" unfolding x_def by (rule div_le_dividend)
  then have "(x + 7) div 8 \<le> 2 ^ 38" using Suc.prems(3) by (intro order_trans [OF div_le_dividend]) simp
  then have siz: "unat ?siz \<le> 2 ^ 38" unfolding unat_area_map_size [OF Suc.prems(3)] x_def .
  obtain v w where w: "bootmem_alloc ?siz 1 0 s = Inr (v, w)" "bootmem_inv w" "boot_frame s w"
    "\<And>p. bm (mem_map s) p \<Longrightarrow> bm (mem_map w) p"
    "unat ?siz \<le> 4096 \<Longrightarrow> free_set s \<noteq> {} \<Longrightarrow>
       (v = 0 \<longrightarrow> ?siz = 0) \<and> card (free_set s) \<le> card (free_set w) + 2"
    by (rule map_alloc [OF Suc.prems(1) siz Suc.prems(5)]) (rule that)
  have wf: "free_areas w = free_areas s" "num_ppn w = num_ppn s" "uma_num_ppn w = uma_num_ppn s"
    using w(3) by (auto simp: boot_frame_def)
  let ?fa = "(free_areas s ! ord)\<lparr>free_area_map_size := ?siz,
    free_area_map := (if v = 0 then [] else replicate (unat ?siz) 0)\<rparr>"
  let ?w = "w\<lparr>free_areas := (free_areas s)[ord := ?fa]\<rparr>"
  have step: "init_areas ord s = init_areas (Suc ord) ?w"
    using o w(1) wf Suc.prems(2) by (simp add: init_areas.simps [of ord] Let_def)
  have "\<exists>t. init_areas (Suc ord) ?w = Inr t \<and> maps_ready (Suc ord) ?w t"
    by (rule Suc.hyps(1)) (use Suc.hyps(2) Suc.prems w(2) wf o in \<open>auto simp: bootmem_inv_def\<close>)
  then obtain t where t: "init_areas (Suc ord) ?w = Inr t" "maps_ready (Suc ord) ?w t" by blast
  note M = maps_readyD [OF t(2)]
  have hw: "heads ?w d = heads s d" for d
    using Suc.prems(2) o by (cases "d = ord") simp_all
  have fw: "free_set ?w = free_set w" by (simp add: free_set_def)
  have at: "free_areas t ! ord = ?fa" using M(6) [of ord] o Suc.prems(2) by simp
  have n: "2 * (MAX_MEM_ORDER - ord) = 2 * (MAX_MEM_ORDER - Suc ord) + 2" using o by simp
  have "\<forall>d<MAX_MEM_ORDER. ord \<le> d \<longrightarrow> free_area_map (free_areas t ! d) = [] \<or>
       free_area_map (free_areas t ! d) = replicate (unat (area_map_size (num_ppn s) d)) 0"
    unfolding order_cases [OF o] using M(7) at by (simp add: wf)
  moreover have "area_frame s t" by (rule area_frame_step [OF w(3) M(1)])
  moreover have "card (free_set s) \<le> card (free_set t) + 2 * (MAX_MEM_ORDER - ord) \<and>
       (\<forall>d<MAX_MEM_ORDER. ord \<le> d \<longrightarrow>
          free_area_map (free_areas t ! d) = replicate (unat (area_map_size (num_ppn s) d)) 0)"
    if fit: "npages s \<le> 2 ^ 16" "2 * (MAX_MEM_ORDER - ord) < card (free_set s)"
  proof -
    have "x \<le> 2 ^ 15" unfolding x_def using fit(1) div_le_mono2 [of 2 "2 ^ (ord + 1)" "npages s"] by simp
    then have "(x + 7) div 8 \<le> 4096" by simp
    then have "unat ?siz \<le> 4096" unfolding unat_area_map_size [OF Suc.prems(3)] x_def .
    moreover have "free_set s \<noteq> {}" using fit(2) by auto
    ultimately have v: "v = 0 \<longrightarrow> ?siz = 0" "card (free_set s) \<le> card (free_set w) + 2" using w(5) by simp_all
    have "npages ?w \<le> 2 ^ 16" "2 * (MAX_MEM_ORDER - Suc ord) < card (free_set ?w)"
      using fit v(2) n unfolding fw by (simp_all add: wf)
    note rest = M(8,9) [OF this]
    have "free_area_map (free_areas t ! ord) = replicate (unat ?siz) 0" using at v(1) by simp
    then show ?thesis unfolding order_cases [OF o] using rest v(2) n fw by (simp add: wf)
  qed
  ultimately have "maps_ready ord s t"
    unfolding maps_ready_def using M(2,3,4,5,6) w(4) hw by (simp add: less_Suc_eq)
  then show ?case using step t(1) by simp
qed

text \<open>When the managed pages are a multiple of the largest pair, the maps cover every pair.\<close>

lemma area_map_covers:
  assumes num: "unat num \<le> 2 ^ 26" "2 ^ MAX_MEM_ORDER dvd unat num" and d: "d < MAX_MEM_ORDER"
    and p: "p < unat num"
  shows "p div 2 ^ d div 2 < 8 * unat (area_map_size num d)"
proof -
  have "(2::nat) ^ (d + 1) dvd 2 ^ MAX_MEM_ORDER" using d by (intro le_imp_power_dvd) simp
  then obtain c where c: "unat num = 2 ^ (d + 1) * c" using num(2) by (metis dvdE dvd_trans)
  have "p div 2 ^ (d + 1) < c" 
    using p unfolding c by (intro less_mult_imp_div_less) (simp add: mult.commute)
  moreover have "unat num div 2 ^ (d + 1) = c" unfolding c by simp
  moreover have "c \<le> 8 * ((c + 7) div 8)" by presburger
  ultimately show ?thesis unfolding unat_area_map_size [OF num(1)] div_order [symmetric] by simp
qed

text \<open>
  The whole initialisation, on a node whose lists are empty as the zeroed \<^verbatim>\<open>kmem\<close> leaves
  them, in the state the boot allocator hands over.
\<close>

definition boot_ready :: "'a kmem_node_scheme \<Rightarrow> bool" where
  "boot_ready s \<longleftrightarrow> bootmem_inv s \<and> cpu_ok s \<and> begin_ppn s = uma_begin_ppn s \<and> num_ppn s = uma_num_ppn s \<and>
     length (free_areas s) = MAX_MEM_ORDER \<and> distinct (map (heads s) [0..<MAX_MEM_ORDER]) \<and>
     (\<forall>d<MAX_MEM_ORDER. heads s d \<noteq> 0 \<and> nxt (list_mem s (heads s d)) = 0 \<and>
        (\<forall>p<npages s. heads s d \<noteq> page_va (begin_ppn s) p))"

lemma page_manager_init_correct:
  assumes ready: "boot_ready s" and dvd: "2 ^ MAX_MEM_ORDER dvd npages s"
    and fit: "npages s \<le> 2 ^ 16" "2 * MAX_MEM_ORDER < card (free_set s)"
  shows "\<exists>t. kmem_page_manager_init s = Inr t \<and> kmem_ok t \<and> free_set t \<subseteq> free_set s \<and>
    card (free_set s) \<le> card (free_set t) + 2 * MAX_MEM_ORDER"
proof -
  let ?s = "s\<lparr>page_manager_lock := spinlock_init ''page_manager_lock''\<rparr>"
  have R: "bootmem_inv ?s" "length (free_areas ?s) = MAX_MEM_ORDER" "npages ?s \<le> 2 ^ 26" "0 \<le> MAX_MEM_ORDER"
    "uma_num_ppn ?s = num_ppn ?s"
    using ready by (auto simp: boot_ready_def bootmem_inv_def)
  have fs: "free_set ?s = free_set s" by (simp add: free_set_def)
  obtain u where u: "init_areas 0 ?s = Inr u" "maps_ready 0 ?s u"
    using init_areas_correct [OF R] by auto
  note M = maps_readyD [OF u(2)]
  obtain mp l off fas where uf: "u = ?s\<lparr>mem_map := mp, last_page := l, last_page_offset := off, free_areas := fas\<rparr>"
    using M(1) by (auto simp: area_frame_def)
  have sub: "free_set u \<subseteq> free_set s" using M(4) by (auto simp: free_set_def uf)
  have map: "free_area_map (free_areas u ! d) = replicate (unat (area_map_size (num_ppn s) d)) 0"
    if "d < MAX_MEM_ORDER" for d
    using M(9) fit that fs by simp
  have card: "card (free_set s) \<le> card (free_set u) + 2 * MAX_MEM_ORDER" using M(8) fit fs by simp
  have hd: "heads u d = heads s d" for d using M(5) by simp
  have "shape u" using M(2,3) ready area_map_covers [OF _ dvd] map R(3)
    unfolding shape_def boot_ready_def bootmem_inv_def hd by (auto simp: uf)
  moreover have "lock_free u" using ready
    by (auto simp: uf lock_free_def boot_ready_def cpu_ok_def spinlock_init_def current_hart_def
      current_hart_id_def read_interrupt_def)
  ultimately have "init_ready u" using ready map unfolding init_ready_def boot_ready_def hd by (auto simp: uf)
  then show ?thesis using hand_over_correct [of u] u(1) sub card by (auto simp: kmem_page_manager_init_def)
qed

section \<open>A node with eight pages\<close>

text \<open>Used by the witnesses: eight pages from physical page \<open>0x80000\<close>, bitmap \<open>mp\<close>, empty lists.\<close>

definition sample_node :: "uint8 list \<Rightarrow> kmem_node" where
  "sample_node mp = \<lparr>tp = 0, sstatus = 2,
     harts = [\<lparr>enabled = True, running_proc = 0, hart_context = zero_context, trap_pushoff_dep = 0, trap_enabled = 0\<rparr>],
     uma_begin_ppn = 0x80000, uma_num_ppn = 8, mem_map = mp, uma_mem_map_size = 1, last_page = 0,
     last_page_offset = 0, begin_ppn = 0x80000, num_ppn = 8, mem_map_size = 1,
     page_manager_lock = spinlock_init ''page_manager_lock'',
     free_areas = map (\<lambda>d. \<lparr>free_page_list = word_of_nat (16 * (d + 1)), free_area_map = [0],
       free_area_map_size = 1\<rparr>) [0..<MAX_MEM_ORDER],
     list_mem = (\<lambda>_. \<lparr>prv = 0, nxt = 0, val = 0\<rparr>)\<rparr>"

lemma page_va_high: "bit (page_va b p) 63"
proof -
  have "bit VA_KERNEL_BEGIN 63" by (simp add: VA_KERNEL_BEGIN_def)
  then show ?thesis by (simp add: page_va_def PMA_PA2VA_def bit_or_iff)
qed

lemma sample_heads:
  assumes "d < MAX_MEM_ORDER"
  shows "heads (sample_node mp) d = word_of_nat (16 * (d + 1))" "unat (heads (sample_node mp) d) = 16 * (d + 1)"
    "heads (sample_node mp) d \<noteq> page_va b p"
proof -
  show *: "heads (sample_node mp) d = word_of_nat (16 * (d + 1))" using assms by (simp add: sample_node_def)
  show u: "unat (heads (sample_node mp) d) = 16 * (d + 1)"
    unfolding * by (rule unat_of_nat64) (use assms in \<open>simp add: MAX_MEM_ORDER_def\<close>)
  have "16 * (d + 1) < 2 ^ 63" using assms by (simp add: MAX_MEM_ORDER_def)
  then have "\<not> bit (unat (heads (sample_node mp) d)) 63" unfolding u by (simp add: bit_iff_odd)
  then have "\<not> bit (heads (sample_node mp) d) 63" by (simp add: bit_unsigned_iff)
  then show "heads (sample_node mp) d \<noteq> page_va b p" using page_va_high by metis
qed

lemma sample_heads_distinct: "distinct (map (heads (sample_node mp)) [0..<MAX_MEM_ORDER])"
proof -
  have "heads (sample_node mp) d \<noteq> heads (sample_node mp) e" if "d < e" "e < MAX_MEM_ORDER" for d e
    using sample_heads(2) [of d mp] sample_heads(2) [of e mp] that by auto
  then show ?thesis by (auto simp: distinct_conv_nth) (metis nat_neq_iff)
qed

lemma sample_heads_nonzero: "d < MAX_MEM_ORDER \<Longrightarrow> heads (sample_node mp) d \<noteq> 0"
  using sample_heads(2) by (metis Suc_eq_plus1 mult_is_0 nat.distinct(1) unat_0 zero_neq_numeral)

lemma sample_ready:
  assumes "length mp = 1"
  shows "init_ready (sample_node mp)"
proof -
  have "p div 2 ^ d div 2 < 8" if "p < 8" for p d :: nat
    using that div_le_dividend [of p "2 ^ d"] div_le_dividend [of "p div 2 ^ d" 2] by linarith
  then have "shape (sample_node mp)"
    using sample_heads(3) assms unfolding shape_def by (simp add: sample_node_def)
  moreover have "lock_free (sample_node mp)"
    by (simp add: lock_free_def cpu_ok_def sample_node_def spinlock_init_def current_hart_def current_hart_id_def)
  ultimately show ?thesis using sample_heads_distinct sample_heads_nonzero
    unfolding init_ready_def by (simp add: sample_node_def)
qed

lemma sample_full: "kmem_ok (sample_node [0xff])" "free_set (sample_node [0xff]) = {}"
proof -
  have ones: "(0xff :: uint8) = mask 8" by (simp add: mask_eq_exp_minus_1)
  have bits: "bm [0xff] p" if "p < 8" for p
    using that unfolding bm_def ones by (simp add: bit_mask_iff)
  then have "kmem_inv (sample_node [0xff]) (\<lambda>_. {})"
    using init_ready_handed_over [OF sample_ready [of "[0xff]"]]
    by (auto simp: handed_over_def kmem_inv_def sample_node_def)
  then show "kmem_ok (sample_node [0xff])"
    using sample_ready [of "[0xff]"] by (auto simp: kmem_ok_def init_ready_def)
  show "free_set (sample_node [0xff]) = {}" using bits by (auto simp: free_set_def sample_node_def)
qed

lemma sample_free: "\<exists>t :: kmem_node. kmem_ok t \<and> free_set t = {..<8} \<and> begin_ppn t = 0x80000 \<and> npages t = 8"
proof -
  obtain t where "kmem_ok t" "free_set t = free_set (sample_node [0])" "page_frame (sample_node [0]) t"
    using hand_over_correct [OF sample_ready [of "[0]"]] by auto
  moreover have "free_set (sample_node [0]) = {..<8}" by (auto simp: free_set_def sample_node_def bm_def)
  ultimately show ?thesis using page_frame_fields(1,2) [of "sample_node [0]" t]
    by (auto simp: sample_node_def)
qed

end
