(* ===== verification/Page_Props.thy ===== *)
theory Page_Props
  imports Buddy_Init
begin

text \<open>
  What the page allocator and the boot allocator promise, as theorems on their entry points.
\<close>

section \<open>Allocation and release of pages\<close>

text \<open>C1. On every state that satisfies the allocator's invariant and for every order below
  \<^verbatim>\<open>MAX_MEM_ORDER\<close>, \<^verbatim>\<open>kmem_alloc_pages\<close> returns and keeps the invariant. If some
  aligned run of \<open>2 ^ order\<close> pages is free, it returns the address of such a run and takes exactly
  those pages out of the free set; it returns \<^verbatim>\<open>NULL\<close> only if there is none, and then the
  free set is unchanged.\<close>

theorem kmem_alloc_pages_spec:
  assumes "kmem_ok s" "unat order < MAX_MEM_ORDER"
  shows "\<exists>a t. kmem_alloc_pages order s = Inr (a, t) \<and> kmem_ok t \<and> page_frame s t \<and>
    (if \<exists>k. pages (unat order) k \<subseteq> free_set s
     then \<exists>k. a = page_va (begin_ppn s) (k * 2 ^ unat order) \<and> (k + 1) * 2 ^ unat order \<le> npages s \<and>
       pages (unat order) k \<subseteq> free_set s \<and> free_set t = free_set s - pages (unat order) k
     else a = 0 \<and> free_set t = free_set s)"
  by (rule alloc_pages_correct [OF assms])

theorem kmem_alloc_pages_spec_witness:
  "\<exists>(s :: kmem_node) a t k. kmem_ok s \<and> free_set s = {..<8} \<and> kmem_alloc_pages 2 s = Inr (a, t) \<and> kmem_ok t \<and>
     a = page_va 0x80000 (k * 4) \<and> free_set t = {..<8} - pages 2 k"
proof -
  obtain s :: kmem_node where s: "kmem_ok s" "free_set s = {..<8}" "begin_ppn s = 0x80000" "npages s = 8"
    using sample_free by blast
  have "pages 2 1 \<subseteq> free_set s" unfolding s(2) by (auto simp: pages_range)
  moreover have "unat (2 :: ulong) < MAX_MEM_ORDER" by (simp add: MAX_MEM_ORDER_def)
  ultimately show ?thesis using kmem_alloc_pages_spec [of s 2] s by (auto split: if_splits)
qed

text \<open>C2. Freeing an allocated page of the managed range succeeds, keeps the invariant (blocks
  merged with their free buddies, pair bits and lists in agreement) and adds exactly that page to
  the free set.\<close>

theorem kmem_free_page_spec:
  assumes "kmem_ok s" "p < npages s" "p \<notin> free_set s"
  shows "\<exists>t. kmem_free_page (page_va (begin_ppn s) p) s = Inr t \<and> kmem_ok t \<and>
    free_set t = insert p (free_set s) \<and> page_frame s t"
  by (rule free_page_correct [OF assms])

theorem kmem_free_page_spec_witness:
  "\<exists>t. kmem_free_page (page_va 0x80000 5) (sample_node [0xff]) = Inr t \<and> kmem_ok t \<and> free_set t = {5}"
  using kmem_free_page_spec [OF sample_full(1), of 5] sample_full(2) by (auto simp: sample_node_def)

text \<open>C3. In every history of allocations and releases that starts with no live block, the
  invariant holds throughout, two live blocks never share a page, no live page is free, and the
  live and the free pages together are always the pages that were free at the start.\<close>

theorem page_histories_safe:
  assumes "kmem_ok s" "client_step\<^sup>*\<^sup>* (s, {}) (t, L)"
  shows "kmem_ok t \<and> pairwise (\<lambda>x y. disjnt (block_pages x) (block_pages y)) L \<and>
    live_pages L \<inter> free_set t = {} \<and> live_pages L \<union> free_set t = free_set s"
proof -
  have "client_inv (free_set s) (s, {})" using assms(1) by (simp add: client_inv_def)
  from client_reachable_inv [OF assms(2) this] show ?thesis by (simp add: client_inv_def)
qed

theorem page_histories_safe_witness:
  "\<exists>(s :: kmem_node) t k. client_step\<^sup>*\<^sup>* (s, {}) (t, {(2, k)}) \<and> live_pages {(2, k)} \<union> free_set t = {..<8}"
proof -
  obtain s :: kmem_node where s: "kmem_ok s" "free_set s = {..<8}" "begin_ppn s = 0x80000" "npages s = 8"
    using sample_free by blast
  have o: "unat (2 :: ulong) < MAX_MEM_ORDER" by (simp add: MAX_MEM_ORDER_def)
  have "pages 2 1 \<subseteq> free_set s" unfolding s(2) by (auto simp: pages_range)
  then obtain k t where "kmem_alloc_pages 2 s = Inr (page_va (begin_ppn s) (k * 2 ^ unat (2 :: ulong)), t)"
    "(k + 1) * 2 ^ unat (2 :: ulong) \<le> npages s"
    using alloc_pages_correct [OF s(1) o] by (auto split: if_splits)
  from client_alloc [OF this, of "{}"] have "client_step\<^sup>*\<^sup>* (s, {}) (t, {(2, k)})" by simp
  with page_histories_safe [OF s(1) this] s(2) show ?thesis by metis
qed

text \<open>C11. Round trip: giving an allocated block back with \<^verbatim>\<open>kmem_free_pages\<close> succeeds
  and restores the free set of before the allocation.\<close>

theorem kmem_alloc_free_roundtrip:
  assumes "kmem_ok s" "kmem_alloc_pages order s = Inr (a, t)" "a \<noteq> 0"
  shows "\<exists>u. kmem_free_pages a (push_bit (unat order) 1) t = Inr u \<and> kmem_ok u \<and> free_set u = free_set s"
proof -
  have o: "unat order < MAX_MEM_ORDER" by (rule alloc_pages_order [OF assms(2)])
  show ?thesis
  proof (rule pa.alloc_total [OF assms(1) o])
    fix k u assume k: "kmem_alloc_pages order s = Inr (page_va (begin_ppn s) (k * 2 ^ unat order), u)"
      "kmem_ok u" "page_frame s u" "(k + 1) * 2 ^ unat order \<le> npages s"
      "pages (unat order) k \<subseteq> free_set s" "free_set u = free_set s - pages (unat order) k"
    then have eq: "u = t" "a = page_va (begin_ppn t) (k * 2 ^ unat order)" "npages t = npages s"
      using assms(2) page_frame_fields [OF k(3)] by auto
    have "\<exists>v. kmem_free_pages a (push_bit (unat order) 1) t = Inr v \<and> kmem_ok v \<and>
        free_set v = free_set t \<union> pages (unat order) k \<and> page_frame t v"
      unfolding eq(2) by (rule free_block_correct) (use k eq in auto)
    moreover have "free_set t \<union> pages (unat order) k = free_set s" using k(5,6) eq(1) by auto
    ultimately show ?thesis by metis
  qed (use assms(2,3) in auto)
qed

theorem kmem_alloc_free_roundtrip_witness:
  "\<exists>(s :: kmem_node) a t u. kmem_alloc_pages 3 s = Inr (a, t) \<and> a \<noteq> 0 \<and>
     kmem_free_pages a 8 t = Inr u \<and> free_set t = {} \<and> free_set u = {..<8}"
proof -
  obtain s :: kmem_node where s: "kmem_ok s" "free_set s = {..<8}" "begin_ppn s = 0x80000" "npages s = 8"
    using sample_free by blast
  have o: "unat (3 :: ulong) < MAX_MEM_ORDER" by (simp add: MAX_MEM_ORDER_def)
  have p0: "pages 3 0 = {..<8}" by (auto simp: pages_range)
  then obtain k t where t: "kmem_alloc_pages 3 s = Inr (page_va (begin_ppn s) (k * 8), t)"
    "(k + 1) * 8 \<le> npages s" "free_set t = free_set s - pages 3 k"
    using alloc_pages_correct [OF s(1) o] s(2) by (auto split: if_splits)
  then have "k = 0" using s(4) by simp
  then have "free_set t = {}" using t(3) s(2) p0 by simp
  moreover have "(push_bit (unat (3 :: ulong)) 1 :: ulong) = 8" by simp
  ultimately show ?thesis
    using kmem_alloc_free_roundtrip [OF s(1) t(1) page_va_nonzero] t(1) s(2) page_va_nonzero by metis
qed

text \<open>C12. Misuse is caught: a page that is free already, an address off a page boundary and an
  order out of range each end in the panic of the source, before any state is changed.\<close>

theorem page_misuse_panics:
  assumes "kmem_ok s"
  shows "(p \<in> free_set s \<longrightarrow>
      kmem_free_page (page_va (begin_ppn s) p) s = Inl (Panic ''kmem_free_page - freed twice'')) \<and>
    (a AND (PAGE_SIZE - 1) \<noteq> 0 \<longrightarrow>
      kmem_free_page a s = Inl (Panic ''kmem_free_page - bad address alignment'') \<and>
      kmem_free_pages a n s = Inl (Panic ''kmem_free_pages - bad address alignment'')) \<and>
    (unat order \<ge> MAX_MEM_ORDER \<longrightarrow>
      kmem_alloc_pages order s = Inl (Panic ''kmem_alloc_pages - too large''))"
proof -
  obtain F where F: "kmem_inv s F" "lock_free s" using assms by (auto simp: kmem_ok_def)
  have rep: "rep s F" using F(1) by (simp add: kmem_inv_def)
  have "kmem_free_page (page_va (begin_ppn s) p) s = Inl (Panic ''kmem_free_page - freed twice'')"
    if "p \<in> free_set s"
  proof -
    have p: "p < npages s" "\<not> bm (mem_map s) p" using that by (auto simp: free_set_def)
    have up: "unat (word_of_nat p :: ulong) = p"
      by (rule unat_of_nat64) (use p rep_range [OF rep] in simp)
    have "p < 8 * length (mem_map s)" using rep p by (simp add: rep_def shape_def)
    then have "test_and_clear_bit (mem_map s) (word_of_nat p) = Inr (0, bm_put (mem_map s) p False)"
      using test_and_clear_bit_eq [of "word_of_nat p" "mem_map s"] p by (simp add: up)
    moreover obtain x H lk where
      "acquire_page_manager s = Inr (s\<lparr>sstatus := x, harts := H, page_manager_lock := lk\<rparr>)"
      by (rule page_manager_section [OF F(2)]) blast
    ultimately show ?thesis
      using page_va_pa [OF rep_range [OF rep] p(1)] page_va_aligned [of "begin_ppn s" p]
      by (simp add: kmem_free_page_def Let_def)
  qed
  then show ?thesis by (simp add: kmem_free_page_def kmem_free_pages_def kmem_alloc_pages_def)
qed

theorem page_misuse_panics_witness:
  "kmem_alloc_pages 11 (sample_node [0xff]) = Inl (Panic ''kmem_alloc_pages - too large'') \<and>
   kmem_free_page 1 (sample_node [0xff]) = Inl (Panic ''kmem_free_page - bad address alignment'') \<and>
   (\<exists>s :: kmem_node. kmem_free_page (page_va 0x80000 3) s = Inl (Panic ''kmem_free_page - freed twice''))"
proof -
  obtain s :: kmem_node where s: "kmem_ok s" "free_set s = {..<8}" "begin_ppn s = 0x80000"
    using sample_free by blast
  have "kmem_free_page (page_va 0x80000 3) s = Inl (Panic ''kmem_free_page - freed twice'')"
    using page_misuse_panics [OF s(1), of 3] s by simp
  moreover have "kmem_alloc_pages 11 (sample_node [0xff]) = Inl (Panic ''kmem_alloc_pages - too large'')"
    "kmem_free_page 1 (sample_node [0xff]) = Inl (Panic ''kmem_free_page - bad address alignment'')"
    using page_misuse_panics [OF sample_full(1), of _ 1 _ 11] by (simp_all add: MAX_MEM_ORDER_def PAGE_SIZE_def)
  ultimately show ?thesis by blast
qed

text \<open>C13. Initialisation: on the state the boot allocator leaves, with a multiple of
  \<open>2 ^ MAX_MEM_ORDER\<close> and at most \<open>2 ^ 16\<close> managed pages of which more than two per pair map are
  free, \<^verbatim>\<open>kmem_page_manager_init\<close> returns and establishes the allocator's invariant. It manages
  as free only pages that were free, all of them but the few the pair maps occupy.\<close>

theorem kmem_page_manager_init_spec:
  assumes "boot_ready s" "2 ^ MAX_MEM_ORDER dvd npages s"
    and "npages s \<le> 2 ^ 16" "2 * MAX_MEM_ORDER < card (free_set s)"
  shows "\<exists>t. kmem_page_manager_init s = Inr t \<and> kmem_ok t \<and> free_set t \<subseteq> free_set s \<and>
    card (free_set s) \<le> card (free_set t) + 2 * MAX_MEM_ORDER"
  by (rule page_manager_init_correct [OF assms])

theorem kmem_page_manager_init_spec_witness:
  "\<exists>t. kmem_page_manager_init (sample_node (replicate 256 0)\<lparr>num_ppn := 2048, uma_num_ppn := 2048\<rparr>) = Inr t \<and>
     kmem_ok t \<and> 2026 \<le> card (free_set t)"
proof -
  let ?n = "sample_node (replicate 256 0)" and ?s = "sample_node (replicate 256 0)\<lparr>num_ppn := 2048, uma_num_ppn := 2048\<rparr>"
  have hd: "heads ?s d = heads ?n d" for d by (simp add: sample_node_def)
  have "boot_ready ?s"
    unfolding boot_ready_def hd using sample_heads_distinct sample_heads(3) sample_heads_nonzero
    by (simp add: bootmem_inv_def cpu_ok_def sample_node_def current_hart_def current_hart_id_def)
  moreover have fs: "free_set ?s = {..<2048}" by (auto simp: free_set_def sample_node_def bm_def)
  moreover have "npages ?s = 2048" by simp
  ultimately show ?thesis using kmem_page_manager_init_spec [of ?s] by (auto simp: MAX_MEM_ORDER_def)
qed

text \<open>C14. The sizes computed for the pair maps round the wrong way: when the number of managed
  pages is one more than a multiple of 16, the order-0 map of the computed size has no bit for the
  last page, and freeing that page toggles a bit outside the map.\<close>

theorem area_map_too_small:
  assumes "lock_free s" "range_ok (begin_ppn s) (npages s)" "length (free_areas s) = MAX_MEM_ORDER"
    "free_area_map (free_areas s ! 0) = replicate (unat (area_map_size (num_ppn s) 0)) 0"
    "npages s mod 16 = 1" "npages s \<le> 8 * length (mem_map s)" "bm (mem_map s) (npages s - 1)"
  shows "kmem_free_page (page_va (begin_ppn s) (npages s - 1)) s = Inl Undefined"
proof -
  define p where "p = npages s - 1"
  obtain m where m: "npages s = 16 * m + 1" using assms(5) div_mult_mod_eq [of "npages s" 16] by (metis mult.commute)
  have p: "p < npages s" "p < 2 ^ 26" using m assms(2) unfolding p_def by auto
  obtain x H lk where acq:
    "acquire_page_manager s = Inr (s\<lparr>sstatus := x, harts := H, page_manager_lock := lk\<rparr>)"
    by (rule page_manager_section [OF assms(1)]) blast
  let ?s = "s\<lparr>sstatus := x, harts := H, page_manager_lock := lk, mem_map := bm_put (mem_map s) p False\<rparr>"
  have up: "unat (word_of_nat p :: ulong) = p" by (rule unat_of_nat64) (use p in simp)
  have "p < 8 * length (mem_map s)" using assms(6) p(1) by simp
  then have clr: "test_and_clear_bit (mem_map s) (word_of_nat p) = Inr (1, bm_put (mem_map s) p False)"
    using test_and_clear_bit_eq [of "word_of_nat p" "mem_map s"] assms(7) unfolding up p_def [symmetric] by simp
  have "unat (area_map_size (num_ppn s) 0) = (npages s div 2 + 7) div 8"
    using unat_area_map_size [of "num_ppn s" 0] assms(2) by simp
  then have "8 * length (free_area_map (free_areas ?s ! 0)) \<le> p div 2 ^ 0 div 2"
    using assms(4) m unfolding p_def by simp
  then have "toggle_area 0 (drop_bit (0 + 1) (word_of_nat p AND NOT (push_bit 0 1 - 1))) ?s = Inl Undefined"
    using assms(3) bitmap_out_of_bounds(4) [of "free_area_map (free_areas s ! 0)"] map_pos [OF p(2), of 0]
    by (simp add: toggle_area_def MAX_MEM_ORDER_def)
  then have "free_loop 0 (word_of_nat p) ?s = Inl Undefined"
    by (subst free_loop.simps) (simp add: MAX_MEM_ORDER_def Let_def)
  then show ?thesis unfolding p_def [symmetric]
    using page_va_pa [OF assms(2) p(1)] page_va_aligned [of "begin_ppn s" p]
    by (simp add: kmem_free_page_def Let_def acq clr)
qed

theorem area_map_too_small_witness:
  "kmem_free_page (page_va 0x80000 16) (sample_node [0xff, 0xff, 0xff]\<lparr>num_ppn := 17\<rparr>) = Inl Undefined"
proof -
  let ?s = "sample_node [0xff, 0xff, 0xff]\<lparr>num_ppn := 17\<rparr>"
  have "lock_free ?s"
    by (simp add: lock_free_def cpu_ok_def sample_node_def spinlock_init_def current_hart_def current_hart_id_def)
  moreover have "free_area_map (free_areas ?s ! 0) = replicate (unat (area_map_size (num_ppn ?s) 0)) 0"
    by (simp add: sample_node_def area_map_size_def MAX_MEM_ORDER_def)
  moreover have "range_ok (begin_ppn ?s) (npages ?s)" "length (free_areas ?s) = MAX_MEM_ORDER"
    "npages ?s mod 16 = 1" "npages ?s \<le> 8 * length (mem_map ?s)" "bm (mem_map ?s) (npages ?s - 1)"
    by (simp_all add: sample_node_def bm_def)
  ultimately have "kmem_free_page (page_va (begin_ppn ?s) (npages ?s - 1)) ?s = Inl Undefined"
    using area_map_too_small [of ?s] by blast
  then show ?thesis by (simp add: sample_node_def)
qed

section \<open>The boot allocator\<close>

text \<open>C15. With an alignment of at most a page, \<^verbatim>\<open>bootmem_alloc\<close> returns and keeps its
  invariant. A non-null result is the address of bytes that were free, aligned as asked; afterwards
  exactly the pages they meet are reserved, no byte of them is free and none has become free: no
  two allocations overlap. It returns \<^verbatim>\<open>NULL\<close> only when no run of free pages is long enough.\<close>

theorem bootmem_alloc_spec:
  assumes "bootmem_inv s" "0 < unat siz" "unat siz \<le> 2 ^ 38" "a \<le> 12"
  shows "\<exists>v t. bootmem_alloc siz (push_bit a 1) goal s = Inr (v, t) \<and> bootmem_inv t \<and>
    (if v = 0 then t = s \<and> (\<forall>q. \<not> run_free (mem_map s) (unat (uma_num_ppn s)) q (q + (unat siz + 4095) div 4096))
     else \<exists>x. v = PMA_PA2VA (word_of_nat (unat (uma_begin_ppn s) * 4096 + x)) \<and> 2 ^ a dvd x \<and>
       {x..<x + unat siz} \<subseteq> free_bytes s \<and> free_bytes t \<subseteq> free_bytes s - {x..<x + unat siz} \<and>
       (\<forall>q. bm (mem_map t) q \<longleftrightarrow> bm (mem_map s) q \<or> touches q x (x + unat siz)))"
  using bootmem_alloc_correct [OF assms] by blast

theorem bootmem_alloc_spec_witness:
  "\<exists>v t x. bootmem_alloc 100 8 0 (sample_node [0xf0]) = Inr (v, t) \<and> v \<noteq> 0 \<and> 2 ^ 3 dvd x \<and>
     {x..<x + 100} \<subseteq> free_bytes (sample_node [0xf0]) \<and> {x..<x + 100} \<inter> free_bytes t = {}"
proof -
  have inv: "bootmem_inv (sample_node [0xf0])" by (simp add: bootmem_inv_def sample_node_def)
  have eight: "(push_bit 3 1 :: ulong) = 8" by simp
  have f: "mem_map (sample_node [0xf0]) = [0xf0]" "unat (uma_num_ppn (sample_node [0xf0])) = 8"
    "unat (100 :: ulong) = 100" by (simp_all add: sample_node_def)
  have pre: "0 < unat (100 :: ulong)" "unat (100 :: ulong) \<le> 2 ^ 38" "3 \<le> (12 :: nat)" by simp_all
  note spec = bootmem_alloc_spec [OF inv pre, of 0, unfolded eight f]
  from spec obtain v t where t: "bootmem_alloc 100 8 0 (sample_node [0xf0]) = Inr (v, t)"
    "v = 0 \<Longrightarrow> \<not> run_free [0xf0] 8 0 (0 + (100 + 4095) div 4096)"
    "v \<noteq> 0 \<Longrightarrow> \<exists>x. 2 ^ 3 dvd x \<and> {x..<x + 100} \<subseteq> free_bytes (sample_node [0xf0]) \<and>
       free_bytes t \<subseteq> free_bytes (sample_node [0xf0]) - {x..<x + 100}"
    by (elim exE conjE) (auto split: if_splits)
  have "run_free [0xf0] 8 0 (0 + (100 + 4095) div 4096)" by (simp add: run_free_def bm_def)
  with t(2) have "v \<noteq> 0" by blast
  with t(1) t(3) show ?thesis by fast
qed

end
