(* ===== verification/Qsort.thy ===== *)
theory Qsort
  imports Prelude "HOL-Library.Multiset"
begin

text \<open>
  \<^verbatim>\<open>kernel/utilities/algorithm/qsort.c\<close>. The macro generates one function per element type; the model
  is one polymorphic function over a linear order, which the eight element types are. Indices are
  C \<^verbatim>\<open>int\<close>s; the array is shorter than 2 to the 31, so their arithmetic is exact.
\<close>

section \<open>The program\<close>

definition geti :: "'a list \<Rightarrow> int \<Rightarrow> 'a res" where
  "geti arr i = (if 0 \<le> i then rd arr (nat i) else Inl Undefined)"

definition seti :: "'a list \<Rightarrow> int \<Rightarrow> 'a \<Rightarrow> 'a list res" where
  "seti arr i v = (if 0 \<le> i then wr arr (nat i) v else Inl Undefined)"

definition swap_elems :: "'a list \<Rightarrow> int \<Rightarrow> int \<Rightarrow> 'a list res" where
  "swap_elems arr ptr j =
     bindR (geti arr ptr) (\<lambda>tmp. bindR (geti arr j) (\<lambda>x.
     bindR (seti arr ptr x) (\<lambda>arr. seti arr j tmp)))"

function partition_loop :: "'a::linorder \<Rightarrow> int \<Rightarrow> int \<Rightarrow> int \<Rightarrow> 'a list \<Rightarrow> (int \<times> 'a list) res" where
  "partition_loop pivot high ptr j arr =
     (if j < high then
        bindR (geti arr j) (\<lambda>x.
        if x < pivot then bindR (swap_elems arr (ptr + 1) j) (partition_loop pivot high (ptr + 1) (j + 1))
        else partition_loop pivot high ptr (j + 1) arr)
      else Inr (ptr, arr))"
  by pat_completeness auto
termination by (relation "measure (\<lambda>(pivot, high, ptr, j, arr). nat (high - j))") auto

declare partition_loop.simps [simp del]

definition partition_step :: "int \<Rightarrow> int \<Rightarrow> 'a::linorder list \<Rightarrow> (int \<times> 'a list) res" where
  "partition_step low high arr =
     bindR (geti arr high) (\<lambda>pivot.
     bindR (partition_loop pivot high (low - 1) low arr) (\<lambda>(ptr, arr).
     bindR (swap_elems arr (ptr + 1) high) (\<lambda>arr. Inr (ptr + 1, arr))))"

lemma bindR_cong [fundef_cong]:
  "m = m' \<Longrightarrow> (\<And>x. m' = Inr x \<Longrightarrow> f x = g x) \<Longrightarrow> bindR m f = bindR m' g"
  by (cases m') auto

lemma partition_loop_range:
  "partition_loop pivot high ptr j arr = Inr (ptr', arr') \<Longrightarrow> j \<le> high \<Longrightarrow> ptr \<le> ptr' \<and> ptr' \<le> ptr + (high - j)"
proof (induction pivot high ptr j arr rule: partition_loop.induct)
  case (1 pivot high ptr j arr)
  show ?case
  proof (cases "j < high")
    case False
    with "1.prems" show ?thesis by (subst (asm) partition_loop.simps) auto
  next
    case True
    with "1.prems"(1) obtain x where x: "geti arr j = Inr x"
      by (subst (asm) partition_loop.simps) (auto simp: bindR_Inr_iff)
    show ?thesis
    proof (cases "x < pivot")
      case lt: True
      with "1.prems"(1) True x obtain arr1 where s: "swap_elems arr (ptr + 1) j = Inr arr1"
        "partition_loop pivot high (ptr + 1) (j + 1) arr1 = Inr (ptr', arr')"
        by (subst (asm) partition_loop.simps) (auto simp: bindR_Inr_iff)
      from "1.IH"(1) [OF True lt this(2)] True show ?thesis by linarith
    next
      case ge: False
      with "1.prems"(1) True x have "partition_loop pivot high ptr (j + 1) arr = Inr (ptr', arr')"
        by (subst (asm) partition_loop.simps) auto
      from "1.IH"(2) [OF True ge this] True show ?thesis by linarith
    qed
  qed
qed

lemma partition_step_range:
  "partition_step low high arr = Inr (ptr, arr') \<Longrightarrow> low < high \<Longrightarrow> low \<le> ptr \<and> ptr \<le> high"
  by (auto simp: partition_step_def bindR_Inr_iff dest!: partition_loop_range)

function qsort_typ :: "int \<Rightarrow> int \<Rightarrow> 'a::linorder list \<Rightarrow> 'a list res" where
  "qsort_typ low high arr =
     (if low < high then
        bindR (partition_step low high arr) (\<lambda>(ptr, arr).
        bindR (qsort_typ low (ptr - 1) arr) (qsort_typ (ptr + 1) high))
      else Inr arr)"
  by pat_completeness auto
termination
  by (relation "measure (\<lambda>(low, high, arr). nat (high - low))") (auto dest!: partition_step_range)

declare qsort_typ.simps [simp del]

definition qsort :: "'a::linorder list \<Rightarrow> int \<Rightarrow> 'a list res" where
  "qsort arr len = qsort_typ 0 (len - 1) arr"

section \<open>Reordering a segment\<close>

definition seg :: "nat \<Rightarrow> nat \<Rightarrow> 'a list \<Rightarrow> 'a list" where
  "seg l h xs = drop l (take h xs)"

definition reorders :: "nat \<Rightarrow> nat \<Rightarrow> 'a list \<Rightarrow> 'a list \<Rightarrow> bool" where
  "reorders l h xs ys \<longleftrightarrow> length ys = length xs \<and> take l ys = take l xs \<and> drop h ys = drop h xs \<and> mset ys = mset xs"

lemma reorders_refl [simp]: "reorders l h xs xs"
  by (simp add: reorders_def)

lemma reorders_trans: "reorders l h xs ys \<Longrightarrow> reorders l h ys zs \<Longrightarrow> reorders l h xs zs"
  by (simp add: reorders_def)

lemma reorders_length: "reorders l h xs ys \<Longrightarrow> length ys = length xs"
  by (simp add: reorders_def)

lemma reorders_widen:
  assumes "reorders l h xs ys" "l' \<le> l" "h \<le> h'"
  shows "reorders l' h' xs ys"
proof -
  have "take l' ys = take l' (take l ys)" "take l' xs = take l' (take l xs)" using assms(2) by (simp_all add: min_absorb1)
  moreover have "drop h' ys = drop (h' - h) (drop h ys)" "drop h' xs = drop (h' - h) (drop h xs)"
    using assms(3) by simp_all
  ultimately show ?thesis using assms(1) unfolding reorders_def by metis
qed

lemma seg_split: "l \<le> h \<Longrightarrow> xs = take l xs @ seg l h xs @ drop h xs"
  unfolding seg_def by (metis append.assoc append_take_drop_id min_absorb1 take_take)

lemma reorders_mset_seg:
  assumes "reorders l h xs ys" "l \<le> h"
  shows "mset (seg l h ys) = mset (seg l h xs)"
proof -
  have "mset ys = mset (take l ys) + mset (seg l h ys) + mset (drop h ys)"
    using arg_cong [OF seg_split [OF assms(2), of ys], of mset] by (simp add: ac_simps)
  moreover have "mset xs = mset (take l xs) + mset (seg l h xs) + mset (drop h xs)"
    using arg_cong [OF seg_split [OF assms(2), of xs], of mset] by (simp add: ac_simps)
  ultimately show ?thesis using assms(1) unfolding reorders_def by simp
qed

lemma reorders_set_seg: "reorders l h xs ys \<Longrightarrow> l \<le> h \<Longrightarrow> set (seg l h ys) = set (seg l h xs)"
  by (metis reorders_mset_seg set_mset_mset)

lemma reorders_nth_low: "reorders l h xs ys \<Longrightarrow> i < l \<Longrightarrow> ys ! i = xs ! i"
  unfolding reorders_def by (metis nth_take)

lemma reorders_nth_high:
  assumes "reorders l h xs ys" "h \<le> i" "i < length xs"
  shows "ys ! i = xs ! i"
proof -
  have "drop h ys ! (i - h) = drop h xs ! (i - h)" using assms(1) by (simp add: reorders_def)
  then show ?thesis using assms reorders_length [OF assms(1)] by simp
qed

lemma reorders_seg_low:
  assumes "reorders l h xs ys" "b \<le> l"
  shows "seg a b ys = seg a b xs"
proof -
  have "take b zs = take b (take l zs)" for zs :: "'a list" using assms(2) by (simp add: min_absorb1)
  then show ?thesis using assms(1) unfolding reorders_def seg_def by metis
qed

lemma reorders_seg_high:
  assumes "reorders l h xs ys" "h \<le> a"
  shows "seg a b ys = seg a b xs"
proof -
  have "seg a b zs = take (b - a) (drop (a - h) (drop h zs))" for zs :: "'a list"
    using assms(2) by (simp add: seg_def drop_take)
  then show ?thesis using assms(1) unfolding reorders_def by metis
qed

lemma set_seg: "h \<le> length xs \<Longrightarrow> set (seg l h xs) = {xs ! i | i. l \<le> i \<and> i < h}"
proof -
  assume h: "h \<le> length xs"
  have "x \<in> set (seg l h xs) \<longleftrightarrow> (\<exists>i. l \<le> i \<and> i < h \<and> x = xs ! i)" for x
  proof
    assume "x \<in> set (seg l h xs)"
    then obtain k where "k < length (seg l h xs)" "x = seg l h xs ! k" by (auto simp: in_set_conv_nth)
    then show "\<exists>i. l \<le> i \<and> i < h \<and> x = xs ! i" using h by (intro exI [of _ "l + k"]) (auto simp: seg_def)
  next
    assume "\<exists>i. l \<le> i \<and> i < h \<and> x = xs ! i"
    then obtain i where "l \<le> i" "i < h" "x = xs ! i" by blast
    then show "x \<in> set (seg l h xs)"
      unfolding in_set_conv_nth using h by (intro exI [of _ "i - l"]) (auto simp: seg_def)
  qed
  then show ?thesis by blast
qed

lemma seg_join:
  assumes "l \<le> k" "k \<le> h"
  shows "seg l h xs = seg l k xs @ seg k h xs"
  using take_add [of "k - l" "h - k" "drop l xs"] assms by (simp add: seg_def drop_take)

lemma swap_elems_spec:
  assumes "l \<le> i" "i < h" "l \<le> j" "j < h" "h \<le> length xs"
  shows "swap_elems xs (int i) (int j) = Inr (xs[i := xs ! j, j := xs ! i])"
    and "reorders l h xs (xs[i := xs ! j, j := xs ! i])"
proof -
  show "swap_elems xs (int i) (int j) = Inr (xs[i := xs ! j, j := xs ! i])"
    using assms by (simp add: swap_elems_def geti_def seti_def)
  have "mset (xs[i := xs ! j, j := xs ! i]) = mset xs" using assms by (intro mset_swap) simp_all
  then show "reorders l h xs (xs[i := xs ! j, j := xs ! i])"
    using assms by (simp add: reorders_def take_update_cancel drop_update_cancel)
qed

section \<open>Partitioning\<close>

lemma partition_loop_spec:
  assumes "l \<le> p" "p \<le> j" "j \<le> h" "h < length arr"
    and "\<forall>i. l \<le> i \<and> i < p \<longrightarrow> arr ! i < pivot" "\<forall>i. p \<le> i \<and> i < j \<longrightarrow> pivot \<le> arr ! i"
  shows "\<exists>p' arr'. partition_loop pivot (int h) (int p - 1) (int j) arr = Inr (int p' - 1, arr') \<and> p \<le> p' \<and> p' \<le> h \<and>
    reorders l h arr arr' \<and> (\<forall>i. l \<le> i \<and> i < p' \<longrightarrow> arr' ! i < pivot) \<and> (\<forall>i. p' \<le> i \<and> i < h \<longrightarrow> pivot \<le> arr' ! i)"
  using assms
proof (induction "h - j" arbitrary: p j arr)
  case 0
  then show ?case
    by (intro exI [of _ p] exI [of _ arr]) (subst partition_loop.simps, auto)
next
  case (Suc k)
  then have jh: "j < h" by simp
  show ?case
  proof (cases "arr ! j < pivot")
    case True
    let ?a = "arr[p := arr ! j, j := arr ! p]"
    have sw: "swap_elems arr (int p) (int j) = Inr ?a" "reorders l h arr ?a"
      using swap_elems_spec [of l p h j arr] Suc.prems jh by simp_all
    have "partition_loop pivot (int h) (int p - 1) (int j) arr = partition_loop pivot (int h) (int (Suc p) - 1) (int (Suc j)) ?a"
      using jh True sw(1) Suc.prems(4) by (subst partition_loop.simps) (simp add: geti_def add.commute)
    moreover have "\<exists>p' arr'. partition_loop pivot (int h) (int (Suc p) - 1) (int (Suc j)) ?a = Inr (int p' - 1, arr') \<and>
      Suc p \<le> p' \<and> p' \<le> h \<and> reorders l h ?a arr' \<and> (\<forall>i. l \<le> i \<and> i < p' \<longrightarrow> arr' ! i < pivot) \<and>
      (\<forall>i. p' \<le> i \<and> i < h \<longrightarrow> pivot \<le> arr' ! i)"
      by (rule Suc.hyps(1)) (use Suc.prems Suc.hyps(2) jh True in \<open>auto simp: nth_list_update less_Suc_eq\<close>)
    ultimately show ?thesis using reorders_trans [OF sw(2)] by (metis Suc_leD)
  next
    case False
    have "partition_loop pivot (int h) (int p - 1) (int j) arr = partition_loop pivot (int h) (int p - 1) (int (Suc j)) arr"
      using jh False Suc.prems(4) by (subst partition_loop.simps) (simp add: geti_def add.commute)
    moreover have "\<exists>p' arr'. partition_loop pivot (int h) (int p - 1) (int (Suc j)) arr = Inr (int p' - 1, arr') \<and>
      p \<le> p' \<and> p' \<le> h \<and> reorders l h arr arr' \<and> (\<forall>i. l \<le> i \<and> i < p' \<longrightarrow> arr' ! i < pivot) \<and>
      (\<forall>i. p' \<le> i \<and> i < h \<longrightarrow> pivot \<le> arr' ! i)"
      by (rule Suc.hyps(1)) (use Suc.prems Suc.hyps(2) jh False in \<open>auto simp: less_Suc_eq\<close>)
    ultimately show ?thesis by simp
  qed
qed

lemma partition_step_spec:
  assumes "l < h" "h < length arr"
  shows "\<exists>p arr'. partition_step (int l) (int h) arr = Inr (int p, arr') \<and> l \<le> p \<and> p \<le> h \<and> reorders l (Suc h) arr arr' \<and>
    (\<forall>x\<in>set (seg l p arr'). x \<le> arr' ! p) \<and> (\<forall>x\<in>set (seg (Suc p) (Suc h) arr'). arr' ! p \<le> x)"
proof -
  let ?pv = "arr ! h"
  obtain p a where a: "partition_loop ?pv (int h) (int l - 1) (int l) arr = Inr (int p - 1, a)" "l \<le> p" "p \<le> h"
    "reorders l h arr a" "\<forall>i. l \<le> i \<and> i < p \<longrightarrow> a ! i < ?pv" "\<forall>i. p \<le> i \<and> i < h \<longrightarrow> ?pv \<le> a ! i"
    using partition_loop_spec [of l l l h arr ?pv] assms by (metis less_imp_le not_le order_refl)
  have len: "length a = length arr" using a(4) by (rule reorders_length)
  have ah: "a ! h = ?pv" using reorders_nth_high [OF a(4)] assms by simp
  let ?b = "a[p := a ! h, h := a ! p]"
  have sw: "swap_elems a (int p) (int h) = Inr ?b" "reorders l (Suc h) a ?b"
    using swap_elems_spec [of l p "Suc h" h a] assms a len by simp_all
  have "partition_step (int l) (int h) arr = Inr (int p, ?b)"
    using a(1) sw(1) assms by (simp add: partition_step_def geti_def)
  moreover have "reorders l (Suc h) arr ?b"
    using reorders_trans [OF reorders_widen [OF a(4)] sw(2)] by simp
  moreover have bp: "?b ! p = ?pv" using a(2,3) ah assms len by (cases "p = h") (auto simp: nth_list_update)
  moreover have "\<forall>x\<in>set (seg l p ?b). x \<le> ?pv"
    using a(3,5) assms len by (subst set_seg) (auto simp: less_imp_le)
  moreover have "\<forall>x\<in>set (seg (Suc p) (Suc h) ?b). ?pv \<le> x"
    using a(3,6) assms len by (subst set_seg) (auto simp: nth_list_update less_Suc_eq)
  ultimately show ?thesis using a(2,3) by metis
qed

section \<open>Sorting\<close>

lemma sorted_around:
  assumes "sorted (seg l p xs)" "sorted (seg (Suc p) e xs)" "l \<le> p" "p < e" "e \<le> length xs"
    and "\<forall>x\<in>set (seg l p xs). x \<le> xs ! p" "\<forall>x\<in>set (seg (Suc p) e xs). xs ! p \<le> x"
  shows "sorted (seg l e xs)"
proof -
  have "seg l e xs = seg l p xs @ seg p (Suc p) xs @ seg (Suc p) e xs"
    using assms(3,4) seg_join [of l p e xs] seg_join [of p "Suc p" e xs] by simp
  moreover have "seg p (Suc p) xs = [xs ! p]"
    using assms(4,5) by (simp add: seg_def take_Suc_conv_app_nth)
  ultimately show ?thesis using assms(1,2,6,7) by (fastforce simp: sorted_append intro: order_trans)
qed

lemma qsort_typ_spec:
  assumes "l \<le> e" "e \<le> length arr"
  shows "\<exists>arr'. qsort_typ (int l) (int e - 1) arr = Inr arr' \<and> reorders l e arr arr' \<and> sorted (seg l e arr')"
  using assms
proof (induction "e - l" arbitrary: l e arr rule: less_induct)
  case less
  show ?case
  proof (cases "Suc l < e")
    case False
    then have "sorted (seg l e arr)" using less.prems
      by (intro sorted01) (simp add: seg_def)
    moreover have "qsort_typ (int l) (int e - 1) arr = Inr arr"
      using False by (subst qsort_typ.simps) simp
    ultimately show ?thesis by auto
  next
    case True
    define h where "h = e - 1"
    have e: "e = Suc h" "l < h" "h < length arr" using True less.prems h_def by auto
    obtain p a where a: "partition_step (int l) (int h) arr = Inr (int p, a)" "l \<le> p" "p \<le> h"
      "reorders l e arr a" "\<forall>x\<in>set (seg l p a). x \<le> a ! p" "\<forall>x\<in>set (seg (Suc p) e a). a ! p \<le> x"
      using partition_step_spec [OF e(2,3)] e(1) by blast
    note la = reorders_length [OF a(4)]
    obtain b where b: "qsort_typ (int l) (int p - 1) a = Inr b" "reorders l p a b" "sorted (seg l p b)"
      using less.hyps [of p l a] a e la by force
    note lb = reorders_length [OF b(2)]
    obtain c where c: "qsort_typ (int (Suc p)) (int e - 1) b = Inr c" "reorders (Suc p) e b c" "sorted (seg (Suc p) e c)"
      using less.hyps [of e "Suc p" b] a e la lb by force
    have "qsort_typ (int l) (int e - 1) arr = Inr c"
      using a(1) b(1) c(1) e by (subst qsort_typ.simps) (simp add: add.commute)
    moreover have "reorders l e arr c"
      using reorders_trans [OF a(4) reorders_trans [OF reorders_widen [OF b(2)] reorders_widen [OF c(2)]]] a(2,3) e(1)
      by simp
    moreover have "sorted (seg l e c)"
    proof (rule sorted_around [OF _ c(3)])
      have cp: "c ! p = a ! p"
        using reorders_nth_low [OF c(2)] reorders_nth_high [OF b(2)] a(3) e la by simp
      show "sorted (seg l p c)" using b(3) reorders_seg_low [OF c(2), of p l] by simp
      show "\<forall>x\<in>set (seg l p c). x \<le> c ! p"
        using a(5) cp reorders_seg_low [OF c(2), of p l] reorders_set_seg [OF b(2) a(2)] by simp
      show "\<forall>x\<in>set (seg (Suc p) e c). c ! p \<le> x"
        using a(6) cp reorders_set_seg [OF c(2)] reorders_seg_high [OF b(2), of "Suc p" e] a(3) e(1) by simp
    qed (use a(2,3) e la lb reorders_length [OF c(2)] in simp_all)
    ultimately show ?thesis by blast
  qed
qed

section \<open>Property\<close>

text \<open>C21. Quicksort sorts: on any array and any length within it, every recursion ends, no access leaves
  the array, the first \<^verbatim>\<open>len\<close> elements of the result are sorted, the elements beyond them are untouched
  and the whole is a permutation of what was there.\<close>

theorem qsort_sorts:
  assumes "0 \<le> len" "nat len \<le> length arr"
  shows "\<exists>arr'. qsort arr len = Inr arr' \<and> sorted (take (nat len) arr') \<and>
    drop (nat len) arr' = drop (nat len) arr \<and> mset arr' = mset arr"
  using qsort_typ_spec [of 0 "nat len" arr] assms by (auto simp: qsort_def reorders_def seg_def)

theorem qsort_sorts_witness:
  "\<exists>arr'. qsort [3, 1, 2, 0 :: uint8] 3 = Inr arr' \<and> sorted (take 3 arr') \<and>
    drop 3 arr' = [0] \<and> mset arr' = {#3, 1, 2, 0#}"
  using qsort_sorts [of 3 "[3, 1, 2, 0 :: uint8]"] by simp

end
