(* ===== verification/Cstring.thy ===== *)
theory Cstring
  imports Prelude
begin

text \<open>
  \<^verbatim>\<open>kernel/utilities/string.c\<close> over a byte memory. An address that is not mapped makes an
  access undefined. Loops that count a size down are recursive on it; loops that look for a
  terminator are \<open>partial_function (option)\<close>, so that running for ever is the value \<open>None\<close>.
\<close>

section \<open>Memory\<close>

type_synonym memory = "addr \<rightharpoonup> uint8"

definition ldb :: "memory \<Rightarrow> addr \<Rightarrow> uint8 res" where
  "ldb m a = (case m a of None \<Rightarrow> Inl Undefined | Some b \<Rightarrow> Inr b)"

definition stb :: "memory \<Rightarrow> addr \<Rightarrow> uint8 \<Rightarrow> memory res" where
  "stb m a b = (if m a = None then Inl Undefined else Inr (m(a \<mapsto> b)))"

lemma ldb_Some [simp]: "m a = Some b \<Longrightarrow> ldb m a = Inr b"
  by (simp add: ldb_def)

lemma stb_Some [simp]: "m a \<noteq> None \<Longrightarrow> stb m a b = Inr (m(a \<mapsto> b))"
  by (simp add: stb_def)

section \<open>Blocks of bytes\<close>

primrec memset_loop :: "nat \<Rightarrow> addr \<Rightarrow> uint8 \<Rightarrow> memory \<Rightarrow> memory res" where
  "memset_loop 0 p val m = Inr m"
| "memset_loop (Suc siz) p val m = bindR (stb m p val) (memset_loop siz (p + 1) val)"

definition memset :: "addr \<Rightarrow> uint32 \<Rightarrow> ulong \<Rightarrow> memory \<Rightarrow> (addr \<times> memory) res" where
  "memset dst val siz m =
     bindR (memset_loop (unat siz) dst (ucast val) m) (\<lambda>m. Inr (dst, m))"

primrec memcpy_loop :: "nat \<Rightarrow> addr \<Rightarrow> addr \<Rightarrow> memory \<Rightarrow> memory res" where
  "memcpy_loop 0 dst_ptr src_ptr m = Inr m"
| "memcpy_loop (Suc siz) dst_ptr src_ptr m =
     bindR (ldb m src_ptr) (\<lambda>b.
     bindR (stb m dst_ptr b) (memcpy_loop siz (dst_ptr + 1) (src_ptr + 1)))"

definition memcpy :: "addr \<Rightarrow> addr \<Rightarrow> ulong \<Rightarrow> memory \<Rightarrow> (addr \<times> memory) res" where
  "memcpy dst src siz m = bindR (memcpy_loop (unat siz) dst src m) (\<lambda>m. Inr (dst, m))"

primrec move_loop :: "nat \<Rightarrow> addr \<Rightarrow> addr \<Rightarrow> memory \<Rightarrow> memory res" where
  "move_loop 0 p1 p2 m = Inr m"
| "move_loop (Suc siz) p1 p2 m =
     bindR (ldb m p2) (\<lambda>b. bindR (stb m p1 b) (move_loop siz (p1 - 1) (p2 - 1)))"

definition memmove :: "addr \<Rightarrow> addr \<Rightarrow> ulong \<Rightarrow> memory \<Rightarrow> (addr \<times> memory) res" where
  "memmove dst src siz m =
     (if dst = src then Inr (dst, m)
      else if dst < src then bindR (memcpy dst src siz m) (\<lambda>(_, m). Inr (dst, m))
      else bindR (move_loop (unat siz) (dst + siz - 1) (src + siz - 1) m) (\<lambda>m. Inr (dst, m)))"

primrec memcmp_loop :: "nat \<Rightarrow> addr \<Rightarrow> addr \<Rightarrow> memory \<Rightarrow> int res" where
  "memcmp_loop 0 l r m = Inr 0"
| "memcmp_loop (Suc siz) l r m =
     bindR (ldb m l) (\<lambda>a. bindR (ldb m r) (\<lambda>b.
     if a < b then Inr (- 1) else if b < a then Inr 1 else memcmp_loop siz (l + 1) (r + 1) m))"

definition memcmp :: "addr \<Rightarrow> addr \<Rightarrow> ulong \<Rightarrow> memory \<Rightarrow> int res" where
  "memcmp lhs rhs siz m = memcmp_loop (unat siz) lhs rhs m"

primrec memchr_loop :: "nat \<Rightarrow> addr \<Rightarrow> uint8 \<Rightarrow> memory \<Rightarrow> addr res" where
  "memchr_loop 0 p c m = Inr 0"
| "memchr_loop (Suc siz) p c m =
     bindR (ldb m p) (\<lambda>b. if b = c then Inr p else memchr_loop siz (p + 1) c m)"

definition memchr :: "addr \<Rightarrow> uint32 \<Rightarrow> ulong \<Rightarrow> memory \<Rightarrow> addr res" where
  "memchr ptr ch siz m = memchr_loop (unat siz) ptr (ucast ch) m"

section \<open>Strings\<close>

partial_function (option) strlen_loop :: "addr \<Rightarrow> ulong \<Rightarrow> memory \<Rightarrow> ulong res option" where
  "strlen_loop s ret m =
     (case ldb m (s + ret) of Inl e \<Rightarrow> Some (Inl e)
      | Inr c \<Rightarrow> if c \<noteq> 0 then strlen_loop s (ret + 1) m else Some (Inr ret))"

definition strlen :: "addr \<Rightarrow> memory \<Rightarrow> ulong res option" where
  "strlen s m = (if s = 0 then Some (Inr 0) else strlen_loop s 0 m)"

primrec strnlen_loop :: "nat \<Rightarrow> addr \<Rightarrow> ulong \<Rightarrow> memory \<Rightarrow> ulong res" where
  "strnlen_loop 0 str ret m = Inr ret"
| "strnlen_loop (Suc left) str ret m =
     bindR (ldb m (str + ret)) (\<lambda>c. if c \<noteq> 0 then strnlen_loop left str (ret + 1) m else Inr ret)"

definition strnlen :: "addr \<Rightarrow> ulong \<Rightarrow> memory \<Rightarrow> ulong res" where
  "strnlen str strsz m = (if str = 0 then Inr 0 else strnlen_loop (unat strsz) str 0 m)"

partial_function (option) strchr :: "addr \<Rightarrow> uint32 \<Rightarrow> memory \<Rightarrow> addr res option" where
  "strchr str ch m =
     (case ldb m str of Inl e \<Rightarrow> Some (Inl e)
      | Inr c \<Rightarrow> if c \<noteq> 0 \<and> c \<noteq> ucast ch then strchr (str + 1) ch m
                 else if c = 0 then Some (Inr 0) else Some (Inr str))"

function strrchr_loop :: "addr \<Rightarrow> addr \<Rightarrow> uint8 \<Rightarrow> memory \<Rightarrow> addr res" where
  "strrchr_loop str tail ch m =
     (if tail > str then
        bindR (ldb m tail) (\<lambda>c. if c \<noteq> ch then strrchr_loop str (tail - 1) ch m else Inr tail)
      else Inr tail)"
  by pat_completeness auto
termination
proof (relation "measure (\<lambda>(str, tail, ch, m). unat tail)")
  fix str tail :: addr and ch :: uint8 and m :: memory and c :: uint8
  assume "tail > str"
  then have "tail \<noteq> 0" by auto
  then show "((str, tail - 1, ch, m), (str, tail, ch, m)) \<in> measure (\<lambda>(str, tail, ch, m). unat tail)"
    using unat_minus_one [of tail] by (simp add: unat_gt_0)
qed simp

declare strrchr_loop.simps [simp del]

definition strrchr :: "addr \<Rightarrow> uint32 \<Rightarrow> memory \<Rightarrow> addr res option" where
  "strrchr str ch m =
     (case strlen str m of None \<Rightarrow> None | Some (Inl e) \<Rightarrow> Some (Inl e)
      | Some (Inr n) \<Rightarrow> Some (bindR (strrchr_loop str (str + n - 1) (ucast ch) m) (\<lambda>tail.
          bindR (ldb m tail) (\<lambda>c. if c \<noteq> ucast ch then Inr 0 else Inr tail))))"

partial_function (option) strcpy_loop :: "addr \<Rightarrow> addr \<Rightarrow> memory \<Rightarrow> memory res option" where
  "strcpy_loop dst src m =
     (case ldb m src of Inl e \<Rightarrow> Some (Inl e)
      | Inr c \<Rightarrow> if c \<noteq> 0 then
          (case stb m dst c of Inl e \<Rightarrow> Some (Inl e) | Inr m \<Rightarrow> strcpy_loop (dst + 1) (src + 1) m)
        else Some (stb m dst 0))"

definition strcpy :: "addr \<Rightarrow> addr \<Rightarrow> memory \<Rightarrow> (addr \<times> memory) res option" where
  "strcpy dst src m = map_option (\<lambda>r. bindR r (\<lambda>m. Inr (dst, m))) (strcpy_loop dst src m)"

primrec strncpy_loop :: "nat \<Rightarrow> addr \<Rightarrow> addr \<Rightarrow> memory \<Rightarrow> memory res" where
  "strncpy_loop 0 dst src m = stb m dst 0"
| "strncpy_loop (Suc siz) dst src m =
     bindR (ldb m src) (\<lambda>c.
     if c \<noteq> 0 then bindR (stb m dst c) (strncpy_loop siz (dst + 1) (src + 1)) else stb m dst 0)"

definition strncpy :: "addr \<Rightarrow> addr \<Rightarrow> ulong \<Rightarrow> memory \<Rightarrow> (addr \<times> memory) res" where
  "strncpy dst src siz m = bindR (strncpy_loop (unat siz) dst src m) (\<lambda>m. Inr (dst, m))"

partial_function (option) strcmp :: "addr \<Rightarrow> addr \<Rightarrow> memory \<Rightarrow> int res option" where
  "strcmp l r m =
     (case ldb m l of Inl e \<Rightarrow> Some (Inl e) | Inr a \<Rightarrow>
      (case ldb m r of Inl e \<Rightarrow> Some (Inl e) | Inr b \<Rightarrow>
       if a = b \<and> a \<noteq> 0 then strcmp (l + 1) (r + 1) m else Some (Inr (uint a - uint b))))"

primrec strncmp_loop :: "nat \<Rightarrow> addr \<Rightarrow> addr \<Rightarrow> memory \<Rightarrow> int res" where
  "strncmp_loop 0 l r m =
     bindR (ldb m l) (\<lambda>a. bindR (ldb m r) (\<lambda>b. Inr (uint a - uint b)))"
| "strncmp_loop (Suc n) l r m =
     bindR (ldb m l) (\<lambda>a. bindR (ldb m r) (\<lambda>b.
     if a \<noteq> 0 \<and> b \<noteq> 0 \<and> a = b then strncmp_loop n (l + 1) (r + 1) m else Inr (uint a - uint b)))"

definition strncmp :: "addr \<Rightarrow> addr \<Rightarrow> ulong \<Rightarrow> memory \<Rightarrow> int res" where
  "strncmp l r n m = (if n = 0 then Inr 0 else strncmp_loop (unat n - 1) l r m)"

section \<open>Numbers\<close>

definition tolower :: "uint8 \<Rightarrow> uint8" where
  "tolower c = (if 65 \<le> c \<and> c \<le> 90 then c - (65 - 97) else c)"

definition parse_integer_fixup_radix :: "addr \<Rightarrow> uint32 \<Rightarrow> memory \<Rightarrow> (addr \<times> uint32) res" where
  "parse_integer_fixup_radix s base m =
     bindR (ldb m s) (\<lambda>c0.
     bindR (if c0 = 48 then
              bindR (ldb m (s + 1)) (\<lambda>c1.
              if tolower c1 = 120 then Inr (s + 2, 16)
              else if base = 0 then Inr (s, 8) else Inr (s, base))
            else Inr (s, base)) (\<lambda>(s, base).
     Inr (s, if base = 0 then 10 else base)))"

definition decode_digit :: "uint8 \<Rightarrow> uint32" where
  "decode_digit ch =
     (let ch = tolower ch in if ch \<le> 57 then ucast ch - 48 else ucast ch - 97 + 0xa)"

partial_function (option) strtoul_loop ::
  "addr \<Rightarrow> uint32 \<Rightarrow> ulong \<Rightarrow> memory \<Rightarrow> (ulong \<times> addr) res option" where
  "strtoul_loop str base result m =
     (case ldb m str of Inl e \<Rightarrow> Some (Inl e)
      | Inr c \<Rightarrow> let value = decode_digit c in
          if value < base then strtoul_loop (str + 1) base (result * ucast base + ucast value) m
          else Some (Inr (result, str)))"

text \<open>The result and the value of \<^verbatim>\<open>*endptr\<close>.\<close>

definition strtoul :: "addr \<Rightarrow> uint32 \<Rightarrow> memory \<Rightarrow> (ulong \<times> addr) res option" where
  "strtoul str base m =
     (case parse_integer_fixup_radix str base m of Inl e \<Rightarrow> Some (Inl e)
      | Inr (str, base) \<Rightarrow> strtoul_loop str base 0 m)"

section \<open>Copying\<close>

text \<open>The memory after \<open>n\<close> bytes from \<open>src\<close> have been copied to \<open>dst\<close>, all read before any is written.\<close>

definition blit :: "memory \<Rightarrow> addr \<Rightarrow> addr \<Rightarrow> nat \<Rightarrow> memory" where
  "blit m dst src n = (\<lambda>a. if unat (a - dst) < n then m (src + (a - dst)) else m a)"

lemma blit_0 [simp]: "blit m dst src 0 = m"
  by (simp add: blit_def)

definition mapped :: "memory \<Rightarrow> addr \<Rightarrow> nat \<Rightarrow> bool" where
  "mapped m a n \<longleftrightarrow> (\<forall>i<n. m (a + word_of_nat i) \<noteq> None)"

lemma unat64_less: "unat (w :: ulong) < 2 ^ 64"
proof -
  have "unat w < 2 ^ LENGTH(64)" by (rule unsigned_less)
  then show ?thesis by simp
qed

lemma unat_off: "i < n \<Longrightarrow> n \<le> 2 ^ 64 \<Longrightarrow> unat (word_of_nat i :: addr) = i"
  by (simp add: unat_of_nat64)

lemma off_less:
  assumes "unat (a :: addr) + n \<le> 2 ^ 64" "i < n"
  shows "unat (a + word_of_nat i) = unat a + i"
  using assms unat_off [OF assms(2)] by (subst unat_add_lem [THEN iffD1]) simp_all

lemma mapped_Suc:
  "mapped m a (Suc n) \<longleftrightarrow> m a \<noteq> None \<and> mapped m (a + 1) n"
proof -
  have "(\<forall>i<Suc n. m (a + word_of_nat i) \<noteq> None) \<longleftrightarrow>
      m a \<noteq> None \<and> (\<forall>i<n. m (a + word_of_nat (Suc i)) \<noteq> None)"
    by (auto simp: less_Suc_eq_0_disj)
  then show ?thesis by (simp add: mapped_def add.assoc)
qed

lemma mapped_Suc_last: "mapped m a (Suc n) \<longleftrightarrow> mapped m a n \<and> m (a + word_of_nat n) \<noteq> None"
  by (auto simp: mapped_def less_Suc_eq)

lemma mapped_upd: "mapped m a n \<Longrightarrow> mapped (m(b \<mapsto> x)) a n"
  by (simp add: mapped_def)

lemma blit_Suc:
  assumes "n < 2 ^ 64" "m src = Some b" and apart: "\<And>i. i < n \<Longrightarrow> src + 1 + word_of_nat i \<noteq> dst"
  shows "blit (m(dst \<mapsto> b)) (dst + 1) (src + 1) n = blit m dst src (Suc n)"
proof
  fix a
  define k where "k = unat (a - dst)"
  have a: "a - dst = word_of_nat k" unfolding k_def by simp
  show "blit (m(dst \<mapsto> b)) (dst + 1) (src + 1) n a = blit m dst src (Suc n) a"
  proof (cases k)
    case 0
    then have "a = dst" using a by simp
    moreover have "unat (- 1 :: addr) = 2 ^ 64 - 1" by (simp add: unsigned_minus_1_eq_mask mask_eq_exp_minus_1)
    ultimately show ?thesis using assms(1,2) by (simp add: blit_def)
  next
    case (Suc j)
    have e: "a - (dst + 1) = word_of_nat j" using a Suc by (simp add: algebra_simps)
    have jk: "unat (word_of_nat j :: addr) = j"
      using Suc unat64_less [of "a - dst"] unfolding k_def by (intro unat_of_nat64) simp
    have "a \<noteq> dst" using Suc k_def by auto
    then have "blit (m(dst \<mapsto> b)) (dst + 1) (src + 1) n a = (if j < n then m (src + 1 + word_of_nat j) else m a)"
      unfolding blit_def e jk using apart [of j] by simp
    moreover have "blit m dst src (Suc n) a = (if k < Suc n then m (src + word_of_nat k) else m a)"
      unfolding blit_def k_def by simp
    ultimately show ?thesis using Suc by (simp add: add.assoc)
  qed
qed

lemma memcpy_loop_blit:
  assumes "mapped m dst n" "mapped m src n" "unat dst < unat src" "unat src + n \<le> 2 ^ 64"
  shows "memcpy_loop n dst src m = Inr (blit m dst src n)"
  using assms
proof (induction n arbitrary: dst src m)
  case 0
  then show ?case by simp
next
  case (Suc n)
  obtain b where b: "m src = Some b" using Suc.prems(2) by (auto simp: mapped_Suc)
  have d: "m dst \<noteq> None" using Suc.prems(1) by (simp add: mapped_Suc)
  have step: "memcpy_loop (Suc n) dst src m = memcpy_loop n (dst + 1) (src + 1) (m(dst \<mapsto> b))"
    using b d by simp
  show ?case
  proof (cases n)
    case 0
    then show ?thesis using step blit_Suc [of 0 m src b dst] b by simp
  next
    case (Suc k)
    have s1: "unat (src + 1) = unat src + 1" using off_less [of src "Suc n" 1] Suc.prems(4) Suc by simp
    have d1: "unat (dst + 1) = unat dst + 1" using off_less [of dst "Suc n" 1] Suc.prems(3,4) Suc by simp
    have "mapped m (dst + 1) n" "mapped m (src + 1) n" "unat (dst + 1) < unat (src + 1)"
      "unat (src + 1) + n \<le> 2 ^ 64"
      using Suc.prems s1 d1 by (simp_all add: mapped_Suc)
    note IH = Suc.IH [OF mapped_upd [OF this(1)] mapped_upd [OF this(2)] this(3,4)]
    have apart: "src + 1 + word_of_nat i \<noteq> dst" if "i < n" for i
    proof -
      have "unat (src + word_of_nat (Suc i)) = unat src + Suc i"
        by (rule off_less [OF Suc.prems(4)]) (use that in simp)
      then have "unat (src + word_of_nat (Suc i)) \<noteq> unat dst" using Suc.prems(3) by simp
      then have "src + word_of_nat (Suc i) \<noteq> dst" by auto
      then show ?thesis by (simp add: add.assoc)
    qed
    have "n < 2 ^ 64" using Suc.prems(4) by simp
    then have "blit (m(dst \<mapsto> b)) (dst + 1) (src + 1) n = blit m dst src (Suc n)"
      using b apart by (rule blit_Suc)
    then show ?thesis unfolding step IH by (rule arg_cong)
  qed
qed

lemma move_loop_blit:
  assumes "mapped m dst n" "mapped m src n" "unat src < unat dst" "unat dst + n \<le> 2 ^ 64"
  shows "move_loop n (dst + word_of_nat n - 1) (src + word_of_nat n - 1) m = Inr (blit m dst src n)"
  using assms
proof (induction n arbitrary: m)
  case 0
  then show ?case by (simp add: blit_def)
next
  case (Suc n)
  obtain b where b: "m (src + word_of_nat n) = Some b" using Suc.prems(2) by (auto simp: mapped_Suc_last)
  have d: "m (dst + word_of_nat n) \<noteq> None" using Suc.prems(1) by (simp add: mapped_Suc_last)
  have pm: "mapped m dst n" "mapped m src n" "unat dst + n \<le> 2 ^ 64"
    using Suc.prems by (simp_all add: mapped_Suc_last)
  let ?m = "m(dst + word_of_nat n \<mapsto> b)"
  have "move_loop (Suc n) (dst + word_of_nat (Suc n) - 1) (src + word_of_nat (Suc n) - 1) m =
      move_loop n (dst + word_of_nat n - 1) (src + word_of_nat n - 1) ?m"
    using b d by (simp add: algebra_simps)
  also have "\<dots> = Inr (blit ?m dst src n)"
    by (rule Suc.IH [OF mapped_upd [OF pm(1)] mapped_upd [OF pm(2)] Suc.prems(3) pm(3)])
  also have "blit ?m dst src n = blit m dst src (Suc n)"
  proof
    fix a
    define k where "k = unat (a - dst)"
    have a: "a = dst + word_of_nat k" "a - dst = word_of_nat k" unfolding k_def by simp_all
    have "src + word_of_nat k \<noteq> dst + word_of_nat n" if "k < n"
      using off_less [of src "Suc n" k] off_less [of dst "Suc n" n] Suc.prems(3,4) that by auto
    moreover have k: "unat (word_of_nat k :: addr) = k" unfolding k_def by simp
    have "unat (word_of_nat n :: addr) = n" using Suc.prems(4) by (intro unat_of_nat64) simp
    with k have "k = n" if "a = dst + word_of_nat n" using that a(1) by (metis add_left_cancel)
    then have "a = dst + word_of_nat n \<longleftrightarrow> k = n" using a(1) by blast
    moreover have "blit m' dst src j a = (if k < j then m' (src + word_of_nat k) else m' a)" for m' j
      unfolding blit_def k_def by simp
    ultimately show "blit ?m dst src n a = blit m dst src (Suc n) a"
      using b by (auto simp: less_Suc_eq)
  qed
  finally show ?case .
qed

lemma blit_self [simp]: "blit m a a n = m"
  by (rule ext) (simp add: blit_def)

lemma memmove_blit:
  assumes "mapped m dst (unat siz)" "mapped m src (unat siz)"
    and "unat dst + unat siz \<le> 2 ^ 64" "unat src + unat siz \<le> 2 ^ 64"
  shows "memmove dst src siz m = Inr (dst, blit m dst src (unat siz))"
proof (cases dst src rule: linorder_cases)
  case less
  then show ?thesis using memcpy_loop_blit [OF assms(1,2) _ assms(4)]
    by (simp add: memmove_def memcpy_def word_less_nat_alt)
next
  case equal
  then show ?thesis by (simp add: memmove_def)
next
  case greater
  then have "unat src < unat dst" "\<not> dst < src" "dst \<noteq> src" by (auto simp: word_less_nat_alt)
  then show ?thesis using move_loop_blit [OF assms(1,2) _ assms(3)]
    by (simp add: memmove_def)
qed

text \<open>The memory after \<open>n\<close> bytes from \<open>p\<close> on have been set to \<open>v\<close>.\<close>

definition fill :: "memory \<Rightarrow> addr \<Rightarrow> uint8 \<Rightarrow> nat \<Rightarrow> memory" where
  "fill m p v n = (\<lambda>a. if unat (a - p) < n then Some v else m a)"

lemma memset_loop_fill:
  assumes "mapped m p n" "n \<le> 2 ^ 64"
  shows "memset_loop n p v m = Inr (fill m p v n)"
  using assms
proof (induction n arbitrary: p m)
  case 0
  then show ?case by (simp add: fill_def)
next
  case (Suc n)
  have m: "m p \<noteq> None" "mapped (m(p \<mapsto> v)) (p + 1) n"
    using Suc.prems(1) mapped_upd [of m "p + 1" n p v] by (auto simp: mapped_Suc)
  have "memset_loop n (p + 1) v (m(p \<mapsto> v)) = Inr (fill (m(p \<mapsto> v)) (p + 1) v n)"
    by (rule Suc.IH [OF m(2)]) (use Suc.prems(2) in simp)
  then have "memset_loop (Suc n) p v m = Inr (fill (m(p \<mapsto> v)) (p + 1) v n)" using m(1) by simp
  also have "fill (m(p \<mapsto> v)) (p + 1) v n = fill m p v (Suc n)"
  proof
    fix a
    define k where "k = unat (a - p)"
    have a: "a - p = word_of_nat k" unfolding k_def by simp
    show "fill (m(p \<mapsto> v)) (p + 1) v n a = fill m p v (Suc n) a"
    proof (cases k)
      case 0
      then have "a = p" using a by simp
      then show ?thesis by (simp add: fill_def)
    next
      case (Suc j)
      have "a - (p + 1) = word_of_nat j" using a Suc by (simp add: algebra_simps)
      moreover have "unat (word_of_nat j :: addr) = j"
        using Suc unat64_less [of "a - p"] unfolding k_def by (intro unat_of_nat64) simp
      moreover have "a \<noteq> p" using Suc k_def by auto
      ultimately show ?thesis using Suc k_def by (simp add: fill_def)
    qed
  qed
  finally show ?case .
qed

lemma mapped_fill: "mapped m a k \<Longrightarrow> mapped (fill m p v n) a k"
  by (simp add: mapped_def fill_def)

section \<open>Terminated strings\<close>

primrec cstr :: "memory \<Rightarrow> addr \<Rightarrow> uint8 list \<Rightarrow> bool" where
  "cstr m a [] \<longleftrightarrow> m a = Some 0"
| "cstr m a (c # cs) \<longleftrightarrow> m a = Some c \<and> c \<noteq> 0 \<and> cstr m (a + 1) cs"

lemma strlen_loop_cstr:
  "cstr m (s + ret) cs \<Longrightarrow> strlen_loop s ret m = Some (Inr (ret + word_of_nat (length cs)))"
proof (induction cs arbitrary: ret)
  case Nil
  then show ?case by (subst strlen_loop.simps) simp
next
  case (Cons c cs)
  then have "strlen_loop s (ret + 1) m = Some (Inr (ret + 1 + word_of_nat (length cs)))"
    by (intro Cons.IH) (simp add: add.assoc)
  with Cons.prems show ?case by (subst strlen_loop.simps) (simp add: algebra_simps)
qed

lemma strlen_cstr: "s \<noteq> 0 \<Longrightarrow> cstr m s cs \<Longrightarrow> strlen s m = Some (Inr (word_of_nat (length cs)))"
  using strlen_loop_cstr [of m s 0 cs] by (simp add: strlen_def)

lemma strcmp_cstr:
  assumes "cstr m l xs" "cstr m r ys"
  shows "\<exists>d. strcmp l r m = Some (Inr d) \<and> (d = 0 \<longleftrightarrow> xs = ys) \<and> (d < 0 \<longleftrightarrow> ord_class.lexordp xs ys)"
  using assms
proof (induction xs arbitrary: l r ys)
  case Nil
  then show ?case
    by (cases ys) (subst strcmp.simps, auto simp: less_le uint_0_iff)+
next
  case (Cons x xs)
  show ?case
  proof (cases ys)
    case Nil
    with Cons.prems show ?thesis by (subst strcmp.simps) (auto simp: not_less uint_0_iff)
  next
    case (Cons y zs)
    show ?thesis
    proof (cases "x = y")
      case True
      with Cons.prems Cons Cons.IH [of "l + 1" "r + 1" zs] show ?thesis
        by (subst strcmp.simps) auto
    next
      case False
      with Cons.prems Cons show ?thesis
        by (subst strcmp.simps) (auto simp: word_less_def word_uint_eq_iff)
    qed
  qed
qed

lemma strchr_cstr:
  assumes "cstr m s cs"
  shows "strchr s ch m = Some (Inr (if ucast ch \<in> set cs
    then s + word_of_nat (length (takeWhile (\<lambda>c. c \<noteq> ucast ch) cs)) else 0))"
  using assms
proof (induction cs arbitrary: s)
  case Nil
  then show ?case by (subst strchr.simps) simp
next
  case (Cons c cs)
  then show ?case by (subst strchr.simps) (auto simp: algebra_simps)
qed

text \<open>As long as no byte is overwritten before it is read, \<^verbatim>\<open>strcpy\<close> is \<^verbatim>\<open>memcpy\<close> of the string with its terminator.\<close>

lemma cstr_upd: "cstr m a cs \<Longrightarrow> (\<And>i. i \<le> length cs \<Longrightarrow> a + word_of_nat i \<noteq> b) \<Longrightarrow> cstr (m(b \<mapsto> x)) a cs"
proof (induction cs arbitrary: a)
  case Nil
  then show ?case using Nil.prems(2) [of 0] by simp
next
  case (Cons c cs)
  have "a + 1 + word_of_nat i \<noteq> b" if "i \<le> length cs" for i
    using Cons.prems(2) [of "Suc i"] that by (simp add: add.assoc)
  then show ?case using Cons.IH [of "a + 1"] Cons.prems(1) Cons.prems(2) [of 0] by simp
qed

lemma strcpy_memcpy:
  assumes "cstr m src cs" "mapped m dst (Suc (length cs))"
    and "\<And>i j. i < j \<Longrightarrow> j \<le> length cs \<Longrightarrow> src + word_of_nat j \<noteq> dst + word_of_nat i"
  shows "strcpy_loop dst src m = Some (memcpy_loop (Suc (length cs)) dst src m)"
  using assms
proof (induction cs arbitrary: dst src m)
  case Nil
  then have "m src = Some 0" "m dst \<noteq> None" by (simp_all add: mapped_Suc)
  then show ?case by (subst strcpy_loop.simps) (simp add: stb_def)
next
  case (Cons c cs)
  let ?m = "m(dst \<mapsto> c)"
  have c: "m src = Some c" "c \<noteq> 0" "m dst \<noteq> None" using Cons.prems(1,2) by (auto simp: mapped_Suc)
  have "cstr ?m (src + 1) cs"
  proof (rule cstr_upd)
    show "cstr m (src + 1) cs" using Cons.prems(1) by simp
    show "src + 1 + word_of_nat i \<noteq> dst" if "i \<le> length cs" for i
      using Cons.prems(3) [of 0 "Suc i"] that by (simp add: add.assoc)
  qed
  moreover have "mapped ?m (dst + 1) (Suc (length cs))"
    using Cons.prems(2) by (intro mapped_upd) (simp add: mapped_Suc)
  moreover have "src + 1 + word_of_nat j \<noteq> dst + 1 + word_of_nat i" if "i < j" "j \<le> length cs" for i j
    using Cons.prems(3) [of "Suc i" "Suc j"] that by (simp add: add.assoc)
  ultimately have "strcpy_loop (dst + 1) (src + 1) ?m = Some (memcpy_loop (Suc (length cs)) (dst + 1) (src + 1) ?m)"
    by (rule Cons.IH)
  then show ?case using c by (subst strcpy_loop.simps) simp
qed

section \<open>Decimal numbers\<close>

definition digits_value :: "uint8 list \<Rightarrow> nat" where
  "digits_value cs = foldl (\<lambda>v c. v * 10 + (unat c - 48)) 0 cs"

lemma decode_decimal:
  assumes "48 \<le> c" "c \<le> (57 :: uint8)"
  shows "unat (decode_digit c) = unat c - 48" "decode_digit c < 10"
proof -
  have u: "48 \<le> unat c" "unat c \<le> 57" using assms by (simp_all add: word_le_nat_alt)
  have "\<not> 65 \<le> c" using u by (simp add: word_le_nat_alt)
  then have d: "decode_digit c = ucast c - 48" using assms by (simp add: decode_digit_def tolower_def)
  have "unat (ucast c :: uint32) = unat c" using u by (simp add: unsigned_ucast_eq take_bit_nat_eq_self)
  then show *: "unat (decode_digit c) = unat c - 48"
    unfolding d using u by (subst unat_sub) (simp_all add: word_le_nat_alt)
  then show "decode_digit c < 10" using u by (simp add: word_less_nat_alt)
qed

lemma strtoul_loop_decimal:
  assumes "cstr m s cs" "\<forall>c\<in>set cs. 48 \<le> c \<and> c \<le> 57"
  shows "strtoul_loop s 10 (word_of_nat v) m =
    Some (Inr (word_of_nat (foldl (\<lambda>v c. v * 10 + (unat c - 48)) v cs), s + word_of_nat (length cs)))"
  using assms
proof (induction cs arbitrary: s v)
  case Nil
  have "\<not> decode_digit 0 < 10" by (simp add: decode_digit_def tolower_def)
  with Nil show ?case by (subst strtoul_loop.simps) (simp add: Let_def)
next
  case (Cons c cs)
  define k where "k = unat c - 48"
  have c: "48 \<le> c" "c \<le> 57" using Cons.prems(2) by simp_all
  note d = decode_decimal [OF c, folded k_def]
  have e: "(ucast (decode_digit c) :: ulong) = word_of_nat k" using d(1) by (metis of_nat_unat)
  have "strtoul_loop s 10 (word_of_nat v) m = strtoul_loop (s + 1) 10 (word_of_nat (v * 10 + k)) m"
    using Cons.prems(1) d(2) by (subst strtoul_loop.simps) (simp add: e)
  also have "\<dots> = Some (Inr (word_of_nat (foldl (\<lambda>v c. v * 10 + (unat c - 48)) (v * 10 + k) cs),
      s + 1 + word_of_nat (length cs)))"
    using Cons.prems by (intro Cons.IH) simp_all
  finally show ?case by (simp add: k_def algebra_simps)
qed

section \<open>Properties\<close>

text \<open>C16. \<^verbatim>\<open>memmove\<close> copies correctly however its two ranges overlap: when both are mapped and do not
  wrap, it returns \<^verbatim>\<open>dst\<close> and every byte of the destination is the byte the source had before the
  call; no other byte changes.\<close>

theorem memmove_spec:
  assumes "mapped m dst (unat siz)" "mapped m src (unat siz)"
    and "unat dst + unat siz \<le> 2 ^ 64" "unat src + unat siz \<le> 2 ^ 64"
  shows "\<exists>m'. memmove dst src siz m = Inr (dst, m') \<and>
    (\<forall>i<unat siz. m' (dst + word_of_nat i) = m (src + word_of_nat i)) \<and>
    (\<forall>a. unat siz \<le> unat (a - dst) \<longrightarrow> m' a = m a)"
proof (intro exI conjI)
  show "memmove dst src siz m = Inr (dst, blit m dst src (unat siz))" using assms by (rule memmove_blit)
  show "\<forall>i<unat siz. blit m dst src (unat siz) (dst + word_of_nat i) = m (src + word_of_nat i)"
    using unat64_less [of siz] by (simp add: blit_def unat_off [where n = "unat siz"])
  show "\<forall>a. unat siz \<le> unat (a - dst) \<longrightarrow> blit m dst src (unat siz) a = m a" by (simp add: blit_def)
qed

definition sample_memory :: memory where
  "sample_memory = [0x10 \<mapsto> 49, 0x11 \<mapsto> 50, 0x12 \<mapsto> 51, 0x13 \<mapsto> 0, 0x20 \<mapsto> 49, 0x21 \<mapsto> 51, 0x22 \<mapsto> 0]"

lemma sample_bytes [simp]:
  "sample_memory 0x10 = Some 49" "sample_memory 0x11 = Some 50" "sample_memory 0x12 = Some 51"
  "sample_memory 0x13 = Some 0" "sample_memory 0x20 = Some 49" "sample_memory 0x21 = Some 51"
  "sample_memory 0x22 = Some 0"
  by (simp_all add: sample_memory_def)

lemma sample_2: "unat (2 :: ulong) = Suc (Suc 0)"
  by simp

theorem memmove_spec_witness:
  "\<exists>m'. memmove 0x11 0x10 2 sample_memory = Inr (0x11, m') \<and> m' 0x12 = Some 50"
proof -
  have "mapped sample_memory 0x11 (unat (2 :: ulong))" "mapped sample_memory 0x10 (unat (2 :: ulong))"
    by (simp_all only: sample_2 mapped_Suc) (simp_all add: mapped_def sample_memory_def)
  from memmove_spec [OF this] obtain m' where m': "memmove 0x11 0x10 2 sample_memory = Inr (0x11, m')"
    "\<forall>i<unat (2 :: ulong). m' (0x11 + word_of_nat i) = sample_memory (0x10 + word_of_nat i)"
    by auto
  from m'(2) have "m' (0x11 + word_of_nat 1) = sample_memory (0x10 + word_of_nat 1)" by (rule allE [where x = 1]) simp
  with m'(1) show ?thesis by (simp add: sample_memory_def)
qed

text \<open>C17. On terminated strings the scanning loops of string.c return, and return what their names say:
  \<^verbatim>\<open>strlen\<close> the number of bytes before the terminator, \<^verbatim>\<open>strchr\<close> the first occurrence of a
  character or NULL, and \<^verbatim>\<open>strcmp\<close> zero exactly on equal strings and a negative number exactly when the
  first is lexicographically smaller.\<close>

theorem string_scans_spec:
  assumes "s \<noteq> 0" "cstr m s xs" "cstr m r ys"
  shows "strlen s m = Some (Inr (word_of_nat (length xs))) \<and>
    strchr s ch m = Some (Inr (if ucast ch \<in> set xs
      then s + word_of_nat (length (takeWhile (\<lambda>c. c \<noteq> ucast ch) xs)) else 0)) \<and>
    (\<exists>d. strcmp s r m = Some (Inr d) \<and> (d = 0 \<longleftrightarrow> xs = ys) \<and> (d < 0 \<longleftrightarrow> ord_class.lexordp xs ys))"
  using strlen_cstr [OF assms(1,2)] strchr_cstr [OF assms(2)] strcmp_cstr [OF assms(2,3)] by blast

theorem string_scans_spec_witness:
  "strlen 0x10 sample_memory = Some (Inr 3) \<and> strchr 0x10 51 sample_memory = Some (Inr 0x12) \<and>
   (\<exists>d. strcmp 0x10 0x20 sample_memory = Some (Inr d) \<and> d < 0)"
  using string_scans_spec [of "0x10" sample_memory "[49, 50, 51]" "0x20" "[49, 51]" 51] by auto

text \<open>C18. \<^verbatim>\<open>strcpy\<close> is \<^verbatim>\<open>memcpy\<close> of the string and its terminator: when the destination is mapped and no
  byte of the source is overwritten before it is read, both return the same memory.\<close>

theorem strcpy_is_memcpy:
  assumes "cstr m src cs" "mapped m dst (Suc (length cs))" "Suc (length cs) < 2 ^ 64"
    and "\<And>i j. i < j \<Longrightarrow> j \<le> length cs \<Longrightarrow> src + word_of_nat j \<noteq> dst + word_of_nat i"
  shows "strcpy dst src m = Some (memcpy dst src (word_of_nat (Suc (length cs))) m)"
  using strcpy_memcpy [OF assms(1,2,4)] unat_of_nat64 [of "Suc (length cs)"] assms(3)
  unfolding strcpy_def memcpy_def by simp

theorem strcpy_is_memcpy_witness:
  "strcpy 0x10 0x20 sample_memory = Some (memcpy 0x10 0x20 3 sample_memory)"
proof -
  have "mapped sample_memory 0x10 (Suc (length [49, 51 :: uint8]))"
    by (auto simp: mapped_def sample_memory_def less_Suc_eq)
  moreover have "(0x20 :: addr) + word_of_nat j \<noteq> 0x10 + word_of_nat i"
    if "i < j" "j \<le> length [49, 51 :: uint8]" for i j
  proof -
    have "j \<in> {0, 1, 2}" "i \<in> {0, 1, 2}" using that by auto
    then show ?thesis by auto
  qed
  ultimately show ?thesis
    using strcpy_is_memcpy [of sample_memory "0x20" "[49, 51]" "0x10"] by simp
qed

text \<open>C19. \<^verbatim>\<open>strtoul\<close> in base 10, or in base 0, which such a numeral makes 10, reads a decimal numeral whose
  first digit is not 0: it returns the value of the digits modulo 2 to the 64 and leaves the end pointer on the terminator.\<close>

theorem strtoul_decimal:
  assumes "cstr m s (c # cs)" "c \<noteq> 48" "\<forall>d\<in>set (c # cs). 48 \<le> d \<and> d \<le> 57" "base \<in> {0, 10}"
  shows "strtoul s base m =
    Some (Inr (word_of_nat (digits_value (c # cs)), s + word_of_nat (length (c # cs))))"
proof -
  have "parse_integer_fixup_radix s base m = Inr (s, 10)"
    using assms(1,2,4) by (auto simp: parse_integer_fixup_radix_def)
  then show ?thesis using strtoul_loop_decimal [OF assms(1,3), of 0]
    by (simp add: strtoul_def digits_value_def)
qed

theorem strtoul_decimal_witness: "strtoul 0x10 0 sample_memory = Some (Inr (123, 0x13))"
  using strtoul_decimal [of sample_memory "0x10" 49 "[50, 51]" 0] by (simp add: digits_value_def)

text \<open>A source without a terminator among its first \<open>n\<close> bytes: \<open>n\<close> characters are copied and the terminator goes after them.\<close>

lemma strncpy_loop_long:
  assumes "\<forall>i<n. \<exists>c. m (src + word_of_nat i) = Some c \<and> c \<noteq> 0" "mapped m dst n"
    "\<forall>i<n. \<forall>j<i. src + word_of_nat i \<noteq> dst + word_of_nat j"
  shows "\<exists>m'. dom m' = dom m \<and> strncpy_loop n dst src m = stb m' (dst + word_of_nat n) 0"
  using assms
proof (induction n arbitrary: dst src m)
  case 0
  show ?case by (intro exI [of _ m]) simp
next
  case (Suc n)
  obtain c where c: "m src = Some c" "c \<noteq> 0" using Suc.prems(1) [rule_format, of 0] by auto
  have d: "m dst \<noteq> None" "mapped m (dst + 1) n" using Suc.prems(2) by (simp_all add: mapped_Suc)
  have ne: "src + 1 + word_of_nat i \<noteq> dst" if "i < n" for i
    using Suc.prems(3) [rule_format, of "Suc i" 0] that by (simp add: add.assoc)
  have 1: "\<forall>i<n. \<exists>c'. (m(dst \<mapsto> c)) (src + 1 + word_of_nat i) = Some c' \<and> c' \<noteq> 0"
  proof (intro allI impI)
    fix i assume i: "i < n"
    then show "\<exists>c'. (m(dst \<mapsto> c)) (src + 1 + word_of_nat i) = Some c' \<and> c' \<noteq> 0"
      using Suc.prems(1) [rule_format, of "Suc i"] ne [OF i] by (simp add: add.assoc)
  qed
  have 2: "\<forall>i<n. \<forall>j<i. src + 1 + word_of_nat i \<noteq> dst + 1 + word_of_nat j"
  proof (intro allI impI)
    fix i j assume "i < n" "j < i"
    then show "src + 1 + word_of_nat i \<noteq> dst + 1 + word_of_nat j"
      using Suc.prems(3) [rule_format, of "Suc i" "Suc j"] by (simp add: add.assoc)
  qed
  obtain m' where m': "dom m' = dom (m(dst \<mapsto> c))"
    "strncpy_loop n (dst + 1) (src + 1) (m(dst \<mapsto> c)) = stb m' (dst + 1 + word_of_nat n) 0"
    using Suc.IH [OF 1 mapped_upd [OF d(2)] 2] by blast
  have "dom m' = dom m" using m'(1) d(1) by auto
  moreover have "strncpy_loop (Suc n) dst src m = stb m' (dst + word_of_nat (Suc n)) 0"
    using c d(1) m'(2) by (auto simp: stb_def add.assoc)
  ultimately show ?case by blast
qed

text \<open>C20. Two edges of string.c leave their buffers. For every \<^verbatim>\<open>siz\<close>, \<^verbatim>\<open>strncpy\<close> of a source whose first
  \<^verbatim>\<open>siz\<close> bytes hold no terminator, and are not overwritten before they are read, stores a zero at \<^verbatim>\<open>dst + siz\<close>, one
  byte past a destination of \<^verbatim>\<open>siz\<close> bytes: undefined when that byte is not there, and overwriting it when it is.
  \<^verbatim>\<open>strrchr\<close> of an empty string looks at the byte before the string: undefined when it is not there, and the address before
  the string when it happens to hold the character.\<close>

theorem string_edges_escape:
  assumes "\<forall>i<unat siz. \<exists>c. m (src + word_of_nat i) = Some c \<and> c \<noteq> 0" "mapped m dst (unat siz)"
    and "\<forall>i<unat siz. \<forall>j<i. src + word_of_nat i \<noteq> dst + word_of_nat j"
    and "m e = Some 0" "e \<noteq> 0"
  shows "(m (dst + siz) = None \<longrightarrow> strncpy dst src siz m = Inl Undefined) \<and>
    (m (dst + siz) \<noteq> None \<longrightarrow> (\<exists>m'. strncpy dst src siz m = Inr (dst, m') \<and> m' (dst + siz) = Some 0)) \<and>
    strrchr e ch m = (case m (e - 1) of None \<Rightarrow> Some (Inl Undefined) | Some b \<Rightarrow> Some (Inr (if b = ucast ch then e - 1 else 0)))"
proof (intro conjI)
  obtain m' where m': "dom m' = dom m" "strncpy_loop (unat siz) dst src m = stb m' (dst + siz) 0"
    using strncpy_loop_long [OF assms(1-3)] by auto
  have "m' (dst + siz) = None \<longleftrightarrow> m (dst + siz) = None" using m'(1) by (metis domIff)
  then show "m (dst + siz) = None \<longrightarrow> strncpy dst src siz m = Inl Undefined"
    "m (dst + siz) \<noteq> None \<longrightarrow> (\<exists>m'. strncpy dst src siz m = Inr (dst, m') \<and> m' (dst + siz) = Some 0)"
    by (auto simp: strncpy_def m'(2) stb_def)
  have "strlen e m = Some (Inr 0)" using strlen_cstr [of e m "[]"] assms(4,5) by simp
  moreover have "\<not> e < e - 1" using assms(5) by (simp add: word_less_nat_alt unat_minus_one)
  ultimately show "strrchr e ch m = (case m (e - 1) of None \<Rightarrow> Some (Inl Undefined) | Some b \<Rightarrow> Some (Inr (if b = ucast ch then e - 1 else 0)))"
    by (simp add: strrchr_def strrchr_loop.simps ldb_def split: option.split)
qed

theorem string_edges_escape_witness:
  "strncpy 0x20 0x10 3 (sample_memory(0x30 \<mapsto> 0)) = Inl Undefined \<and>
   strrchr 0x30 65 (sample_memory(0x30 \<mapsto> 0)) = Some (Inl Undefined)"
proof -
  let ?m = "sample_memory(0x30 \<mapsto> 0)"
  have u: "unat (3 :: ulong) = Suc (Suc (Suc 0))" by simp
  have 1: "\<forall>i<unat (3 :: ulong). \<exists>c. ?m (0x10 + word_of_nat i) = Some c \<and> c \<noteq> 0" unfolding u by (auto simp: less_Suc_eq)
  have 2: "mapped ?m 0x20 (unat (3 :: ulong))" unfolding u by (simp add: mapped_Suc) (simp add: mapped_def)
  have 3: "\<forall>i<unat (3 :: ulong). \<forall>j<i. (0x10 :: addr) + word_of_nat i \<noteq> 0x20 + word_of_nat j" unfolding u by (auto simp: less_Suc_eq)
  show ?thesis using string_edges_escape [OF 1 2 3, of "0x30" 65] by (simp add: sample_memory_def)
qed

end
