(* ===== verification/Runs.thy ===== *)
theory Runs
  imports Prelude
begin

text \<open>
  Where a loop or a recursion of the source may not end, its model is a run: \<open>None\<close> when it
  never returns, and otherwise the outcome it ends with.
\<close>

type_synonym 'a run = "'a res option"

abbreviation ret :: "'a \<Rightarrow> 'a run" where
  "ret x \<equiv> Some (Inr x)"

definition bindM :: "'a run \<Rightarrow> ('a \<Rightarrow> 'b run) \<Rightarrow> 'b run" where
  "bindM x f = (case x of None \<Rightarrow> None | Some (Inl e) \<Rightarrow> Some (Inl e) | Some (Inr a) \<Rightarrow> f a)"

lemma bindM_simps [simp]:
  "bindM None f = None" "bindM (Some (Inl e)) f = Some (Inl e)" "bindM (ret x) f = f x"
  by (simp_all add: bindM_def)

lemma bindM_ret_iff: "bindM x f = ret y \<longleftrightarrow> (\<exists>a. x = ret a \<and> f a = ret y)"
  by (auto simp: bindM_def split: option.splits sum.splits)

lemma bindM_assoc: "bindM (bindM x f) g = bindM x (\<lambda>a. bindM (f a) g)"
  by (auto simp: bindM_def split: option.splits sum.splits)

lemma bindM_mono [partial_function_mono]:
  assumes "mono_option F" "\<And>y. mono_option (\<lambda>f. G y f)"
  shows "mono_option (\<lambda>f. bindM (F f) (\<lambda>y. G y f))"
proof -
  have "mono_option (\<lambda>f. Option.bind (F f) (\<lambda>r. case r of Inl e \<Rightarrow> Some (Inl e) | Inr a \<Rightarrow> G a f))"
  proof (rule bind_mono [OF assms(1)])
    show "mono_option (\<lambda>f. case r of Inl e \<Rightarrow> Some (Inl e) | Inr a \<Rightarrow> G a f)" for r :: "'c res"
      using assms(2) by (cases r) (simp_all add: monotone_def flat_ord_def)
  qed
  moreover have "bindM x g = Option.bind x (\<lambda>r. case r of Inl e \<Rightarrow> Some (Inl e) | Inr a \<Rightarrow> g a)"
    for x :: "'c run" and g :: "'c \<Rightarrow> 'd run"
    by (cases x) (simp_all add: bindM_def)
  ultimately show ?thesis by simp
qed

end
