(* ===== verification/Fdt.thy ===== *)
theory Fdt
  imports Cstring Runs
begin

text \<open>
  The base of the device-tree library \<^verbatim>\<open>kernel/device/libfdt\<close>: byte order (\<^verbatim>\<open>libfdt_env.h\<close>), the
  loads, stores and header fields of \<^verbatim>\<open>libfdt.h\<close>, the helpers of \<^verbatim>\<open>libfdt_internal.h\<close> and the
  traversal of \<^verbatim>\<open>fdt.c\<close>. A tree is a run of bytes in memory at an address; functions that only read take
  the memory as their last argument and cannot change it. A C \<^verbatim>\<open>int\<close> is an integer: an addition of two
  of them that leaves 32 bits is undefined, a conversion to \<^verbatim>\<open>int\<close> wraps (\<open>i32\<close>). A \<^verbatim>\<open>uint32_t\<close> is a
  32-bit word. A run that never returns is \<open>None\<close>.
\<close>

section \<open>Loads and stores\<close>

definition ld8 :: "memory \<Rightarrow> addr \<Rightarrow> uint8 run" where
  "ld8 m a = Some (ldb m a)"

definition st8 :: "memory \<Rightarrow> addr \<Rightarrow> uint8 \<Rightarrow> memory run" where
  "st8 m a b = Some (stb m a b)"

section \<open>C integers\<close>

definition INT_MAX :: int where
  "INT_MAX = 2147483647"

definition INT_MIN :: int where
  "INT_MIN = - 2147483648"

definition UINT32_MAX :: uint32 where
  "UINT32_MAX = 4294967295"

definition i32 :: "int \<Rightarrow> int" where
  "i32 x = (x + 2 ^ 31) mod 2 ^ 32 - 2 ^ 31"

definition int_of_u32 :: "uint32 \<Rightarrow> int" where
  "int_of_u32 w = i32 (uint w)"

definition int_of_u64 :: "ulong \<Rightarrow> int" where
  "int_of_u64 w = i32 (uint w)"

definition iadd :: "int \<Rightarrow> int \<Rightarrow> int run" where
  "iadd a b = (if INT_MIN \<le> a + b \<and> a + b \<le> INT_MAX then ret (a + b) else Some (Inl Undefined))"

definition isub :: "int \<Rightarrow> int \<Rightarrow> int run" where
  "isub a b = iadd a (- b)"

section \<open>Byte order\<close>

definition EXTRACT_BYTE :: "'a::len word \<Rightarrow> nat \<Rightarrow> ulong" where
  "EXTRACT_BYTE x n = ucast (take_bit 8 (drop_bit (8 * n) x))"

definition CPU_TO_FDT16 :: "uint16 \<Rightarrow> ulong" where
  "CPU_TO_FDT16 x = push_bit 8 (EXTRACT_BYTE x 0) OR EXTRACT_BYTE x 1"

definition CPU_TO_FDT32 :: "uint32 \<Rightarrow> ulong" where
  "CPU_TO_FDT32 x = push_bit 24 (EXTRACT_BYTE x 0) OR push_bit 16 (EXTRACT_BYTE x 1) OR
     push_bit 8 (EXTRACT_BYTE x 2) OR EXTRACT_BYTE x 3"

definition CPU_TO_FDT64 :: "uint64 \<Rightarrow> ulong" where
  "CPU_TO_FDT64 x = push_bit 56 (EXTRACT_BYTE x 0) OR push_bit 48 (EXTRACT_BYTE x 1) OR
     push_bit 40 (EXTRACT_BYTE x 2) OR push_bit 32 (EXTRACT_BYTE x 3) OR
     push_bit 24 (EXTRACT_BYTE x 4) OR push_bit 16 (EXTRACT_BYTE x 5) OR
     push_bit 8 (EXTRACT_BYTE x 6) OR EXTRACT_BYTE x 7"

definition fdt16_to_cpu :: "uint16 \<Rightarrow> uint16" where "fdt16_to_cpu x = ucast (CPU_TO_FDT16 x)"
definition cpu_to_fdt16 :: "uint16 \<Rightarrow> uint16" where "cpu_to_fdt16 x = ucast (CPU_TO_FDT16 x)"
definition fdt32_to_cpu :: "uint32 \<Rightarrow> uint32" where "fdt32_to_cpu x = ucast (CPU_TO_FDT32 x)"
definition cpu_to_fdt32 :: "uint32 \<Rightarrow> uint32" where "cpu_to_fdt32 x = ucast (CPU_TO_FDT32 x)"
definition fdt64_to_cpu :: "uint64 \<Rightarrow> uint64" where "fdt64_to_cpu x = ucast (CPU_TO_FDT64 x)"
definition cpu_to_fdt64 :: "uint64 \<Rightarrow> uint64" where "cpu_to_fdt64 x = ucast (CPU_TO_FDT64 x)"

text \<open>The machine's own loads and stores are little endian.\<close>

fun ld_le :: "nat \<Rightarrow> memory \<Rightarrow> addr \<Rightarrow> 'a::len word run" where
  "ld_le 0 m p = ret 0"
| "ld_le (Suc n) m p =
     bindM (ld8 m p) (\<lambda>b. bindM (ld_le n m (p + 1)) (\<lambda>w. ret (ucast b OR push_bit 8 w)))"

fun st_le :: "nat \<Rightarrow> memory \<Rightarrow> addr \<Rightarrow> 'a::len word \<Rightarrow> memory run" where
  "st_le 0 m p w = ret m"
| "st_le (Suc n) m p w = bindM (st8 m p (ucast w)) (\<lambda>m. st_le n m (p + 1) (drop_bit 8 w))"

section \<open>Constants\<close>

definition FDT_MAGIC :: uint32 where "FDT_MAGIC = 0xd00dfeed"
definition FDT_SW_MAGIC :: uint32 where "FDT_SW_MAGIC = NOT FDT_MAGIC"
definition FDT_TAGSIZE :: int where [simp]: "FDT_TAGSIZE = 4"
definition FDT_BEGIN_NODE :: uint32 where [simp]: "FDT_BEGIN_NODE = 1"
definition FDT_END_NODE :: uint32 where [simp]: "FDT_END_NODE = 2"
definition FDT_PROP :: uint32 where [simp]: "FDT_PROP = 3"
definition FDT_NOP :: uint32 where [simp]: "FDT_NOP = 4"
definition FDT_END :: uint32 where [simp]: "FDT_END = 9"
definition FDT_V1_SIZE :: ulong where [simp]: "FDT_V1_SIZE = 7 * 4"
definition FDT_V2_SIZE :: ulong where [simp]: "FDT_V2_SIZE = FDT_V1_SIZE + 4"
definition FDT_V3_SIZE :: ulong where [simp]: "FDT_V3_SIZE = FDT_V2_SIZE + 4"
definition FDT_V16_SIZE :: ulong where [simp]: "FDT_V16_SIZE = FDT_V3_SIZE"
definition FDT_V17_SIZE :: ulong where [simp]: "FDT_V17_SIZE = FDT_V16_SIZE + 4"

definition FDT_FIRST_SUPPORTED_VERSION :: uint32 where [simp]: "FDT_FIRST_SUPPORTED_VERSION = 0x02"
definition FDT_LAST_COMPATIBLE_VERSION :: uint32 where [simp]: "FDT_LAST_COMPATIBLE_VERSION = 0x10"
definition FDT_LAST_SUPPORTED_VERSION :: uint32 where [simp]: "FDT_LAST_SUPPORTED_VERSION = 0x11"

definition FDT_ERR_NOTFOUND :: int where [simp]: "FDT_ERR_NOTFOUND = 1"
definition FDT_ERR_EXISTS :: int where [simp]: "FDT_ERR_EXISTS = 2"
definition FDT_ERR_NOSPACE :: int where [simp]: "FDT_ERR_NOSPACE = 3"
definition FDT_ERR_BADOFFSET :: int where [simp]: "FDT_ERR_BADOFFSET = 4"
definition FDT_ERR_BADPATH :: int where [simp]: "FDT_ERR_BADPATH = 5"
definition FDT_ERR_BADPHANDLE :: int where [simp]: "FDT_ERR_BADPHANDLE = 6"
definition FDT_ERR_BADSTATE :: int where [simp]: "FDT_ERR_BADSTATE = 7"
definition FDT_ERR_TRUNCATED :: int where [simp]: "FDT_ERR_TRUNCATED = 8"
definition FDT_ERR_BADMAGIC :: int where [simp]: "FDT_ERR_BADMAGIC = 9"
definition FDT_ERR_BADVERSION :: int where [simp]: "FDT_ERR_BADVERSION = 10"
definition FDT_ERR_BADSTRUCTURE :: int where [simp]: "FDT_ERR_BADSTRUCTURE = 11"
definition FDT_ERR_BADLAYOUT :: int where [simp]: "FDT_ERR_BADLAYOUT = 12"
definition FDT_ERR_INTERNAL :: int where [simp]: "FDT_ERR_INTERNAL = 13"
definition FDT_ERR_BADNCELLS :: int where [simp]: "FDT_ERR_BADNCELLS = 14"
definition FDT_ERR_BADVALUE :: int where [simp]: "FDT_ERR_BADVALUE = 15"
definition FDT_ERR_BADOVERLAY :: int where [simp]: "FDT_ERR_BADOVERLAY = 16"
definition FDT_ERR_NOPHANDLES :: int where [simp]: "FDT_ERR_NOPHANDLES = 17"
definition FDT_ERR_BADFLAGS :: int where [simp]: "FDT_ERR_BADFLAGS = 18"
definition FDT_ERR_ALIGNMENT :: int where [simp]: "FDT_ERR_ALIGNMENT = 19"
definition FDT_ERR_MAX :: int where [simp]: "FDT_ERR_MAX = 19"
definition FDT_MAX_PHANDLE :: uint32 where [simp]: "FDT_MAX_PHANDLE = 0xfffffffe"

text \<open>The assumptions a build may enable; this one enables none.\<close>

datatype assumption = VALID_DTB | VALID_INPUT | LATEST | NO_ROLLBACK | LIBFDT_ORDER | LIBFDT_FLAWLESS

fun assume_mask :: "assumption \<Rightarrow> uint32" where
  "assume_mask VALID_DTB = push_bit 0 1"
| "assume_mask VALID_INPUT = push_bit 1 1"
| "assume_mask LATEST = push_bit 2 1"
| "assume_mask NO_ROLLBACK = push_bit 3 1"
| "assume_mask LIBFDT_ORDER = push_bit 4 1"
| "assume_mask LIBFDT_FLAWLESS = push_bit 5 1"

definition FDT_ASSUME_MASK :: uint32 where "FDT_ASSUME_MASK = 0"

definition can_assume :: "assumption \<Rightarrow> bool" where
  "can_assume a \<longleftrightarrow> FDT_ASSUME_MASK AND assume_mask a \<noteq> 0"

lemma can_assume_none [simp]: "\<not> can_assume a"
  by (simp add: can_assume_def FDT_ASSUME_MASK_def)

section \<open>Loads, stores and header fields\<close>

definition fdt16_ld :: "addr \<Rightarrow> memory \<Rightarrow> uint16 run" where
  "fdt16_ld p m = bindM (ld8 m p) (\<lambda>b0. bindM (ld8 m (p + 1)) (\<lambda>b1. ret (push_bit 8 (ucast b0) OR ucast b1)))"

definition fdt32_ld :: "addr \<Rightarrow> memory \<Rightarrow> uint32 run" where
  "fdt32_ld p m =
     bindM (ld8 m p) (\<lambda>b0. bindM (ld8 m (p + 1)) (\<lambda>b1.
     bindM (ld8 m (p + 2)) (\<lambda>b2. bindM (ld8 m (p + 3)) (\<lambda>b3.
     ret (push_bit 24 (ucast b0) OR push_bit 16 (ucast b1) OR push_bit 8 (ucast b2) OR ucast b3)))))"

definition fdt32_st :: "addr \<Rightarrow> uint32 \<Rightarrow> memory \<Rightarrow> memory run" where
  "fdt32_st p value m =
     bindM (st8 m p (ucast (drop_bit 24 value))) (\<lambda>m.
     bindM (st8 m (p + 1) (ucast (drop_bit 16 value AND 0xff))) (\<lambda>m.
     bindM (st8 m (p + 2) (ucast (drop_bit 8 value AND 0xff))) (\<lambda>m.
     st8 m (p + 3) (ucast (value AND 0xff)))))"

definition fdt64_ld :: "addr \<Rightarrow> memory \<Rightarrow> uint64 run" where
  "fdt64_ld p m =
     bindM (ld8 m p) (\<lambda>b0. bindM (ld8 m (p + 1)) (\<lambda>b1.
     bindM (ld8 m (p + 2)) (\<lambda>b2. bindM (ld8 m (p + 3)) (\<lambda>b3.
     bindM (ld8 m (p + 4)) (\<lambda>b4. bindM (ld8 m (p + 5)) (\<lambda>b5.
     bindM (ld8 m (p + 6)) (\<lambda>b6. bindM (ld8 m (p + 7)) (\<lambda>b7.
     ret (push_bit 56 (ucast b0) OR push_bit 48 (ucast b1) OR push_bit 40 (ucast b2) OR push_bit 32 (ucast b3) OR
          push_bit 24 (ucast b4) OR push_bit 16 (ucast b5) OR push_bit 8 (ucast b6) OR ucast b7)))))))))"

definition fdt64_st :: "addr \<Rightarrow> uint64 \<Rightarrow> memory \<Rightarrow> memory run" where
  "fdt64_st p value m =
     bindM (st8 m p (ucast (drop_bit 56 value))) (\<lambda>m.
     bindM (st8 m (p + 1) (ucast (drop_bit 48 value AND 0xff))) (\<lambda>m.
     bindM (st8 m (p + 2) (ucast (drop_bit 40 value AND 0xff))) (\<lambda>m.
     bindM (st8 m (p + 3) (ucast (drop_bit 32 value AND 0xff))) (\<lambda>m.
     bindM (st8 m (p + 4) (ucast (drop_bit 24 value AND 0xff))) (\<lambda>m.
     bindM (st8 m (p + 5) (ucast (drop_bit 16 value AND 0xff))) (\<lambda>m.
     bindM (st8 m (p + 6) (ucast (drop_bit 8 value AND 0xff))) (\<lambda>m.
     st8 m (p + 7) (ucast (value AND 0xff)))))))))"

text \<open>The header is ten big-endian words; the offset of each field in \<^verbatim>\<open>struct fdt_header\<close>.\<close>

datatype fdt_header = H_magic | H_totalsize | H_off_dt_struct | H_off_dt_strings | H_off_mem_rsvmap | H_version
  | H_last_comp_version | H_boot_cpuid_phys | H_size_dt_strings | H_size_dt_struct

fun header_field :: "fdt_header \<Rightarrow> addr" where
  "header_field H_magic = 0"
| "header_field H_totalsize = 4"
| "header_field H_off_dt_struct = 8"
| "header_field H_off_dt_strings = 12"
| "header_field H_off_mem_rsvmap = 16"
| "header_field H_version = 20"
| "header_field H_last_comp_version = 24"
| "header_field H_boot_cpuid_phys = 28"
| "header_field H_size_dt_strings = 32"
| "header_field H_size_dt_struct = 36"

definition sizeof_fdt_header :: ulong where [simp]: "sizeof_fdt_header = 40"
definition sizeof_fdt_reserve_entry :: ulong where [simp]: "sizeof_fdt_reserve_entry = 16"
definition sizeof_fdt_property :: ulong where [simp]: "sizeof_fdt_property = 12"
definition sizeof_fdt_node_header :: ulong where [simp]: "sizeof_fdt_node_header = 4"

definition fdt_get_header :: "addr \<Rightarrow> fdt_header \<Rightarrow> memory \<Rightarrow> uint32 run" where
  "fdt_get_header fdt field m = fdt32_ld (fdt + header_field field) m"

definition fdt_set_hdr :: "fdt_header \<Rightarrow> addr \<Rightarrow> uint32 \<Rightarrow> memory \<Rightarrow> memory run" where
  "fdt_set_hdr field fdt val m = st_le 4 m (fdt + header_field field) (cpu_to_fdt32 val)"

definition fdt_magic where "fdt_magic fdt m = fdt_get_header fdt H_magic m"
definition fdt_totalsize where "fdt_totalsize fdt m = fdt_get_header fdt H_totalsize m"
definition fdt_off_dt_struct where "fdt_off_dt_struct fdt m = fdt_get_header fdt H_off_dt_struct m"
definition fdt_off_dt_strings where "fdt_off_dt_strings fdt m = fdt_get_header fdt H_off_dt_strings m"
definition fdt_off_mem_rsvmap where "fdt_off_mem_rsvmap fdt m = fdt_get_header fdt H_off_mem_rsvmap m"
definition fdt_version where "fdt_version fdt m = fdt_get_header fdt H_version m"
definition fdt_last_comp_version where "fdt_last_comp_version fdt m = fdt_get_header fdt H_last_comp_version m"
definition fdt_boot_cpuid_phys where "fdt_boot_cpuid_phys fdt m = fdt_get_header fdt H_boot_cpuid_phys m"
definition fdt_size_dt_strings where "fdt_size_dt_strings fdt m = fdt_get_header fdt H_size_dt_strings m"
definition fdt_size_dt_struct where "fdt_size_dt_struct fdt m = fdt_get_header fdt H_size_dt_struct m"

definition FDT_ALIGN :: "ulong \<Rightarrow> ulong \<Rightarrow> ulong" where
  "FDT_ALIGN x a = (x + a - 1) AND NOT (a - 1)"

definition FDT_TAGALIGN :: "int \<Rightarrow> ulong" where
  "FDT_TAGALIGN x = FDT_ALIGN (word_of_int x) 4"

definition fdt_offset_ptr' :: "addr \<Rightarrow> int \<Rightarrow> memory \<Rightarrow> addr run" where
  "fdt_offset_ptr' fdt offset m =
     bindM (fdt_off_dt_struct fdt m) (\<lambda>off. ret (fdt + ucast off + word_of_int offset))"

definition fdt_mem_rsv' :: "addr \<Rightarrow> int \<Rightarrow> memory \<Rightarrow> addr run" where
  "fdt_mem_rsv' fdt n m =
     bindM (fdt_off_mem_rsvmap fdt m) (\<lambda>off.
     let rsv_table = fdt + ucast off in ret (rsv_table + word_of_int n * sizeof_fdt_reserve_entry))"

definition fdt32_ld' :: "addr \<Rightarrow> memory \<Rightarrow> uint32 run" where
  "fdt32_ld' p m = bindM (ld_le 4 m p) (\<lambda>w. ret (fdt32_to_cpu w))"

definition fdt64_ld' :: "addr \<Rightarrow> memory \<Rightarrow> uint64 run" where
  "fdt64_ld' p m = bindM (ld_le 8 m p) (\<lambda>w. ret (fdt64_to_cpu w))"

section \<open>fdt.c: checking the header\<close>

definition fdt_ro_probe' :: "addr \<Rightarrow> memory \<Rightarrow> int run" where
  "fdt_ro_probe' fdt m =
     bindM (fdt_totalsize fdt m) (\<lambda>totalsize.
     if can_assume VALID_DTB then ret (int_of_u32 totalsize)
     else if fdt AND 7 \<noteq> 0 then ret (- FDT_ERR_ALIGNMENT)
     else
     let fin = (if uint totalsize < INT_MAX then ret (int_of_u32 totalsize) else ret (- FDT_ERR_TRUNCATED)) in
     bindM (fdt_magic fdt m) (\<lambda>mg.
     if mg = FDT_MAGIC then
       (if \<not> can_assume LATEST then
          bindM (fdt_version fdt m) (\<lambda>v.
          if v < FDT_FIRST_SUPPORTED_VERSION then ret (- FDT_ERR_BADVERSION)
          else bindM (fdt_last_comp_version fdt m) (\<lambda>lcv.
          if lcv > FDT_LAST_SUPPORTED_VERSION then ret (- FDT_ERR_BADVERSION) else fin))
        else fin)
     else if mg = FDT_SW_MAGIC then
       (if \<not> can_assume VALID_INPUT then
          bindM (fdt_size_dt_struct fdt m) (\<lambda>sz. if sz = 0 then ret (- FDT_ERR_BADSTATE) else fin)
        else fin)
     else ret (- FDT_ERR_BADMAGIC)))"

definition check_off' :: "uint32 \<Rightarrow> uint32 \<Rightarrow> uint32 \<Rightarrow> bool" where
  "check_off' hdrsize totalsize off \<longleftrightarrow> off \<ge> hdrsize \<and> off \<le> totalsize"

definition check_block' :: "uint32 \<Rightarrow> uint32 \<Rightarrow> uint32 \<Rightarrow> uint32 \<Rightarrow> bool" where
  "check_block' hdrsize totalsize base sz \<longleftrightarrow>
     (if \<not> check_off' hdrsize totalsize base then False
      else if base + sz < base then False
      else if \<not> check_off' hdrsize totalsize (base + sz) then False else True)"

definition fdt_header_size' :: "uint32 \<Rightarrow> ulong" where
  "fdt_header_size' version =
     (if version \<le> 1 then FDT_V1_SIZE else if version \<le> 2 then FDT_V2_SIZE
      else if version \<le> 3 then FDT_V3_SIZE else if version \<le> 16 then FDT_V16_SIZE else FDT_V17_SIZE)"

definition fdt_header_size :: "addr \<Rightarrow> memory \<Rightarrow> ulong run" where
  "fdt_header_size fdt m =
     (if can_assume LATEST then ret FDT_V17_SIZE
      else bindM (fdt_version fdt m) (\<lambda>v. ret (fdt_header_size' v)))"

text \<open>The bounds checks of \<^verbatim>\<open>fdt_check_header\<close>, from the header size on.\<close>

definition check_header_blocks :: "addr \<Rightarrow> ulong \<Rightarrow> memory \<Rightarrow> int run" where
  "check_header_blocks fdt hdrsize m =
     bindM (fdt_totalsize fdt m) (\<lambda>total.
     if ucast total < hdrsize \<or> uint total > INT_MAX then ret (- FDT_ERR_TRUNCATED)
     else bindM (fdt_off_mem_rsvmap fdt m) (\<lambda>rsv.
     if \<not> check_off' (ucast hdrsize) total rsv then ret (- FDT_ERR_TRUNCATED)
     else bindM (fdt_version fdt m) (\<lambda>v. bindM (fdt_off_dt_struct fdt m) (\<lambda>off.
     bindM (if \<not> can_assume LATEST \<and> v < 17 then ret (check_off' (ucast hdrsize) total off)
            else bindM (fdt_size_dt_struct fdt m) (\<lambda>sz. ret (check_block' (ucast hdrsize) total off sz))) (\<lambda>ok.
     if \<not> ok then ret (- FDT_ERR_TRUNCATED)
     else bindM (fdt_off_dt_strings fdt m) (\<lambda>str. bindM (fdt_size_dt_strings fdt m) (\<lambda>strsz.
     if \<not> check_block' (ucast hdrsize) total str strsz then ret (- FDT_ERR_TRUNCATED) else ret 0)))))))"

definition fdt_check_header :: "addr \<Rightarrow> memory \<Rightarrow> int run" where
  "fdt_check_header fdt m =
     (if fdt AND 7 \<noteq> 0 then ret (- FDT_ERR_ALIGNMENT)
      else bindM (fdt_magic fdt m) (\<lambda>mg.
      if mg \<noteq> FDT_MAGIC then ret (- FDT_ERR_BADMAGIC)
      else
      let rest = bindM (fdt_header_size fdt m) (\<lambda>hdrsize.
            if \<not> can_assume VALID_DTB then check_header_blocks fdt hdrsize m else ret 0) in
      if \<not> can_assume LATEST then
        bindM (fdt_version fdt m) (\<lambda>v. bindM (fdt_last_comp_version fdt m) (\<lambda>lcv.
        if v < FDT_FIRST_SUPPORTED_VERSION \<or> lcv > FDT_LAST_SUPPORTED_VERSION then ret (- FDT_ERR_BADVERSION)
        else if v < lcv then ret (- FDT_ERR_BADVERSION) else rest))
      else rest))"

section \<open>fdt.c: tags\<close>

definition fdt_offset_ptr :: "addr \<Rightarrow> int \<Rightarrow> uint32 \<Rightarrow> memory \<Rightarrow> addr run" where
  "fdt_offset_ptr fdt offset len m =
     bindM (fdt_off_dt_struct fdt m) (\<lambda>off.
     let uoffset = word_of_int offset; absoffset = uoffset + off in
     if offset < 0 then ret 0
     else bindM (fdt_totalsize fdt m) (\<lambda>total.
     if \<not> can_assume VALID_INPUT \<and>
        (absoffset < uoffset \<or> absoffset + len < absoffset \<or> absoffset + len > total) then ret 0
     else bindM (fdt_version fdt m) (\<lambda>v.
     if can_assume LATEST \<or> v \<ge> 0x11 then
       bindM (fdt_size_dt_struct fdt m) (\<lambda>sz.
       if uoffset + len < uoffset \<or> uoffset + len > sz then ret 0 else fdt_offset_ptr' fdt offset m)
     else fdt_offset_ptr' fdt offset m)))"

text \<open>The \<^verbatim>\<open>do ... while\<close> that skips a node's name: the last pointer and the offset after it.\<close>

partial_function (option) skip_name :: "addr \<Rightarrow> int \<Rightarrow> memory \<Rightarrow> (addr \<times> int) run" where
  "skip_name fdt offset m =
     bindM (fdt_offset_ptr fdt offset 1 m) (\<lambda>p.
     bindM (iadd offset 1) (\<lambda>offset.
     if p \<noteq> 0 then bindM (ld8 m p) (\<lambda>c. if c \<noteq> 0 then skip_name fdt offset m else ret (p, offset))
     else ret (p, offset)))"

text \<open>The \<^verbatim>\<open>switch\<close> of \<^verbatim>\<open>fdt_next_tag\<close>: the offset past the tag's body, or \<open>None\<close> where it returns
  \<^verbatim>\<open>FDT_END\<close>.\<close>

definition tag_body :: "addr \<Rightarrow> uint32 \<Rightarrow> int \<Rightarrow> memory \<Rightarrow> int option run" where
  "tag_body fdt tag offset m =
     (if tag = FDT_BEGIN_NODE then
        bindM (skip_name fdt offset m) (\<lambda>(p, offset).
        if \<not> can_assume VALID_DTB \<and> p = 0 then ret None else ret (Some offset))
      else if tag = FDT_PROP then
        bindM (fdt_offset_ptr fdt offset 4 m) (\<lambda>lenp.
        if \<not> can_assume VALID_DTB \<and> lenp = 0 then ret None
        else bindM (fdt32_ld' lenp m) (\<lambda>len.
        let sum = len + word_of_int offset in
        if \<not> can_assume VALID_DTB \<and> (INT_MAX \<le> uint sum \<or> sum < word_of_int offset) then ret None
        else
        let offset = i32 (offset + 12 - FDT_TAGSIZE + uint len) in
        bindM (fdt_version fdt m) (\<lambda>v.
        if \<not> can_assume LATEST \<and> v < 0x10 \<and> len \<ge> 8 \<and> (word_of_int offset - len) mod 8 \<noteq> 0
        then bindM (iadd offset 4) (\<lambda>offset. ret (Some offset)) else ret (Some offset))))
      else if tag = FDT_END \<or> tag = FDT_END_NODE \<or> tag = FDT_NOP then ret (Some offset)
      else ret None)"

definition fdt_next_tag :: "addr \<Rightarrow> int \<Rightarrow> memory \<Rightarrow> (uint32 \<times> int) run" where
  "fdt_next_tag fdt startoffset m =
     bindM (fdt_offset_ptr fdt startoffset 4 m) (\<lambda>tagp.
     if \<not> can_assume VALID_DTB \<and> tagp = 0 then ret (FDT_END, - FDT_ERR_TRUNCATED)
     else bindM (fdt32_ld' tagp m) (\<lambda>tag.
     bindM (tag_body fdt tag (i32 (startoffset + FDT_TAGSIZE)) m) (\<lambda>r.
     case r of None \<Rightarrow> ret (FDT_END, - FDT_ERR_BADSTRUCTURE)
     | Some offset \<Rightarrow>
         bindM (isub offset startoffset) (\<lambda>d.
         bindM (fdt_offset_ptr fdt startoffset (word_of_int d) m) (\<lambda>p.
         if p = 0 then ret (FDT_END, - FDT_ERR_BADSTRUCTURE)
         else ret (tag, int_of_u64 (FDT_TAGALIGN offset)))))))"

definition fdt_check_node_offset' :: "addr \<Rightarrow> int \<Rightarrow> memory \<Rightarrow> int run" where
  "fdt_check_node_offset' fdt offset m =
     (if \<not> can_assume VALID_INPUT \<and> (offset < 0 \<or> offset mod FDT_TAGSIZE \<noteq> 0) then ret (- FDT_ERR_BADOFFSET)
      else bindM (fdt_next_tag fdt offset m) (\<lambda>(tag, offset).
      if tag \<noteq> FDT_BEGIN_NODE then ret (- FDT_ERR_BADOFFSET) else ret offset))"

definition fdt_check_prop_offset' :: "addr \<Rightarrow> int \<Rightarrow> memory \<Rightarrow> int run" where
  "fdt_check_prop_offset' fdt offset m =
     (if \<not> can_assume VALID_INPUT \<and> (offset < 0 \<or> offset mod FDT_TAGSIZE \<noteq> 0) then ret (- FDT_ERR_BADOFFSET)
      else bindM (fdt_next_tag fdt offset m) (\<lambda>(tag, offset).
      if tag \<noteq> FDT_PROP then ret (- FDT_ERR_BADOFFSET) else ret offset))"

section \<open>fdt.c: nodes\<close>

text \<open>The \<^verbatim>\<open>int *depth\<close> argument is \<open>None\<close> for \<^verbatim>\<open>NULL\<close>; the new depth is returned beside the offset.\<close>

partial_function (option) next_node_loop ::
  "addr \<Rightarrow> int \<Rightarrow> int option \<Rightarrow> memory \<Rightarrow> (int \<times> int option) run" where
  "next_node_loop fdt offset depth m =
     bindM (fdt_next_tag fdt offset m) (\<lambda>(tag, nextoffset).
     if tag = FDT_BEGIN_NODE then
       (case depth of None \<Rightarrow> ret (offset, None)
        | Some d \<Rightarrow> bindM (iadd d 1) (\<lambda>d. ret (offset, Some d)))
     else if tag = FDT_END_NODE then
       (case depth of None \<Rightarrow> next_node_loop fdt nextoffset None m
        | Some d \<Rightarrow> bindM (iadd d (- 1)) (\<lambda>d.
            if d < 0 then ret (nextoffset, Some d) else next_node_loop fdt nextoffset (Some d) m))
     else if tag = FDT_END then
       (if nextoffset \<ge> 0 \<or> (nextoffset = - FDT_ERR_TRUNCATED \<and> depth = None)
        then ret (- FDT_ERR_NOTFOUND, depth) else ret (nextoffset, depth))
     else next_node_loop fdt nextoffset depth m)"

definition fdt_next_node :: "addr \<Rightarrow> int \<Rightarrow> int option \<Rightarrow> memory \<Rightarrow> (int \<times> int option) run" where
  "fdt_next_node fdt offset depth m =
     (if offset \<ge> 0 then
        bindM (fdt_check_node_offset' fdt offset m) (\<lambda>nextoffset.
        if nextoffset < 0 then ret (nextoffset, depth) else next_node_loop fdt nextoffset depth m)
      else next_node_loop fdt 0 depth m)"

definition fdt_first_subnode :: "addr \<Rightarrow> int \<Rightarrow> memory \<Rightarrow> int run" where
  "fdt_first_subnode fdt offset m =
     bindM (fdt_next_node fdt offset (Some 0) m) (\<lambda>(offset, depth).
     if offset < 0 \<or> depth \<noteq> Some 1 then ret (- FDT_ERR_NOTFOUND) else ret offset)"

partial_function (option) next_subnode_loop :: "addr \<Rightarrow> int \<Rightarrow> int option \<Rightarrow> memory \<Rightarrow> int run" where
  "next_subnode_loop fdt offset depth m =
     bindM (fdt_next_node fdt offset depth m) (\<lambda>(offset, depth).
     if offset < 0 \<or> the depth < 1 then ret (- FDT_ERR_NOTFOUND)
     else if the depth > 1 then next_subnode_loop fdt offset depth m else ret offset)"

definition fdt_next_subnode :: "addr \<Rightarrow> int \<Rightarrow> memory \<Rightarrow> int run" where
  "fdt_next_subnode fdt offset m = next_subnode_loop fdt offset (Some 1) m"

partial_function (option) find_string_loop :: "addr \<Rightarrow> addr \<Rightarrow> addr \<Rightarrow> ulong \<Rightarrow> memory \<Rightarrow> addr run" where
  "find_string_loop p last_p s len m =
     (if p \<le> last_p then
        bindM (Some (memcmp p s len m)) (\<lambda>c. if c = 0 then ret p else find_string_loop (p + 1) last_p s len m)
      else ret 0)"

definition fdt_find_string' :: "addr \<Rightarrow> int \<Rightarrow> addr \<Rightarrow> memory \<Rightarrow> addr run" where
  "fdt_find_string' strtab tabsize s m =
     bindM (strlen s m) (\<lambda>n.
     let len = int_of_u64 (n + 1); last_p = strtab + word_of_int tabsize - word_of_int len in
     find_string_loop strtab last_p s (word_of_int len) m)"

definition fdt_move :: "addr \<Rightarrow> addr \<Rightarrow> int \<Rightarrow> memory \<Rightarrow> (int \<times> memory) run" where
  "fdt_move fdt buf bufsize m =
     (if \<not> can_assume VALID_INPUT \<and> bufsize < 0 then ret (- FDT_ERR_NOSPACE, m)
      else bindM (fdt_ro_probe' fdt m) (\<lambda>probe.
      if probe < 0 then ret (probe, m)
      else bindM (fdt_totalsize fdt m) (\<lambda>total.
      if total > word_of_int bufsize then ret (- FDT_ERR_NOSPACE, m)
      else bindM (Some (memmove buf fdt (ucast total) m)) (\<lambda>(_, m). ret (0, m)))))"

end
