(* ===== verification/Fdt_Ro.thy ===== *)
theory Fdt_Ro
  imports Fdt
begin

text \<open>
  The read-only queries of \<^verbatim>\<open>kernel/device/libfdt/fdt_ro.c\<close>. An out parameter is a component of the result:
  \<^verbatim>\<open>lenp\<close> is the integer beside a returned pointer, and is ignored by a caller that passes \<^verbatim>\<open>NULL\<close>. The
  addresses the linker gives to string literals are the argument \<open>lit\<close>.
\<close>

type_synonym literals = "string \<Rightarrow> addr"

section \<open>Strings\<close>

definition get_string_len :: "addr \<Rightarrow> int \<Rightarrow> ulong \<Rightarrow> memory \<Rightarrow> (int + ulong) run" where
  "get_string_len fdt stroffset len m =
     bindM (fdt_magic fdt m) (\<lambda>mg.
     if mg = FDT_MAGIC then
       (if stroffset < 0 then ret (Inl (- FDT_ERR_BADOFFSET))
        else bindM (fdt_version fdt m) (\<lambda>v.
        if can_assume LATEST \<or> v \<ge> 17 then
          bindM (fdt_size_dt_strings fdt m) (\<lambda>sz.
          if word_of_int stroffset \<ge> sz then ret (Inl (- FDT_ERR_BADOFFSET))
          else if ucast (sz - word_of_int stroffset) < len then ret (Inr (ucast (sz - word_of_int stroffset)))
          else ret (Inr len))
        else ret (Inr len)))
     else if mg = FDT_SW_MAGIC then
       bindM (isub 0 stroffset) (\<lambda>d. let sw_stroffset = word_of_int d :: uint32 in
        bindM (fdt_size_dt_strings fdt m) (\<lambda>sz.
        if stroffset \<ge> 0 \<or> sw_stroffset > sz then ret (Inl (- FDT_ERR_BADOFFSET))
        else if ucast sw_stroffset < len then ret (Inr (ucast sw_stroffset)) else ret (Inr len)))
     else ret (Inl (- FDT_ERR_INTERNAL)))"

definition fdt_get_string :: "addr \<Rightarrow> int \<Rightarrow> memory \<Rightarrow> (addr \<times> int) run" where
  "fdt_get_string fdt stroffset m =
     (if can_assume VALID_INPUT then
        bindM (fdt_off_dt_strings fdt m) (\<lambda>off. let s = fdt + ucast off + word_of_int stroffset in
        bindM (strlen s m) (\<lambda>n. ret (s, int_of_u64 n)))
      else bindM (fdt_ro_probe' fdt m) (\<lambda>totalsize.
      if totalsize < 0 then ret (0, totalsize)
      else bindM (fdt_off_dt_strings fdt m) (\<lambda>off.
      let absoffset = word_of_int stroffset + off in
      if absoffset \<ge> word_of_int totalsize then ret (0, - FDT_ERR_BADOFFSET)
      else bindM (get_string_len fdt stroffset (ucast (word_of_int totalsize - absoffset)) m) (\<lambda>r.
      case r of Inl err \<Rightarrow> ret (0, err)
      | Inr len \<Rightarrow>
          let s = fdt + ucast absoffset in
          bindM (Some (memchr s 0 len m)) (\<lambda>n.
          if n = 0 then ret (0, - FDT_ERR_TRUNCATED) else ret (s, int_of_u64 (n - s)))))))"

definition fdt_string :: "addr \<Rightarrow> int \<Rightarrow> memory \<Rightarrow> addr run" where
  "fdt_string fdt stroffset m = bindM (fdt_get_string fdt stroffset m) (\<lambda>(s, _). ret s)"

definition fdt_string_eq' :: "addr \<Rightarrow> int \<Rightarrow> addr \<Rightarrow> int \<Rightarrow> memory \<Rightarrow> bool run" where
  "fdt_string_eq' fdt stroffset s len m =
     bindM (fdt_get_string fdt stroffset m) (\<lambda>(p, slen).
     if p \<noteq> 0 \<and> slen = len then bindM (Some (memcmp p s (word_of_int len) m)) (\<lambda>c. ret (c = 0))
     else ret False)"

section \<open>Reservations\<close>

definition fdt_mem_rsv :: "addr \<Rightarrow> int \<Rightarrow> memory \<Rightarrow> addr run" where
  "fdt_mem_rsv fdt n m =
     (let offset = ucast (word_of_int n * sizeof_fdt_reserve_entry) in
      bindM (fdt_off_mem_rsvmap fdt m) (\<lambda>off.
      let absoffset = off + offset in
      if \<not> can_assume VALID_INPUT then
        (if absoffset < off then ret 0
         else bindM (fdt_totalsize fdt m) (\<lambda>total.
         if ucast absoffset > ucast total - sizeof_fdt_reserve_entry then ret 0 else fdt_mem_rsv' fdt n m))
      else fdt_mem_rsv' fdt n m))"

definition fdt_get_mem_rsv :: "addr \<Rightarrow> int \<Rightarrow> memory \<Rightarrow> (int \<times> (uint64 \<times> uint64) option) run" where
  "fdt_get_mem_rsv fdt n m =
     bindM (fdt_ro_probe' fdt m) (\<lambda>probe.
     if probe < 0 then ret (probe, None)
     else bindM (fdt_mem_rsv fdt n m) (\<lambda>re.
     if \<not> can_assume VALID_INPUT \<and> re = 0 then ret (- FDT_ERR_BADOFFSET, None)
     else bindM (fdt64_ld' re m) (\<lambda>address. bindM (fdt64_ld' (re + 8) m) (\<lambda>sz.
     ret (0, Some (address, sz))))))"

partial_function (option) num_mem_rsv_loop :: "addr \<Rightarrow> int \<Rightarrow> memory \<Rightarrow> int run" where
  "num_mem_rsv_loop fdt i m =
     bindM (fdt_mem_rsv fdt i m) (\<lambda>re.
     if re \<noteq> 0 then
       bindM (fdt64_ld' (re + 8) m) (\<lambda>sz.
       if sz = 0 then ret i else bindM (iadd i 1) (\<lambda>i. num_mem_rsv_loop fdt i m))
     else ret (- FDT_ERR_TRUNCATED))"

definition fdt_num_mem_rsv :: "addr \<Rightarrow> memory \<Rightarrow> int run" where
  "fdt_num_mem_rsv fdt m = num_mem_rsv_loop fdt 0 m"

section \<open>Properties of a node\<close>

partial_function (option) nextprop' :: "addr \<Rightarrow> int \<Rightarrow> memory \<Rightarrow> int run" where
  "nextprop' fdt offset m =
     bindM (fdt_next_tag fdt offset m) (\<lambda>(tag, nextoffset).
     if tag = FDT_END then (if nextoffset \<ge> 0 then ret (- FDT_ERR_BADSTRUCTURE) else ret nextoffset)
     else if tag = FDT_PROP then ret offset
     else if tag = FDT_NOP then nextprop' fdt nextoffset m
     else ret (- FDT_ERR_NOTFOUND))"

definition fdt_first_property_offset :: "addr \<Rightarrow> int \<Rightarrow> memory \<Rightarrow> int run" where
  "fdt_first_property_offset fdt nodeoffset m =
     bindM (fdt_check_node_offset' fdt nodeoffset m) (\<lambda>offset.
     if offset < 0 then ret offset else nextprop' fdt offset m)"

definition fdt_next_property_offset :: "addr \<Rightarrow> int \<Rightarrow> memory \<Rightarrow> int run" where
  "fdt_next_property_offset fdt offset m =
     bindM (fdt_check_prop_offset' fdt offset m) (\<lambda>offset.
     if offset < 0 then ret offset else nextprop' fdt offset m)"

text \<open>The fields of \<^verbatim>\<open>struct fdt_property\<close>: tag, len, nameoff and data at 0, 4, 8 and 12.\<close>

definition fdt_get_property_by_offset' :: "addr \<Rightarrow> int \<Rightarrow> memory \<Rightarrow> (addr \<times> int) run" where
  "fdt_get_property_by_offset' fdt offset m =
     bindM (fdt_check_prop_offset' fdt offset m) (\<lambda>err.
     if \<not> can_assume VALID_INPUT \<and> err < 0 then ret (0, err)
     else bindM (fdt_offset_ptr' fdt offset m) (\<lambda>prop.
     bindM (fdt32_ld' (prop + 4) m) (\<lambda>len. ret (prop, int_of_u32 len))))"

definition fdt_get_property_by_offset :: "addr \<Rightarrow> int \<Rightarrow> memory \<Rightarrow> (addr \<times> int) run" where
  "fdt_get_property_by_offset fdt offset m =
     bindM (fdt_version fdt m) (\<lambda>v.
     if \<not> can_assume LATEST \<and> v < 0x10 then ret (0, - FDT_ERR_BADVERSION)
     else fdt_get_property_by_offset' fdt offset m)"

partial_function (option) get_property_loop ::
  "addr \<Rightarrow> int \<Rightarrow> addr \<Rightarrow> int \<Rightarrow> memory \<Rightarrow> (addr \<times> int \<times> int) run" where
  "get_property_loop fdt offset name namelen m =
     (if offset \<ge> 0 then
        bindM (fdt_get_property_by_offset' fdt offset m) (\<lambda>(prop, len).
        if \<not> can_assume LIBFDT_FLAWLESS \<and> prop = 0 then ret (0, - FDT_ERR_INTERNAL, 0)
        else bindM (fdt32_ld' (prop + 8) m) (\<lambda>nameoff.
        bindM (fdt_string_eq' fdt (int_of_u32 nameoff) name namelen m) (\<lambda>eq.
        if eq then ret (prop, len, offset)
        else bindM (fdt_next_property_offset fdt offset m) (\<lambda>offset.
        get_property_loop fdt offset name namelen m))))
      else ret (0, offset, 0))"

text \<open>The property, \<^verbatim>\<open>*lenp\<close> and \<^verbatim>\<open>*poffset\<close>.\<close>

definition fdt_get_property_namelen' ::
  "addr \<Rightarrow> int \<Rightarrow> addr \<Rightarrow> int \<Rightarrow> memory \<Rightarrow> (addr \<times> int \<times> int) run" where
  "fdt_get_property_namelen' fdt offset name namelen m =
     bindM (fdt_first_property_offset fdt offset m) (\<lambda>offset. get_property_loop fdt offset name namelen m)"

definition fdt_get_property_namelen :: "addr \<Rightarrow> int \<Rightarrow> addr \<Rightarrow> int \<Rightarrow> memory \<Rightarrow> (addr \<times> int) run" where
  "fdt_get_property_namelen fdt offset name namelen m =
     bindM (fdt_version fdt m) (\<lambda>v.
     if \<not> can_assume LATEST \<and> v < 0x10 then ret (0, - FDT_ERR_BADVERSION)
     else bindM (fdt_get_property_namelen' fdt offset name namelen m) (\<lambda>(prop, len, _). ret (prop, len)))"

definition fdt_get_property :: "addr \<Rightarrow> int \<Rightarrow> addr \<Rightarrow> memory \<Rightarrow> (addr \<times> int) run" where
  "fdt_get_property fdt nodeoffset name m =
     bindM (strlen name m) (\<lambda>n. fdt_get_property_namelen fdt nodeoffset name (int_of_u64 n) m)"

definition prop_data :: "addr \<Rightarrow> addr \<Rightarrow> int \<Rightarrow> memory \<Rightarrow> addr run" where
  "prop_data fdt prop poffset m =
     bindM (fdt_version fdt m) (\<lambda>v.
     if \<not> can_assume LATEST \<and> v < 0x10 \<and> (word_of_int poffset + sizeof_fdt_property) mod 8 \<noteq> 0 then
       bindM (fdt32_ld' (prop + 4) m) (\<lambda>len. ret (if len \<ge> 8 then prop + 12 + 4 else prop + 12))
     else ret (prop + 12))"

definition fdt_getprop_namelen :: "addr \<Rightarrow> int \<Rightarrow> addr \<Rightarrow> int \<Rightarrow> memory \<Rightarrow> (addr \<times> int) run" where
  "fdt_getprop_namelen fdt nodeoffset name namelen m =
     bindM (fdt_get_property_namelen' fdt nodeoffset name namelen m) (\<lambda>(prop, len, poffset).
     if prop = 0 then ret (0, len)
     else bindM (prop_data fdt prop poffset m) (\<lambda>data. ret (data, len)))"

text \<open>The data, \<^verbatim>\<open>*namep\<close> and \<^verbatim>\<open>*lenp\<close>; \<open>namep\<close> says whether that pointer is given.\<close>

definition fdt_getprop_by_offset :: "addr \<Rightarrow> int \<Rightarrow> bool \<Rightarrow> memory \<Rightarrow> (addr \<times> addr \<times> int) run" where
  "fdt_getprop_by_offset fdt offset namep m =
     bindM (fdt_get_property_by_offset' fdt offset m) (\<lambda>(prop, len).
     if prop = 0 then ret (0, 0, len)
     else bindM
       (if namep then
          bindM (fdt32_ld' (prop + 8) m) (\<lambda>nameoff.
          if \<not> can_assume VALID_INPUT then fdt_get_string fdt (int_of_u32 nameoff) m
          else bindM (fdt_string fdt (int_of_u32 nameoff) m) (\<lambda>name. ret (name, 0)))
        else ret (0, 0)) (\<lambda>(name, namelen).
     if namep \<and> \<not> can_assume VALID_INPUT \<and> name = 0 then ret (0, name, namelen)
     else bindM (prop_data fdt prop offset m) (\<lambda>data. ret (data, name, len))))"

definition fdt_getprop :: "addr \<Rightarrow> int \<Rightarrow> addr \<Rightarrow> memory \<Rightarrow> (addr \<times> int) run" where
  "fdt_getprop fdt nodeoffset name m =
     bindM (strlen name m) (\<lambda>n. fdt_getprop_namelen fdt nodeoffset name (int_of_u64 n) m)"

definition fdt_get_phandle :: "literals \<Rightarrow> addr \<Rightarrow> int \<Rightarrow> memory \<Rightarrow> uint32 run" where
  "fdt_get_phandle lit fdt nodeoffset m =
     bindM (fdt_getprop fdt nodeoffset (lit ''phandle'') m) (\<lambda>(php, len).
     if php = 0 \<or> len \<noteq> 4 then
       bindM (fdt_getprop fdt nodeoffset (lit ''linux,phandle'') m) (\<lambda>(php, len).
       if php = 0 \<or> len \<noteq> 4 then ret 0 else fdt32_ld' php m)
     else fdt32_ld' php m)"

section \<open>Phandles\<close>

partial_function (option) find_max_phandle_loop ::
  "literals \<Rightarrow> addr \<Rightarrow> int \<Rightarrow> uint32 \<Rightarrow> memory \<Rightarrow> (int \<times> uint32 option) run" where
  "find_max_phandle_loop lit fdt offset mx m =
     bindM (fdt_next_node fdt offset None m) (\<lambda>(offset, _).
     if offset < 0 then
       (if offset = - FDT_ERR_NOTFOUND then ret (0, Some mx) else ret (offset, None))
     else bindM (fdt_get_phandle lit fdt offset m) (\<lambda>value.
     find_max_phandle_loop lit fdt offset (if value > mx then value else mx) m))"

definition fdt_find_max_phandle :: "literals \<Rightarrow> addr \<Rightarrow> memory \<Rightarrow> (int \<times> uint32 option) run" where
  "fdt_find_max_phandle lit fdt m = find_max_phandle_loop lit fdt (- 1) 0 m"

definition fdt_generate_phandle :: "literals \<Rightarrow> addr \<Rightarrow> memory \<Rightarrow> (int \<times> uint32 option) run" where
  "fdt_generate_phandle lit fdt m =
     bindM (fdt_find_max_phandle lit fdt m) (\<lambda>(err, mx).
     if err < 0 then ret (err, None)
     else if mx = Some FDT_MAX_PHANDLE then ret (- FDT_ERR_NOPHANDLES, None)
     else ret (0, map_option (\<lambda>x. x + 1) mx))"

definition fdt_get_max_phandle :: "literals \<Rightarrow> addr \<Rightarrow> memory \<Rightarrow> uint32 run" where
  "fdt_get_max_phandle lit fdt m =
     bindM (fdt_find_max_phandle lit fdt m) (\<lambda>(err, phandle).
     if err < 0 then ret (- 1) else ret (the phandle))"

section \<open>Names and paths\<close>

definition fdt_get_name :: "addr \<Rightarrow> int \<Rightarrow> memory \<Rightarrow> (addr \<times> int) run" where
  "fdt_get_name fdt nodeoffset m =
     bindM (fdt_offset_ptr' fdt nodeoffset m) (\<lambda>nh.
     bindM (fdt_ro_probe' fdt m) (\<lambda>err.
     if err < 0 then ret (0, err)
     else bindM (fdt_check_node_offset' fdt nodeoffset m) (\<lambda>err.
     if err < 0 then ret (0, err)
     else
     let nameptr = nh + 4 in
     bindM (fdt_version fdt m) (\<lambda>v.
     if \<not> can_assume LATEST \<and> v < 0x10 then
       bindM (strrchr nameptr 47 m) (\<lambda>leaf.
       if leaf = 0 then ret (0, - FDT_ERR_BADSTRUCTURE)
       else bindM (strlen (leaf + 1) m) (\<lambda>n. ret (leaf + 1, int_of_u64 n)))
     else bindM (strlen nameptr m) (\<lambda>n. ret (nameptr, int_of_u64 n))))))"

definition fdt_nodename_eq' :: "addr \<Rightarrow> int \<Rightarrow> addr \<Rightarrow> int \<Rightarrow> memory \<Rightarrow> bool run" where
  "fdt_nodename_eq' fdt offset s len m =
     bindM (fdt_get_name fdt offset m) (\<lambda>(p, olen).
     if p = 0 \<or> olen < len then ret False
     else bindM (Some (memcmp p s (word_of_int len) m)) (\<lambda>c.
     if c \<noteq> 0 then ret False
     else bindM (ld8 m (p + word_of_int len)) (\<lambda>ch.
     if ch = 0 then ret True
     else bindM (Some (memchr s 64 (word_of_int len) m)) (\<lambda>at.
     ret (at = 0 \<and> ch = 64)))))"

partial_function (option) subnode_loop :: "addr \<Rightarrow> int \<Rightarrow> int \<Rightarrow> addr \<Rightarrow> int \<Rightarrow> memory \<Rightarrow> int run" where
  "subnode_loop fdt offset depth name namelen m =
     (if offset \<ge> 0 \<and> depth \<ge> 0 then
        bindM (if depth = 1 then fdt_nodename_eq' fdt offset name namelen m else ret False) (\<lambda>eq.
        if eq then ret offset
        else bindM (fdt_next_node fdt offset (Some depth) m) (\<lambda>(offset, depth).
        subnode_loop fdt offset (the depth) name namelen m))
      else if depth < 0 then ret (- FDT_ERR_NOTFOUND) else ret offset)"

definition fdt_subnode_offset_namelen :: "addr \<Rightarrow> int \<Rightarrow> addr \<Rightarrow> int \<Rightarrow> memory \<Rightarrow> int run" where
  "fdt_subnode_offset_namelen fdt offset name namelen m =
     bindM (fdt_ro_probe' fdt m) (\<lambda>probe.
     if probe < 0 then ret probe else subnode_loop fdt offset 0 name namelen m)"

definition fdt_subnode_offset :: "addr \<Rightarrow> int \<Rightarrow> addr \<Rightarrow> memory \<Rightarrow> int run" where
  "fdt_subnode_offset fdt parentoffset name m =
     bindM (strlen name m) (\<lambda>n. fdt_subnode_offset_namelen fdt parentoffset name (int_of_u64 n) m)"

text \<open>Skipping the slashes before a component: \<open>None\<close> when the path ends there.\<close>

partial_function (option) skip_slashes :: "addr \<Rightarrow> addr \<Rightarrow> memory \<Rightarrow> addr option run" where
  "skip_slashes p end_p m =
     bindM (ld8 m p) (\<lambda>c.
     if c = 47 then (if p + 1 = end_p then ret None else skip_slashes (p + 1) end_p m) else ret (Some p))"

definition path_component :: "addr \<Rightarrow> addr \<Rightarrow> memory \<Rightarrow> addr run" where
  "path_component p end_p m =
     bindM (Some (memchr p 47 (end_p - p) m)) (\<lambda>q. ret (if q = 0 then end_p else q))"

partial_function (option) path_loop :: "addr \<Rightarrow> addr \<Rightarrow> addr \<Rightarrow> int \<Rightarrow> memory \<Rightarrow> int run" where
  "path_loop fdt p end_p offset m =
     (if p < end_p then
        bindM (skip_slashes p end_p m) (\<lambda>r. case r of None \<Rightarrow> ret offset | Some p \<Rightarrow>
        bindM (path_component p end_p m) (\<lambda>q.
        bindM (fdt_subnode_offset_namelen fdt offset p (int_of_u64 (q - p)) m) (\<lambda>offset.
        if offset < 0 then ret offset else path_loop fdt q end_p offset m)))
      else ret offset)"

text \<open>\<^verbatim>\<open>fdt_path_offset_namelen\<close>, \<^verbatim>\<open>fdt_path_offset\<close> and \<^verbatim>\<open>fdt_get_alias_namelen\<close> call each other; the first is
  the recursion, with the bodies of the other two at their calls.\<close>

partial_function (option) fdt_path_offset_namelen ::
  "literals \<Rightarrow> addr \<Rightarrow> addr \<Rightarrow> int \<Rightarrow> memory \<Rightarrow> int run" where
  "fdt_path_offset_namelen lit fdt path namelen m =
     (let end_p = path + word_of_int namelen in
      bindM (fdt_ro_probe' fdt m) (\<lambda>probe.
      if probe < 0 then ret probe
      else bindM (ld8 m path) (\<lambda>c.
      if c \<noteq> 47 then
        bindM (path_component path end_p m) (\<lambda>q.
        bindM (strlen (lit ''/aliases'') m) (\<lambda>n.
        bindM (fdt_path_offset_namelen lit fdt (lit ''/aliases'') (int_of_u64 n) m) (\<lambda>aliasoffset.
        bindM (if aliasoffset < 0 then ret (0, 0)
               else fdt_getprop_namelen fdt aliasoffset path (int_of_u64 (q - path)) m) (\<lambda>(p, _).
        if p = 0 then ret (- FDT_ERR_BADPATH)
        else bindM (strlen p m) (\<lambda>n.
        bindM (fdt_path_offset_namelen lit fdt p (int_of_u64 n) m) (\<lambda>offset.
        path_loop fdt q end_p offset m))))))
      else path_loop fdt path end_p 0 m)))"

definition fdt_path_offset :: "literals \<Rightarrow> addr \<Rightarrow> addr \<Rightarrow> memory \<Rightarrow> int run" where
  "fdt_path_offset lit fdt path m =
     bindM (strlen path m) (\<lambda>n. fdt_path_offset_namelen lit fdt path (int_of_u64 n) m)"

definition fdt_get_alias_namelen :: "literals \<Rightarrow> addr \<Rightarrow> addr \<Rightarrow> int \<Rightarrow> memory \<Rightarrow> addr run" where
  "fdt_get_alias_namelen lit fdt name namelen m =
     bindM (fdt_path_offset lit fdt (lit ''/aliases'') m) (\<lambda>aliasoffset.
     if aliasoffset < 0 then ret 0
     else bindM (fdt_getprop_namelen fdt aliasoffset name namelen m) (\<lambda>(p, _). ret p))"

definition fdt_get_alias :: "literals \<Rightarrow> addr \<Rightarrow> addr \<Rightarrow> memory \<Rightarrow> addr run" where
  "fdt_get_alias lit fdt name m =
     bindM (strlen name m) (\<lambda>n. fdt_get_alias_namelen lit fdt name (int_of_u64 n) m)"

text \<open>\<^verbatim>\<open>fdt_get_path\<close> writes the path into \<^verbatim>\<open>buf\<close>. Going up one level moves \<^verbatim>\<open>p\<close> back to just after the
  previous slash.\<close>

partial_function (option) back_slash :: "addr \<Rightarrow> int \<Rightarrow> memory \<Rightarrow> int run" where
  "back_slash buf p m =
     bindM (iadd p (- 1)) (\<lambda>p. bindM (ld8 m (buf + word_of_int (p - 1))) (\<lambda>c.
     if c \<noteq> 47 then back_slash buf p m else ret p))"

partial_function (option) path_up :: "addr \<Rightarrow> int \<Rightarrow> int \<Rightarrow> int \<Rightarrow> memory \<Rightarrow> (int \<times> int) run" where
  "path_up buf depth pdepth p m =
     (if pdepth > depth then
        bindM (back_slash buf p m) (\<lambda>p. bindM (iadd pdepth (- 1)) (\<lambda>pdepth. path_up buf depth pdepth p m))
      else ret (pdepth, p))"

text \<open>Appending one component: an error code, or the new \<^verbatim>\<open>pdepth\<close> and \<^verbatim>\<open>p\<close>.\<close>

definition path_append :: "addr \<Rightarrow> int \<Rightarrow> addr \<Rightarrow> int \<Rightarrow> int \<Rightarrow> int \<Rightarrow> memory \<Rightarrow> ((int + int \<times> int) \<times> memory) run" where
  "path_append fdt offset buf buflen pdepth p m =
     bindM (fdt_get_name fdt offset m) (\<lambda>(name, namelen).
     if name = 0 then ret (Inl namelen, m)
     else bindM (iadd p namelen) (\<lambda>e. bindM (iadd e 1) (\<lambda>e1.
     if e1 \<le> buflen then
       bindM (Some (memcpy (buf + word_of_int p) name (word_of_int namelen) m)) (\<lambda>(_, m).
       bindM (st8 m (buf + word_of_int e) 47) (\<lambda>m. ret (Inr (pdepth + 1, e1), m)))
     else ret (Inr (pdepth, p), m))))"

partial_function (option) get_path_loop ::
  "addr \<Rightarrow> int \<Rightarrow> addr \<Rightarrow> int \<Rightarrow> int \<Rightarrow> int \<Rightarrow> int \<Rightarrow> int \<Rightarrow> memory \<Rightarrow> (int \<times> memory) run" where
  "get_path_loop fdt nodeoffset buf buflen offset depth pdepth p m =
     (if offset \<ge> 0 \<and> offset \<le> nodeoffset then
        bindM (path_up buf depth pdepth p m) (\<lambda>(pdepth, p).
        bindM (if pdepth \<ge> depth then path_append fdt offset buf buflen pdepth p m
               else ret (Inr (pdepth, p), m)) (\<lambda>(r, m).
        case r of Inl err \<Rightarrow> ret (err, m)
        | Inr (pdepth, p) \<Rightarrow>
            if offset = nodeoffset then
              (if pdepth < depth + 1 then ret (- FDT_ERR_NOSPACE, m)
               else bindM (st8 m (buf + word_of_int (if p > 1 then p - 1 else p)) 0) (\<lambda>m. ret (0, m)))
            else bindM (fdt_next_node fdt offset (Some depth) m) (\<lambda>(offset, depth).
              get_path_loop fdt nodeoffset buf buflen offset (the depth) pdepth p m)))
      else if offset = - FDT_ERR_NOTFOUND \<or> offset \<ge> 0 then ret (- FDT_ERR_BADOFFSET, m)
      else if offset = - FDT_ERR_BADOFFSET then ret (- FDT_ERR_BADSTRUCTURE, m)
      else ret (offset, m))"

definition fdt_get_path :: "addr \<Rightarrow> int \<Rightarrow> addr \<Rightarrow> int \<Rightarrow> memory \<Rightarrow> (int \<times> memory) run" where
  "fdt_get_path fdt nodeoffset buf buflen m =
     bindM (fdt_ro_probe' fdt m) (\<lambda>probe.
     if probe < 0 then ret (probe, m)
     else if buflen < 2 then ret (- FDT_ERR_NOSPACE, m)
     else get_path_loop fdt nodeoffset buf buflen 0 0 0 0 m)"

section \<open>Ancestors\<close>

partial_function (option) supernode_loop ::
  "addr \<Rightarrow> int \<Rightarrow> int \<Rightarrow> int \<Rightarrow> int \<Rightarrow> int \<Rightarrow> memory \<Rightarrow> (int \<times> int option) run" where
  "supernode_loop fdt nodeoffset supernodedepth supernodeoffset offset depth m =
     (if offset \<ge> 0 \<and> offset \<le> nodeoffset then
        (let supernodeoffset = (if depth = supernodedepth then offset else supernodeoffset) in
         if offset = nodeoffset then
           ret (if supernodedepth > depth then - FDT_ERR_NOTFOUND else supernodeoffset, Some depth)
         else bindM (fdt_next_node fdt offset (Some depth) m) (\<lambda>(offset, depth).
           supernode_loop fdt nodeoffset supernodedepth supernodeoffset offset (the depth) m))
      else if \<not> can_assume VALID_INPUT \<and> (offset = - FDT_ERR_NOTFOUND \<or> offset \<ge> 0) then
        ret (- FDT_ERR_BADOFFSET, None)
      else if \<not> can_assume VALID_INPUT \<and> offset = - FDT_ERR_BADOFFSET then ret (- FDT_ERR_BADSTRUCTURE, None)
      else ret (offset, None))"

text \<open>The offset and \<^verbatim>\<open>*nodedepth\<close>.\<close>

definition fdt_supernode_atdepth_offset :: "addr \<Rightarrow> int \<Rightarrow> int \<Rightarrow> memory \<Rightarrow> (int \<times> int option) run" where
  "fdt_supernode_atdepth_offset fdt nodeoffset supernodedepth m =
     bindM (fdt_ro_probe' fdt m) (\<lambda>probe.
     if probe < 0 then ret (probe, None)
     else if supernodedepth < 0 then ret (- FDT_ERR_NOTFOUND, None)
     else supernode_loop fdt nodeoffset supernodedepth (- FDT_ERR_INTERNAL) 0 0 m)"

definition fdt_node_depth :: "addr \<Rightarrow> int \<Rightarrow> memory \<Rightarrow> int run" where
  "fdt_node_depth fdt nodeoffset m =
     bindM (fdt_supernode_atdepth_offset fdt nodeoffset 0 m) (\<lambda>(err, nodedepth).
     if err \<noteq> 0 then ret (if can_assume LIBFDT_FLAWLESS \<or> err < 0 then err else - FDT_ERR_INTERNAL)
     else ret (the nodedepth))"

definition fdt_parent_offset :: "addr \<Rightarrow> int \<Rightarrow> memory \<Rightarrow> int run" where
  "fdt_parent_offset fdt nodeoffset m =
     bindM (fdt_node_depth fdt nodeoffset m) (\<lambda>nodedepth.
     if nodedepth < 0 then ret nodedepth
     else bindM (fdt_supernode_atdepth_offset fdt nodeoffset (nodedepth - 1) m) (\<lambda>(r, _). ret r))"

section \<open>Searching nodes\<close>

partial_function (option) by_prop_value_loop :: "addr \<Rightarrow> int \<Rightarrow> addr \<Rightarrow> addr \<Rightarrow> int \<Rightarrow> memory \<Rightarrow> int run" where
  "by_prop_value_loop fdt startoffset propname propval proplen m =
     bindM (fdt_next_node fdt startoffset None m) (\<lambda>(offset, _).
     if offset \<ge> 0 then
       bindM (fdt_getprop fdt offset propname m) (\<lambda>(val, len).
       bindM (if val \<noteq> 0 \<and> len = proplen
              then bindM (Some (memcmp val propval (word_of_int len) m)) (\<lambda>c. ret (c = 0)) else ret False) (\<lambda>eq.
       if eq then ret offset else by_prop_value_loop fdt offset propname propval proplen m))
     else ret offset)"

definition fdt_node_offset_by_prop_value :: "addr \<Rightarrow> int \<Rightarrow> addr \<Rightarrow> addr \<Rightarrow> int \<Rightarrow> memory \<Rightarrow> int run" where
  "fdt_node_offset_by_prop_value fdt startoffset propname propval proplen m =
     bindM (fdt_ro_probe' fdt m) (\<lambda>probe.
     if probe < 0 then ret probe else by_prop_value_loop fdt startoffset propname propval proplen m)"

partial_function (option) by_phandle_loop :: "literals \<Rightarrow> addr \<Rightarrow> int \<Rightarrow> uint32 \<Rightarrow> memory \<Rightarrow> int run" where
  "by_phandle_loop lit fdt startoffset phandle m =
     bindM (fdt_next_node fdt startoffset None m) (\<lambda>(offset, _).
     if offset \<ge> 0 then
       bindM (fdt_get_phandle lit fdt offset m) (\<lambda>h.
       if h = phandle then ret offset else by_phandle_loop lit fdt offset phandle m)
     else ret offset)"

definition fdt_node_offset_by_phandle :: "literals \<Rightarrow> addr \<Rightarrow> uint32 \<Rightarrow> memory \<Rightarrow> int run" where
  "fdt_node_offset_by_phandle lit fdt phandle m =
     (if phandle = 0 \<or> phandle = NOT 0 then ret (- FDT_ERR_BADPHANDLE)
      else bindM (fdt_ro_probe' fdt m) (\<lambda>probe.
      if probe < 0 then ret probe else by_phandle_loop lit fdt (- 1) phandle m))"

section \<open>String lists\<close>

partial_function (option) stringlist_contains_loop :: "addr \<Rightarrow> int \<Rightarrow> addr \<Rightarrow> int \<Rightarrow> memory \<Rightarrow> int run" where
  "stringlist_contains_loop strlist listlen str len m =
     (if listlen \<ge> len then
        bindM (Some (memcmp str strlist (word_of_int (len + 1)) m)) (\<lambda>c.
        if c = 0 then ret 1
        else bindM (Some (memchr strlist 0 (word_of_int listlen) m)) (\<lambda>p.
        if p = 0 then ret 0
        else stringlist_contains_loop (p + 1) (int_of_u64 (word_of_int listlen - ((p - strlist) + 1))) str len m))
      else ret 0)"

definition fdt_stringlist_contains :: "addr \<Rightarrow> int \<Rightarrow> addr \<Rightarrow> memory \<Rightarrow> int run" where
  "fdt_stringlist_contains strlist listlen str m =
     bindM (strlen str m) (\<lambda>n. stringlist_contains_loop strlist listlen str (int_of_u64 n) m)"

text \<open>One step of the walks over a list of strings: the length of the string at \<^verbatim>\<open>list\<close> with its terminator,
  or \<open>None\<close> when it is not terminated before \<^verbatim>\<open>end\<close>.\<close>

definition list_string :: "addr \<Rightarrow> addr \<Rightarrow> memory \<Rightarrow> int option run" where
  "list_string list end_p m =
     bindM (Some (strnlen list (end_p - list) m)) (\<lambda>n.
     let slen = int_of_u64 (n + 1) in
     if list + word_of_int slen > end_p then ret None else ret (Some slen))"

partial_function (option) stringlist_count_loop :: "addr \<Rightarrow> addr \<Rightarrow> int \<Rightarrow> memory \<Rightarrow> int run" where
  "stringlist_count_loop list end_p count m =
     (if list < end_p then
        bindM (list_string list end_p m) (\<lambda>r. case r of None \<Rightarrow> ret (- FDT_ERR_BADVALUE)
        | Some slen \<Rightarrow> bindM (iadd count 1) (\<lambda>count.
            stringlist_count_loop (list + word_of_int slen) end_p count m))
      else ret count)"

definition fdt_stringlist_count :: "addr \<Rightarrow> int \<Rightarrow> addr \<Rightarrow> memory \<Rightarrow> int run" where
  "fdt_stringlist_count fdt nodeoffset property m =
     bindM (fdt_getprop fdt nodeoffset property m) (\<lambda>(list, slen).
     if list = 0 then ret slen else stringlist_count_loop list (list + word_of_int slen) 0 m)"

partial_function (option) stringlist_search_loop ::
  "addr \<Rightarrow> addr \<Rightarrow> addr \<Rightarrow> int \<Rightarrow> int \<Rightarrow> memory \<Rightarrow> int run" where
  "stringlist_search_loop list end_p string len idx m =
     (if list < end_p then
        bindM (list_string list end_p m) (\<lambda>r. case r of None \<Rightarrow> ret (- FDT_ERR_BADVALUE)
        | Some slen \<Rightarrow>
            bindM (if slen = len then bindM (Some (memcmp list string (word_of_int slen) m)) (\<lambda>c. ret (c = 0))
                   else ret False) (\<lambda>eq.
            if eq then ret idx
            else bindM (iadd idx 1) (\<lambda>idx.
              stringlist_search_loop (list + word_of_int slen) end_p string len idx m)))
      else ret (- FDT_ERR_NOTFOUND))"

definition fdt_stringlist_search :: "addr \<Rightarrow> int \<Rightarrow> addr \<Rightarrow> addr \<Rightarrow> memory \<Rightarrow> int run" where
  "fdt_stringlist_search fdt nodeoffset property string m =
     bindM (fdt_getprop fdt nodeoffset property m) (\<lambda>(list, slen).
     if list = 0 then ret slen
     else bindM (strlen string m) (\<lambda>n.
     stringlist_search_loop list (list + word_of_int slen) string (int_of_u64 (n + 1)) 0 m))"

partial_function (option) stringlist_get_loop :: "addr \<Rightarrow> addr \<Rightarrow> int \<Rightarrow> memory \<Rightarrow> (addr \<times> int) run" where
  "stringlist_get_loop list end_p idx m =
     (if list < end_p then
        bindM (list_string list end_p m) (\<lambda>r. case r of None \<Rightarrow> ret (0, - FDT_ERR_BADVALUE)
        | Some slen \<Rightarrow>
            if idx = 0 then ret (list, slen - 1)
            else bindM (iadd idx (- 1)) (\<lambda>idx. stringlist_get_loop (list + word_of_int slen) end_p idx m))
      else ret (0, - FDT_ERR_NOTFOUND))"

definition fdt_stringlist_get :: "addr \<Rightarrow> int \<Rightarrow> addr \<Rightarrow> int \<Rightarrow> memory \<Rightarrow> (addr \<times> int) run" where
  "fdt_stringlist_get fdt nodeoffset property idx m =
     bindM (fdt_getprop fdt nodeoffset property m) (\<lambda>(list, slen).
     if list = 0 then ret (0, slen) else stringlist_get_loop list (list + word_of_int slen) idx m)"

definition fdt_node_check_compatible :: "literals \<Rightarrow> addr \<Rightarrow> int \<Rightarrow> addr \<Rightarrow> memory \<Rightarrow> int run" where
  "fdt_node_check_compatible lit fdt nodeoffset compatible m =
     bindM (fdt_getprop fdt nodeoffset (lit ''compatible'') m) (\<lambda>(prop, len).
     if prop = 0 then ret len
     else bindM (fdt_stringlist_contains prop len compatible m) (\<lambda>r. ret (if r = 0 then 1 else 0)))"

partial_function (option) by_compatible_loop :: "literals \<Rightarrow> addr \<Rightarrow> int \<Rightarrow> addr \<Rightarrow> memory \<Rightarrow> int run" where
  "by_compatible_loop lit fdt startoffset compatible m =
     bindM (fdt_next_node fdt startoffset None m) (\<lambda>(offset, _).
     if offset \<ge> 0 then
       bindM (fdt_node_check_compatible lit fdt offset compatible m) (\<lambda>err.
       if err < 0 \<and> err \<noteq> - FDT_ERR_NOTFOUND then ret err
       else if err = 0 then ret offset else by_compatible_loop lit fdt offset compatible m)
     else ret offset)"

definition fdt_node_offset_by_compatible :: "literals \<Rightarrow> addr \<Rightarrow> int \<Rightarrow> addr \<Rightarrow> memory \<Rightarrow> int run" where
  "fdt_node_offset_by_compatible lit fdt startoffset compatible m =
     bindM (fdt_ro_probe' fdt m) (\<lambda>probe.
     if probe < 0 then ret probe else by_compatible_loop lit fdt startoffset compatible m)"

end
