(* ===== verification/Fdt_Safe.thy ===== *)
theory Fdt_Safe
  imports Fdt_Ro
begin

text \<open>
  What the header check buys: on a tree whose header passes \<^verbatim>\<open>fdt_check_header\<close> and whose bytes are mapped, the
  tag reader and the node walks of \<^verbatim>\<open>fdt.c\<close> return, without touching a byte outside the tree and with offsets
  that only grow.
\<close>

section \<open>Loads from mapped bytes\<close>

lemma ld8_Some: "m a = Some b \<Longrightarrow> ld8 m a = ret b"
  by (simp add: ld8_def)

lemma mapped_byte: "mapped m a n \<Longrightarrow> i < n \<Longrightarrow> \<exists>b. m (a + word_of_nat i) = Some b"
  by (auto simp: mapped_def)

lemma mapped_sub:
  assumes "mapped m a n" "i + k \<le> n"
  shows "mapped m (a + word_of_nat i) k"
  unfolding mapped_def
proof (intro allI impI)
  fix j assume "j < k"
  then have "i + j < n" using assms(2) by simp
  then have "m (a + word_of_nat (i + j)) \<noteq> None" using assms(1) unfolding mapped_def by blast
  then show "m (a + word_of_nat i + word_of_nat j) \<noteq> None" by (simp add: add.assoc)
qed

lemma mapped_4:
  assumes "mapped m a n" "4 \<le> n"
  shows "\<exists>b0 b1 b2 b3. m a = Some b0 \<and> m (a + 1) = Some b1 \<and> m (a + 2) = Some b2 \<and> m (a + 3) = Some b3"
  using mapped_byte [OF assms(1), of 0] mapped_byte [OF assms(1), of 1] mapped_byte [OF assms(1), of 2]
    mapped_byte [OF assms(1), of 3] assms(2) by auto

lemma fdt32_ld_mapped:
  assumes "mapped m a n" "4 \<le> n"
  shows "\<exists>w. fdt32_ld a m = ret w" "\<exists>w. fdt32_ld' a m = ret w"
  using mapped_4 [OF assms]
  by (auto simp: fdt32_ld_def fdt32_ld'_def ld8_def numeral_eq_Suc add.assoc)

section \<open>The header\<close>

definition hdr :: "memory \<Rightarrow> addr \<Rightarrow> fdt_header \<Rightarrow> uint32" where
  "hdr m fdt f = (case fdt_get_header fdt f m of Some (Inr v) \<Rightarrow> v | _ \<Rightarrow> 0)"

lemma header_field_less: "header_field f = word_of_nat (unat (header_field f)) \<and> unat (header_field f) + 4 \<le> 40"
  by (cases f) simp_all

lemma get_header:
  assumes "mapped m fdt 40"
  shows "fdt_get_header fdt f m = ret (hdr m fdt f)"
proof -
  have "mapped m (fdt + word_of_nat (unat (header_field f))) 4"
    using header_field_less [of f] by (intro mapped_sub [OF assms]) simp
  then have "mapped m (fdt + header_field f) 4" using header_field_less [of f] by simp
  from fdt32_ld_mapped(1) [OF this] show ?thesis by (auto simp: fdt_get_header_def hdr_def)
qed

lemmas hdr_fields = fdt_magic_def fdt_totalsize_def fdt_off_dt_struct_def fdt_off_dt_strings_def
  fdt_off_mem_rsvmap_def fdt_version_def fdt_last_comp_version_def fdt_boot_cpuid_phys_def
  fdt_size_dt_strings_def fdt_size_dt_struct_def

abbreviation tree_size :: "memory \<Rightarrow> addr \<Rightarrow> nat" where
  "tree_size m fdt \<equiv> unat (hdr m fdt H_totalsize)"

abbreviation struct_off :: "memory \<Rightarrow> addr \<Rightarrow> nat" where
  "struct_off m fdt \<equiv> unat (hdr m fdt H_off_dt_struct)"

text \<open>A tree the firmware handed over: its header passes the check and its bytes are there.\<close>

definition tree_ok :: "memory \<Rightarrow> addr \<Rightarrow> bool" where
  "tree_ok m fdt \<longleftrightarrow> fdt_check_header fdt m = ret 0 \<and> mapped m fdt 40 \<and> mapped m fdt (tree_size m fdt) \<and>
     0 < unat fdt \<and> unat fdt + tree_size m fdt \<le> 2 ^ 64"

lemma fdt_header_size'_bounds: "28 \<le> fdt_header_size' v" "fdt_header_size' v \<le> 40"
  by (simp_all add: fdt_header_size'_def)

lemma check_header_cases:
  assumes "fdt_check_header fdt m = ret 0" "mapped m fdt 40"
  shows "fdt AND 7 = 0" "hdr m fdt H_magic = FDT_MAGIC" "2 \<le> hdr m fdt H_version"
    and "hdr m fdt H_last_comp_version \<le> 17"
    and "uint (hdr m fdt H_totalsize) \<le> INT_MAX"
    and "check_off' (ucast (fdt_header_size' (hdr m fdt H_version))) (hdr m fdt H_totalsize) (hdr m fdt H_off_dt_struct)"
    and "check_block' (ucast (fdt_header_size' (hdr m fdt H_version))) (hdr m fdt H_totalsize)
      (hdr m fdt H_off_dt_strings) (hdr m fdt H_size_dt_strings)"
  using assms
  by (auto simp: fdt_check_header_def check_header_blocks_def fdt_header_size_def hdr_fields get_header Let_def
      not_less check_block'_def split: if_splits)

lemma unat_add_no_wrap:
  fixes a b :: "'a::len word"
  assumes "\<not> a + b < a"
  shows "unat (a + b) = unat a + unat b"
proof (cases "unat a + unat b < 2 ^ LENGTH('a)")
  case True
  then show ?thesis by (simp add: unat_plus_if')
next
  case False
  then have "unat (a + b) = unat a + unat b - 2 ^ LENGTH('a)" by (simp add: unat_plus_if')
  moreover have "unat b < 2 ^ LENGTH('a)" by (rule unsigned_less)
  moreover have "unat a \<le> unat (a + b)" using assms by (simp add: not_less word_le_nat_alt)
  ultimately show ?thesis using False by linarith
qed

lemma check_header_bounds:
  assumes "fdt_check_header fdt m = ret 0" "mapped m fdt 40"
  shows "int (tree_size m fdt) \<le> INT_MAX" "28 \<le> struct_off m fdt" "struct_off m fdt \<le> tree_size m fdt"
    and "unat (hdr m fdt H_off_dt_strings) + unat (hdr m fdt H_size_dt_strings) \<le> tree_size m fdt"
proof -
  note c = check_header_cases [OF assms]
  let ?hs = "ucast (fdt_header_size' (hdr m fdt H_version)) :: uint32"
  have hs: "28 \<le> ?hs" by (simp add: fdt_header_size'_def)
  show "int (tree_size m fdt) \<le> INT_MAX" using c(5) by simp
  show "28 \<le> struct_off m fdt" using c(6) hs by (auto simp: check_off'_def word_le_nat_alt)
  show "struct_off m fdt \<le> tree_size m fdt" using c(6) by (auto simp: check_off'_def word_le_nat_alt)
  have "\<not> hdr m fdt H_off_dt_strings + hdr m fdt H_size_dt_strings < hdr m fdt H_off_dt_strings"
    "hdr m fdt H_off_dt_strings + hdr m fdt H_size_dt_strings \<le> hdr m fdt H_totalsize"
    using c(7) by (auto simp: check_block'_def check_off'_def split: if_splits)
  then show "unat (hdr m fdt H_off_dt_strings) + unat (hdr m fdt H_size_dt_strings) \<le> tree_size m fdt"
    using unat_add_no_wrap by (metis word_le_nat_alt)
qed

section \<open>Pointers into the structure block\<close>

lemma unat_int32: "0 \<le> i \<Longrightarrow> i \<le> INT_MAX \<Longrightarrow> unat (word_of_int i :: uint32) = nat i"
  by (simp add: INT_MAX_def unsigned_of_int take_bit_int_eq_self)

lemma unat_int64: "0 \<le> i \<Longrightarrow> i < 2 ^ 64 \<Longrightarrow> unat (word_of_int i :: ulong) = nat i"
  by (simp add: unsigned_of_int take_bit_int_eq_self)

lemma offset_ptr':
  assumes "mapped m fdt 40" "0 \<le> offset"
  shows "fdt_offset_ptr' fdt offset m = ret (fdt + word_of_nat (struct_off m fdt + nat offset))"
  using assms by (simp add: fdt_offset_ptr'_def hdr_fields get_header add.assoc)

lemma offset_ptr_cases:
  assumes "tree_ok m fdt" "offset \<le> INT_MAX"
  shows "\<exists>p. fdt_offset_ptr fdt offset len m = ret p \<and>
    (p \<noteq> 0 \<longrightarrow> 0 \<le> offset \<and> p = fdt + word_of_nat (struct_off m fdt + nat offset) \<and>
       struct_off m fdt + nat offset + unat len \<le> tree_size m fdt)"
proof (cases "0 \<le> offset")
  case False
  then show ?thesis using assms(1) by (simp add: fdt_offset_ptr_def tree_ok_def hdr_fields get_header Let_def)
next
  case True
  have mp: "mapped m fdt 40" using assms(1) by (simp add: tree_ok_def)
  let ?u = "word_of_int offset :: uint32" and ?o = "hdr m fdt H_off_dt_struct" and ?t = "hdr m fdt H_totalsize"
  show ?thesis
  proof (cases "?u + ?o < ?u \<or> ?u + ?o + len < ?u + ?o \<or> ?u + ?o + len > ?t")
    case bad: True
    then show ?thesis using True mp by (simp add: fdt_offset_ptr_def hdr_fields get_header Let_def)
  next
    case good: False
    have "unat (?u + ?o) = nat offset + struct_off m fdt"
      using good unat_add_no_wrap [of ?u ?o] unat_int32 [OF True assms(2)] by simp
    moreover have "unat (?u + ?o + len) = unat (?u + ?o) + unat len"
      using good by (intro unat_add_no_wrap) simp
    ultimately have "struct_off m fdt + nat offset + unat len \<le> tree_size m fdt"
      using good by (simp add: word_less_nat_alt)
    then show ?thesis using good True mp
      by (auto simp: fdt_offset_ptr_def hdr_fields get_header Let_def offset_ptr')
  qed
qed

text \<open>A property's length is sane when the end of the property fits an \<^verbatim>\<open>int\<close>. \<^verbatim>\<open>fdt_next_tag\<close> itself checks this
  without the 8 bytes of the length and name fields and the 4 bytes of an old version's padding.\<close>

definition props_sane :: "memory \<Rightarrow> addr \<Rightarrow> bool" where
  "props_sane m fdt \<longleftrightarrow> (\<forall>k<tree_size m fdt.
     case (fdt32_ld' (fdt + word_of_nat (struct_off m fdt + k)) m, fdt32_ld' (fdt + word_of_nat (struct_off m fdt + k + 4)) m) of
       (Some (Inr tag), Some (Inr len)) \<Rightarrow> tag = FDT_PROP \<longrightarrow> int k + 16 + uint len \<le> INT_MAX
     | _ \<Rightarrow> True)"

lemma props_saneD:
  assumes "props_sane m fdt" "k < tree_size m fdt"
    and "fdt32_ld' (fdt + word_of_nat (struct_off m fdt + k)) m = ret FDT_PROP"
    and "fdt32_ld' (fdt + word_of_nat (struct_off m fdt + k + 4)) m = ret len"
  shows "int k + 16 + uint len \<le> INT_MAX"
proof -
  have "case (fdt32_ld' (fdt + word_of_nat (struct_off m fdt + k)) m, fdt32_ld' (fdt + word_of_nat (struct_off m fdt + k + 4)) m) of
       (Some (Inr tag), Some (Inr len)) \<Rightarrow> tag = FDT_PROP \<longrightarrow> int k + 16 + uint len \<le> INT_MAX | _ \<Rightarrow> True"
    using assms(1,2) unfolding props_sane_def by blast
  then show ?thesis unfolding assms(3,4) by simp
qed

lemma tree_okD:
  assumes "tree_ok m fdt"
  shows "mapped m fdt 40" "mapped m fdt (tree_size m fdt)" "int (tree_size m fdt) \<le> INT_MAX"
    and "28 \<le> struct_off m fdt" "struct_off m fdt \<le> tree_size m fdt"
  using assms check_header_bounds [of fdt m] by (auto simp: tree_ok_def)

lemma iadd_ok: "INT_MIN \<le> a + b \<Longrightarrow> a + b \<le> INT_MAX \<Longrightarrow> iadd a b = ret (a + b)"
  by (simp add: iadd_def)

lemma i32_id: "INT_MIN \<le> x \<Longrightarrow> x \<le> INT_MAX \<Longrightarrow> i32 x = x"
  by (simp add: i32_def INT_MIN_def INT_MAX_def)

lemma skip_name_returns:
  assumes "tree_ok m fdt" "0 \<le> offset" "struct_off m fdt + nat offset \<le> tree_size m fdt"
  shows "\<exists>p e. skip_name fdt offset m = ret (p, e) \<and> offset < e \<and>
    (p \<noteq> 0 \<longrightarrow> struct_off m fdt + nat e \<le> tree_size m fdt)"
  using assms(2,3)
proof (induction "tree_size m fdt - nat offset" arbitrary: offset rule: less_induct)
  case less
  note t = tree_okD [OF assms(1)]
  have mx: "offset + 1 \<le> INT_MAX" using less.prems t by linarith
  then obtain p where p: "fdt_offset_ptr fdt offset 1 m = ret p"
    "p \<noteq> 0 \<Longrightarrow> p = fdt + word_of_nat (struct_off m fdt + nat offset) \<and> struct_off m fdt + nat offset + 1 \<le> tree_size m fdt"
    using offset_ptr_cases [OF assms(1), of offset 1] by auto
  have add: "iadd offset 1 = ret (offset + 1)" using less.prems mx by (intro iadd_ok) (auto simp: INT_MIN_def)
  show ?case
  proof (cases "p = 0")
    case True
    then show ?thesis using p(1) add by (subst skip_name.simps) simp
  next
    case False
    note q = p(2) [OF False]
    obtain c where c: "m p = Some c"
      using mapped_byte [OF t(2), of "struct_off m fdt + nat offset"] q by auto
    have "struct_off m fdt + nat (offset + 1) \<le> tree_size m fdt" using q less.prems by linarith
    moreover have "tree_size m fdt - nat (offset + 1) < tree_size m fdt - nat offset" using q less.prems by linarith
    ultimately obtain p' e where "skip_name fdt (offset + 1) m = ret (p', e)" "offset + 1 < e"
      "p' \<noteq> 0 \<longrightarrow> struct_off m fdt + nat e \<le> tree_size m fdt"
      using less.hyps [of "offset + 1"] less.prems by auto
    then show ?thesis using False p(1) add c q less.prems
      by (subst skip_name.simps) (auto simp: ld8_def nat_add_distrib)
  qed
qed

lemma skip_name_cstr:
  assumes "tree_ok m fdt" "0 \<le> offset" "offset \<le> INT_MAX" "skip_name fdt offset m = ret (p, e)" "p \<noteq> 0"
  shows "\<exists>cs. cstr m (fdt + word_of_nat (struct_off m fdt + nat offset)) cs \<and> e = offset + int (length cs) + 1"
  using assms(2-4)
proof (induction "nat (INT_MAX - offset)" arbitrary: offset rule: less_induct)
  case less
  obtain q where q: "fdt_offset_ptr fdt offset 1 m = ret q"
    "q \<noteq> 0 \<longrightarrow> q = fdt + word_of_nat (struct_off m fdt + nat offset)"
    using offset_ptr_cases [OF assms(1) less.prems(2), of 1] by auto
  from less.prems(3) obtain o' where o': "iadd offset 1 = ret o'"
    by (subst (asm) skip_name.simps) (auto simp: q(1) bindM_ret_iff)
  then have oe: "o' = offset + 1" "offset + 1 \<le> INT_MAX" by (auto simp: iadd_def split: if_splits)
  have "q \<noteq> 0" using less.prems(3) q(1) o' assms(5) by (subst (asm) skip_name.simps) (auto simp: bindM_ret_iff)
  then have qa: "q = fdt + word_of_nat (struct_off m fdt + nat offset)" using q(2) by simp
  from less.prems(3) \<open>q \<noteq> 0\<close> obtain c where c: "ld8 m q = ret c"
    by (subst (asm) skip_name.simps) (auto simp: q(1) o' bindM_ret_iff)
  then have mc: "m q = Some c" by (auto simp: ld8_def ldb_def split: option.splits)
  show ?case
  proof (cases "c = 0")
    case True
    then have "e = offset + 1" using less.prems(3) \<open>q \<noteq> 0\<close> q(1) o' oe c
      by (subst (asm) skip_name.simps) auto
    then show ?thesis using mc True qa by (intro exI [of _ "[]"]) simp
  next
    case False
    then have "skip_name fdt (offset + 1) m = ret (p, e)" using less.prems(3) \<open>q \<noteq> 0\<close> q(1) o' oe c
      by (subst (asm) skip_name.simps) auto
    then have "\<exists>cs. cstr m (fdt + word_of_nat (struct_off m fdt + nat (offset + 1))) cs \<and> e = offset + 1 + int (length cs) + 1"
      using less.prems(1) oe by (intro less.hyps) auto
    moreover have "fdt + word_of_nat (struct_off m fdt + nat (offset + 1)) = q + 1"
      unfolding qa using less.prems(1) by (simp add: nat_add_distrib add.assoc)
    ultimately obtain cs where "cstr m (q + 1) cs" "e = offset + 1 + int (length cs) + 1" by (metis (no_types))
    then have "cstr m q (c # cs) \<and> e = offset + int (length (c # cs)) + 1" using mc False by simp
    then show ?thesis unfolding qa by blast
  qed
qed

section \<open>Tags\<close>

lemma tag_body_returns:
  assumes "tree_ok m fdt" "0 \<le> start" "struct_off m fdt + nat start + 4 \<le> tree_size m fdt"
    and sane: "\<And>len. tag = FDT_PROP \<Longrightarrow> fdt32_ld' (fdt + word_of_nat (struct_off m fdt + nat start + 4)) m = ret len
      \<Longrightarrow> start + 16 + uint len \<le> INT_MAX"
  shows "\<exists>r. tag_body fdt tag (start + 4) m = ret r \<and> (\<forall>e. r = Some e \<longrightarrow> start + 4 \<le> e \<and> e \<le> INT_MAX)"
proof -
  note t = tree_okD [OF assms(1)]
  have mx: "start + 4 + 28 \<le> INT_MAX" using assms(2,3) t by linarith
  consider "tag = FDT_BEGIN_NODE" | "tag = FDT_PROP" | "tag \<noteq> FDT_BEGIN_NODE" "tag \<noteq> FDT_PROP" by blast
  then show ?thesis
  proof cases
    case 1
    obtain p e where e: "skip_name fdt (start + 4) m = ret (p, e)" "start + 4 < e"
      "p \<noteq> 0 \<longrightarrow> struct_off m fdt + nat e \<le> tree_size m fdt"
      using skip_name_returns [OF assms(1), of "start + 4"] assms(2,3) by (auto simp: nat_add_distrib)
    moreover have "e \<le> INT_MAX" if "p \<noteq> 0" using e that t assms(2) by linarith
    ultimately show ?thesis using 1 by (auto simp: tag_body_def)
  next
    case 2
    have b: "tag_body fdt tag (start + 4) m = bindM (fdt_offset_ptr fdt (start + 4) 4 m) (\<lambda>lenp.
        if lenp = 0 then ret None
        else bindM (fdt32_ld' lenp m) (\<lambda>len.
        let sum = len + word_of_int (start + 4) in
        if INT_MAX \<le> uint sum \<or> sum < word_of_int (start + 4) then ret None
        else
        let offset = i32 (start + 4 + 12 - 4 + uint len) in
        if hdr m fdt H_version < 0x10 \<and> len \<ge> 8 \<and> (word_of_int offset - len) mod 8 \<noteq> 0
        then bindM (iadd offset 4) (\<lambda>offset. ret (Some offset)) else ret (Some offset)))"
      using 2 t(1) by (simp add: tag_body_def hdr_fields get_header Let_def cong: if_cong)
    obtain p where p: "fdt_offset_ptr fdt (start + 4) 4 m = ret p"
      "p \<noteq> 0 \<longrightarrow> p = fdt + word_of_nat (struct_off m fdt + nat (start + 4)) \<and>
        struct_off m fdt + nat (start + 4) + 4 \<le> tree_size m fdt"
      using offset_ptr_cases [OF assms(1), of "start + 4" 4] mx by auto
    show ?thesis
    proof (cases "p = 0")
      case True
      then show ?thesis using b p(1) by simp
    next
      case False
      have "nat (start + 4) = nat start + 4" using assms(2) by simp
      then have q: "p = fdt + word_of_nat (struct_off m fdt + nat start + 4)"
        "struct_off m fdt + nat start + 4 + 4 \<le> tree_size m fdt" using p(2) False by simp_all
      then have "mapped m p 4" using mapped_sub [OF t(2) q(2)] by (simp only:)
      then obtain len where len: "fdt32_ld' p m = ret len" using fdt32_ld_mapped(2) [of m p 4] by auto
      then have mxl: "start + 16 + uint len \<le> INT_MAX" using sane 2 unfolding q(1) by blast
      have nn: "0 \<le> uint len" by simp
      have i: "i32 (start + 4 + 12 - 4 + uint len) = start + 12 + uint len"
        using mxl nn assms(2) by (subst i32_id) (simp_all add: INT_MIN_def)
      have a: "iadd (start + 12 + uint len) 4 = ret (start + 16 + uint len)"
        using mxl nn assms(2) by (subst iadd_ok) (simp_all add: INT_MIN_def)
      show ?thesis using mxl nn unfolding b p(1) i Let_def bindM_simps len using False
        by (simp add: a len i)
    qed
  next
    case 3
    then show ?thesis using mx by (simp add: tag_body_def)
  qed
qed

lemma tagalign:
  assumes "0 \<le> e" "e + 3 \<le> INT_MAX"
  shows "int_of_u64 (FDT_TAGALIGN e) = (e + 3) div 4 * 4"
proof -
  have "FDT_TAGALIGN e = word_of_int (e + 3) AND NOT (mask 2)"
    by (simp add: FDT_TAGALIGN_def FDT_ALIGN_def mask_eq_exp_minus_1 add.commute)
  moreover have "unat (word_of_int (e + 3) :: ulong) = nat (e + 3)"
    by (rule unat_int64) (use assms in \<open>simp_all add: INT_MAX_def\<close>)
  ultimately have "unat (FDT_TAGALIGN e) = nat (e + 3) div 4 * 4"
    using unat_round_down [of "word_of_int (e + 3) :: ulong" 2] by simp
  then have "uint (FDT_TAGALIGN e) = (e + 3) div 4 * 4"
    using assms(1) by (simp add: uint_nat nat_div_distrib)
  moreover have "(e + 3) div 4 * 4 \<le> e + 3" by simp
  ultimately show ?thesis using assms
    by (simp add: int_of_u64_def i32_id INT_MIN_def)
qed

text \<open>What a tag reading gives on such a tree: a tag within it, or the end.\<close>

definition tag_result :: "memory \<Rightarrow> addr \<Rightarrow> int \<Rightarrow> uint32 \<Rightarrow> int \<Rightarrow> bool" where
  "tag_result m fdt start tag nxt \<longleftrightarrow>
     tag = FDT_END \<and> nxt < 0 \<or>
     0 \<le> start \<and> start + 4 \<le> nxt \<and> nxt mod 4 = 0 \<and> struct_off m fdt + nat nxt \<le> tree_size m fdt + 3 \<and>
     nxt \<le> INT_MAX - 24"

lemma next_tag_returns:
  assumes "tree_ok m fdt" "props_sane m fdt" "start \<le> INT_MAX"
  shows "\<exists>tag nxt. fdt_next_tag fdt start m = ret (tag, nxt) \<and> tag_result m fdt start tag nxt"
proof -
  note t = tree_okD [OF assms(1)]
  obtain p where p: "fdt_offset_ptr fdt start 4 m = ret p"
    "p \<noteq> 0 \<longrightarrow> 0 \<le> start \<and> p = fdt + word_of_nat (struct_off m fdt + nat start) \<and>
      struct_off m fdt + nat start + 4 \<le> tree_size m fdt"
    using offset_ptr_cases [OF assms(1,3), of 4] by auto
  show ?thesis
  proof (cases "p = 0")
    case True
    then show ?thesis using p(1) by (simp add: fdt_next_tag_def tag_result_def)
  next
    case False
    then have q: "0 \<le> start" "p = fdt + word_of_nat (struct_off m fdt + nat start)"
      "struct_off m fdt + nat start + 4 \<le> tree_size m fdt" using p(2) by auto
    have "mapped m p 4" using mapped_sub [OF t(2) q(3)] q(2) by (simp only:)
    then obtain tag where tag: "fdt32_ld' p m = ret tag" using fdt32_ld_mapped(2) [of m p 4] by auto
    have sane: "start + 16 + uint len \<le> INT_MAX"
      if "tag = FDT_PROP" "fdt32_ld' (fdt + word_of_nat (struct_off m fdt + nat start + 4)) m = ret len" for len
      using props_saneD [OF assms(2), of "nat start" len] q(1,3) tag that unfolding q(2) by simp
    have mx: "start + 4 \<le> INT_MAX" using q t by linarith
    have i: "i32 (start + FDT_TAGSIZE) = start + 4"
      using q(1) mx by (subst i32_id) (auto simp: INT_MIN_def)
    obtain r where r: "tag_body fdt tag (start + 4) m = ret r" "\<forall>e. r = Some e \<longrightarrow> start + 4 \<le> e \<and> e \<le> INT_MAX"
      using tag_body_returns [OF assms(1) q(1,3) sane] by blast
    show ?thesis
    proof (cases r)
      case None
      then show ?thesis using False p(1) tag r(1) i by (simp add: fdt_next_tag_def tag_result_def)
    next
      case (Some e)
      then have e: "start + 4 \<le> e" "e \<le> INT_MAX" using r(2) by auto
      have sub: "isub e start = ret (e - start)" unfolding isub_def
        using e q(1) by (subst iadd_ok) (auto simp: INT_MIN_def)
      obtain p' where p': "fdt_offset_ptr fdt start (word_of_int (e - start)) m = ret p'"
        "p' \<noteq> 0 \<longrightarrow> struct_off m fdt + nat start + unat (word_of_int (e - start) :: uint32) \<le> tree_size m fdt"
        using offset_ptr_cases [OF assms(1,3), of "word_of_int (e - start)"] by auto
      show ?thesis
      proof (cases "p' = 0")
        case True
        then show ?thesis using False p(1) tag r(1) i Some sub p'(1) by (simp add: fdt_next_tag_def tag_result_def)
      next
        case ok: False
        have "unat (word_of_int (e - start) :: uint32) = nat (e - start)"
          using e q(1) by (intro unat_int32) auto
        then have le: "struct_off m fdt + nat e \<le> tree_size m fdt" using p'(2) ok e q(1) by simp
        define n where "n = (e + 3) div 4 * 4"
        have n: "e \<le> n" "n \<le> e + 3" unfolding n_def by linarith+
        have n4: "n mod 4 = 0" unfolding n_def by simp
        have e28: "e + 28 \<le> INT_MAX" using e le t q(1) by linarith
        have nb: "n \<le> INT_MAX - 24" "struct_off m fdt + nat n \<le> tree_size m fdt + 3" "start + 4 \<le> n"
          using e28 n e q(1) le by linarith+
        have "int_of_u64 (FDT_TAGALIGN e) = n"
          unfolding n_def using e q(1) e28 by (intro tagalign) auto
        then have "fdt_next_tag fdt start m = ret (tag, n)" using False ok p(1) tag r(1) i Some sub p'(1)
          by (simp add: fdt_next_tag_def)
        then show ?thesis using n4 nb q(1) by (simp add: tag_result_def)
      qed
    qed
  qed
qed

section \<open>Nodes\<close>

definition depth_ok :: "int option \<Rightarrow> bool" where
  "depth_ok depth \<longleftrightarrow> (\<forall>d. depth = Some d \<longrightarrow> 0 \<le> d \<and> d < INT_MAX)"

text \<open>The result of a step to the next node: an error, or an offset not before \<^verbatim>\<open>low\<close>. Unless the walk left the
  node it started in, that offset is a node.\<close>

definition node_result :: "memory \<Rightarrow> addr \<Rightarrow> int \<Rightarrow> int option \<Rightarrow> int \<Rightarrow> int option \<Rightarrow> bool" where
  "node_result m fdt low depth offset depth' \<longleftrightarrow>
     (0 \<le> offset \<longrightarrow> low \<le> offset \<and> offset \<le> INT_MAX - 24) \<and> (depth' = None \<longleftrightarrow> depth = None) \<and>
     (\<forall>d d'. depth = Some d \<and> depth' = Some d' \<longrightarrow> - 1 \<le> d' \<and> d' \<le> d + 1) \<and>
     (0 \<le> offset \<and> (\<forall>d'. depth' = Some d' \<longrightarrow> 0 \<le> d') \<longrightarrow>
        (\<exists>nxt. fdt_next_tag fdt offset m = ret (FDT_BEGIN_NODE, nxt)))"

lemma node_result_mono:
  "node_result m fdt low depth offset depth' \<Longrightarrow> low' \<le> low \<Longrightarrow> node_result m fdt low' depth offset depth'"
  by (auto simp: node_result_def)

lemma next_node_loop_returns:
  assumes "tree_ok m fdt" "props_sane m fdt" "offset \<le> INT_MAX" "depth_ok depth"
  shows "\<exists>o' depth'. next_node_loop fdt offset depth m = ret (o', depth') \<and> node_result m fdt offset depth o' depth'"
  using assms(3,4)
proof (induction "nat (INT_MAX - offset)" arbitrary: offset depth rule: less_induct)
  case less
  obtain tag nxt where nt: "fdt_next_tag fdt offset m = ret (tag, nxt)" and res: "tag_result m fdt offset tag nxt"
    using next_tag_returns [OF assms(1,2) less.prems(1)] by blast
  note unf = next_node_loop.simps [of fdt offset depth m]
  have rec: "\<exists>o' depth'. next_node_loop fdt nxt dp m = ret (o', depth') \<and> node_result m fdt offset dp o' depth'"
    if tg: "tag \<noteq> FDT_END" and dp: "depth_ok dp" for dp
  proof -
    have n: "offset < nxt" "nxt \<le> INT_MAX" using res tg by (auto simp: tag_result_def)
    then obtain o' depth' where "next_node_loop fdt nxt dp m = ret (o', depth')" "node_result m fdt nxt dp o' depth'"
      using less.hyps [of nxt dp] dp by auto
    then show ?thesis using n node_result_mono [of m fdt nxt dp o' depth' offset] by auto
  qed
  consider "tag = FDT_BEGIN_NODE" | "tag = FDT_END_NODE" | "tag = FDT_END"
    | "tag \<noteq> FDT_BEGIN_NODE" "tag \<noteq> FDT_END_NODE" "tag \<noteq> FDT_END" by blast
  then show ?case
  proof cases
    case 1
    then have r: "0 \<le> offset" "offset \<le> INT_MAX - 24" using res by (auto simp: tag_result_def)
    show ?thesis
    proof (cases depth)
      case None
      then show ?thesis using unf nt 1 r by (simp add: node_result_def)
    next
      case (Some d)
      then have "iadd d 1 = ret (d + 1)" using less.prems(2) by (intro iadd_ok) (auto simp: depth_ok_def INT_MIN_def)
      then show ?thesis using unf nt 1 r Some less.prems(2) by (auto simp: node_result_def depth_ok_def)
    qed
  next
    case 2
    then have n: "nxt \<le> INT_MAX - 24" "offset \<le> nxt" using res by (auto simp: tag_result_def)
    show ?thesis
    proof (cases depth)
      case None
      then show ?thesis using unf nt 2 rec [of None] by (simp add: depth_ok_def)
    next
      case (Some d)
      then have d: "0 \<le> d" "d < INT_MAX" using less.prems(2) by (auto simp: depth_ok_def)
      have a: "iadd d (- 1) = ret (d - 1)" using d by (simp add: iadd_def INT_MIN_def)
      show ?thesis
      proof (cases "d - 1 < 0")
        case True
        then show ?thesis using unf nt 2 Some a n d by (simp add: node_result_def)
      next
        case False
        have "depth_ok (Some (d - 1))" using d False by (simp add: depth_ok_def)
        then obtain o' depth' where "next_node_loop fdt nxt (Some (d - 1)) m = ret (o', depth')"
          "node_result m fdt offset (Some (d - 1)) o' depth'" using rec [of "Some (d - 1)"] 2 by auto
        then show ?thesis using unf nt 2 Some a False by (auto simp: node_result_def)
      qed
    qed
  next
    case 3
    then show ?thesis using unf nt res less.prems(2) by (cases depth) (auto simp: node_result_def tag_result_def depth_ok_def)
  next
    case 4
    then show ?thesis using unf nt rec less.prems(2) by simp
  qed
qed

lemma check_node_returns:
  assumes "tree_ok m fdt" "props_sane m fdt" "offset \<le> INT_MAX"
  shows "\<exists>r. fdt_check_node_offset' fdt offset m = ret r \<and> (0 \<le> r \<longrightarrow> 0 \<le> offset \<and> offset + 4 \<le> r \<and> r \<le> INT_MAX - 24)"
  using next_tag_returns [OF assms] by (auto simp: fdt_check_node_offset'_def tag_result_def)

lemma next_node_returns:
  assumes "tree_ok m fdt" "props_sane m fdt" "offset \<le> INT_MAX" "depth_ok depth"
  shows "\<exists>o' depth'. fdt_next_node fdt offset depth m = ret (o', depth') \<and> node_result m fdt (offset + 1) depth o' depth'"
proof (cases "0 \<le> offset")
  case True
  obtain r where r: "fdt_check_node_offset' fdt offset m = ret r" "0 \<le> r \<longrightarrow> offset + 4 \<le> r \<and> r \<le> INT_MAX - 24"
    using check_node_returns [OF assms(1-3)] by auto
  show ?thesis
  proof (cases "r < 0")
    case neg: True
    then show ?thesis using True r(1) assms(4) by (auto simp: fdt_next_node_def node_result_def depth_ok_def)
  next
    case pos: False
    then obtain o' depth' where "next_node_loop fdt r depth m = ret (o', depth')" "node_result m fdt r depth o' depth'"
      using next_node_loop_returns [OF assms(1,2) _ assms(4), of r] r(2) by auto
    then show ?thesis using True pos r node_result_mono [of m fdt r depth o' depth' "offset + 1"]
      by (auto simp: fdt_next_node_def)
  qed
next
  case False
  obtain o' depth' where "next_node_loop fdt 0 depth m = ret (o', depth')" "node_result m fdt 0 depth o' depth'"
    using next_node_loop_returns [OF assms(1,2) _ assms(4), of 0] by (auto simp: INT_MAX_def)
  then show ?thesis using False node_result_mono [of m fdt 0 depth o' depth' "offset + 1"]
    by (auto simp: fdt_next_node_def)
qed

section \<open>The bodies of tags\<close>

lemma next_tag_inv:
  assumes "tree_ok m fdt" "start \<le> INT_MAX" "fdt_next_tag fdt start m = ret (tag, nxt)" "tag \<noteq> FDT_END"
  shows "0 \<le> start" "struct_off m fdt + nat start + 4 \<le> tree_size m fdt" "start + 32 \<le> INT_MAX"
    and "fdt32_ld' (fdt + word_of_nat (struct_off m fdt + nat start)) m = ret tag"
    and "\<exists>e. tag_body fdt tag (start + 4) m = ret (Some e) \<and> isub e start = ret (e - start) \<and>
      struct_off m fdt + nat start + unat (word_of_int (e - start) :: uint32) \<le> tree_size m fdt"
proof -
  note t = tree_okD [OF assms(1)]
  obtain p where p: "fdt_offset_ptr fdt start 4 m = ret p"
    "p \<noteq> 0 \<longrightarrow> 0 \<le> start \<and> p = fdt + word_of_nat (struct_off m fdt + nat start) \<and>
      struct_off m fdt + nat start + 4 \<le> tree_size m fdt"
    using offset_ptr_cases [OF assms(1,2), of 4] by auto
  have pz: "p \<noteq> 0" using assms(3,4) p(1) by (auto simp: fdt_next_tag_def)
  then show q: "0 \<le> start" "struct_off m fdt + nat start + 4 \<le> tree_size m fdt" using p(2) by auto
  then show mx: "start + 32 \<le> INT_MAX" using t by linarith
  have i: "i32 (start + FDT_TAGSIZE) = start + 4" using q(1) mx by (subst i32_id) (auto simp: INT_MIN_def)
  obtain e d p' where e: "tag_body fdt tag (start + 4) m = ret (Some e)" "isub e start = ret d"
    "fdt_offset_ptr fdt start (word_of_int d) m = ret p'" "p' \<noteq> 0" "fdt32_ld' p m = ret tag"
    using assms(3,4) pz unfolding fdt_next_tag_def p(1) bindM_simps i
    by (auto simp: bindM_ret_iff split: option.splits if_splits)
  show "fdt32_ld' (fdt + word_of_nat (struct_off m fdt + nat start)) m = ret tag" using e(5) p(2) pz by simp
  have d: "d = e - start" using e(2) by (auto simp: isub_def iadd_def split: if_splits)
  show "\<exists>e. tag_body fdt tag (start + 4) m = ret (Some e) \<and> isub e start = ret (e - start) \<and>
      struct_off m fdt + nat start + unat (word_of_int (e - start) :: uint32) \<le> tree_size m fdt"
    using e d offset_ptr_cases [OF assms(1,2), of "word_of_int d"] by auto
qed

lemma next_tag_begin:
  assumes "tree_ok m fdt" "start \<le> INT_MAX" "fdt_next_tag fdt start m = ret (FDT_BEGIN_NODE, nxt)"
  shows "\<exists>cs. cstr m (fdt + word_of_nat (struct_off m fdt + nat start + 4)) cs \<and>
    struct_off m fdt + nat start + 5 + length cs \<le> tree_size m fdt"
proof -
  note i = next_tag_inv [OF assms, simplified]
  obtain e where e: "tag_body fdt FDT_BEGIN_NODE (start + 4) m = ret (Some e)"
    "struct_off m fdt + nat start + unat (word_of_int (e - start) :: uint32) \<le> tree_size m fdt" "isub e start = ret (e - start)"
    using i(5) by auto
  obtain p where "skip_name fdt (start + 4) m = ret (p, e)" "p \<noteq> 0"
    using e(1) by (auto simp: tag_body_def bindM_ret_iff split: if_splits)
  then obtain cs where cs: "cstr m (fdt + word_of_nat (struct_off m fdt + nat (start + 4))) cs"
    "e = start + 4 + int (length cs) + 1"
    using skip_name_cstr [OF assms(1), of "start + 4" p e] i by auto
  have "e \<le> start + INT_MAX" using e(3) by (auto simp: isub_def iadd_def split: if_splits)
  then have "unat (word_of_int (e - start) :: uint32) = nat (e - start)" using cs(2) by (intro unat_int32) auto
  then have "struct_off m fdt + nat start + 5 + length cs \<le> tree_size m fdt" using e(2) cs(2) by simp
  moreover have "nat (start + 4) = nat start + 4" using i(1) by simp
  ultimately show ?thesis using cs(1) by (metis add.assoc)
qed

lemma next_tag_prop:
  assumes "tree_ok m fdt" "props_sane m fdt" "start \<le> INT_MAX" "fdt_next_tag fdt start m = ret (FDT_PROP, nxt)"
    and "16 \<le> hdr m fdt H_version"
  shows "\<exists>len. fdt32_ld' (fdt + word_of_nat (struct_off m fdt + nat start + 4)) m = ret len \<and>
    struct_off m fdt + nat start + 12 + unat len \<le> tree_size m fdt"
proof -
  note i = next_tag_inv [OF assms(1,3,4), simplified] and t = tree_okD [OF assms(1)]
  obtain e where e: "tag_body fdt FDT_PROP (start + 4) m = ret (Some e)"
    "struct_off m fdt + nat start + unat (word_of_int (e - start) :: uint32) \<le> tree_size m fdt" "isub e start = ret (e - start)"
    using i(5) by auto
  obtain p where p: "fdt_offset_ptr fdt (start + 4) 4 m = ret p"
    "p \<noteq> 0 \<longrightarrow> p = fdt + word_of_nat (struct_off m fdt + nat (start + 4))"
    using offset_ptr_cases [OF assms(1), of "start + 4" 4] i(3) by auto
  have v: "\<not> hdr m fdt H_version < 16" using assms(5) by simp
  obtain len where len: "p \<noteq> 0" "fdt32_ld' p m = ret len" "e = i32 (start + 12 + uint len)"
    using e(1) p(1) v t(1)
    by (auto simp: tag_body_def bindM_ret_iff Let_def hdr_fields get_header add.commute split: if_splits)
  have n: "nat (start + 4) = nat start + 4" using i(1) by simp
  then have pa: "p = fdt + word_of_nat (struct_off m fdt + nat start + 4)" using p(2) len(1) by (simp add: add.assoc)
  have "int (nat start) + 16 + uint len \<le> INT_MAX"
    using i len(2) unfolding pa by (intro props_saneD [OF assms(2)]) auto
  then have e': "e = start + 12 + uint len" "e - start \<le> INT_MAX" "0 \<le> e - start"
    unfolding len(3) using i(1) by (auto simp: i32_id INT_MIN_def)
  then have "unat (word_of_int (e - start) :: uint32) = nat (e - start)" by (intro unat_int32) auto
  then show ?thesis using e(2) e' len(2) unfolding pa by (auto simp: nat_add_distrib)
qed

end
