(* ===== verification/Fdt_Query.thy ===== *)
theory Fdt_Query
  imports Fdt_Safe
begin

text \<open>
  The queries of \<^verbatim>\<open>fdt_ro.c\<close> on a checked tree: names, strings and property values are found inside the tree.
\<close>

section \<open>Scanning mapped bytes\<close>

lemma memchr_loop_cstr:
  assumes "mapped m p n" "unat p + n \<le> 2 ^ 64" "p \<noteq> 0"
  shows "memchr_loop n p 0 m = Inr 0 \<or>
    (\<exists>cs. cstr m p cs \<and> length cs < n \<and> memchr_loop n p 0 m = Inr (p + word_of_nat (length cs)))"
  using assms
proof (induction n arbitrary: p)
  case 0
  then show ?case by simp
next
  case (Suc n)
  obtain b where b: "m p = Some b" using Suc.prems(1) by (auto simp: mapped_Suc)
  show ?case
  proof (cases "b = 0")
    case True
    then show ?thesis using b by (intro disjI2 exI [of _ "[]"]) simp
  next
    case False
    show ?thesis
    proof (cases n)
      case 0
      then show ?thesis using b False by simp
    next
      case (Suc k)
      have u: "unat (p + 1) = unat p + 1" using off_less [of p "Suc n" 1] Suc.prems(2) Suc by simp
      then have "p + 1 \<noteq> 0" by auto
      then have "memchr_loop n (p + 1) 0 m = Inr 0 \<or>
        (\<exists>cs. cstr m (p + 1) cs \<and> length cs < n \<and> memchr_loop n (p + 1) 0 m = Inr (p + 1 + word_of_nat (length cs)))"
        using Suc.prems u by (intro Suc.IH) (auto simp: mapped_Suc)
      then show ?thesis
      proof
        assume "memchr_loop n (p + 1) 0 m = Inr 0"
        then show ?thesis using b False by simp
      next
        assume "\<exists>cs. cstr m (p + 1) cs \<and> length cs < n \<and> memchr_loop n (p + 1) 0 m = Inr (p + 1 + word_of_nat (length cs))"
        then obtain cs where "cstr m (p + 1) cs" "length cs < n"
          "memchr_loop n (p + 1) 0 m = Inr (p + 1 + word_of_nat (length cs))" by blast
        then show ?thesis using b False by (intro disjI2 exI [of _ "b # cs"]) (simp add: add.assoc)
      qed
    qed
  qed
qed

lemma memcmp_loop_eq:
  assumes "mapped m l n" "mapped m r n"
  shows "\<exists>d. memcmp_loop n l r m = Inr d \<and> (d = 0 \<longleftrightarrow> (\<forall>i<n. m (l + word_of_nat i) = m (r + word_of_nat i)))"
  using assms
proof (induction n arbitrary: l r)
  case 0
  then show ?case by simp
next
  case (Suc n)
  obtain a b where ab: "m l = Some a" "m r = Some b" using Suc.prems by (auto simp: mapped_Suc)
  obtain d where d: "memcmp_loop n (l + 1) (r + 1) m = Inr d"
    "d = 0 \<longleftrightarrow> (\<forall>i<n. m (l + 1 + word_of_nat i) = m (r + 1 + word_of_nat i))"
    using Suc.IH [of "l + 1" "r + 1"] Suc.prems by (auto simp: mapped_Suc)
  have all: "(\<forall>i<Suc n. m (l + word_of_nat i) = m (r + word_of_nat i)) \<longleftrightarrow>
      m l = m r \<and> (\<forall>i<n. m (l + 1 + word_of_nat i) = m (r + 1 + word_of_nat i))"
    by (auto simp: less_Suc_eq_0_disj add.assoc)
  show ?case unfolding all using ab d by (cases a b rule: linorder_cases) auto
qed

lemma cstr_mapped: "cstr m a cs \<Longrightarrow> mapped m a (Suc (length cs))"
proof (induction cs arbitrary: a)
  case Nil
  then show ?case by (simp add: mapped_def)
next
  case (Cons c cs)
  then show ?case by (simp only: mapped_Suc [of m a] list.size cstr.simps add_Suc_right add_0_right) simp
qed

lemma cstr_nth: "cstr m a cs \<Longrightarrow> i < length cs \<Longrightarrow> m (a + word_of_nat i) = Some (cs ! i)"
proof (induction cs arbitrary: a i)
  case (Cons c cs)
  show ?case
  proof (cases i)
    case (Suc j)
    then show ?thesis using Cons.IH [of "a + 1" j] Cons.prems by (simp add: add.assoc)
  qed (use Cons.prems in simp)
qed simp

lemma int_of_u64_nat: "int n \<le> INT_MAX \<Longrightarrow> int_of_u64 (word_of_nat n) = int n"
proof -
  assume n: "int n \<le> INT_MAX"
  then have "unat (word_of_nat n :: ulong) = n" by (intro unat_of_nat64) (simp add: INT_MAX_def)
  then have "uint (word_of_nat n :: ulong) = int n" by (metis uint_nat)
  with n show ?thesis by (simp add: int_of_u64_def i32_id INT_MIN_def)
qed

lemma int_of_u32_small: "uint w \<le> INT_MAX \<Longrightarrow> int_of_u32 w = uint w"
proof -
  assume w: "uint w \<le> INT_MAX"
  have "INT_MIN \<le> uint w" using uint_ge_0 [of w] unfolding INT_MIN_def by linarith
  with w show ?thesis by (simp add: int_of_u32_def i32_id)
qed

section \<open>Addresses in the tree\<close>

lemma tree_addr_nonzero: "tree_ok m fdt \<Longrightarrow> k < tree_size m fdt \<Longrightarrow> fdt + word_of_nat k \<noteq> 0"
proof -
  assume t: "tree_ok m fdt" and k: "k < tree_size m fdt"
  then have "unat (fdt + word_of_nat k) = unat fdt + k"
    by (intro off_less) (auto simp: tree_ok_def)
  moreover have "0 < unat fdt" using t by (simp add: tree_ok_def)
  ultimately show ?thesis by auto
qed

lemma ro_probe_returns:
  assumes "tree_ok m fdt"
  shows "\<exists>r. fdt_ro_probe' fdt m = ret r \<and> (r < 0 \<or> r = int (tree_size m fdt))"
proof -
  note t = tree_okD [OF assms]
  have h: "fdt AND 7 = 0" "hdr m fdt H_magic = FDT_MAGIC" "2 \<le> hdr m fdt H_version" "hdr m fdt H_last_comp_version \<le> 17"
    using assms check_header_cases [of fdt m] by (auto simp: tree_ok_def)
  have "int_of_u32 (hdr m fdt H_totalsize) = int (tree_size m fdt)"
    using t(3) int_of_u32_small [of "hdr m fdt H_totalsize"] by simp
  then show ?thesis using h t(1)
    by (auto simp: fdt_ro_probe'_def hdr_fields get_header Let_def)
qed

section \<open>Names\<close>

definition string_at :: "memory \<Rightarrow> addr \<Rightarrow> addr \<Rightarrow> uint8 list \<Rightarrow> bool" where
  "string_at m fdt p cs \<longleftrightarrow> cstr m p cs \<and> (\<exists>k. p = fdt + word_of_nat k \<and> k + length cs < tree_size m fdt)"

lemma get_name_returns:
  assumes "tree_ok m fdt" "props_sane m fdt" "nodeoffset \<le> INT_MAX" "16 \<le> hdr m fdt H_version"
  shows "\<exists>p len. fdt_get_name fdt nodeoffset m = ret (p, len) \<and>
    (p = 0 \<and> len < 0 \<or> p \<noteq> 0 \<and> (\<exists>cs. string_at m fdt p cs \<and> len = int (length cs)))"
proof -
  note t = tree_okD [OF assms(1)]
  obtain r where r: "fdt_ro_probe' fdt m = ret r" "r < 0 \<or> r = int (tree_size m fdt)"
    using ro_probe_returns [OF assms(1)] by blast
  obtain c where c: "fdt_check_node_offset' fdt nodeoffset m = ret c" "0 \<le> c \<longrightarrow> 0 \<le> nodeoffset"
    using check_node_returns [OF assms(1-3)] by blast
  obtain nh where ptr: "fdt_offset_ptr' fdt nodeoffset m = ret nh"
    and nh: "nh = fdt + ucast (hdr m fdt H_off_dt_struct) + word_of_int nodeoffset"
    using t(1) by (simp add: fdt_offset_ptr'_def hdr_fields get_header)
  show ?thesis
  proof (cases "r < 0 \<or> c < 0")
    case True
    then show ?thesis using r(1) c(1) ptr by (auto simp: fdt_get_name_def)
  next
    case False
    then obtain nx where "fdt_next_tag fdt nodeoffset m = ret (FDT_BEGIN_NODE, nx)"
      using c(1) by (auto simp: fdt_check_node_offset'_def bindM_ret_iff split: if_splits)
    from next_tag_begin [OF assms(1,3) this] obtain cs where
      cs: "cstr m (fdt + word_of_nat (struct_off m fdt + nat nodeoffset + 4)) cs"
        "struct_off m fdt + nat nodeoffset + 5 + length cs \<le> tree_size m fdt" by blast
    define p where "p = fdt + word_of_nat (struct_off m fdt + nat nodeoffset + 4)"
    have p: "nh + 4 = p" unfolding nh p_def using c(2) False by (simp add: add.assoc)
    have nz: "p \<noteq> 0" unfolding p_def using cs(2) by (intro tree_addr_nonzero [OF assms(1)]) simp
    have len: "int_of_u64 (word_of_nat (length cs)) = int (length cs)"
      using cs(2) t(3) by (intro int_of_u64_nat) linarith
    have sl: "strlen p m = ret (word_of_nat (length cs))" using strlen_cstr [OF nz] cs(1) p_def by simp
    have v: "\<not> hdr m fdt H_version < 16" using assms(4) by simp
    have "fdt_get_name fdt nodeoffset m = ret (p, int (length cs))"
      using False r(1) c(1) t(1) v sl len by (simp add: fdt_get_name_def ptr Let_def p hdr_fields get_header)
    moreover have "string_at m fdt p cs"
      unfolding string_at_def p_def using cs by (intro conjI exI [of _ "struct_off m fdt + nat nodeoffset + 4"]) auto
    ultimately show ?thesis using nz by blast
  qed
qed

section \<open>Strings\<close>

lemma get_string_len_returns:
  assumes "tree_ok m fdt"
  shows "\<exists>r. get_string_len fdt stroffset len m = ret r \<and> (case r of Inl err \<Rightarrow> err < 0 | Inr n \<Rightarrow> unat n \<le> unat len)"
proof -
  have "hdr m fdt H_magic = FDT_MAGIC" using assms check_header_cases [of fdt m] by (auto simp: tree_ok_def)
  then show ?thesis using tree_okD(1) [OF assms]
    by (auto simp: get_string_len_def hdr_fields get_header word_less_nat_alt)
qed

lemma get_string_returns:
  assumes "tree_ok m fdt"
  shows "\<exists>p len. fdt_get_string fdt stroffset m = ret (p, len) \<and>
    (p = 0 \<and> len < 0 \<or> p \<noteq> 0 \<and> (\<exists>cs. string_at m fdt p cs \<and> len = int (length cs)))"
proof -
  note t = tree_okD [OF assms]
  obtain r where r: "fdt_ro_probe' fdt m = ret r" "r < 0 \<or> r = int (tree_size m fdt)"
    using ro_probe_returns [OF assms] by blast
  let ?a = "word_of_int stroffset + hdr m fdt H_off_dt_strings :: uint32"
  show ?thesis
  proof (cases "r < 0 \<or> ?a \<ge> word_of_int r")
    case True
    then show ?thesis using r(1) t(1) by (auto simp: fdt_get_string_def hdr_fields get_header Let_def)
  next
    case False
    then have ri: "r = int (tree_size m fdt)" using r(2) by simp
    have "unat (word_of_int r :: uint32) = tree_size m fdt" using ri t(3) by (subst unat_int32) auto
    then have a: "unat ?a < tree_size m fdt" and d: "unat (word_of_int r - ?a) = tree_size m fdt - unat ?a"
      using False by (auto simp: not_le word_less_nat_alt unat_sub word_le_nat_alt)
    have "unat (word_of_int r - ?a) < 2 ^ 32" using unsigned_less [of "word_of_int r - ?a"] by simp
    then have d64: "unat (ucast (word_of_int r - ?a) :: ulong) = tree_size m fdt - unat ?a"
      using d by (simp add: unsigned_ucast_eq take_bit_nat_eq_self)
    define p where "p = fdt + ucast ?a"
    have pa: "p = fdt + word_of_nat (unat ?a)" by (simp add: p_def)
    have nz: "p \<noteq> 0" unfolding pa using a by (rule tree_addr_nonzero [OF assms])
    obtain q where q: "get_string_len fdt stroffset (ucast (word_of_int r - ?a)) m = ret q"
      "case q of Inl err \<Rightarrow> err < 0 | Inr n \<Rightarrow> unat n \<le> tree_size m fdt - unat ?a"
      using get_string_len_returns [OF assms, of stroffset "ucast (word_of_int r - ?a)"]
      unfolding d64 by blast
    have run: "fdt_get_string fdt stroffset m = (case q of Inl err \<Rightarrow> ret (0, err)
      | Inr len \<Rightarrow> bindM (Some (memchr p 0 len m)) (\<lambda>n.
          if n = 0 then ret (0, - FDT_ERR_TRUNCATED) else ret (p, int_of_u64 (n - p))))"
      unfolding p_def using False r(1) t(1) q(1)
      by (cases q) (simp_all add: fdt_get_string_def hdr_fields get_header Let_def)
    show ?thesis
    proof (cases q)
      case (Inl err)
      then show ?thesis using run q(2) by simp
    next
      case (Inr n)
      then have n: "unat ?a + unat n \<le> tree_size m fdt" using q(2) a by simp
      have "mapped m p (unat n)" unfolding pa by (rule mapped_sub [OF t(2) n])
      moreover have "unat p = unat fdt + unat ?a"
        unfolding pa using assms a by (intro off_less) (auto simp: tree_ok_def)
      then have "unat p + unat n \<le> 2 ^ 64" using n assms by (auto simp: tree_ok_def)
      ultimately consider "memchr p 0 n m = Inr 0"
        | cs where "cstr m p cs" "length cs < unat n" "memchr p 0 n m = Inr (p + word_of_nat (length cs))"
        using memchr_loop_cstr [of m p "unat n"] nz by (auto simp: memchr_def)
      then show ?thesis
      proof cases
        case 1
        then show ?thesis using run Inr by simp
      next
        case 2
        have k: "unat ?a + length cs < tree_size m fdt" using 2(2) n by simp
        have "p + word_of_nat (length cs) = fdt + word_of_nat (unat ?a + length cs)" by (simp add: pa add.assoc)
        also have "\<dots> \<noteq> 0" using k by (rule tree_addr_nonzero [OF assms])
        finally have nz2: "p + word_of_nat (length cs) \<noteq> 0" .
        have "int_of_u64 (word_of_nat (length cs)) = int (length cs)"
          using k t(3) by (intro int_of_u64_nat) linarith
        then have "fdt_get_string fdt stroffset m = ret (p, int (length cs))"
          using run Inr 2(3) nz2 by simp
        moreover have "string_at m fdt p cs" unfolding string_at_def using 2(1) pa k by blast
        ultimately show ?thesis using nz by blast
      qed
    qed
  qed
qed

section \<open>Properties\<close>

lemma nextprop_returns:
  assumes "tree_ok m fdt" "props_sane m fdt" "offset \<le> INT_MAX"
  shows "\<exists>r. nextprop' fdt offset m = ret r \<and>
    (0 \<le> r \<longrightarrow> offset \<le> r \<and> r \<le> INT_MAX \<and> (\<exists>nx. fdt_next_tag fdt r m = ret (FDT_PROP, nx)))"
  using assms(3)
proof (induction "nat (INT_MAX - offset)" arbitrary: offset rule: less_induct)
  case less
  obtain tag nxt where nt: "fdt_next_tag fdt offset m = ret (tag, nxt)" and res: "tag_result m fdt offset tag nxt"
    using next_tag_returns [OF assms(1,2) less.prems] by blast
  note unf = nextprop'.simps [of fdt offset m]
  show ?case
  proof (cases "tag = FDT_NOP")
    case True
    then have n: "offset < nxt" "nxt \<le> INT_MAX" using res by (auto simp: tag_result_def)
    then obtain r where "nextprop' fdt nxt m = ret r"
      "0 \<le> r \<longrightarrow> nxt \<le> r \<and> r \<le> INT_MAX \<and> (\<exists>nx. fdt_next_tag fdt r m = ret (FDT_PROP, nx))"
      using less.hyps [of nxt] by auto
    then show ?thesis using unf nt True n by auto
  next
    case False
    then show ?thesis using unf nt less.prems by auto
  qed
qed

lemma check_prop_returns:
  assumes "tree_ok m fdt" "props_sane m fdt" "offset \<le> INT_MAX"
  shows "\<exists>r. fdt_check_prop_offset' fdt offset m = ret r \<and>
    (0 \<le> r \<longrightarrow> 0 \<le> offset \<and> offset + 4 \<le> r \<and> r \<le> INT_MAX \<and> fdt_next_tag fdt offset m = ret (FDT_PROP, r))"
  using next_tag_returns [OF assms] by (auto simp: fdt_check_prop_offset'_def tag_result_def)

lemma next_property_returns:
  assumes "tree_ok m fdt" "props_sane m fdt" "offset \<le> INT_MAX"
  shows "\<exists>r. fdt_next_property_offset fdt offset m = ret r \<and> (0 \<le> r \<longrightarrow> offset < r \<and> r \<le> INT_MAX)"
proof -
  obtain c where c: "fdt_check_prop_offset' fdt offset m = ret c" "0 \<le> c \<longrightarrow> offset + 4 \<le> c \<and> c \<le> INT_MAX"
    using check_prop_returns [OF assms] by blast
  show ?thesis
  proof (cases "c < 0")
    case False
    then obtain r where "nextprop' fdt c m = ret r" "0 \<le> r \<longrightarrow> c \<le> r \<and> r \<le> INT_MAX"
      using nextprop_returns [OF assms(1,2), of c] c(2) by auto
    then show ?thesis using c False by (auto simp: fdt_next_property_offset_def)
  qed (use c(1) in \<open>simp add: fdt_next_property_offset_def\<close>)
qed

lemma first_property_returns:
  assumes "tree_ok m fdt" "props_sane m fdt" "offset \<le> INT_MAX"
  shows "\<exists>r. fdt_first_property_offset fdt offset m = ret r \<and> r \<le> INT_MAX"
proof -
  obtain c where c: "fdt_check_node_offset' fdt offset m = ret c" "0 \<le> c \<longrightarrow> c \<le> INT_MAX - 24"
    using check_node_returns [OF assms] by blast
  show ?thesis
  proof (cases "c < 0")
    case False
    then obtain r where "nextprop' fdt c m = ret r" "0 \<le> r \<longrightarrow> r \<le> INT_MAX"
      using nextprop_returns [OF assms(1,2), of c] c(2) by auto
    moreover then have "r \<le> INT_MAX" by (cases "0 \<le> r") (auto simp: INT_MAX_def)
    ultimately show ?thesis using c False by (auto simp: fdt_first_property_offset_def)
  qed (use c(1) in \<open>auto simp: fdt_first_property_offset_def INT_MAX_def\<close>)
qed

text \<open>A property of the tree: its tag at an offset of the structure block, its value of \<open>len\<close> bytes inside the
  tree, and its name.\<close>

definition prop_addr :: "memory \<Rightarrow> addr \<Rightarrow> int \<Rightarrow> addr" where
  "prop_addr m fdt o' = fdt + word_of_nat (struct_off m fdt + nat o')"

definition prop_in_tree :: "memory \<Rightarrow> addr \<Rightarrow> int \<Rightarrow> nat \<Rightarrow> bool" where
  "prop_in_tree m fdt o' len \<longleftrightarrow> 0 \<le> o' \<and> (\<exists>nx. fdt_next_tag fdt o' m = ret (FDT_PROP, nx)) \<and>
     fdt32_ld' (prop_addr m fdt o' + 4) m = ret (word_of_nat len) \<and> int len \<le> INT_MAX \<and>
     struct_off m fdt + nat o' + 12 + len \<le> tree_size m fdt"

definition prop_named :: "memory \<Rightarrow> addr \<Rightarrow> int \<Rightarrow> addr \<Rightarrow> int \<Rightarrow> bool" where
  "prop_named m fdt o' name namelen \<longleftrightarrow>
     (\<exists>nameoff p cs. fdt32_ld' (prop_addr m fdt o' + 8) m = ret nameoff \<and>
        fdt_get_string fdt (int_of_u32 nameoff) m = ret (p, namelen) \<and> string_at m fdt p cs \<and>
        namelen = int (length cs) \<and> (\<forall>i<length cs. m (name + word_of_nat i) = Some (cs ! i)))"

lemma prop_addr_plus: "prop_addr m fdt o' + word_of_nat j = fdt + word_of_nat (struct_off m fdt + nat o' + j)"
  by (simp add: prop_addr_def add.assoc)

lemma get_property_by_offset_returns:
  assumes "tree_ok m fdt" "props_sane m fdt" "offset \<le> INT_MAX" "16 \<le> hdr m fdt H_version"
  shows "\<exists>p len. fdt_get_property_by_offset' fdt offset m = ret (p, len) \<and>
    (p = 0 \<and> len < 0 \<or> p \<noteq> 0 \<and> p = prop_addr m fdt offset \<and> (\<exists>n. len = int n \<and> prop_in_tree m fdt offset n))"
proof -
  note t = tree_okD [OF assms(1)]
  obtain c where c: "fdt_check_prop_offset' fdt offset m = ret c"
    "0 \<le> c \<longrightarrow> 0 \<le> offset \<and> fdt_next_tag fdt offset m = ret (FDT_PROP, c)"
    using check_prop_returns [OF assms(1-3)] by blast
  show ?thesis
  proof (cases "c < 0")
    case False
    then have nt: "0 \<le> offset" "fdt_next_tag fdt offset m = ret (FDT_PROP, c)" using c(2) by auto
    obtain L where L: "fdt32_ld' (fdt + word_of_nat (struct_off m fdt + nat offset + 4)) m = ret L"
      "struct_off m fdt + nat offset + 12 + unat L \<le> tree_size m fdt"
      using next_tag_prop [OF assms(1-3) nt(2) assms(4)] by blast
    have ptr: "fdt_offset_ptr' fdt offset m = ret (prop_addr m fdt offset)"
      using offset_ptr' [OF t(1) nt(1)] by (simp add: prop_addr_def)
    have ld: "fdt32_ld' (prop_addr m fdt offset + 4) m = ret L"
      using L(1) unfolding prop_addr_plus [of m fdt offset 4, symmetric] by simp
    have mx: "int (unat L) \<le> INT_MAX" using L(2) t(3) by linarith
    have "int_of_u32 L = int (unat L)" using mx int_of_u32_small [of L] by simp
    then have "fdt_get_property_by_offset' fdt offset m = ret (prop_addr m fdt offset, int (unat L))"
      using c(1) False ptr ld by (simp add: fdt_get_property_by_offset'_def)
    moreover have "prop_in_tree m fdt offset (unat L)"
      using nt ld L(2) mx by (simp add: prop_in_tree_def)
    moreover have "prop_addr m fdt offset \<noteq> 0"
      unfolding prop_addr_def using L(2) by (intro tree_addr_nonzero [OF assms(1)]) simp
    ultimately show ?thesis by blast
  qed (use c(1) in \<open>simp add: fdt_get_property_by_offset'_def\<close>)
qed

lemma string_eq_returns:
  assumes "tree_ok m fdt" "mapped m name (nat namelen)"
  shows "\<exists>b. fdt_string_eq' fdt stroffset name namelen m = ret b \<and>
    (b \<longrightarrow> (\<exists>p cs. fdt_get_string fdt stroffset m = ret (p, namelen) \<and> string_at m fdt p cs \<and>
       namelen = int (length cs) \<and> (\<forall>i<length cs. m (name + word_of_nat i) = Some (cs ! i))))"
proof -
  obtain p len where g: "fdt_get_string fdt stroffset m = ret (p, len)"
    "p = 0 \<and> len < 0 \<or> p \<noteq> 0 \<and> (\<exists>cs. string_at m fdt p cs \<and> len = int (length cs))"
    using get_string_returns [OF assms(1)] by blast
  show ?thesis
  proof (cases "p \<noteq> 0 \<and> len = namelen")
    case True
    then obtain cs where cs: "string_at m fdt p cs" "namelen = int (length cs)" using g(2) by auto
    then have cp: "cstr m p cs" "length cs < tree_size m fdt" by (auto simp: string_at_def)
    have "namelen \<le> INT_MAX" using cs(2) cp(2) tree_okD(3) [OF assms(1)] by linarith
    then have u: "unat (word_of_int namelen :: ulong) = length cs"
      using cs(2) unat_int64 [of namelen] by (simp add: INT_MAX_def)
    have "mapped m p (length cs)" using cstr_mapped [OF cp(1)] by (simp add: mapped_Suc_last)
    then obtain d where "memcmp p name (word_of_int namelen) m = Inr d"
      "d = 0 \<longleftrightarrow> (\<forall>i<length cs. m (p + word_of_nat i) = m (name + word_of_nat i))"
      using memcmp_loop_eq [of m p "length cs" name] assms(2) cs(2) u by (auto simp: memcmp_def)
    moreover have "m (p + word_of_nat i) = Some (cs ! i)" if "i < length cs" for i
      using cstr_nth [OF cp(1) that] .
    ultimately show ?thesis using True g(1) cs by (auto simp: fdt_string_eq'_def)
  next
    case False
    then show ?thesis using g(1) by (auto simp: fdt_string_eq'_def)
  qed
qed

lemma get_property_loop_returns:
  assumes "tree_ok m fdt" "props_sane m fdt" "16 \<le> hdr m fdt H_version" "mapped m name (nat namelen)"
    and "offset \<le> INT_MAX"
  shows "\<exists>p len po. get_property_loop fdt offset name namelen m = ret (p, len, po) \<and>
    (p = 0 \<and> len < 0 \<or> p \<noteq> 0 \<and> p = prop_addr m fdt po \<and> (\<exists>n. len = int n \<and> prop_in_tree m fdt po n) \<and>
       prop_named m fdt po name namelen)"
  using assms(5)
proof (induction "nat (INT_MAX - offset)" arbitrary: offset rule: less_induct)
  case less
  note t = tree_okD [OF assms(1)] and unf = get_property_loop.simps [of fdt offset name namelen m]
  show ?case
  proof (cases "0 \<le> offset")
    case True
    obtain p len where g: "fdt_get_property_by_offset' fdt offset m = ret (p, len)"
      "p = 0 \<and> len < 0 \<or> p \<noteq> 0 \<and> p = prop_addr m fdt offset \<and> (\<exists>n. len = int n \<and> prop_in_tree m fdt offset n)"
      using get_property_by_offset_returns [OF assms(1,2) less.prems assms(3)] by blast
    show ?thesis
    proof (cases "p = 0")
      case True
      then show ?thesis using unf \<open>0 \<le> offset\<close> g(1) by simp
    next
      case False
      then obtain n where n: "p = prop_addr m fdt offset" "len = int n" "prop_in_tree m fdt offset n" using g(2) by blast
      have k: "struct_off m fdt + nat offset + 8 + 4 \<le> tree_size m fdt" using n(3) by (simp add: prop_in_tree_def)
      have "p + 8 = fdt + word_of_nat (struct_off m fdt + nat offset + 8)"
        using prop_addr_plus [of m fdt offset 8] n(1) by simp
      then have "mapped m (p + 8) 4" using mapped_sub [OF t(2) k] by (simp only:)
      then obtain nameoff where no: "fdt32_ld' (p + 8) m = ret nameoff" using fdt32_ld_mapped(2) [of m "p + 8" 4] by auto
      obtain b where b: "fdt_string_eq' fdt (int_of_u32 nameoff) name namelen m = ret b"
        "b \<longrightarrow> (\<exists>p cs. fdt_get_string fdt (int_of_u32 nameoff) m = ret (p, namelen) \<and> string_at m fdt p cs \<and>
          namelen = int (length cs) \<and> (\<forall>i<length cs. m (name + word_of_nat i) = Some (cs ! i)))"
        using string_eq_returns [OF assms(1,4)] by blast
      show ?thesis
      proof (cases b)
        case True
        then have "prop_named m fdt offset name namelen" using b(2) no n(1) unfolding prop_named_def by blast
        moreover have "get_property_loop fdt offset name namelen m = ret (p, len, offset)"
          using unf \<open>0 \<le> offset\<close> g(1) False no b(1) True by simp
        ultimately show ?thesis using False n by blast
      next
        case nb: False
        obtain r where r: "fdt_next_property_offset fdt offset m = ret r" "0 \<le> r \<longrightarrow> offset < r \<and> r \<le> INT_MAX"
          using next_property_returns [OF assms(1,2) less.prems] by blast
        have step: "get_property_loop fdt offset name namelen m = get_property_loop fdt r name namelen m"
          using unf \<open>0 \<le> offset\<close> g(1) False no b(1) nb r(1) by simp
        show ?thesis
        proof (cases "0 \<le> r")
          case True
          then show ?thesis unfolding step using r(2) by (intro less.hyps) auto
        next
          case False
          then show ?thesis unfolding step by (subst get_property_loop.simps) simp
        qed
      qed
    qed
  next
    case False
    then show ?thesis using unf by simp
  qed
qed

lemma getprop_namelen_returns:
  assumes "tree_ok m fdt" "props_sane m fdt" "16 \<le> hdr m fdt H_version" "mapped m name (nat namelen)"
    and "offset \<le> INT_MAX"
  shows "\<exists>p len. fdt_getprop_namelen fdt offset name namelen m = ret (p, len) \<and>
    (p = 0 \<and> len < 0 \<or> (\<exists>po n. p = prop_addr m fdt po + 12 \<and> len = int n \<and> prop_in_tree m fdt po n \<and>
       prop_named m fdt po name namelen))"
proof -
  obtain r where r: "fdt_first_property_offset fdt offset m = ret r" "r \<le> INT_MAX"
    using first_property_returns [OF assms(1,2,5)] by blast
  obtain p len po where g: "get_property_loop fdt r name namelen m = ret (p, len, po)"
    "p = 0 \<and> len < 0 \<or> p \<noteq> 0 \<and> p = prop_addr m fdt po \<and> (\<exists>n. len = int n \<and> prop_in_tree m fdt po n) \<and>
       prop_named m fdt po name namelen"
    using get_property_loop_returns [OF assms(1-4) r(2)] by blast
  have v: "\<not> hdr m fdt H_version < 16" using assms(3) by simp
  then have d: "prop_data fdt p po m = ret (p + 12)"
    using tree_okD(1) [OF assms(1)] by (simp add: prop_data_def hdr_fields get_header)
  have "fdt_getprop_namelen fdt offset name namelen m = ret (if p = 0 then 0 else p + 12, len)"
    using r(1) g(1) d by (simp add: fdt_getprop_namelen_def fdt_get_property_namelen'_def)
  then show ?thesis using g(2) by auto
qed

section \<open>Walks over the tree\<close>

lemma getprop_returns:
  assumes "tree_ok m fdt" "props_sane m fdt" "16 \<le> hdr m fdt H_version" "name \<noteq> 0" "cstr m name cs"
    and "int (length cs) \<le> INT_MAX" "offset \<le> INT_MAX"
  shows "\<exists>p len. fdt_getprop fdt offset name m = ret (p, len) \<and>
    (p = 0 \<and> len < 0 \<or> (\<exists>po n. p = prop_addr m fdt po + 12 \<and> len = int n \<and> prop_in_tree m fdt po n))"
proof -
  have "mapped m name (nat (int (length cs)))" using cstr_mapped [OF assms(5)] by (simp add: mapped_Suc_last)
  from getprop_namelen_returns [OF assms(1-3) this assms(7)] show ?thesis
    using strlen_cstr [OF assms(4,5)] int_of_u64_nat [OF assms(6)] by (auto simp: fdt_getprop_def)
qed

lemma get_phandle_returns:
  assumes "tree_ok m fdt" "props_sane m fdt" "16 \<le> hdr m fdt H_version" "offset \<le> INT_MAX"
    and "lit ''phandle'' \<noteq> 0" "cstr m (lit ''phandle'') cs" "int (length cs) \<le> INT_MAX"
    and "lit ''linux,phandle'' \<noteq> 0" "cstr m (lit ''linux,phandle'') ds" "int (length ds) \<le> INT_MAX"
  shows "\<exists>h. fdt_get_phandle lit fdt offset m = ret h"
proof -
  note t = tree_okD [OF assms(1)]
  have ld: "\<exists>h. fdt32_ld' (prop_addr m fdt po + 12) m = ret h" if "prop_in_tree m fdt po 4" for po
  proof -
    have k: "struct_off m fdt + nat po + 12 + 4 \<le> tree_size m fdt" using that by (simp add: prop_in_tree_def)
    have "prop_addr m fdt po + 12 = fdt + word_of_nat (struct_off m fdt + nat po + 12)"
      using prop_addr_plus [of m fdt po 12] by simp
    then have "mapped m (prop_addr m fdt po + 12) 4" using mapped_sub [OF t(2) k] by (simp only:)
    then show ?thesis using fdt32_ld_mapped(2) by blast
  qed
  have both: "\<exists>php len. fdt_getprop fdt offset (lit s) m = ret (php, len) \<and>
      (php = 0 \<or> len \<noteq> 4 \<or> (\<exists>h. fdt32_ld' php m = ret h))"
    if "lit s \<noteq> 0" "cstr m (lit s) es" "int (length es) \<le> INT_MAX" for s es
    using getprop_returns [OF assms(1-3) that assms(4)] ld by fastforce
  from both [OF assms(5-7)] both [OF assms(8-10)] show ?thesis
    by (auto simp: fdt_get_phandle_def)
qed

lemma by_phandle_loop_returns:
  assumes "tree_ok m fdt" "props_sane m fdt" "start \<le> INT_MAX"
    and ph: "\<And>offset. offset \<le> INT_MAX \<Longrightarrow> \<exists>h. fdt_get_phandle lit fdt offset m = ret h"
  shows "\<exists>r. by_phandle_loop lit fdt start phandle m = ret r \<and>
    (0 \<le> r \<longrightarrow> start < r \<and> fdt_get_phandle lit fdt r m = ret phandle)"
  using assms(3)
proof (induction "nat (INT_MAX - start)" arbitrary: start rule: less_induct)
  case less
  obtain o' d where n: "fdt_next_node fdt start None m = ret (o', d)" "node_result m fdt (start + 1) None o' d"
    using next_node_returns [OF assms(1,2) less.prems, of None] by (auto simp: depth_ok_def)
  note unf = by_phandle_loop.simps [of lit fdt start phandle m]
  show ?case
  proof (cases "0 \<le> o'")
    case True
    then have b: "start < o'" "o' \<le> INT_MAX" using n(2) by (auto simp: node_result_def)
    obtain h where h: "fdt_get_phandle lit fdt o' m = ret h" using ph [OF b(2)] by blast
    show ?thesis
    proof (cases "h = phandle")
      case True
      then show ?thesis using unf n(1) \<open>0 \<le> o'\<close> h b by simp
    next
      case False
      obtain r where "by_phandle_loop lit fdt o' phandle m = ret r"
        "0 \<le> r \<longrightarrow> o' < r \<and> fdt_get_phandle lit fdt r m = ret phandle"
        using less.hyps [of o'] b by auto
      then show ?thesis using unf n(1) \<open>0 \<le> o'\<close> h False b by auto
    qed
  next
    case False
    then show ?thesis using unf n(1) by simp
  qed
qed

text \<open>Walks that count depth: it stays below the offset, so it cannot overflow.\<close>

lemma next_subnode_loop_returns:
  assumes "tree_ok m fdt" "props_sane m fdt" "offset \<le> INT_MAX - 24" "0 \<le> d" "d \<le> max (offset + 1) 0 + 2"
  shows "\<exists>r. next_subnode_loop fdt offset (Some d) m = ret r \<and> (0 \<le> r \<longrightarrow> offset < r)"
  using assms(3-5)
proof (induction "nat (INT_MAX - offset)" arbitrary: offset d rule: less_induct)
  case less
  have ok: "depth_ok (Some d)" "offset \<le> INT_MAX" using less.prems by (auto simp: depth_ok_def INT_MAX_def max_def split: if_splits)
  obtain o' d1 where n: "fdt_next_node fdt offset (Some d) m = ret (o', d1)" "node_result m fdt (offset + 1) (Some d) o' d1"
    using next_node_returns [OF assms(1,2) ok(2,1)] by auto
  then obtain d' where d': "d1 = Some d'" "d' \<le> d + 1" by (auto simp: node_result_def)
  note unf = next_subnode_loop.simps [of fdt offset "Some d" m]
  show ?case
  proof (cases "0 \<le> o' \<and> 1 < d'")
    case True
    then have b: "offset < o'" "o' \<le> INT_MAX - 24" using n(2) by (auto simp: node_result_def)
    then have "\<exists>r. next_subnode_loop fdt o' (Some d') m = ret r \<and> (0 \<le> r \<longrightarrow> o' < r)"
      using True d'(2) less.prems by (intro less.hyps) auto
    then show ?thesis using unf n(1) d' True b by auto
  next
    case False
    then show ?thesis using unf n d' by (auto simp: node_result_def)
  qed
qed

end
