(* ===== verification/Fdt_Bytes.thy ===== *)
theory Fdt_Bytes
  imports Fdt_Safe
begin

text \<open>
  Byte order: the internal loads, which swap a machine word, read the same big-endian value as the byte-wise
  ones, and a value stored into a field is the value read from it.
\<close>

section \<open>Bytes of a word\<close>

lemma bit_extract: "bit (EXTRACT_BYTE (x :: 'a::len word) n) j \<longleftrightarrow> j < 8 \<and> bit x (8 * n + j)"
  by (auto simp: EXTRACT_BYTE_def bit_simps dest: bit_imp_le_length)

lemma byte_cases32: "(n :: nat) < 32 \<Longrightarrow> (\<exists>r<8. n = r) \<or> (\<exists>r<8. n = r + 8) \<or> (\<exists>r<8. n = r + 16) \<or> (\<exists>r<8. n = r + 24)"
  by presburger

lemma word32_eqI:
  fixes x y :: uint32
  assumes "\<And>r. r < 8 \<Longrightarrow> bit x r = bit y r" "\<And>r. r < 8 \<Longrightarrow> bit x (r + 8) = bit y (r + 8)"
    and "\<And>r. r < 8 \<Longrightarrow> bit x (r + 16) = bit y (r + 16)" "\<And>r. r < 8 \<Longrightarrow> bit x (r + 24) = bit y (r + 24)"
  shows "x = y"
proof (rule bit_word_eqI)
  fix n assume "n < LENGTH(32)"
  then have "n < 32" by simp
  from byte_cases32 [OF this] show "bit x n = bit y n" using assms by auto
qed

lemma swap32:
  fixes b0 b1 b2 b3 :: uint8
  shows "fdt32_to_cpu (ucast b0 OR push_bit 8 (ucast b1 OR push_bit 8 (ucast b2 OR push_bit 8 (ucast b3)))) =
    push_bit 24 (ucast b0) OR push_bit 16 (ucast b1) OR push_bit 8 (ucast b2) OR ucast b3"
  by (rule word32_eqI; simp add: fdt32_to_cpu_def CPU_TO_FDT32_def bit_extract bit_simps; auto dest: bit_imp_le_length)

lemma join32:
  fixes v :: uint32
  shows "push_bit 24 (ucast (ucast (drop_bit 24 v) :: uint8)) OR push_bit 16 (ucast (ucast (drop_bit 16 v) :: uint8)) OR
    push_bit 8 (ucast (ucast (drop_bit 8 v) :: uint8)) OR ucast (ucast v :: uint8) = v"
  by (rule word32_eqI) (simp_all add: bit_simps add.commute)

lemma swapped_bytes:
  fixes v :: uint32
  shows "(ucast (cpu_to_fdt32 v) :: uint8) = ucast (drop_bit 24 v)"
    and "(ucast (drop_bit 8 (cpu_to_fdt32 v)) :: uint8) = ucast (drop_bit 16 v)"
    and "(ucast (drop_bit 16 (cpu_to_fdt32 v)) :: uint8) = ucast (drop_bit 8 v)"
    and "(ucast (drop_bit 24 (cpu_to_fdt32 v)) :: uint8) = ucast v"
  by (rule bit_word_eqI; simp add: cpu_to_fdt32_def CPU_TO_FDT32_def bit_extract bit_simps ac_simps; fail)+

section \<open>Loads and stores\<close>

lemma four: "(4 :: nat) = Suc (Suc (Suc (Suc 0)))"
  by simp

lemma fdt32_ld_eq: "fdt32_ld' p m = fdt32_ld p m"
  unfolding fdt32_ld'_def fdt32_ld_def four ld_le.simps
  by (simp add: bindM_assoc swap32 [simplified] add.assoc)

text \<open>The memory after a 4-byte big-endian store.\<close>

definition stored32 :: "memory \<Rightarrow> addr \<Rightarrow> uint32 \<Rightarrow> memory" where
  "stored32 m p v = m(p \<mapsto> ucast (drop_bit 24 v), p + 1 \<mapsto> ucast (drop_bit 16 v),
     p + 2 \<mapsto> ucast (drop_bit 8 v), p + 3 \<mapsto> ucast v)"

lemma st8_mapped: "m a \<noteq> None \<Longrightarrow> st8 m a b = ret (m(a \<mapsto> b))"
  by (simp add: st8_def)

lemma st_le_stored:
  assumes "mapped m p 4"
  shows "st_le 4 m p (cpu_to_fdt32 v) = ret (stored32 m p v)"
proof -
  have "m p \<noteq> None" "m (p + 1) \<noteq> None" "m (p + 2) \<noteq> None" "m (p + 3) \<noteq> None"
    using mapped_4 [OF assms] by auto
  then show ?thesis unfolding four st_le.simps stored32_def
    by (simp add: st8_mapped swapped_bytes add.assoc)
qed

lemma fdt32_st_stored:
  assumes "mapped m p 4"
  shows "fdt32_st p v m = ret (stored32 m p v)"
proof -
  have *: "m p \<noteq> None" "m (p + 1) \<noteq> None" "m (p + 2) \<noteq> None" "m (p + 3) \<noteq> None"
    using mapped_4 [OF assms] by auto
  have b: "(ucast (x AND 0xff) :: uint8) = ucast x" for x :: uint32
  proof -
    have "x AND 0xff = take_bit 8 x" by (simp add: take_bit_eq_mask mask_eq_exp_minus_1)
    then show ?thesis by (simp only:) (rule bit_word_eqI, simp add: bit_simps)
  qed
  show ?thesis unfolding fdt32_st_def stored32_def b using * by (simp add: st8_mapped)
qed

lemma fdt32_ld_stored: "fdt32_ld p (stored32 m p v) = ret v"
  using join32 [of v] by (simp add: fdt32_ld_def stored32_def ld8_def)

lemma fdt32_ld_stored_other:
  assumes "\<And>i j. i < 4 \<Longrightarrow> j < 4 \<Longrightarrow> q + word_of_nat i \<noteq> p + word_of_nat j"
  shows "fdt32_ld q (stored32 m p v) = fdt32_ld q m"
proof -
  have "stored32 m p v (q + word_of_nat i) = m (q + word_of_nat i)" if "i < 4" for i
    using assms [OF that, of 0] assms [OF that, of 1] assms [OF that, of 2] assms [OF that, of 3]
    by (simp add: stored32_def)
  from this [of 0] this [of 1] this [of 2] this [of 3] show ?thesis
    by (simp add: fdt32_ld_def ld8_def ldb_def)
qed

lemma stored32_mapped [simp]: "mapped m a n \<Longrightarrow> mapped (stored32 m p v) a n"
  by (simp add: stored32_def mapped_upd)

section \<open>Header fields\<close>

lemma field_word: "unat (header_field f) mod 4 = 0" "unat (header_field f) < 40"
  by (cases f; simp)+

lemma field_inj: "unat (header_field f) = unat (header_field g) \<Longrightarrow> f = g"
  by (cases f; cases g; simp)

lemma field_apart:
  assumes "f \<noteq> g" "i < 4" "j < 4"
  shows "fdt + header_field g + word_of_nat i \<noteq> fdt + header_field f + word_of_nat j"
proof
  assume eq: "fdt + header_field g + word_of_nat i = fdt + header_field f + word_of_nat j"
  have u: "unat (header_field h + word_of_nat k) = unat (header_field h) + k" if "k < 4" for h k
    using that field_word(2) [of h] by (intro off_less [where n = 4]) auto
  have "header_field g + word_of_nat i = header_field f + word_of_nat j" using eq by (simp add: add.assoc)
  then have "unat (header_field g) + i = unat (header_field f) + j" using u [OF assms(2)] u [OF assms(3)] by metis
  then have "unat (header_field g) = unat (header_field f)"
    using field_word(1) [of f] field_word(1) [of g] assms(2,3) by presburger
  then show False using field_inj assms(1) by blast
qed

lemma set_hdr_stored:
  assumes "mapped m fdt 40"
  shows "fdt_set_hdr f fdt v m = ret (stored32 m (fdt + header_field f) v)"
proof -
  have "mapped m (fdt + word_of_nat (unat (header_field f))) 4"
    using header_field_less [of f] by (intro mapped_sub [OF assms]) simp
  then show ?thesis unfolding fdt_set_hdr_def using header_field_less [of f] by (intro st_le_stored) simp
qed

lemma get_set_hdr:
  assumes "mapped m fdt 40"
  shows "fdt_get_header fdt g (stored32 m (fdt + header_field f) v) = ret (if g = f then v else hdr m fdt g)"
  using get_header [OF assms, of g] field_apart [of f g] fdt32_ld_stored_other [of "fdt + header_field g" "fdt + header_field f"]
  by (auto simp: fdt_get_header_def fdt32_ld_stored)

end
