(* ===== verification/Fdt_Sw.thy ===== *)
theory Fdt_Sw
  imports Fdt_Ro
begin

text \<open>
  Building a tree sequentially: \<^verbatim>\<open>kernel/device/libfdt/fdt_sw.c\<close> and the typed wrappers of
  \<^verbatim>\<open>libfdt.h\<close>. Functions that write return the memory after the call beside their result. A wrapper that takes
  the address of a local variable has that address as the argument \<open>tmp\<close>.
\<close>

section \<open>States\<close>

definition fdt_sw_probe' :: "addr \<Rightarrow> memory \<Rightarrow> int run" where
  "fdt_sw_probe' fdt m =
     (if \<not> can_assume VALID_INPUT then
        bindM (fdt_magic fdt m) (\<lambda>mg.
        if mg = FDT_MAGIC then ret (- FDT_ERR_BADSTATE)
        else if mg \<noteq> FDT_SW_MAGIC then ret (- FDT_ERR_BADMAGIC) else ret 0)
      else ret 0)"

definition fdt_sw_probe_memrsv' :: "addr \<Rightarrow> memory \<Rightarrow> int run" where
  "fdt_sw_probe_memrsv' fdt m =
     bindM (fdt_sw_probe' fdt m) (\<lambda>err.
     if err \<noteq> 0 then ret err
     else bindM (fdt_off_dt_strings fdt m) (\<lambda>off.
     if \<not> can_assume VALID_INPUT \<and> off \<noteq> 0 then ret (- FDT_ERR_BADSTATE) else ret 0))"

definition fdt_sw_probe_struct' :: "addr \<Rightarrow> memory \<Rightarrow> int run" where
  "fdt_sw_probe_struct' fdt m =
     bindM (fdt_sw_probe' fdt m) (\<lambda>err.
     if err \<noteq> 0 then ret err
     else bindM (fdt_off_dt_strings fdt m) (\<lambda>off. bindM (fdt_totalsize fdt m) (\<lambda>total.
     if \<not> can_assume VALID_INPUT \<and> off \<noteq> total then ret (- FDT_ERR_BADSTATE) else ret 0)))"

definition sw_flags :: "addr \<Rightarrow> memory \<Rightarrow> uint32 run" where
  "sw_flags fdt m = fdt_last_comp_version fdt m"

section \<open>Operations\<close>

text \<open>The address of the space, \<^verbatim>\<open>NULL\<close> when there is none.\<close>

definition fdt_grab_space' :: "addr \<Rightarrow> ulong \<Rightarrow> memory \<Rightarrow> (addr \<times> memory) run" where
  "fdt_grab_space' fdt len m =
     bindM (fdt_size_dt_struct fdt m) (\<lambda>offset.
     bindM (fdt_totalsize fdt m) (\<lambda>total. bindM (fdt_off_dt_struct fdt m) (\<lambda>off.
     bindM (fdt_size_dt_strings fdt m) (\<lambda>strsz.
     let spaceleft = total - off - strsz in
     if ucast offset + len < ucast offset \<or> ucast offset + len > ucast spaceleft then ret (0, m)
     else bindM (fdt_set_hdr H_size_dt_struct fdt (ucast (ucast offset + len)) m) (\<lambda>m.
     bindM (fdt_offset_ptr' fdt (int_of_u32 offset) m) (\<lambda>p. ret (p, m)))))))"

definition FDT_CREATE_FLAG_NO_NAME_DEDUP :: uint32 where "FDT_CREATE_FLAG_NO_NAME_DEDUP = 0x1"
definition FDT_CREATE_FLAGS_ALL :: uint32 where "FDT_CREATE_FLAGS_ALL = FDT_CREATE_FLAG_NO_NAME_DEDUP"

definition fdt_create_with_flags :: "addr \<Rightarrow> int \<Rightarrow> uint32 \<Rightarrow> memory \<Rightarrow> (int \<times> memory) run" where
  "fdt_create_with_flags buf bufsize flags m =
     (let hdrsize = FDT_ALIGN sizeof_fdt_header sizeof_fdt_reserve_entry; fdt = buf in
      if bufsize < int_of_u64 hdrsize then ret (- FDT_ERR_NOSPACE, m)
      else if flags AND NOT FDT_CREATE_FLAGS_ALL \<noteq> 0 then ret (- FDT_ERR_BADFLAGS, m)
      else bindM (Some (memset buf 0 (word_of_int bufsize) m)) (\<lambda>(_, m).
      bindM (fdt_set_hdr H_magic fdt FDT_SW_MAGIC m) (\<lambda>m.
      bindM (fdt_set_hdr H_version fdt FDT_LAST_SUPPORTED_VERSION m) (\<lambda>m.
      bindM (fdt_set_hdr H_last_comp_version fdt flags m) (\<lambda>m.
      bindM (fdt_set_hdr H_totalsize fdt (word_of_int bufsize) m) (\<lambda>m.
      bindM (fdt_set_hdr H_off_mem_rsvmap fdt (ucast hdrsize) m) (\<lambda>m.
      bindM (fdt_off_mem_rsvmap fdt m) (\<lambda>rsv.
      bindM (fdt_set_hdr H_off_dt_struct fdt rsv m) (\<lambda>m.
      bindM (fdt_set_hdr H_off_dt_strings fdt 0 m) (\<lambda>m. ret (0, m)))))))))))"

definition fdt_create :: "addr \<Rightarrow> int \<Rightarrow> memory \<Rightarrow> (int \<times> memory) run" where
  "fdt_create buf bufsize m = fdt_create_with_flags buf bufsize 0 m"

definition fdt_resize :: "addr \<Rightarrow> addr \<Rightarrow> int \<Rightarrow> memory \<Rightarrow> (int \<times> memory) run" where
  "fdt_resize fdt buf bufsize m =
     bindM (fdt_sw_probe' fdt m) (\<lambda>err.
     if err \<noteq> 0 then ret (err, m)
     else if bufsize < 0 then ret (- FDT_ERR_NOSPACE, m)
     else bindM (fdt_off_dt_struct fdt m) (\<lambda>off. bindM (fdt_size_dt_struct fdt m) (\<lambda>sz.
     bindM (fdt_size_dt_strings fdt m) (\<lambda>strsz. bindM (fdt_totalsize fdt m) (\<lambda>total.
     let headsize = ucast (off + sz); tailsize = ucast strsz in
     if \<not> can_assume VALID_DTB \<and> headsize + tailsize > ucast total then ret (- FDT_ERR_INTERNAL, m)
     else if headsize + tailsize > word_of_int bufsize then ret (- FDT_ERR_NOSPACE, m)
     else
     let oldtail = fdt + ucast total - tailsize; newtail = buf + word_of_int bufsize - tailsize in
     bindM (if buf \<le> fdt then
              bindM (Some (memmove buf fdt headsize m)) (\<lambda>(_, m). Some (memmove newtail oldtail tailsize m))
            else
              bindM (Some (memmove newtail oldtail tailsize m)) (\<lambda>(_, m). Some (memmove buf fdt headsize m))) (\<lambda>(_, m).
     bindM (fdt_set_hdr H_totalsize buf (word_of_int bufsize) m) (\<lambda>m.
     bindM (fdt_off_dt_strings buf m) (\<lambda>so.
     if so \<noteq> 0 then bindM (fdt_set_hdr H_off_dt_strings buf (word_of_int bufsize) m) (\<lambda>m. ret (0, m))
     else ret (0, m)))))))))"

definition fdt_add_reservemap_entry :: "addr \<Rightarrow> uint64 \<Rightarrow> uint64 \<Rightarrow> memory \<Rightarrow> (int \<times> memory) run" where
  "fdt_add_reservemap_entry fdt addr sz m =
     bindM (fdt_sw_probe_memrsv' fdt m) (\<lambda>err.
     if err \<noteq> 0 then ret (err, m)
     else bindM (fdt_off_dt_struct fdt m) (\<lambda>off. bindM (fdt_totalsize fdt m) (\<lambda>total.
     let offset = int_of_u32 off in
     if word_of_int offset + sizeof_fdt_reserve_entry > ucast total then ret (- FDT_ERR_NOSPACE, m)
     else
     let re = fdt + word_of_int offset in
     bindM (st_le 8 m re (cpu_to_fdt64 addr)) (\<lambda>m.
     bindM (st_le 8 m (re + 8) (cpu_to_fdt64 sz)) (\<lambda>m.
     bindM (fdt_set_hdr H_off_dt_struct fdt (ucast (word_of_int offset + sizeof_fdt_reserve_entry)) m) (\<lambda>m.
     ret (0, m)))))))"

definition fdt_finish_reservemap :: "addr \<Rightarrow> memory \<Rightarrow> (int \<times> memory) run" where
  "fdt_finish_reservemap fdt m =
     bindM (fdt_add_reservemap_entry fdt 0 0 m) (\<lambda>(err, m).
     if err \<noteq> 0 then ret (err, m)
     else bindM (fdt_totalsize fdt m) (\<lambda>total.
     bindM (fdt_set_hdr H_off_dt_strings fdt total m) (\<lambda>m. ret (0, m))))"

definition fdt_begin_node :: "addr \<Rightarrow> addr \<Rightarrow> memory \<Rightarrow> (int \<times> memory) run" where
  "fdt_begin_node fdt name m =
     bindM (fdt_sw_probe_struct' fdt m) (\<lambda>err.
     if err \<noteq> 0 then ret (err, m)
     else bindM (strlen name m) (\<lambda>n.
     let namelen = int_of_u64 (n + 1) in
     bindM (fdt_grab_space' fdt (sizeof_fdt_node_header + FDT_TAGALIGN namelen) m) (\<lambda>(nh, m).
     if nh = 0 then ret (- FDT_ERR_NOSPACE, m)
     else bindM (st_le 4 m nh (cpu_to_fdt32 FDT_BEGIN_NODE)) (\<lambda>m.
     bindM (Some (memcpy (nh + 4) name (word_of_int namelen) m)) (\<lambda>(_, m). ret (0, m))))))"

definition fdt_end_node :: "addr \<Rightarrow> memory \<Rightarrow> (int \<times> memory) run" where
  "fdt_end_node fdt m =
     bindM (fdt_sw_probe_struct' fdt m) (\<lambda>err.
     if err \<noteq> 0 then ret (err, m)
     else bindM (fdt_grab_space' fdt 4 m) (\<lambda>(en, m).
     if en = 0 then ret (- FDT_ERR_NOSPACE, m)
     else bindM (st_le 4 m en (cpu_to_fdt32 FDT_END_NODE)) (\<lambda>m. ret (0, m))))"

definition fdt_add_string' :: "addr \<Rightarrow> addr \<Rightarrow> memory \<Rightarrow> (int \<times> memory) run" where
  "fdt_add_string' fdt s m =
     bindM (fdt_totalsize fdt m) (\<lambda>total. bindM (fdt_size_dt_strings fdt m) (\<lambda>strtabsize.
     bindM (strlen s m) (\<lambda>n. bindM (fdt_off_dt_struct fdt m) (\<lambda>off. bindM (fdt_size_dt_struct fdt m) (\<lambda>sz.
     let strtab = fdt + ucast total; len = ucast (n + 1) :: uint32; offset = strtabsize + len;
         struct_top = off + sz in
     if total - offset < struct_top then ret (0, m)
     else bindM (Some (memcpy (strtab - ucast offset) s (ucast len) m)) (\<lambda>(_, m).
     bindM (fdt_set_hdr H_size_dt_strings fdt (strtabsize + len) m) (\<lambda>m.
     ret (int_of_u32 (- offset), m))))))))"

definition fdt_del_last_string_sw' :: "addr \<Rightarrow> addr \<Rightarrow> memory \<Rightarrow> memory run" where
  "fdt_del_last_string_sw' fdt s m =
     bindM (fdt_size_dt_strings fdt m) (\<lambda>sz. bindM (strlen s m) (\<lambda>n.
     bindM (isub (int_of_u32 sz) (int_of_u64 (n + 1))) (\<lambda>d.
     fdt_set_hdr H_size_dt_strings fdt (word_of_int d) m)))"

text \<open>The offset and \<^verbatim>\<open>*allocated\<close>.\<close>

definition fdt_find_add_string_sw' :: "addr \<Rightarrow> addr \<Rightarrow> memory \<Rightarrow> ((int \<times> bool) \<times> memory) run" where
  "fdt_find_add_string_sw' fdt s m =
     bindM (fdt_totalsize fdt m) (\<lambda>total. bindM (fdt_size_dt_strings fdt m) (\<lambda>sz.
     let strtab = fdt + ucast total; strtabsize = int_of_u32 sz in
     bindM (fdt_find_string' (strtab - word_of_int strtabsize) strtabsize s m) (\<lambda>p.
     if p \<noteq> 0 then ret ((int_of_u64 (p - strtab), False), m)
     else bindM (fdt_add_string' fdt s m) (\<lambda>(r, m). ret ((r, True), m)))))"

text \<open>The error code and \<^verbatim>\<open>*valp\<close>.\<close>

definition fdt_property_placeholder :: "addr \<Rightarrow> addr \<Rightarrow> int \<Rightarrow> memory \<Rightarrow> ((int \<times> addr) \<times> memory) run" where
  "fdt_property_placeholder fdt name len m =
     bindM (fdt_sw_probe_struct' fdt m) (\<lambda>err.
     if err \<noteq> 0 then ret ((err, 0), m)
     else bindM (sw_flags fdt m) (\<lambda>flags.
     bindM (if flags AND FDT_CREATE_FLAG_NO_NAME_DEDUP \<noteq> 0
            then bindM (fdt_add_string' fdt name m) (\<lambda>(nameoff, m). ret ((nameoff, True), m))
            else fdt_find_add_string_sw' fdt name m) (\<lambda>((nameoff, allocated), m).
     if nameoff = 0 then ret ((- FDT_ERR_NOSPACE, 0), m)
     else bindM (fdt_grab_space' fdt (sizeof_fdt_property + FDT_TAGALIGN len) m) (\<lambda>(prop, m).
     if prop = 0 then
       bindM (if allocated then fdt_del_last_string_sw' fdt name m else ret m) (\<lambda>m.
       ret ((- FDT_ERR_NOSPACE, 0), m))
     else bindM (st_le 4 m prop (cpu_to_fdt32 FDT_PROP)) (\<lambda>m.
     bindM (st_le 4 m (prop + 8) (cpu_to_fdt32 (word_of_int nameoff))) (\<lambda>m.
     bindM (st_le 4 m (prop + 4) (cpu_to_fdt32 (word_of_int len))) (\<lambda>m.
     ret ((0, prop + 12), m))))))))"

definition fdt_property :: "addr \<Rightarrow> addr \<Rightarrow> addr \<Rightarrow> int \<Rightarrow> memory \<Rightarrow> (int \<times> memory) run" where
  "fdt_property fdt name val len m =
     bindM (fdt_property_placeholder fdt name len m) (\<lambda>((r, ptr), m).
     if r \<noteq> 0 then ret (r, m)
     else bindM (Some (memcpy ptr val (word_of_int len) m)) (\<lambda>(_, m). ret (0, m)))"

text \<open>The walk of \<^verbatim>\<open>fdt_finish\<close> that corrects the string offsets: the last \<^verbatim>\<open>nextoffset\<close>.\<close>

partial_function (option) finish_loop :: "addr \<Rightarrow> int \<Rightarrow> memory \<Rightarrow> (int \<times> memory) run" where
  "finish_loop fdt offset m =
     bindM (fdt_next_tag fdt offset m) (\<lambda>(tag, nextoffset).
     if tag \<noteq> FDT_END then
       (if tag = FDT_PROP then
          bindM (fdt_offset_ptr' fdt offset m) (\<lambda>prop.
          bindM (fdt32_ld' (prop + 8) m) (\<lambda>nameoff.
          bindM (fdt_size_dt_strings fdt m) (\<lambda>sz.
          bindM (st_le 4 m (prop + 8) (cpu_to_fdt32 (nameoff + sz))) (\<lambda>m.
          finish_loop fdt nextoffset m))))
        else finish_loop fdt nextoffset m)
     else ret (nextoffset, m))"

definition fdt_finish :: "addr \<Rightarrow> memory \<Rightarrow> (int \<times> memory) run" where
  "fdt_finish fdt m =
     bindM (fdt_sw_probe_struct' fdt m) (\<lambda>err.
     if err \<noteq> 0 then ret (err, m)
     else bindM (fdt_grab_space' fdt 4 m) (\<lambda>(end_p, m).
     if end_p = 0 then ret (- FDT_ERR_NOSPACE, m)
     else bindM (st_le 4 m end_p (cpu_to_fdt32 FDT_END)) (\<lambda>m.
     bindM (fdt_totalsize fdt m) (\<lambda>total. bindM (fdt_size_dt_strings fdt m) (\<lambda>strsz.
     bindM (fdt_off_dt_struct fdt m) (\<lambda>off. bindM (fdt_size_dt_struct fdt m) (\<lambda>sz.
     let oldstroffset = int_of_u32 (total - strsz); newstroffset = int_of_u32 (off + sz) in
     bindM (Some (memmove (fdt + word_of_int newstroffset) (fdt + word_of_int oldstroffset) (ucast strsz) m)) (\<lambda>(_, m).
     bindM (fdt_set_hdr H_off_dt_strings fdt (word_of_int newstroffset) m) (\<lambda>m.
     bindM (finish_loop fdt 0 m) (\<lambda>(nextoffset, m).
     if nextoffset < 0 then ret (nextoffset, m)
     else bindM (fdt_size_dt_strings fdt m) (\<lambda>strsz.
     bindM (fdt_set_hdr H_totalsize fdt (word_of_int newstroffset + strsz) m) (\<lambda>m.
     bindM (fdt_set_hdr H_last_comp_version fdt FDT_LAST_COMPATIBLE_VERSION m) (\<lambda>m.
     bindM (fdt_set_hdr H_magic fdt FDT_MAGIC m) (\<lambda>m. ret (0, m)))))))))))))))"

section \<open>Typed wrappers\<close>

definition fdt_property_u32 :: "addr \<Rightarrow> addr \<Rightarrow> addr \<Rightarrow> uint32 \<Rightarrow> memory \<Rightarrow> (int \<times> memory) run" where
  "fdt_property_u32 tmp fdt name val m =
     bindM (st_le 4 m tmp (cpu_to_fdt32 val)) (fdt_property fdt name tmp 4)"

definition fdt_property_u64 :: "addr \<Rightarrow> addr \<Rightarrow> addr \<Rightarrow> uint64 \<Rightarrow> memory \<Rightarrow> (int \<times> memory) run" where
  "fdt_property_u64 tmp fdt name val m =
     bindM (st_le 8 m tmp (cpu_to_fdt64 val)) (fdt_property fdt name tmp 8)"

definition fdt_property_cell :: "addr \<Rightarrow> addr \<Rightarrow> addr \<Rightarrow> uint32 \<Rightarrow> memory \<Rightarrow> (int \<times> memory) run" where
  "fdt_property_cell tmp fdt name val m = fdt_property_u32 tmp fdt name val m"

end
