(* ===== verification/Fdt_Rw.thy ===== *)
theory Fdt_Rw
  imports Fdt_Sw
begin

text \<open>
  Changing a tree in place: \<^verbatim>\<open>fdt_rw.c\<close>, \<^verbatim>\<open>fdt_wip.c\<close>, \<^verbatim>\<open>fdt_addresses.c\<close> and \<^verbatim>\<open>fdt_empty_tree.c\<close>, and the
  full check of \<^verbatim>\<open>fdt_check.c\<close> and the messages of \<^verbatim>\<open>fdt_strerror.c\<close>. The conventions are those of the
  other libfdt theories.
\<close>

section \<open>fdt_rw.c: layout\<close>

definition fdt_blocks_misordered' :: "addr \<Rightarrow> int \<Rightarrow> int \<Rightarrow> memory \<Rightarrow> bool run" where
  "fdt_blocks_misordered' fdt mem_rsv_size struct_size m =
     bindM (fdt_off_mem_rsvmap fdt m) (\<lambda>rsv. bindM (fdt_off_dt_struct fdt m) (\<lambda>off.
     bindM (fdt_off_dt_strings fdt m) (\<lambda>str. bindM (fdt_totalsize fdt m) (\<lambda>total.
     bindM (fdt_size_dt_strings fdt m) (\<lambda>strsz.
     ret (ucast rsv < FDT_ALIGN sizeof_fdt_header 8 \<or> off < rsv + word_of_int mem_rsv_size \<or>
       str < off + word_of_int struct_size \<or> total < str + strsz))))))"

definition fdt_rw_probe' :: "addr \<Rightarrow> memory \<Rightarrow> (int \<times> memory) run" where
  "fdt_rw_probe' fdt m =
     (if can_assume VALID_DTB then ret (0, m)
      else bindM (fdt_ro_probe' fdt m) (\<lambda>probe.
      if probe < 0 then ret (probe, m)
      else bindM (fdt_version fdt m) (\<lambda>v.
      if \<not> can_assume LATEST \<and> v < 17 then ret (- FDT_ERR_BADVERSION, m)
      else bindM (fdt_size_dt_struct fdt m) (\<lambda>sz.
      bindM (fdt_blocks_misordered' fdt (int_of_u64 sizeof_fdt_reserve_entry) (int_of_u32 sz) m) (\<lambda>bad.
      if bad then ret (- FDT_ERR_BADLAYOUT, m)
      else if \<not> can_assume LATEST \<and> v > 17 then
        bindM (fdt_set_hdr H_version fdt 17 m) (\<lambda>m. ret (0, m))
      else ret (0, m))))))"

text \<open>\<^verbatim>\<open>FDT_RW_PROBE\<close>: an operation that runs only on a tree it can write.\<close>

definition FDT_RW_PROBE :: "addr \<Rightarrow> memory \<Rightarrow> (memory \<Rightarrow> (int \<times> memory) run) \<Rightarrow> (int \<times> memory) run" where
  "FDT_RW_PROBE fdt m k = bindM (fdt_rw_probe' fdt m) (\<lambda>(err, m). if err \<noteq> 0 then ret (err, m) else k m)"

definition fdt_data_size' :: "addr \<Rightarrow> memory \<Rightarrow> uint32 run" where
  "fdt_data_size' fdt m =
     bindM (fdt_off_dt_strings fdt m) (\<lambda>str. bindM (fdt_size_dt_strings fdt m) (\<lambda>strsz. ret (str + strsz)))"

section \<open>fdt_rw.c: splicing\<close>

definition fdt_splice' :: "addr \<Rightarrow> addr \<Rightarrow> int \<Rightarrow> int \<Rightarrow> memory \<Rightarrow> (int \<times> memory) run" where
  "fdt_splice' fdt p oldlen newlen m =
     bindM (fdt_data_size' fdt m) (\<lambda>dsize. bindM (fdt_totalsize fdt m) (\<lambda>total.
     let soff = p - fdt in
     if oldlen < 0 \<or> soff + word_of_int oldlen < soff \<or> soff + word_of_int oldlen > ucast dsize
     then ret (- FDT_ERR_BADOFFSET, m)
     else if p < fdt \<or> dsize + word_of_int newlen < word_of_int oldlen then ret (- FDT_ERR_BADOFFSET, m)
     else if dsize - word_of_int oldlen + word_of_int newlen > total then ret (- FDT_ERR_NOSPACE, m)
     else bindM (Some (memmove (p + word_of_int newlen) (p + word_of_int oldlen)
       ((fdt + ucast dsize) - (p + word_of_int oldlen)) m)) (\<lambda>(_, m). ret (0, m))))"

text \<open>Adding a signed difference to a header field.\<close>

definition shift_hdr :: "fdt_header \<Rightarrow> addr \<Rightarrow> int \<Rightarrow> memory \<Rightarrow> memory run" where
  "shift_hdr field fdt delta m =
     bindM (fdt_get_header fdt field m) (\<lambda>v. fdt_set_hdr field fdt (v + word_of_int delta) m)"

definition fdt_splice_mem_rsv' :: "addr \<Rightarrow> addr \<Rightarrow> int \<Rightarrow> int \<Rightarrow> memory \<Rightarrow> (int \<times> memory) run" where
  "fdt_splice_mem_rsv' fdt p oldn newn m =
     (let delta = i32 ((newn - oldn) * 16) in
      bindM (fdt_splice' fdt p (i32 (oldn * 16)) (i32 (newn * 16)) m) (\<lambda>(err, m).
      if err \<noteq> 0 then ret (err, m)
      else bindM (shift_hdr H_off_dt_struct fdt delta m) (\<lambda>m.
      bindM (shift_hdr H_off_dt_strings fdt delta m) (\<lambda>m. ret (0, m)))))"

definition fdt_splice_struct' :: "addr \<Rightarrow> addr \<Rightarrow> int \<Rightarrow> int \<Rightarrow> memory \<Rightarrow> (int \<times> memory) run" where
  "fdt_splice_struct' fdt p oldlen newlen m =
     bindM (isub newlen oldlen) (\<lambda>delta.
     bindM (fdt_splice' fdt p oldlen newlen m) (\<lambda>(err, m).
     if err \<noteq> 0 then ret (err, m)
     else bindM (shift_hdr H_size_dt_struct fdt delta m) (\<lambda>m.
     bindM (shift_hdr H_off_dt_strings fdt delta m) (\<lambda>m. ret (0, m)))))"

definition fdt_del_last_string' :: "addr \<Rightarrow> addr \<Rightarrow> memory \<Rightarrow> memory run" where
  "fdt_del_last_string' fdt s m =
     bindM (strlen s m) (\<lambda>n. shift_hdr H_size_dt_strings fdt (- int_of_u64 (n + 1)) m)"

definition fdt_splice_string' :: "addr \<Rightarrow> int \<Rightarrow> memory \<Rightarrow> (int \<times> memory) run" where
  "fdt_splice_string' fdt newlen m =
     bindM (fdt_off_dt_strings fdt m) (\<lambda>str. bindM (fdt_size_dt_strings fdt m) (\<lambda>strsz.
     bindM (fdt_splice' fdt (fdt + ucast str + ucast strsz) 0 newlen m) (\<lambda>(err, m).
     if err \<noteq> 0 then ret (err, m)
     else bindM (shift_hdr H_size_dt_strings fdt newlen m) (\<lambda>m. ret (0, m)))))"

text \<open>The offset or error code and \<^verbatim>\<open>*allocated\<close>.\<close>

definition fdt_find_add_string' :: "addr \<Rightarrow> addr \<Rightarrow> memory \<Rightarrow> ((int \<times> bool) \<times> memory) run" where
  "fdt_find_add_string' fdt s m =
     bindM (fdt_off_dt_strings fdt m) (\<lambda>str. bindM (fdt_size_dt_strings fdt m) (\<lambda>strsz.
     bindM (strlen s m) (\<lambda>n.
     let strtab = fdt + ucast str; len = int_of_u64 (n + 1); new = strtab + ucast strsz in
     bindM (fdt_find_string' strtab (int_of_u32 strsz) s m) (\<lambda>p.
     if p \<noteq> 0 then ret ((int_of_u64 (p - strtab), False), m)
     else bindM (fdt_splice_string' fdt len m) (\<lambda>(err, m).
     if err \<noteq> 0 then ret ((err, False), m)
     else bindM (Some (memcpy new s (word_of_int len) m)) (\<lambda>(_, m).
     ret ((int_of_u64 (new - strtab), True), m)))))))"

section \<open>fdt_rw.c: reservations\<close>

definition fdt_add_mem_rsv :: "addr \<Rightarrow> uint64 \<Rightarrow> uint64 \<Rightarrow> memory \<Rightarrow> (int \<times> memory) run" where
  "fdt_add_mem_rsv fdt address sz m =
     FDT_RW_PROBE fdt m (\<lambda>m.
     bindM (fdt_num_mem_rsv fdt m) (\<lambda>n. bindM (fdt_mem_rsv' fdt n m) (\<lambda>re.
     bindM (fdt_splice_mem_rsv' fdt re 0 1 m) (\<lambda>(err, m).
     if err \<noteq> 0 then ret (err, m)
     else bindM (st_le 8 m re (cpu_to_fdt64 address)) (\<lambda>m.
     bindM (st_le 8 m (re + 8) (cpu_to_fdt64 sz)) (\<lambda>m. ret (0, m)))))))"

definition fdt_del_mem_rsv :: "addr \<Rightarrow> int \<Rightarrow> memory \<Rightarrow> (int \<times> memory) run" where
  "fdt_del_mem_rsv fdt n m =
     bindM (fdt_mem_rsv' fdt n m) (\<lambda>re.
     FDT_RW_PROBE fdt m (\<lambda>m.
     bindM (fdt_num_mem_rsv fdt m) (\<lambda>num.
     if n \<ge> num then ret (- FDT_ERR_NOTFOUND, m) else fdt_splice_mem_rsv' fdt re 1 0 m)))"

section \<open>fdt_rw.c: properties\<close>

text \<open>The error code and \<^verbatim>\<open>*prop\<close>.\<close>

definition fdt_resize_property' :: "addr \<Rightarrow> int \<Rightarrow> addr \<Rightarrow> int \<Rightarrow> memory \<Rightarrow> ((int \<times> addr) \<times> memory) run" where
  "fdt_resize_property' fdt nodeoffset name len m =
     bindM (fdt_get_property fdt nodeoffset name m) (\<lambda>(prop, oldlen).
     if prop = 0 then ret ((oldlen, prop), m)
     else bindM (fdt_splice_struct' fdt (prop + 12) (int_of_u64 (FDT_TAGALIGN oldlen))
       (int_of_u64 (FDT_TAGALIGN len)) m) (\<lambda>(err, m).
     if err \<noteq> 0 then ret ((err, prop), m)
     else bindM (st_le 4 m (prop + 4) (cpu_to_fdt32 (word_of_int len))) (\<lambda>m. ret ((0, prop), m))))"

definition fdt_add_property' :: "addr \<Rightarrow> int \<Rightarrow> addr \<Rightarrow> int \<Rightarrow> memory \<Rightarrow> ((int \<times> addr) \<times> memory) run" where
  "fdt_add_property' fdt nodeoffset name len m =
     bindM (fdt_check_node_offset' fdt nodeoffset m) (\<lambda>nextoffset.
     if nextoffset < 0 then ret ((nextoffset, 0), m)
     else bindM (fdt_find_add_string' fdt name m) (\<lambda>((namestroff, allocated), m).
     if namestroff < 0 then ret ((namestroff, 0), m)
     else bindM (fdt_offset_ptr' fdt nextoffset m) (\<lambda>prop.
     let proplen = int_of_u64 (sizeof_fdt_property + FDT_TAGALIGN len) in
     bindM (fdt_splice_struct' fdt prop 0 proplen m) (\<lambda>(err, m).
     if err \<noteq> 0 then
       bindM (if \<not> can_assume NO_ROLLBACK \<and> allocated then fdt_del_last_string' fdt name m else ret m) (\<lambda>m.
       ret ((err, prop), m))
     else bindM (st_le 4 m prop (cpu_to_fdt32 FDT_PROP)) (\<lambda>m.
     bindM (st_le 4 m (prop + 8) (cpu_to_fdt32 (word_of_int namestroff))) (\<lambda>m.
     bindM (st_le 4 m (prop + 4) (cpu_to_fdt32 (word_of_int len))) (\<lambda>m. ret ((0, prop), m))))))))"

definition fdt_set_name :: "addr \<Rightarrow> int \<Rightarrow> addr \<Rightarrow> memory \<Rightarrow> (int \<times> memory) run" where
  "fdt_set_name fdt nodeoffset name m =
     FDT_RW_PROBE fdt m (\<lambda>m.
     bindM (fdt_get_name fdt nodeoffset m) (\<lambda>(namep, oldlen).
     if namep = 0 then ret (oldlen, m)
     else bindM (strlen name m) (\<lambda>n. bindM (iadd oldlen 1) (\<lambda>oldlen1.
     bindM (iadd (int_of_u64 n) 1) (\<lambda>newlen1.
     bindM (fdt_splice_struct' fdt namep (int_of_u64 (FDT_TAGALIGN oldlen1))
       (int_of_u64 (FDT_TAGALIGN newlen1)) m) (\<lambda>(err, m).
     if err \<noteq> 0 then ret (err, m)
     else bindM (Some (memcpy namep name (word_of_int newlen1) m)) (\<lambda>(_, m). ret (0, m))))))))"

text \<open>The error code and \<^verbatim>\<open>*prop_data\<close>.\<close>

definition fdt_setprop_placeholder ::
  "addr \<Rightarrow> int \<Rightarrow> addr \<Rightarrow> int \<Rightarrow> memory \<Rightarrow> ((int \<times> addr) \<times> memory) run" where
  "fdt_setprop_placeholder fdt nodeoffset name len m =
     bindM (fdt_rw_probe' fdt m) (\<lambda>(err, m).
     if err \<noteq> 0 then ret ((err, 0), m)
     else bindM (fdt_resize_property' fdt nodeoffset name len m) (\<lambda>((err, prop), m).
     bindM (if err = - FDT_ERR_NOTFOUND then fdt_add_property' fdt nodeoffset name len m
            else ret ((err, prop), m)) (\<lambda>((err, prop), m).
     if err \<noteq> 0 then ret ((err, 0), m) else ret ((0, prop + 12), m))))"

definition fdt_setprop :: "addr \<Rightarrow> int \<Rightarrow> addr \<Rightarrow> addr \<Rightarrow> int \<Rightarrow> memory \<Rightarrow> (int \<times> memory) run" where
  "fdt_setprop fdt nodeoffset name val len m =
     bindM (fdt_setprop_placeholder fdt nodeoffset name len m) (\<lambda>((err, prop_data), m).
     if err \<noteq> 0 then ret (err, m)
     else if len \<noteq> 0 then
       bindM (Some (memcpy prop_data val (word_of_int len) m)) (\<lambda>(_, m). ret (0, m))
     else ret (0, m))"

definition fdt_appendprop :: "addr \<Rightarrow> int \<Rightarrow> addr \<Rightarrow> addr \<Rightarrow> int \<Rightarrow> memory \<Rightarrow> (int \<times> memory) run" where
  "fdt_appendprop fdt nodeoffset name val len m =
     FDT_RW_PROBE fdt m (\<lambda>m.
     bindM (fdt_get_property fdt nodeoffset name m) (\<lambda>(prop, oldlen).
     if prop \<noteq> 0 then
       bindM (iadd len oldlen) (\<lambda>newlen.
       bindM (fdt_splice_struct' fdt (prop + 12) (int_of_u64 (FDT_TAGALIGN oldlen))
         (int_of_u64 (FDT_TAGALIGN newlen)) m) (\<lambda>(err, m).
       if err \<noteq> 0 then ret (err, m)
       else bindM (st_le 4 m (prop + 4) (cpu_to_fdt32 (word_of_int newlen))) (\<lambda>m.
       bindM (Some (memcpy (prop + 12 + word_of_int oldlen) val (word_of_int len) m)) (\<lambda>(_, m). ret (0, m)))))
     else
       bindM (fdt_add_property' fdt nodeoffset name len m) (\<lambda>((err, prop), m).
       if err \<noteq> 0 then ret (err, m)
       else bindM (Some (memcpy (prop + 12) val (word_of_int len) m)) (\<lambda>(_, m). ret (0, m)))))"

definition fdt_delprop :: "addr \<Rightarrow> int \<Rightarrow> addr \<Rightarrow> memory \<Rightarrow> (int \<times> memory) run" where
  "fdt_delprop fdt nodeoffset name m =
     FDT_RW_PROBE fdt m (\<lambda>m.
     bindM (fdt_get_property fdt nodeoffset name m) (\<lambda>(prop, len).
     if prop = 0 then ret (len, m)
     else fdt_splice_struct' fdt prop (int_of_u64 (sizeof_fdt_property + FDT_TAGALIGN len)) 0 m))"

section \<open>fdt_rw.c: nodes\<close>

partial_function (option) skip_props :: "addr \<Rightarrow> int \<Rightarrow> memory \<Rightarrow> int run" where
  "skip_props fdt offset m =
     bindM (fdt_next_tag fdt offset m) (\<lambda>(tag, nextoffset).
     if tag = FDT_PROP \<or> tag = FDT_NOP then skip_props fdt nextoffset m else ret offset)"

text \<open>Writing the new node's tag, padded name and end tag at \<^verbatim>\<open>nh\<close>.\<close>

definition write_node :: "addr \<Rightarrow> int \<Rightarrow> addr \<Rightarrow> int \<Rightarrow> memory \<Rightarrow> memory run" where
  "write_node nh nodelen name namelen m =
     bindM (st_le 4 m nh (cpu_to_fdt32 FDT_BEGIN_NODE)) (\<lambda>m.
     bindM (iadd namelen 1) (\<lambda>namelen1.
     bindM (Some (memset (nh + 4) 0 (FDT_TAGALIGN namelen1) m)) (\<lambda>(_, m).
     bindM (Some (memcpy (nh + 4) name (word_of_int namelen) m)) (\<lambda>(_, m).
     st_le 4 m (nh + word_of_int nodelen - 4) (cpu_to_fdt32 FDT_END_NODE)))))"

definition fdt_add_subnode_namelen :: "addr \<Rightarrow> int \<Rightarrow> addr \<Rightarrow> int \<Rightarrow> memory \<Rightarrow> (int \<times> memory) run" where
  "fdt_add_subnode_namelen fdt parentoffset name namelen m =
     FDT_RW_PROBE fdt m (\<lambda>m.
     bindM (fdt_subnode_offset_namelen fdt parentoffset name namelen m) (\<lambda>offset.
     if offset \<ge> 0 then ret (- FDT_ERR_EXISTS, m)
     else if offset \<noteq> - FDT_ERR_NOTFOUND then ret (offset, m)
     else bindM (fdt_next_tag fdt parentoffset m) (\<lambda>(tag, nextoffset).
     if \<not> can_assume LIBFDT_FLAWLESS \<and> tag \<noteq> FDT_BEGIN_NODE then ret (- FDT_ERR_INTERNAL, m)
     else bindM (skip_props fdt nextoffset m) (\<lambda>offset.
     bindM (fdt_offset_ptr' fdt offset m) (\<lambda>nh. bindM (iadd namelen 1) (\<lambda>namelen1.
     let nodelen = int_of_u64 (sizeof_fdt_node_header + FDT_TAGALIGN namelen1 + 4) in
     bindM (fdt_splice_struct' fdt nh 0 nodelen m) (\<lambda>(err, m).
     if err \<noteq> 0 then ret (err, m)
     else bindM (write_node nh nodelen name namelen m) (\<lambda>m. ret (offset, m)))))))))"

definition fdt_add_subnode :: "addr \<Rightarrow> int \<Rightarrow> addr \<Rightarrow> memory \<Rightarrow> (int \<times> memory) run" where
  "fdt_add_subnode fdt parentoffset name m =
     bindM (strlen name m) (\<lambda>n. fdt_add_subnode_namelen fdt parentoffset name (int_of_u64 n) m)"

partial_function (option) fdt_node_end_loop :: "addr \<Rightarrow> int \<Rightarrow> int \<Rightarrow> memory \<Rightarrow> int run" where
  "fdt_node_end_loop fdt offset depth m =
     (if offset \<ge> 0 \<and> depth \<ge> 0 then
        bindM (fdt_next_node fdt offset (Some depth) m) (\<lambda>(offset, depth). fdt_node_end_loop fdt offset (the depth) m)
      else ret offset)"

definition fdt_node_end_offset' :: "addr \<Rightarrow> int \<Rightarrow> memory \<Rightarrow> int run" where
  "fdt_node_end_offset' fdt offset m = fdt_node_end_loop fdt offset 0 m"

definition fdt_del_node :: "addr \<Rightarrow> int \<Rightarrow> memory \<Rightarrow> (int \<times> memory) run" where
  "fdt_del_node fdt nodeoffset m =
     FDT_RW_PROBE fdt m (\<lambda>m.
     bindM (fdt_node_end_offset' fdt nodeoffset m) (\<lambda>endoffset.
     if endoffset < 0 then ret (endoffset, m)
     else bindM (fdt_offset_ptr' fdt nodeoffset m) (\<lambda>p. bindM (isub endoffset nodeoffset) (\<lambda>d.
     fdt_splice_struct' fdt p d 0 m))))"

section \<open>fdt_rw.c: moving\<close>

definition fdt_packblocks' :: "addr \<Rightarrow> addr \<Rightarrow> int \<Rightarrow> int \<Rightarrow> int \<Rightarrow> memory \<Rightarrow> memory run" where
  "fdt_packblocks' old new mem_rsv_size struct_size strings_size m =
     (let mem_rsv_off = int_of_u64 (FDT_ALIGN sizeof_fdt_header 8) in
      bindM (iadd mem_rsv_off mem_rsv_size) (\<lambda>struct_off. bindM (iadd struct_off struct_size) (\<lambda>strings_off.
      bindM (fdt_off_mem_rsvmap old m) (\<lambda>rsv.
      bindM (Some (memmove (new + word_of_int mem_rsv_off) (old + ucast rsv) (word_of_int mem_rsv_size) m)) (\<lambda>(_, m).
      bindM (fdt_set_hdr H_off_mem_rsvmap new (word_of_int mem_rsv_off) m) (\<lambda>m.
      bindM (fdt_off_dt_struct old m) (\<lambda>off.
      bindM (Some (memmove (new + word_of_int struct_off) (old + ucast off) (word_of_int struct_size) m)) (\<lambda>(_, m).
      bindM (fdt_set_hdr H_off_dt_struct new (word_of_int struct_off) m) (\<lambda>m.
      bindM (fdt_set_hdr H_size_dt_struct new (word_of_int struct_size) m) (\<lambda>m.
      bindM (fdt_off_dt_strings old m) (\<lambda>str.
      bindM (Some (memmove (new + word_of_int strings_off) (old + ucast str) (word_of_int strings_size) m)) (\<lambda>(_, m).
      bindM (fdt_set_hdr H_off_dt_strings new (word_of_int strings_off) m) (\<lambda>m.
      bindM (fdt_size_dt_strings old m) (\<lambda>strsz. fdt_set_hdr H_size_dt_strings new strsz m))))))))))))))"

partial_function (option) struct_end_loop :: "addr \<Rightarrow> int \<Rightarrow> memory \<Rightarrow> int run" where
  "struct_end_loop fdt struct_size m =
     bindM (fdt_next_tag fdt struct_size m) (\<lambda>(tag, struct_size).
     if tag \<noteq> FDT_END then struct_end_loop fdt struct_size m else ret struct_size)"

text \<open>The size of the structure block, or a negative error code.\<close>

definition open_struct_size :: "addr \<Rightarrow> memory \<Rightarrow> (int + int) run" where
  "open_struct_size fdt m =
     bindM (fdt_version fdt m) (\<lambda>v.
     if can_assume LATEST \<or> v \<ge> 17 then bindM (fdt_size_dt_struct fdt m) (\<lambda>sz. ret (Inr (int_of_u32 sz)))
     else if v = 16 then
       bindM (struct_end_loop fdt 0 m) (\<lambda>struct_size.
       if struct_size < 0 then ret (Inl struct_size) else ret (Inr struct_size))
     else ret (Inl (- FDT_ERR_BADVERSION)))"

definition open_reordered :: "addr \<Rightarrow> addr \<Rightarrow> int \<Rightarrow> int \<Rightarrow> int \<Rightarrow> memory \<Rightarrow> (int \<times> memory) run" where
  "open_reordered fdt buf bufsize mem_rsv_size struct_size m =
     bindM (fdt_totalsize fdt m) (\<lambda>total. bindM (fdt_size_dt_strings fdt m) (\<lambda>strsz.
     let fdtend = fdt + ucast total;
         newsize = int_of_u64 (FDT_ALIGN sizeof_fdt_header 8 + word_of_int mem_rsv_size + word_of_int struct_size + ucast strsz) in
     if bufsize < newsize then ret (- FDT_ERR_NOSPACE, m)
     else
     let overlaps = buf + word_of_int newsize > fdt \<and> buf < fdtend; tmp = (if overlaps then fdtend else buf) in
     if overlaps \<and> tmp + word_of_int newsize > buf + word_of_int bufsize then ret (- FDT_ERR_NOSPACE, m)
     else bindM (fdt_packblocks' fdt tmp mem_rsv_size struct_size (int_of_u32 strsz) m) (\<lambda>m.
     bindM (Some (memmove buf tmp (word_of_int newsize) m)) (\<lambda>(_, m).
     bindM (fdt_set_hdr H_magic buf FDT_MAGIC m) (\<lambda>m.
     bindM (fdt_set_hdr H_totalsize buf (word_of_int bufsize) m) (\<lambda>m.
     bindM (fdt_set_hdr H_version buf 17 m) (\<lambda>m.
     bindM (fdt_set_hdr H_last_comp_version buf 16 m) (\<lambda>m.
     bindM (fdt_boot_cpuid_phys fdt m) (\<lambda>cpu.
     bindM (fdt_set_hdr H_boot_cpuid_phys buf cpu m) (\<lambda>m. ret (0, m)))))))))))"

definition fdt_open_into :: "addr \<Rightarrow> addr \<Rightarrow> int \<Rightarrow> memory \<Rightarrow> (int \<times> memory) run" where
  "fdt_open_into fdt buf bufsize m =
     bindM (fdt_ro_probe' fdt m) (\<lambda>probe.
     if probe < 0 then ret (probe, m)
     else bindM (fdt_num_mem_rsv fdt m) (\<lambda>n. bindM (iadd n 1) (\<lambda>n1.
     let mem_rsv_size = i32 (n1 * 16) in
     bindM (open_struct_size fdt m) (\<lambda>r. case r of Inl err \<Rightarrow> ret (err, m) | Inr struct_size \<Rightarrow>
     bindM (fdt_blocks_misordered' fdt mem_rsv_size struct_size m) (\<lambda>bad.
     if can_assume LIBFDT_ORDER \<or> \<not> bad then
       bindM (fdt_move fdt buf bufsize m) (\<lambda>(err, m).
       if err \<noteq> 0 then ret (err, m)
       else bindM (fdt_set_hdr H_version buf 17 m) (\<lambda>m.
       bindM (fdt_set_hdr H_size_dt_struct buf (word_of_int struct_size) m) (\<lambda>m.
       bindM (fdt_set_hdr H_totalsize buf (word_of_int bufsize) m) (\<lambda>m. ret (0, m)))))
     else open_reordered fdt buf bufsize mem_rsv_size struct_size m)))))"

definition fdt_pack :: "addr \<Rightarrow> memory \<Rightarrow> (int \<times> memory) run" where
  "fdt_pack fdt m =
     FDT_RW_PROBE fdt m (\<lambda>m.
     bindM (fdt_num_mem_rsv fdt m) (\<lambda>n. bindM (iadd n 1) (\<lambda>n1.
     bindM (fdt_size_dt_struct fdt m) (\<lambda>sz. bindM (fdt_size_dt_strings fdt m) (\<lambda>strsz.
     bindM (fdt_packblocks' fdt fdt (i32 (n1 * 16)) (int_of_u32 sz) (int_of_u32 strsz) m) (\<lambda>m.
     bindM (fdt_data_size' fdt m) (\<lambda>d.
     bindM (fdt_set_hdr H_totalsize fdt d m) (\<lambda>m. ret (0, m)))))))))"

section \<open>fdt_wip.c\<close>

definition fdt_setprop_inplace_namelen_partial ::
  "addr \<Rightarrow> int \<Rightarrow> addr \<Rightarrow> int \<Rightarrow> uint32 \<Rightarrow> addr \<Rightarrow> int \<Rightarrow> memory \<Rightarrow> (int \<times> memory) run" where
  "fdt_setprop_inplace_namelen_partial fdt nodeoffset name namelen idx val len m =
     bindM (fdt_getprop_namelen fdt nodeoffset name namelen m) (\<lambda>(propval, proplen).
     if propval = 0 then ret (proplen, m)
     else if word_of_int proplen < word_of_int len + idx then ret (- FDT_ERR_NOSPACE, m)
     else bindM (Some (memcpy (propval + ucast idx) val (word_of_int len) m)) (\<lambda>(_, m). ret (0, m)))"

definition fdt_setprop_inplace :: "addr \<Rightarrow> int \<Rightarrow> addr \<Rightarrow> addr \<Rightarrow> int \<Rightarrow> memory \<Rightarrow> (int \<times> memory) run" where
  "fdt_setprop_inplace fdt nodeoffset name val len m =
     bindM (fdt_getprop fdt nodeoffset name m) (\<lambda>(propval, proplen).
     if propval = 0 then ret (proplen, m)
     else if proplen \<noteq> len then ret (- FDT_ERR_NOSPACE, m)
     else bindM (strlen name m) (\<lambda>n.
     fdt_setprop_inplace_namelen_partial fdt nodeoffset name (int_of_u64 n) 0 val len m))"

partial_function (option) nop_region_loop :: "addr \<Rightarrow> addr \<Rightarrow> memory \<Rightarrow> memory run" where
  "nop_region_loop p end_p m =
     (if p < end_p then bindM (st_le 4 m p (cpu_to_fdt32 FDT_NOP)) (\<lambda>m. nop_region_loop (p + 4) end_p m)
      else ret m)"

definition fdt_nop_region' :: "addr \<Rightarrow> int \<Rightarrow> memory \<Rightarrow> memory run" where
  "fdt_nop_region' start len m = nop_region_loop start (start + word_of_int len) m"

definition fdt_nop_property :: "addr \<Rightarrow> int \<Rightarrow> addr \<Rightarrow> memory \<Rightarrow> (int \<times> memory) run" where
  "fdt_nop_property fdt nodeoffset name m =
     bindM (fdt_get_property fdt nodeoffset name m) (\<lambda>(prop, len).
     if prop = 0 then ret (len, m)
     else bindM (fdt_nop_region' prop (i32 (len + 12)) m) (\<lambda>m. ret (0, m)))"

definition fdt_nop_node :: "addr \<Rightarrow> int \<Rightarrow> memory \<Rightarrow> (int \<times> memory) run" where
  "fdt_nop_node fdt nodeoffset m =
     bindM (fdt_node_end_offset' fdt nodeoffset m) (\<lambda>endoffset.
     if endoffset < 0 then ret (endoffset, m)
     else bindM (fdt_offset_ptr fdt nodeoffset 0 m) (\<lambda>p. bindM (isub endoffset nodeoffset) (\<lambda>d.
     bindM (fdt_nop_region' p d m) (\<lambda>m. ret (0, m)))))"

section \<open>fdt_addresses.c\<close>

definition FDT_MAX_NCELLS :: uint32 where "FDT_MAX_NCELLS = 4"

definition fdt_cells :: "addr \<Rightarrow> int \<Rightarrow> addr \<Rightarrow> memory \<Rightarrow> int run" where
  "fdt_cells fdt nodeoffset name m =
     bindM (fdt_getprop fdt nodeoffset name m) (\<lambda>(c, len).
     if c = 0 then ret len
     else if len \<noteq> 4 then ret (- FDT_ERR_BADNCELLS)
     else bindM (fdt32_ld' c m) (\<lambda>val.
     if val > FDT_MAX_NCELLS then ret (- FDT_ERR_BADNCELLS) else ret (int_of_u32 val)))"

definition fdt_address_cells :: "literals \<Rightarrow> addr \<Rightarrow> int \<Rightarrow> memory \<Rightarrow> int run" where
  "fdt_address_cells lit fdt nodeoffset m =
     bindM (fdt_cells fdt nodeoffset (lit ''#address-cells'') m) (\<lambda>val.
     if val = 0 then ret (- FDT_ERR_BADNCELLS)
     else if val = - FDT_ERR_NOTFOUND then ret 2 else ret val)"

definition fdt_size_cells :: "literals \<Rightarrow> addr \<Rightarrow> int \<Rightarrow> memory \<Rightarrow> int run" where
  "fdt_size_cells lit fdt nodeoffset m =
     bindM (fdt_cells fdt nodeoffset (lit ''#size-cells'') m) (\<lambda>val.
     if val = - FDT_ERR_NOTFOUND then ret 1 else ret val)"

text \<open>The local array \<^verbatim>\<open>data\<close> is at the address \<open>data\<close>. The first part stores the address, the second the
  size; each gives an error code or the memory.\<close>

definition range_addr :: "addr \<Rightarrow> int \<Rightarrow> uint64 \<Rightarrow> uint64 \<Rightarrow> memory \<Rightarrow> (int + memory) run" where
  "range_addr data addr_cells addr sz m =
     (if addr_cells = 1 then
        (if addr > ucast UINT32_MAX \<or> ucast UINT32_MAX + 1 - addr < sz then ret (Inl (- FDT_ERR_BADVALUE))
         else bindM (fdt32_st data (ucast addr) m) (\<lambda>m. ret (Inr m)))
      else if addr_cells = 2 then bindM (fdt64_st data addr m) (\<lambda>m. ret (Inr m))
      else ret (Inl (- FDT_ERR_BADNCELLS)))"

definition range_size :: "addr \<Rightarrow> int \<Rightarrow> uint64 \<Rightarrow> memory \<Rightarrow> (int + memory) run" where
  "range_size prop size_cells sz m =
     (if size_cells = 1 then
        (if sz > ucast UINT32_MAX then ret (Inl (- FDT_ERR_BADVALUE))
         else bindM (fdt32_st prop (ucast sz) m) (\<lambda>m. ret (Inr m)))
      else if size_cells = 2 then bindM (fdt64_st prop sz m) (\<lambda>m. ret (Inr m))
      else ret (Inl (- FDT_ERR_BADNCELLS)))"

definition fdt_appendprop_addrrange ::
  "addr \<Rightarrow> literals \<Rightarrow> addr \<Rightarrow> int \<Rightarrow> int \<Rightarrow> addr \<Rightarrow> uint64 \<Rightarrow> uint64 \<Rightarrow> memory \<Rightarrow> (int \<times> memory) run" where
  "fdt_appendprop_addrrange data lit fdt parent nodeoffset name addr sz m =
     bindM (fdt_address_cells lit fdt parent m) (\<lambda>addr_cells.
     if addr_cells < 0 then ret (addr_cells, m)
     else bindM (fdt_size_cells lit fdt parent m) (\<lambda>size_cells.
     if size_cells < 0 then ret (size_cells, m)
     else bindM (range_addr data addr_cells addr sz m) (\<lambda>r. case r of Inl err \<Rightarrow> ret (err, m) | Inr m \<Rightarrow>
     bindM (range_size (data + word_of_int addr_cells * 4) size_cells sz m) (\<lambda>r. case r of Inl err \<Rightarrow> ret (err, m) | Inr m \<Rightarrow>
     fdt_appendprop fdt nodeoffset name data (i32 ((addr_cells + size_cells) * 4)) m))))"

section \<open>fdt_check.c\<close>

definition check_root_name :: "addr \<Rightarrow> int \<Rightarrow> memory \<Rightarrow> int run" where
  "check_root_name fdt offset m =
     bindM (fdt_get_name fdt offset m) (\<lambda>(name, len).
     if name = 0 then ret len
     else bindM (ld8 m name) (\<lambda>c. if c \<noteq> 0 \<or> len \<noteq> 0 then ret (- FDT_ERR_BADSTRUCTURE) else ret 0))"

partial_function (option) check_full_loop :: "addr \<Rightarrow> int \<Rightarrow> uint32 \<Rightarrow> bool \<Rightarrow> memory \<Rightarrow> int run" where
  "check_full_loop fdt offset depth expect_end m =
     bindM (fdt_next_tag fdt offset m) (\<lambda>(tag, nextoffset).
     if nextoffset < 0 then ret nextoffset
     else if expect_end \<and> tag \<noteq> FDT_END then ret (- FDT_ERR_BADSTRUCTURE)
     else if tag = FDT_NOP then check_full_loop fdt nextoffset depth expect_end m
     else if tag = FDT_END then (if depth \<noteq> 0 then ret (- FDT_ERR_BADSTRUCTURE) else ret 0)
     else if tag = FDT_BEGIN_NODE then
       (let depth = depth + 1 in
        if uint depth > INT_MAX then ret (- FDT_ERR_BADSTRUCTURE)
        else if depth = 1 then
          bindM (check_root_name fdt offset m) (\<lambda>err.
          if err \<noteq> 0 then ret err else check_full_loop fdt nextoffset depth expect_end m)
        else check_full_loop fdt nextoffset depth expect_end m)
     else if tag = FDT_END_NODE then
       (if depth = 0 then ret (- FDT_ERR_BADSTRUCTURE)
        else check_full_loop fdt nextoffset (depth - 1) (depth - 1 = 0 \<or> expect_end) m)
     else if tag = FDT_PROP then
       bindM (fdt_getprop_by_offset fdt offset True m) (\<lambda>(prop, _, err).
       if prop = 0 then ret err else check_full_loop fdt nextoffset depth expect_end m)
     else ret (- FDT_ERR_INTERNAL))"

definition fdt_check_full :: "addr \<Rightarrow> ulong \<Rightarrow> memory \<Rightarrow> int run" where
  "fdt_check_full fdt bufsize m =
     (if bufsize < FDT_V1_SIZE then ret (- FDT_ERR_TRUNCATED)
      else bindM (fdt_header_size fdt m) (\<lambda>hs.
      if bufsize < hs then ret (- FDT_ERR_TRUNCATED)
      else bindM (fdt_check_header fdt m) (\<lambda>err.
      if err \<noteq> 0 then ret err
      else bindM (fdt_totalsize fdt m) (\<lambda>total.
      if bufsize < ucast total then ret (- FDT_ERR_TRUNCATED)
      else bindM (fdt_num_mem_rsv fdt m) (\<lambda>num_memrsv.
      if num_memrsv < 0 then ret num_memrsv else check_full_loop fdt 0 0 False m)))))"

section \<open>fdt_empty_tree.c\<close>

definition fdt_create_empty_tree :: "literals \<Rightarrow> addr \<Rightarrow> int \<Rightarrow> memory \<Rightarrow> (int \<times> memory) run" where
  "fdt_create_empty_tree lit buf bufsize m =
     bindM (fdt_create buf bufsize m) (\<lambda>(err, m). if err \<noteq> 0 then ret (err, m)
     else bindM (fdt_finish_reservemap buf m) (\<lambda>(err, m). if err \<noteq> 0 then ret (err, m)
     else bindM (fdt_begin_node buf (lit '''') m) (\<lambda>(err, m). if err \<noteq> 0 then ret (err, m)
     else bindM (fdt_end_node buf m) (\<lambda>(err, m). if err \<noteq> 0 then ret (err, m)
     else bindM (fdt_finish buf m) (\<lambda>(err, m). if err \<noteq> 0 then ret (err, m)
     else fdt_open_into buf buf bufsize m)))))"

section \<open>fdt_strerror.c\<close>

definition fdt_errtable :: "string option list" where
  "fdt_errtable = [None, Some ''FDT_ERR_NOTFOUND'', Some ''FDT_ERR_EXISTS'', Some ''FDT_ERR_NOSPACE'',
     Some ''FDT_ERR_BADOFFSET'', Some ''FDT_ERR_BADPATH'', Some ''FDT_ERR_BADPHANDLE'', Some ''FDT_ERR_BADSTATE'',
     Some ''FDT_ERR_TRUNCATED'', Some ''FDT_ERR_BADMAGIC'', Some ''FDT_ERR_BADVERSION'',
     Some ''FDT_ERR_BADSTRUCTURE'', Some ''FDT_ERR_BADLAYOUT'', Some ''FDT_ERR_INTERNAL'',
     Some ''FDT_ERR_BADNCELLS'', Some ''FDT_ERR_BADVALUE'', Some ''FDT_ERR_BADOVERLAY'',
     Some ''FDT_ERR_NOPHANDLES'', Some ''FDT_ERR_BADFLAGS'', Some ''FDT_ERR_ALIGNMENT'']"

definition fdt_strerror :: "int \<Rightarrow> string res" where
  "fdt_strerror errval =
     (if errval > 0 then Inr ''<valid offset/length>''
      else if errval = 0 then Inr ''<no error>''
      else if - errval < int (length fdt_errtable) then
        bindR (rd fdt_errtable (nat (- errval))) (\<lambda>s.
        case s of Some s \<Rightarrow> Inr s | None \<Rightarrow> Inr ''<unknown error>'')
      else Inr ''<unknown error>'')"

section \<open>Typed wrappers\<close>

definition fdt_setprop_inplace_u32 :: "addr \<Rightarrow> addr \<Rightarrow> int \<Rightarrow> addr \<Rightarrow> uint32 \<Rightarrow> memory \<Rightarrow> (int \<times> memory) run" where
  "fdt_setprop_inplace_u32 tmp fdt nodeoffset name val m =
     bindM (st_le 4 m tmp (cpu_to_fdt32 val)) (fdt_setprop_inplace fdt nodeoffset name tmp 4)"

definition fdt_setprop_inplace_u64 :: "addr \<Rightarrow> addr \<Rightarrow> int \<Rightarrow> addr \<Rightarrow> uint64 \<Rightarrow> memory \<Rightarrow> (int \<times> memory) run" where
  "fdt_setprop_inplace_u64 tmp fdt nodeoffset name val m =
     bindM (st_le 8 m tmp (cpu_to_fdt64 val)) (fdt_setprop_inplace fdt nodeoffset name tmp 8)"

definition fdt_setprop_inplace_cell :: "addr \<Rightarrow> addr \<Rightarrow> int \<Rightarrow> addr \<Rightarrow> uint32 \<Rightarrow> memory \<Rightarrow> (int \<times> memory) run" where
  "fdt_setprop_inplace_cell tmp fdt nodeoffset name val m = fdt_setprop_inplace_u32 tmp fdt nodeoffset name val m"

definition fdt_setprop_u32 :: "addr \<Rightarrow> addr \<Rightarrow> int \<Rightarrow> addr \<Rightarrow> uint32 \<Rightarrow> memory \<Rightarrow> (int \<times> memory) run" where
  "fdt_setprop_u32 tmp fdt nodeoffset name val m =
     bindM (st_le 4 m tmp (cpu_to_fdt32 val)) (fdt_setprop fdt nodeoffset name tmp 4)"

definition fdt_setprop_u64 :: "addr \<Rightarrow> addr \<Rightarrow> int \<Rightarrow> addr \<Rightarrow> uint64 \<Rightarrow> memory \<Rightarrow> (int \<times> memory) run" where
  "fdt_setprop_u64 tmp fdt nodeoffset name val m =
     bindM (st_le 8 m tmp (cpu_to_fdt64 val)) (fdt_setprop fdt nodeoffset name tmp 8)"

definition fdt_setprop_cell :: "addr \<Rightarrow> addr \<Rightarrow> int \<Rightarrow> addr \<Rightarrow> uint32 \<Rightarrow> memory \<Rightarrow> (int \<times> memory) run" where
  "fdt_setprop_cell tmp fdt nodeoffset name val m = fdt_setprop_u32 tmp fdt nodeoffset name val m"

definition fdt_appendprop_u32 :: "addr \<Rightarrow> addr \<Rightarrow> int \<Rightarrow> addr \<Rightarrow> uint32 \<Rightarrow> memory \<Rightarrow> (int \<times> memory) run" where
  "fdt_appendprop_u32 tmp fdt nodeoffset name val m =
     bindM (st_le 4 m tmp (cpu_to_fdt32 val)) (fdt_appendprop fdt nodeoffset name tmp 4)"

definition fdt_appendprop_u64 :: "addr \<Rightarrow> addr \<Rightarrow> int \<Rightarrow> addr \<Rightarrow> uint64 \<Rightarrow> memory \<Rightarrow> (int \<times> memory) run" where
  "fdt_appendprop_u64 tmp fdt nodeoffset name val m =
     bindM (st_le 8 m tmp (cpu_to_fdt64 val)) (fdt_appendprop fdt nodeoffset name tmp 8)"

definition fdt_appendprop_cell :: "addr \<Rightarrow> addr \<Rightarrow> int \<Rightarrow> addr \<Rightarrow> uint32 \<Rightarrow> memory \<Rightarrow> (int \<times> memory) run" where
  "fdt_appendprop_cell tmp fdt nodeoffset name val m = fdt_appendprop_u32 tmp fdt nodeoffset name val m"

end
