(* ===== verification/Fdt_Props.thy ===== *)
theory Fdt_Props
  imports Fdt_Query Fdt_Bytes Fdt_Rw
begin

text \<open>
  The properties of the device-tree library, with a small concrete tree on which they are applied: a root node
  with one property \<^verbatim>\<open>a\<close> of four bytes.
\<close>

section \<open>A concrete tree\<close>

definition sample_dtb :: "uint8 list" where
  "sample_dtb =
    [208, 13, 254, 237, 0, 0, 0, 90, 0, 0, 0, 56, 0, 0, 0, 88, 0, 0, 0, 40,
     0, 0, 0, 17, 0, 0, 0, 16, 0, 0, 0, 0, 0, 0, 0, 2, 0, 0, 0, 32,
     0, 0, 0, 0, 0, 0, 0, 0, 0, 0, 0, 0, 0, 0, 0, 0, 0, 0, 0, 1,
     0, 0, 0, 0, 0, 0, 0, 3, 0, 0, 0, 4, 0, 0, 0, 0, 0, 0, 0, 7,
     0, 0, 0, 2, 0, 0, 0, 9, 97, 0]"

text \<open>A tree at \<open>0x1000\<close>, and the strings \<^verbatim>\<open>a\<close>, \<^verbatim>\<open>phandle\<close> and \<^verbatim>\<open>linux,phandle\<close> from \<open>0x2000\<close> on.\<close>

definition tree_memory :: "uint8 list \<Rightarrow> memory" where
  "tree_memory dtb a =
     (if a - 0x1000 < 90 then Some (dtb ! unat (a - 0x1000))
      else map_of [(0x2000, 97), (0x2001, 0),
        (0x2010, 112), (0x2011, 104), (0x2012, 97), (0x2013, 110), (0x2014, 100), (0x2015, 108), (0x2016, 101), (0x2017, 0),
        (0x2020, 108), (0x2021, 105), (0x2022, 110), (0x2023, 117), (0x2024, 120), (0x2025, 44), (0x2026, 112),
        (0x2027, 104), (0x2028, 97), (0x2029, 110), (0x202a, 100), (0x202b, 108), (0x202c, 101), (0x202d, 0)] a)"

definition sample_tree :: memory where
  "sample_tree = tree_memory sample_dtb"

definition sample_lit :: literals where
  "sample_lit s = (if s = ''phandle'' then 0x2010 else 0x2020)"

lemma sample_get_header:
  "fdt_get_header 0x1000 f sample_tree = ret (case f of H_magic \<Rightarrow> 0xd00dfeed | H_totalsize \<Rightarrow> 90 | H_off_dt_struct \<Rightarrow> 56
     | H_off_dt_strings \<Rightarrow> 88 | H_off_mem_rsvmap \<Rightarrow> 40 | H_version \<Rightarrow> 17 | H_last_comp_version \<Rightarrow> 16
     | H_boot_cpuid_phys \<Rightarrow> 0 | H_size_dt_strings \<Rightarrow> 2 | H_size_dt_struct \<Rightarrow> 32)"
  by (cases f) (simp_all add: fdt_get_header_def fdt32_ld_def ld8_def ldb_def sample_tree_def tree_memory_def sample_dtb_def)

lemma sample_header: "fdt_check_header 0x1000 sample_tree = ret 0"
  by (simp add: fdt_check_header_def check_header_blocks_def fdt_header_size_def fdt_header_size'_def hdr_fields
      sample_get_header FDT_MAGIC_def check_off'_def check_block'_def INT_MAX_def)

lemma sample_hdr: "hdr sample_tree 0x1000 f = (case f of H_magic \<Rightarrow> 0xd00dfeed | H_totalsize \<Rightarrow> 90 | H_off_dt_struct \<Rightarrow> 56
     | H_off_dt_strings \<Rightarrow> 88 | H_off_mem_rsvmap \<Rightarrow> 40 | H_version \<Rightarrow> 17 | H_last_comp_version \<Rightarrow> 16
     | H_boot_cpuid_phys \<Rightarrow> 0 | H_size_dt_strings \<Rightarrow> 2 | H_size_dt_struct \<Rightarrow> 32)"
  by (simp add: hdr_def sample_get_header)

lemma tree_mapped: "n \<le> 90 \<Longrightarrow> mapped (tree_memory dtb) 0x1000 n"
  unfolding mapped_def
proof (intro allI impI)
  fix i assume "n \<le> 90" "i < n"
  then have "unat (word_of_nat i :: addr) = i" by (intro unat_of_nat64) simp
  then have "(word_of_nat i :: addr) < 90" using \<open>n \<le> 90\<close> \<open>i < n\<close> by (simp add: word_less_nat_alt)
  then show "tree_memory dtb (0x1000 + word_of_nat i) \<noteq> None" by (simp add: tree_memory_def)
qed

lemma sample_mapped: "n \<le> 90 \<Longrightarrow> mapped sample_tree 0x1000 n"
  by (simp add: sample_tree_def tree_mapped)

lemma sample_tree_ok: "tree_ok sample_tree 0x1000"
  using sample_mapped [of 40] sample_mapped [of 90] by (simp add: tree_ok_def sample_header sample_hdr)

text \<open>The length of a property is below 127 times 2 to the 24 when its top byte is below 127.\<close>

lemma fdt32_ld_top:
  assumes "fdt32_ld p m = ret w"
  shows "\<exists>b. m p = Some b \<and> unat w < (unat b + 1) * 2 ^ 24"
proof -
  obtain b0 b1 b2 b3 where b: "m p = Some b0"
    "w = push_bit 24 (ucast b0) OR push_bit 16 (ucast (b1 :: uint8)) OR push_bit 8 (ucast (b2 :: uint8)) OR ucast (b3 :: uint8)"
    using assms by (auto simp: fdt32_ld_def bindM_ret_iff ld8_def ldb_def split: option.splits)
  have "drop_bit 24 w = ucast b0"
    unfolding b(2) by (rule bit_word_eqI) (auto simp: bit_simps dest: bit_imp_le_length)
  then have "unat w div 2 ^ 24 = unat (ucast b0 :: uint32)" using unat_shiftr [of 24 w] by simp
  also have "\<dots> = unat b0"
    using unsigned_less [of b0, where ?'a = nat] by (simp add: unsigned_ucast_eq take_bit_nat_eq_self)
  finally have "unat w < (unat b0 + 1) * 2 ^ 24" by (simp add: div_less_iff_less_mult [symmetric])
  then show ?thesis using b(1) by blast
qed

lemma props_sane_small:
  assumes "\<And>k b. k < tree_size m fdt \<Longrightarrow> m (fdt + word_of_nat (struct_off m fdt + k + 4)) = Some b \<Longrightarrow> b < 127"
    and "tree_size m fdt \<le> 2 ^ 20"
  shows "props_sane m fdt"
  unfolding props_sane_def
proof (intro allI impI)
  fix k assume k: "k < tree_size m fdt"
  have "int k + 16 + uint len \<le> INT_MAX"
    if l: "fdt32_ld' (fdt + word_of_nat (struct_off m fdt + k + 4)) m = ret len" for len
  proof -
    obtain b where "m (fdt + word_of_nat (struct_off m fdt + k + 4)) = Some b" "unat len < (unat b + 1) * 2 ^ 24"
      using fdt32_ld_top l unfolding fdt32_ld_eq by blast
    moreover from this have "unat b < 127" using assms(1) [OF k] by (simp add: word_less_nat_alt)
    moreover from this have "(unat b + 1) * 2 ^ 24 \<le> 127 * 2 ^ 24" by (intro mult_le_mono1) simp
    ultimately have "unat len < 127 * 2 ^ 24" by linarith
    then have "len < 2130706432" by (simp add: word_less_nat_alt)
    then have "uint len < 2130706432" by (simp add: word_less_def)
    moreover have "tree_size m fdt \<le> 1048576" using assms(2) by simp
    ultimately show ?thesis using k unfolding INT_MAX_def by linarith
  qed
  then show "case (fdt32_ld' (fdt + word_of_nat (struct_off m fdt + k)) m, fdt32_ld' (fdt + word_of_nat (struct_off m fdt + k + 4)) m) of
       (Some (Inr tag), Some (Inr len)) \<Rightarrow> tag = FDT_PROP \<longrightarrow> int k + 16 + uint len \<le> INT_MAX | _ \<Rightarrow> True"
    by (auto split: option.splits sum.splits)
qed

lemma sample_dtb_length: "length sample_dtb = 90"
  by (simp add: sample_dtb_def)

lemma sample_bytes_small: "\<forall>b\<in>set (drop 60 sample_dtb). b < 127"
  by (simp add: sample_dtb_def)

lemma sample_sane: "props_sane sample_tree 0x1000"
proof (rule props_sane_small)
  show "tree_size sample_tree 0x1000 \<le> 2 ^ 20" by (simp add: sample_hdr)
  fix k b
  assume k: "k < tree_size sample_tree 0x1000"
    and b: "sample_tree (0x1000 + word_of_nat (struct_off sample_tree 0x1000 + k + 4)) = Some b"
  have s: "struct_off sample_tree 0x1000 = 56" by (simp add: sample_hdr)
  define i where "i = 56 + k + 4"
  have i: "unat (word_of_nat i :: addr) = i" using k by (intro unat_of_nat64) (simp add: sample_hdr i_def)
  have "sample_tree (0x1000 + word_of_nat i) = Some b" using b unfolding s i_def .
  then have b': "tree_memory sample_dtb (0x1000 + word_of_nat i) = Some b" by (simp only: sample_tree_def)
  show "b < 127"
  proof (cases "(word_of_nat i :: addr) < 90")
    case True
    then have "i < 90" using i by (simp add: word_less_nat_alt)
    then have "sample_dtb ! i = drop 60 sample_dtb ! k" "k < length (drop 60 sample_dtb)"
      using sample_dtb_length by (simp_all add: i_def)
    moreover have "b = sample_dtb ! i" using b' True i by (simp add: tree_memory_def)
    ultimately show ?thesis using sample_bytes_small nth_mem by metis
  next
    case False
    then show ?thesis using b' by (auto simp: tree_memory_def split: if_splits)
  qed
qed

lemma sample_version: "16 \<le> hdr sample_tree 0x1000 H_version"
  by (simp add: sample_hdr)

section \<open>Properties\<close>

text \<open>C22. Reading a tag is safe. On a tree whose header passes \<^verbatim>\<open>fdt_check_header\<close>, whose bytes are mapped and
  whose property lengths are sane, \<^verbatim>\<open>fdt_next_tag\<close> returns at every offset, with no access outside the tree and no
  overflow: either the end with a negative next offset, or a tag whose next offset is at least 4 further, 4-aligned
  and, but for up to 3 bytes of alignment, still within the tree.\<close>

theorem fdt_next_tag_safe:
  assumes "tree_ok m fdt" "props_sane m fdt" "offset \<le> INT_MAX"
  shows "\<exists>tag nxt. fdt_next_tag fdt offset m = ret (tag, nxt) \<and>
    (tag = FDT_END \<and> nxt < 0 \<or>
     0 \<le> offset \<and> offset + 4 \<le> nxt \<and> nxt mod 4 = 0 \<and> struct_off m fdt + nat nxt \<le> tree_size m fdt + 3)"
  using next_tag_returns [OF assms] by (auto simp: tag_result_def)

theorem fdt_next_tag_safe_witness:
  "\<exists>tag nxt. fdt_next_tag 0x1000 0 sample_tree = ret (tag, nxt) \<and> (tag = FDT_END \<and> nxt < 0 \<or> 4 \<le> nxt)"
  using fdt_next_tag_safe [OF sample_tree_ok sample_sane, of 0] by (auto simp: INT_MAX_def)

text \<open>C24. Walking the nodes ends. On such a tree \<^verbatim>\<open>fdt_next_node\<close> returns from every offset up to \<open>INT_MAX - 24\<close>, where every node lies,
  whether or not it counts depth (from a depth that is not negative and below \<open>INT_MAX\<close>), and an offset it returns is strictly after the one it was given; \<^verbatim>\<open>fdt_next_subnode\<close> therefore returns too.\<close>

theorem fdt_next_node_progress:
  assumes "tree_ok m fdt" "props_sane m fdt" "offset \<le> INT_MAX - 24"
    and "\<And>d. depth = Some d \<Longrightarrow> 0 \<le> d \<and> d < INT_MAX"
  shows "(\<exists>o' depth'. fdt_next_node fdt offset depth m = ret (o', depth') \<and> (0 \<le> o' \<longrightarrow> offset < o' \<and> o' \<le> INT_MAX - 24)) \<and>
    (\<exists>r. fdt_next_subnode fdt offset m = ret r \<and> (0 \<le> r \<longrightarrow> offset < r))"
proof
  obtain o' depth' where "fdt_next_node fdt offset depth m = ret (o', depth')" "node_result m fdt (offset + 1) depth o' depth'"
    using next_node_returns [OF assms(1,2), of offset depth] assms(3,4) by (auto simp: depth_ok_def)
  then show "\<exists>o' depth'. fdt_next_node fdt offset depth m = ret (o', depth') \<and> (0 \<le> o' \<longrightarrow> offset < o' \<and> o' \<le> INT_MAX - 24)"
    by (auto simp: node_result_def)
  show "\<exists>r. fdt_next_subnode fdt offset m = ret r \<and> (0 \<le> r \<longrightarrow> offset < r)"
    unfolding fdt_next_subnode_def using assms(1-3) by (intro next_subnode_loop_returns) auto
qed

theorem fdt_next_node_progress_witness:
  "(\<exists>o' depth'. fdt_next_node 0x1000 (- 1) None sample_tree = ret (o', depth') \<and> (0 \<le> o' \<longrightarrow> - 1 < o' \<and> o' \<le> INT_MAX - 24)) \<and>
    (\<exists>r. fdt_next_subnode 0x1000 (- 1) sample_tree = ret r \<and> (0 \<le> r \<longrightarrow> - 1 < r))"
  by (rule fdt_next_node_progress [OF sample_tree_ok sample_sane]) (simp_all add: INT_MAX_def)

text \<open>C23. A property value is where the library says it is. On such a tree of version 16 or later,
  \<^verbatim>\<open>fdt_getprop_namelen\<close> returns for every node offset and every mapped name: either NULL with a negative code,
  or the value of a property of the tree whose name has the given characters, with all its bytes inside the tree and
  its length in \<^verbatim>\<open>*lenp\<close>.\<close>

theorem fdt_getprop_in_tree:
  assumes "tree_ok m fdt" "props_sane m fdt" "16 \<le> hdr m fdt H_version" "mapped m name (nat namelen)" "offset \<le> INT_MAX"
  shows "\<exists>p len. fdt_getprop_namelen fdt offset name namelen m = ret (p, len) \<and>
    (p = 0 \<and> len < 0 \<or>
     (\<exists>po n. p = prop_addr m fdt po + 12 \<and> len = int n \<and> prop_in_tree m fdt po n \<and> prop_named m fdt po name namelen))"
  using assms by (rule getprop_namelen_returns)

theorem fdt_getprop_in_tree_witness:
  "\<exists>p len. fdt_getprop_namelen 0x1000 0 0x2000 1 sample_tree = ret (p, len) \<and>
    (p = 0 \<and> len < 0 \<or> (\<exists>po n. p = prop_addr sample_tree 0x1000 po + 12 \<and> len = int n \<and>
       prop_in_tree sample_tree 0x1000 po n \<and> prop_named sample_tree 0x1000 po 0x2000 1))"
proof (rule fdt_getprop_in_tree [OF sample_tree_ok sample_sane])
  show "16 \<le> hdr sample_tree 0x1000 H_version" by (simp add: sample_hdr)
  show "mapped sample_tree 0x2000 (nat 1)" by (simp add: mapped_def sample_tree_def tree_memory_def)
qed (simp add: INT_MAX_def)

text \<open>C25. Names and strings are terminated and inside the tree: on such a tree \<^verbatim>\<open>fdt_get_string\<close> and, from version 16 on,
  \<^verbatim>\<open>fdt_get_name\<close> return NULL with a negative code, or a pointer to a string that ends before the tree does, with its
  length.\<close>

theorem fdt_strings_in_tree:
  assumes "tree_ok m fdt" "props_sane m fdt" "16 \<le> hdr m fdt H_version" "nodeoffset \<le> INT_MAX"
  shows "(\<exists>p len. fdt_get_string fdt stroffset m = ret (p, len) \<and>
      (p = 0 \<and> len < 0 \<or> p \<noteq> 0 \<and> (\<exists>cs. string_at m fdt p cs \<and> len = int (length cs)))) \<and>
    (\<exists>p len. fdt_get_name fdt nodeoffset m = ret (p, len) \<and>
      (p = 0 \<and> len < 0 \<or> p \<noteq> 0 \<and> (\<exists>cs. string_at m fdt p cs \<and> len = int (length cs))))"
  using get_string_returns [OF assms(1)] get_name_returns [OF assms(1,2,4,3)] by blast

theorem fdt_strings_in_tree_witness:
  "(\<exists>p len. fdt_get_string 0x1000 0 sample_tree = ret (p, len) \<and>
      (p = 0 \<and> len < 0 \<or> p \<noteq> 0 \<and> (\<exists>cs. string_at sample_tree 0x1000 p cs \<and> len = int (length cs)))) \<and>
    (\<exists>p len. fdt_get_name 0x1000 0 sample_tree = ret (p, len) \<and>
      (p = 0 \<and> len < 0 \<or> p \<noteq> 0 \<and> (\<exists>cs. string_at sample_tree 0x1000 p cs \<and> len = int (length cs))))"
  by (rule fdt_strings_in_tree [OF sample_tree_ok sample_sane]) (simp_all add: sample_hdr INT_MAX_def)

text \<open>C26. The search for a phandle ends and is right: for a phandle other than 0 and -1 the walk of
  \<^verbatim>\<open>fdt_node_offset_by_phandle\<close> over such a tree returns, and a nonnegative result is a node whose phandle is the
  one looked for.\<close>

theorem fdt_by_phandle_returns:
  assumes "tree_ok m fdt" "props_sane m fdt" "16 \<le> hdr m fdt H_version"
    and "lit ''phandle'' \<noteq> 0" "cstr m (lit ''phandle'') cs" "int (length cs) \<le> INT_MAX"
    and "lit ''linux,phandle'' \<noteq> 0" "cstr m (lit ''linux,phandle'') ds" "int (length ds) \<le> INT_MAX"
    and "phandle \<noteq> 0" "phandle \<noteq> NOT 0"
  shows "\<exists>r. fdt_node_offset_by_phandle lit fdt phandle m = ret r \<and>
    (0 \<le> r \<longrightarrow> fdt_get_phandle lit fdt r m = ret phandle)"
proof -
  have ph: "\<exists>h. fdt_get_phandle lit fdt offset m = ret h" if "offset \<le> INT_MAX" for offset
    using get_phandle_returns [OF assms(1-3) that assms(4-9)] .
  obtain r where r: "by_phandle_loop lit fdt (- 1) phandle m = ret r"
    "0 \<le> r \<longrightarrow> fdt_get_phandle lit fdt r m = ret phandle"
    using by_phandle_loop_returns [OF assms(1,2) _ ph, of "- 1"] by (auto simp: INT_MAX_def)
  obtain pr where pr: "fdt_ro_probe' fdt m = ret pr" "pr < 0 \<or> pr = int (tree_size m fdt)"
    using ro_probe_returns [OF assms(1)] by blast
  show ?thesis
  proof (cases "pr < 0")
    case True
    then show ?thesis using pr(1) assms(10,11) by (simp add: fdt_node_offset_by_phandle_def)
  next
    case False
    then show ?thesis using pr(1) r assms(10,11) by (simp add: fdt_node_offset_by_phandle_def)
  qed
qed

theorem fdt_by_phandle_returns_witness:
  "\<exists>r. fdt_node_offset_by_phandle sample_lit 0x1000 5 sample_tree = ret r \<and>
    (0 \<le> r \<longrightarrow> fdt_get_phandle sample_lit 0x1000 r sample_tree = ret 5)"
  by (rule fdt_by_phandle_returns [OF sample_tree_ok sample_sane sample_version, where cs = "[112, 104, 97, 110, 100, 108, 101]"
      and ds = "[108, 105, 110, 117, 120, 44, 112, 104, 97, 110, 100, 108, 101]"])
    (simp_all add: sample_lit_def sample_tree_def tree_memory_def INT_MAX_def)

definition overflow_tree :: memory where
  "overflow_tree = tree_memory (sample_dtb[68 := 127, 69 := 255, 70 := 255, 71 := 242])"

lemma overflow_get_header:
  "fdt_get_header 0x1000 f overflow_tree = ret (case f of H_magic \<Rightarrow> 0xd00dfeed | H_totalsize \<Rightarrow> 90 | H_off_dt_struct \<Rightarrow> 56
     | H_off_dt_strings \<Rightarrow> 88 | H_off_mem_rsvmap \<Rightarrow> 40 | H_version \<Rightarrow> 17 | H_last_comp_version \<Rightarrow> 16
     | H_boot_cpuid_phys \<Rightarrow> 0 | H_size_dt_strings \<Rightarrow> 2 | H_size_dt_struct \<Rightarrow> 32)"
  by (cases f) (simp_all add: fdt_get_header_def fdt32_ld_def ld8_def ldb_def overflow_tree_def tree_memory_def sample_dtb_def)

lemma overflow_words:
  "fdt32_ld 0x1040 overflow_tree = ret 3" "fdt32_ld 0x1044 overflow_tree = ret 0x7ffffff2"
  by (simp_all add: fdt32_ld_def ld8_def ldb_def overflow_tree_def tree_memory_def sample_dtb_def)

lemma overflow_tree_ok: "tree_ok overflow_tree 0x1000"
proof -
  have "fdt_check_header 0x1000 overflow_tree = ret 0"
    by (simp add: fdt_check_header_def check_header_blocks_def fdt_header_size_def fdt_header_size'_def hdr_fields
        overflow_get_header FDT_MAGIC_def check_off'_def check_block'_def INT_MAX_def)
  moreover have "mapped overflow_tree 0x1000 40" "mapped overflow_tree 0x1000 90" by (simp_all add: overflow_tree_def tree_mapped)
  ultimately show ?thesis by (simp add: tree_ok_def hdr_def overflow_get_header)
qed

text \<open>The test of a property's length, and the end of the property, as integers.\<close>

lemma tag_prop_sum:
  fixes len :: uint32
  assumes "0 \<le> start" "start + 32 \<le> INT_MAX"
  shows "INT_MAX \<le> uint (len + word_of_int (start + 4)) \<or> len + word_of_int (start + 4) < word_of_int (start + 4) \<longleftrightarrow>
    INT_MAX \<le> start + 4 + uint len"
proof -
  let ?o = "word_of_int (start + 4) :: uint32"
  have o: "unat ?o = nat (start + 4)" using assms by (intro unat_int32) auto
  have l: "unat len < 2 ^ 32" using unsigned_less [of len] by simp
  have s: "unat (len + ?o) = (if unat len + unat ?o < 2 ^ 32 then unat len + unat ?o else unat len + unat ?o - 2 ^ 32)"
    by (simp add: unat_plus_if')
  obtain x y :: nat where x: "unat (len + ?o) = x" "uint (len + ?o) = int x" "unat len = y" "uint len = int y" by simp
  show ?thesis using s l assms unfolding word_less_nat_alt x o INT_MAX_def by (auto split: if_splits)
qed

lemma prop_end_overflow:
  fixes len :: uint32
  assumes "0 \<le> start" "start + 32 \<le> INT_MAX"
  shows "start + 4 + uint len < INT_MAX \<and> isub (i32 (start + 12 + uint len)) start = Some (Inl Undefined) \<longleftrightarrow>
    start + 4 + uint len < INT_MAX \<and> INT_MAX < start + 12 + uint len \<and> uint len + 12 \<le> INT_MAX"
proof -
  let ?x = "start + 12 + uint len"
  have "i32 ?x = ?x" if "?x \<le> INT_MAX" using that assms(1) by (intro i32_id) (auto simp: INT_MIN_def)
  moreover have "i32 ?x = ?x - 2 ^ 32" if "INT_MAX < ?x" "?x < INT_MAX + 8"
  proof -
    have "i32 ?x = (?x - 2 ^ 32 + 2 ^ 31 + 2 ^ 32) mod 2 ^ 32 - 2 ^ 31" by (simp add: i32_def)
    also have "\<dots> = (?x - 2 ^ 32 + 2 ^ 31) mod 2 ^ 32 - 2 ^ 31" by (simp only: mod_add_self2)
    also have "\<dots> = ?x - 2 ^ 32" using that unfolding INT_MAX_def by (subst mod_pos_pos_trivial) simp_all
    finally show ?thesis .
  qed
  moreover have "0 \<le> uint len" by simp
  ultimately show ?thesis using assms
    by (cases "?x \<le> INT_MAX") (auto simp: isub_def iadd_def INT_MIN_def INT_MAX_def split: if_splits)
qed

text \<open>C28. The header check does not rule out a signed overflow, and this is exactly where it happens: on a tree that passes
  \<^verbatim>\<open>fdt_check_header\<close>, of version 16 or later, \<^verbatim>\<open>fdt_next_tag\<close> at a property tag whose length field can be read is
  undefined if and only if the length passes the test against \<^verbatim>\<open>INT_MAX\<close>, takes the offset past it once the 8 bytes the test leaves
  out are added, and \<^verbatim>\<open>offset - startoffset\<close> then lies below the smallest \<^verbatim>\<open>int\<close>.\<close>

theorem fdt_next_tag_overflow:
  assumes "tree_ok m fdt" "16 \<le> hdr m fdt H_version" "start \<le> INT_MAX"
    and tag: "fdt_offset_ptr fdt start 4 m = ret tagp" "tagp \<noteq> 0" "fdt32_ld' tagp m = ret FDT_PROP"
    and len: "fdt_offset_ptr fdt (start + 4) 4 m = ret lenp" "lenp \<noteq> 0" "fdt32_ld' lenp m = ret len"
  shows "fdt_next_tag fdt start m = Some (Inl Undefined) \<longleftrightarrow>
    start + 4 + uint len < INT_MAX \<and> INT_MAX < start + 12 + uint len \<and> uint len + 12 \<le> INT_MAX"
proof -
  note t = tree_okD [OF assms(1)]
  have q: "0 \<le> start" "struct_off m fdt + nat start + 4 \<le> tree_size m fdt"
    using offset_ptr_cases [OF assms(1,3), of 4] tag(1,2) by auto
  then have s: "0 \<le> start" "start + 32 \<le> INT_MAX" using t(3,4) by linarith+
  have i: "i32 (start + FDT_TAGSIZE) = start + 4" using s by (subst i32_id) (auto simp: INT_MIN_def)
  have v: "\<not> hdr m fdt H_version < 16" using assms(2) by simp
  let ?e = "i32 (start + 12 + uint len)"
  have body: "tag_body fdt FDT_PROP (start + 4) m = ret (if start + 4 + uint len < INT_MAX then Some ?e else None)"
    using len v tag_prop_sum [OF s, of len] t(1)
    by (simp add: tag_body_def hdr_fields get_header Let_def not_less [where 'a = int] add.commute add.left_commute)
  have ptr: "\<exists>p. fdt_offset_ptr fdt start w m = ret p" for w
    using offset_ptr_cases [OF assms(1,3)] by blast
  have "fdt_next_tag fdt start m = Some (Inl Undefined) \<longleftrightarrow>
      start + 4 + uint len < INT_MAX \<and> isub ?e start = Some (Inl Undefined)"
    using ptr [of "word_of_int (?e + - start)"] tag(2) unfolding fdt_next_tag_def tag(1) bindM_simps tag(3) i body
    by (auto simp: isub_def iadd_def simp del: add_uminus_conv_diff split: if_splits)
  also have "\<dots> \<longleftrightarrow> start + 4 + uint len < INT_MAX \<and> INT_MAX < start + 12 + uint len \<and> uint len + 12 \<le> INT_MAX"
    using prop_end_overflow [OF s] by blast
  finally show ?thesis .
qed

theorem fdt_next_tag_overflow_witness:
  "fdt_check_header 0x1000 overflow_tree = ret 0 \<and> fdt_next_tag 0x1000 8 overflow_tree = Some (Inl Undefined)"
proof -
  have "fdt_offset_ptr 0x1000 8 4 overflow_tree = ret 0x1040" "fdt_offset_ptr 0x1000 (8 + 4) 4 overflow_tree = ret 0x1044"
    by (simp_all add: fdt_offset_ptr_def fdt_offset_ptr'_def hdr_fields overflow_get_header)
  moreover have "fdt32_ld' 0x1040 overflow_tree = ret FDT_PROP" "fdt32_ld' 0x1044 overflow_tree = ret 0x7ffffff2"
    by (simp_all add: fdt32_ld_eq overflow_words)
  moreover have "16 \<le> hdr overflow_tree 0x1000 H_version" by (simp add: hdr_def overflow_get_header)
  ultimately have "fdt_next_tag 0x1000 8 overflow_tree = Some (Inl Undefined)"
    using fdt_next_tag_overflow [OF overflow_tree_ok, of 8 "0x1040" "0x1044" "0x7ffffff2"] by (simp add: INT_MAX_def)
  then show ?thesis using overflow_tree_ok by (simp add: tree_ok_def)
qed

text \<open>C27. A header field reads back what was written: writing one field of a mapped header succeeds, and reading any
  field afterwards gives the value written or, for the nine others, the value it had.\<close>

theorem fdt_header_roundtrip:
  assumes "mapped m fdt 40"
  shows "\<exists>m'. fdt_set_hdr f fdt v m = ret m' \<and> mapped m' fdt 40 \<and>
    (\<forall>g. fdt_get_header fdt g m' = (if g = f then ret v else fdt_get_header fdt g m))"
  using set_hdr_stored [OF assms, of f v] get_set_hdr [OF assms] get_header [OF assms] stored32_mapped [OF assms]
  by auto

theorem fdt_header_roundtrip_witness:
  "\<exists>m'. fdt_set_hdr H_totalsize 0x1000 128 sample_tree = ret m' \<and> mapped m' 0x1000 40 \<and>
    (\<forall>g. fdt_get_header 0x1000 g m' = (if g = H_totalsize then ret 128 else fdt_get_header 0x1000 g sample_tree))"
  by (rule fdt_header_roundtrip) (simp add: sample_mapped)

text \<open>A finished tree is closed to the sequential writer: once the magic number is that of a complete tree, every
  writing operation of fdt_sw.c refuses with \<^verbatim>\<open>FDT_ERR_BADSTATE\<close> and leaves memory alone.\<close>

theorem fdt_sw_complete_refuses:
  assumes "mapped m fdt 40" "hdr m fdt H_magic = FDT_MAGIC"
  shows "fdt_add_reservemap_entry fdt address sz m = ret (- FDT_ERR_BADSTATE, m) \<and>
    fdt_finish_reservemap fdt m = ret (- FDT_ERR_BADSTATE, m) \<and>
    fdt_begin_node fdt name m = ret (- FDT_ERR_BADSTATE, m) \<and> fdt_end_node fdt m = ret (- FDT_ERR_BADSTATE, m) \<and>
    fdt_property fdt name val len m = ret (- FDT_ERR_BADSTATE, m) \<and> fdt_finish fdt m = ret (- FDT_ERR_BADSTATE, m) \<and>
    fdt_resize fdt buf bufsize m = ret (- FDT_ERR_BADSTATE, m)"
proof -
  have p: "fdt_sw_probe' fdt m = ret (- FDT_ERR_BADSTATE)"
    using assms by (simp add: fdt_sw_probe'_def hdr_fields get_header)
  then have "fdt_sw_probe_memrsv' fdt m = ret (- FDT_ERR_BADSTATE)" "fdt_sw_probe_struct' fdt m = ret (- FDT_ERR_BADSTATE)"
    by (simp_all add: fdt_sw_probe_memrsv'_def fdt_sw_probe_struct'_def)
  with p show ?thesis
    by (simp add: fdt_add_reservemap_entry_def fdt_finish_reservemap_def fdt_begin_node_def fdt_end_node_def
        fdt_property_def fdt_property_placeholder_def fdt_finish_def fdt_resize_def)
qed

theorem fdt_sw_complete_refuses_witness:
  "fdt_add_reservemap_entry 0x1000 0 0 sample_tree = ret (- FDT_ERR_BADSTATE, sample_tree) \<and>
   fdt_finish 0x1000 sample_tree = ret (- FDT_ERR_BADSTATE, sample_tree)"
  using fdt_sw_complete_refuses [of sample_tree "0x1000" 0 0 "0x2000" "0x2000" 0 "0x3000" 0]
  by (simp add: sample_mapped sample_hdr FDT_MAGIC_def)

lemma hdr_stored:
  assumes "mapped m fdt 40"
  shows "hdr (stored32 m (fdt + header_field f) v) fdt g = (if g = f then v else hdr m fdt g)"
  using get_set_hdr [OF assms, of g f v] by (simp add: hdr_def)

lemma hdr_fill:
  assumes "40 \<le> n"
  shows "hdr (fill m fdt 0 n) fdt f = 0"
proof -
  have "fill m fdt 0 n (fdt + header_field f + word_of_nat i) = Some 0" if "i < 4" for i
  proof -
    have "unat (header_field f + word_of_nat i) = unat (header_field f) + i"
      using that field_word(2) [of f] by (intro off_less [where n = 4]) auto
    then show ?thesis using that header_field_less [of f] assms by (simp add: fill_def add.assoc)
  qed
  from this [of 0] this [of 1] this [of 2] this [of 3] show ?thesis
    by (simp add: hdr_def fdt_get_header_def fdt32_ld_def ld8_def)
qed

text \<open>Creating a tree sets up the writer's first state: in a mapped buffer of at least 48 bytes, with flags the
  library knows, \<^verbatim>\<open>fdt_create_with_flags\<close> succeeds and leaves a header with the writer's magic number, the buffer's
  size, empty structure and string blocks after the header, and the flags. That state accepts reservations and nothing
  that needs the structure state.\<close>

theorem fdt_create_state:
  assumes "mapped m buf (nat bufsize)" "48 \<le> bufsize" "bufsize \<le> INT_MAX" "flags AND NOT FDT_CREATE_FLAGS_ALL = 0"
  shows "\<exists>m'. fdt_create_with_flags buf bufsize flags m = ret (0, m') \<and> mapped m' buf (nat bufsize) \<and>
    (\<forall>f. hdr m' buf f = (case f of H_magic \<Rightarrow> FDT_SW_MAGIC | H_totalsize \<Rightarrow> word_of_int bufsize | H_off_dt_struct \<Rightarrow> 48
       | H_off_mem_rsvmap \<Rightarrow> 48 | H_version \<Rightarrow> 17 | H_last_comp_version \<Rightarrow> flags | _ \<Rightarrow> 0)) \<and>
    fdt_sw_probe_memrsv' buf m' = ret 0 \<and> fdt_sw_probe_struct' buf m' = ret (- FDT_ERR_BADSTATE)"
proof -
  have a: "FDT_ALIGN 40 16 = 48" "int_of_u64 48 = 48"
    by (simp_all add: FDT_ALIGN_def int_of_u64_def i32_def)
  have u: "unat (word_of_int bufsize :: ulong) = nat bufsize" using assms(2,3) by (intro unat_int64) (auto simp: INT_MAX_def)
  let ?m0 = "fill m buf 0 (nat bufsize)"
  have ms: "memset buf 0 (word_of_int bufsize) m = Inr (buf, ?m0)"
    using memset_loop_fill [OF assms(1), of 0] assms(3) by (simp add: memset_def u INT_MAX_def)
  define s where "s f v m = stored32 m (buf + header_field f) v" for f v and m :: memory
  have st: "fdt_set_hdr f buf v m = ret (s f v m)" if "mapped m buf 40" for f v m
    unfolding s_def using that by (rule set_hdr_stored)
  have mp: "mapped (s f v m) a n" if "mapped m a n" for f v m a n using that by (simp add: s_def)
  have hd: "hdr (s f v m) buf g = (if g = f then v else hdr m buf g)" if "mapped m buf 40" for f v m g
    unfolding s_def using that by (rule hdr_stored)
  have m0: "mapped ?m0 buf 40" "mapped ?m0 buf (nat bufsize)"
    using assms(1,2) mapped_sub [OF assms(1), of 0 40] by (auto intro: mapped_fill)
  have h0: "hdr ?m0 buf f = 0" for f using assms(2) by (intro hdr_fill) simp
  let ?m1 = "s H_off_mem_rsvmap 48 (s H_totalsize (word_of_int bufsize) (s H_last_comp_version flags
    (s H_version 17 (s H_magic FDT_SW_MAGIC ?m0))))"
  have rsv: "fdt_off_mem_rsvmap buf ?m1 = ret 48" using m0 by (simp add: hdr_fields get_header mp hd)
  define m2 where "m2 = s H_off_dt_strings 0 (s H_off_dt_struct 48 ?m1)"
  have run: "fdt_create_with_flags buf bufsize flags m = ret (0, m2)"
    using assms(2,4) ms rsv m0 by (simp add: fdt_create_with_flags_def Let_def a st mp m2_def)
  have m2: "mapped m2 buf 40" "mapped m2 buf (nat bufsize)" using m0 by (simp_all add: m2_def mp)
  have vals: "hdr m2 buf f = (case f of H_magic \<Rightarrow> FDT_SW_MAGIC | H_totalsize \<Rightarrow> word_of_int bufsize | H_off_dt_struct \<Rightarrow> 48
       | H_off_mem_rsvmap \<Rightarrow> 48 | H_version \<Rightarrow> 17 | H_last_comp_version \<Rightarrow> flags | _ \<Rightarrow> 0)" for f
    using m0 by (cases f) (simp_all add: m2_def mp hd h0)
  have nz: "(word_of_int bufsize :: uint32) \<noteq> 0" using assms(2,3) unat_int32 [of bufsize] by auto
  have "fdt_sw_probe' buf m2 = ret 0"
    using m2(1) by (simp add: fdt_sw_probe'_def hdr_fields get_header vals FDT_SW_MAGIC_def FDT_MAGIC_def)
  then have "fdt_sw_probe_memrsv' buf m2 = ret 0" "fdt_sw_probe_struct' buf m2 = ret (- FDT_ERR_BADSTATE)"
    using m2(1) nz by (simp_all add: fdt_sw_probe_memrsv'_def fdt_sw_probe_struct'_def hdr_fields get_header vals)
  then show ?thesis using run m2(2) vals by blast
qed

theorem fdt_create_state_witness:
  "\<exists>m'. fdt_create_with_flags 0x1000 90 1 sample_tree = ret (0, m') \<and> hdr m' 0x1000 H_magic = FDT_SW_MAGIC \<and>
    fdt_sw_probe_memrsv' 0x1000 m' = ret 0"
proof -
  have "\<exists>m'. fdt_create_with_flags 0x1000 90 1 sample_tree = ret (0, m') \<and> mapped m' 0x1000 (nat 90) \<and>
    (\<forall>f. hdr m' 0x1000 f = (case f of H_magic \<Rightarrow> FDT_SW_MAGIC | H_totalsize \<Rightarrow> word_of_int 90 | H_off_dt_struct \<Rightarrow> 48
       | H_off_mem_rsvmap \<Rightarrow> 48 | H_version \<Rightarrow> 17 | H_last_comp_version \<Rightarrow> 1 | _ \<Rightarrow> 0)) \<and>
    fdt_sw_probe_memrsv' 0x1000 m' = ret 0 \<and> fdt_sw_probe_struct' 0x1000 m' = ret (- FDT_ERR_BADSTATE)"
    by (rule fdt_create_state)
      (simp_all add: sample_mapped INT_MAX_def FDT_CREATE_FLAGS_ALL_def FDT_CREATE_FLAG_NO_NAME_DEDUP_def)
  then show ?thesis by auto
qed

end
