(* ===== verification/Sbi.thy ===== *)
theory Sbi
  imports Prelude
begin

text \<open>
  \<^verbatim>\<open>kernel/asm/sbi.c\<close> and the constants of \<^verbatim>\<open>kernel/include/asm/sbi.h\<close>: the calls into the firmware. What the
  instruction \<^verbatim>\<open>ecall\<close> does belongs to the firmware: it is a parameter that takes the registers \<^verbatim>\<open>a0\<close> to
  \<^verbatim>\<open>a7\<close> and a state to the new \<^verbatim>\<open>a0\<close> and \<^verbatim>\<open>a1\<close> and the new state.
\<close>

type_synonym 's firmware = "uint64 list \<Rightarrow> 's \<Rightarrow> uint64 \<times> uint64 \<times> 's"

record sbiret =
  sbi_error :: uint64
  sbi_value :: uint64

definition SBI_LEGACY_EXT_PUTCHAR :: uint32 where "SBI_LEGACY_EXT_PUTCHAR = 0x01"
definition SBI_LEGACY_EXT_GETCHAR :: uint32 where "SBI_LEGACY_EXT_GETCHAR = 0x02"
definition SBI_TIMER_EXT :: uint32 where "SBI_TIMER_EXT = 0x54494D45"
definition SBI_HSM_EXT :: uint32 where "SBI_HSM_EXT = 0x48534D"
definition SBI_SRST_EXT :: uint32 where "SBI_SRST_EXT = 0x53525354"
definition SBI_DBCN_EXT :: uint32 where "SBI_DBCN_EXT = 0x4442434E"

definition SBI_TIMER_SET_TIMER :: uint32 where "SBI_TIMER_SET_TIMER = 0"
definition SBI_HSM_HART_START :: uint32 where "SBI_HSM_HART_START = 0"
definition SBI_HSM_HART_STOP :: uint32 where "SBI_HSM_HART_STOP = 1"
definition SBI_HSM_HART_GET_STATUS :: uint32 where "SBI_HSM_HART_GET_STATUS = 2"
definition SBI_HSM_HART_SUSPEND :: uint32 where "SBI_HSM_HART_SUSPEND = 3"
definition SBI_SRST_SYSTEM_RESET_FID :: uint32 where "SBI_SRST_SYSTEM_RESET_FID = 0"
definition SBI_DBCN_CONSOLE_WRITE :: uint32 where "SBI_DBCN_CONSOLE_WRITE = 0"
definition SBI_DBCN_CONSOLE_READ :: uint32 where "SBI_DBCN_CONSOLE_READ = 1"
definition SBI_DBCN_CONSOLE_WRITE_BYTE :: uint32 where "SBI_DBCN_CONSOLE_WRITE_BYTE = 2"

text \<open>The numbers of the extension and of the function are \<^verbatim>\<open>int\<close>s: widening them extends the sign.\<close>

definition sbi_ecall ::
  "'s firmware \<Rightarrow> uint32 \<Rightarrow> uint32 \<Rightarrow> ulong \<Rightarrow> ulong \<Rightarrow> ulong \<Rightarrow> ulong \<Rightarrow> ulong \<Rightarrow> ulong \<Rightarrow> 's \<Rightarrow> sbiret \<times> 's" where
  "sbi_ecall ec eid fid arg0 arg1 arg2 arg3 arg4 arg5 s =
     (let (a0, a1, s) = ec [arg0, arg1, arg2, arg3, arg4, arg5, scast fid, scast eid] s
      in (\<lparr>sbi_error = a0, sbi_value = a1\<rparr>, s))"

definition sbi_set_timer :: "'s firmware \<Rightarrow> uint64 \<Rightarrow> 's \<Rightarrow> sbiret \<times> 's" where
  "sbi_set_timer ec stime_value s = sbi_ecall ec SBI_TIMER_EXT SBI_TIMER_SET_TIMER stime_value 0 0 0 0 0 s"

definition sbi_hsm_hart_start :: "'s firmware \<Rightarrow> ulong \<Rightarrow> ulong \<Rightarrow> ulong \<Rightarrow> 's \<Rightarrow> sbiret \<times> 's" where
  "sbi_hsm_hart_start ec hartid start_addr opaque s =
     sbi_ecall ec SBI_HSM_EXT SBI_HSM_HART_START hartid start_addr opaque 0 0 0 s"

definition sbi_hsm_hart_stop :: "'s firmware \<Rightarrow> 's \<Rightarrow> sbiret \<times> 's" where
  "sbi_hsm_hart_stop ec s = sbi_ecall ec SBI_HSM_EXT SBI_HSM_HART_STOP 0 0 0 0 0 0 s"

definition sbi_hsm_hart_get_status :: "'s firmware \<Rightarrow> ulong \<Rightarrow> 's \<Rightarrow> sbiret \<times> 's" where
  "sbi_hsm_hart_get_status ec hartid s = sbi_ecall ec SBI_HSM_EXT SBI_HSM_HART_GET_STATUS hartid 0 0 0 0 0 s"

definition sbi_hsm_hart_suspend :: "'s firmware \<Rightarrow> uint32 \<Rightarrow> ulong \<Rightarrow> ulong \<Rightarrow> 's \<Rightarrow> sbiret \<times> 's" where
  "sbi_hsm_hart_suspend ec suspend_type resume_addr opaque s =
     sbi_ecall ec SBI_HSM_EXT SBI_HSM_HART_SUSPEND (ucast suspend_type) resume_addr opaque 0 0 0 s"

definition sbi_srst_system_reset :: "'s firmware \<Rightarrow> uint32 \<Rightarrow> uint32 \<Rightarrow> 's \<Rightarrow> sbiret \<times> 's" where
  "sbi_srst_system_reset ec reset_type reset_reason s =
     sbi_ecall ec SBI_SRST_EXT SBI_SRST_SYSTEM_RESET_FID (ucast reset_type) (ucast reset_reason) 0 0 0 0 s"

definition sbi_legacy_console_putchar :: "'s firmware \<Rightarrow> uint32 \<Rightarrow> 's \<Rightarrow> uint64 \<times> 's" where
  "sbi_legacy_console_putchar ec ch s =
     (let (r, s) = sbi_ecall ec SBI_LEGACY_EXT_PUTCHAR 0 (scast ch) 0 0 0 0 0 s in (sbi_error r, s))"

definition sbi_legacy_console_getchar :: "'s firmware \<Rightarrow> 's \<Rightarrow> uint64 \<times> 's" where
  "sbi_legacy_console_getchar ec s =
     (let (r, s) = sbi_ecall ec SBI_LEGACY_EXT_GETCHAR 0 0 0 0 0 0 0 s in (sbi_error r, s))"

definition sbi_debug_console_write :: "'s firmware \<Rightarrow> ulong \<Rightarrow> ulong \<Rightarrow> ulong \<Rightarrow> 's \<Rightarrow> sbiret \<times> 's" where
  "sbi_debug_console_write ec num_bytes base_addr_lo base_addr_hi s =
     sbi_ecall ec SBI_DBCN_EXT SBI_DBCN_CONSOLE_WRITE num_bytes base_addr_lo base_addr_hi 0 0 0 s"

definition sbi_debug_console_read :: "'s firmware \<Rightarrow> ulong \<Rightarrow> ulong \<Rightarrow> ulong \<Rightarrow> 's \<Rightarrow> sbiret \<times> 's" where
  "sbi_debug_console_read ec num_bytes base_addr_lo base_addr_hi s =
     sbi_ecall ec SBI_DBCN_EXT SBI_DBCN_CONSOLE_READ num_bytes base_addr_lo base_addr_hi 0 0 0 s"

definition sbi_debug_console_write_byte :: "'s firmware \<Rightarrow> uint8 \<Rightarrow> 's \<Rightarrow> sbiret \<times> 's" where
  "sbi_debug_console_write_byte ec b s = sbi_ecall ec SBI_DBCN_EXT SBI_DBCN_CONSOLE_WRITE_BYTE (ucast b) 0 0 0 0 0 s"

end
