(* ===== verification/Uart_Io.thy ===== *)
theory Uart_Io
  imports Runs
begin

text \<open>
  \<^verbatim>\<open>kernel/device/hal/uart_io.c\<close>: the list of serial devices. The routines of a driver are function values over
  a state \<open>'s\<close>; a \<^verbatim>\<open>char\<close> is an unsigned byte, as it is on RISC-V.
\<close>

record 's hal_uart_device_struct =
  u_dev :: addr
  u_write :: "addr \<Rightarrow> uint8 \<Rightarrow> 's \<Rightarrow> 's run"
  u_read :: "addr \<Rightarrow> 's \<Rightarrow> (uint8 \<times> 's) run"
  u_next :: addr

text \<open>\<open>dev_list\<close> is the address of the head of the list.\<close>

record 's hal_uart_manager =
  udevs :: "addr \<Rightarrow> 's hal_uart_device_struct"
  dev_list :: addr

definition hal_uart_register_device :: "addr \<Rightarrow> 's hal_uart_manager \<Rightarrow> int \<times> 's hal_uart_manager" where
  "hal_uart_register_device dev um =
     (if dev = 0 then (- 1, um)
      else
        let h = udevs um;
            h = h(dev := (h dev)\<lparr>u_next := u_next (h (dev_list um))\<rparr>);
            h = h(dev_list um := (h (dev_list um))\<lparr>u_next := dev\<rparr>)
        in (0, um\<lparr>udevs := h\<rparr>))"

partial_function (option) find_udev :: "'s hal_uart_manager \<Rightarrow> addr \<Rightarrow> addr \<Rightarrow> addr run" where
  "find_udev um dev udev =
     (if udev = 0 then ret 0
      else if u_dev (udevs um udev) = dev then ret udev
      else find_udev um dev (u_next (udevs um udev)))"

definition hal_uart_find_device :: "'s hal_uart_manager \<Rightarrow> addr \<Rightarrow> addr run" where
  "hal_uart_find_device um dev = find_udev um dev (u_next (udevs um (dev_list um)))"

definition hal_uart_write :: "'s hal_uart_manager \<Rightarrow> addr \<Rightarrow> uint8 \<Rightarrow> 's \<Rightarrow> 's run" where
  "hal_uart_write um dev c s =
     bindM (hal_uart_find_device um dev) (\<lambda>udev.
     if udev = 0 then ret s else u_write (udevs um udev) dev c s)"

text \<open>The answer -1 is the character 0xff.\<close>

definition hal_uart_read :: "'s hal_uart_manager \<Rightarrow> addr \<Rightarrow> 's \<Rightarrow> (uint8 \<times> 's) run" where
  "hal_uart_read um dev s =
     bindM (hal_uart_find_device um dev) (\<lambda>udev.
     if udev = 0 then ret (- 1, s) else u_read (udevs um udev) dev s)"

end
