(* ===== verification/Object.thy ===== *)
theory Object
  imports Page_Alloc Runs
begin

text \<open>
  \<^verbatim>\<open>kernel/memory/object.c\<close>: the object allocator. The structures it keeps in memory are heaps by
  type: \<open>headers\<close> holds every \<^verbatim>\<open>struct kmem_object_header_struct\<close>, \<open>blocks\<close> and \<open>managers\<close> the blocks
  and the managers. The two list heads a block embeds are the headers at its own address
  (\<^verbatim>\<open>free_slots\<close>) and 24 bytes above it (\<^verbatim>\<open>allocated_slots\<close>). The loops that follow pointers or step
  through a block may not end on a broken heap; the operations that contain one are runs.
\<close>

section \<open>State\<close>

definition OBJECT_ALIGNMENT :: ulong where
  "OBJECT_ALIGNMENT = 8"

record object_header =
  parent_block :: addr
  h_prv :: addr
  h_nxt :: addr

type_synonym header_heap = "addr \<Rightarrow> object_header"

record object_block =
  b_nxt :: addr
  b_used :: ulong
  b_total :: ulong
  b_object_size :: ulong
  page_count :: ulong
  parent_manager :: addr

record object_manager =
  block_name :: string
  object_size :: ulong
  mgr_lock :: spinlock
  mgr_blocks :: addr
  mgr_nxt :: addr

definition sizeof_header :: ulong where "sizeof_header = 24"
definition sizeof_block :: ulong where "sizeof_block = 96"
definition sizeof_manager :: ulong where "sizeof_manager = 56"
definition sizeof_list_node :: ulong where "sizeof_list_node = 24"

text \<open>
  The rest of \<^verbatim>\<open>struct kmem_node_struct\<close> and the globals of \<^verbatim>\<open>kmem.c\<close>; \<open>object_manager_at\<close> and
  \<open>uni_managers\<close> are the addresses of \<^verbatim>\<open>kmem.object_manager\<close> and of the list head
  \<^verbatim>\<open>uni_managers\<close>.
\<close>

record object_state = kmem_node +
  headers :: header_heap
  blocks :: "addr \<Rightarrow> object_block"
  managers :: "addr \<Rightarrow> object_manager"
  object_manager_lock :: spinlock
  object_manager_at :: addr
  uni_managers :: addr
  list_node_object_manager :: addr

definition set_block :: "addr \<Rightarrow> (object_block \<Rightarrow> object_block) \<Rightarrow> 'a object_state_scheme \<Rightarrow> 'a object_state_scheme" where
  "set_block a f s = s\<lparr>blocks := (blocks s)(a := f (blocks s a))\<rparr>"

definition set_manager :: "addr \<Rightarrow> (object_manager \<Rightarrow> object_manager) \<Rightarrow> 'a object_state_scheme \<Rightarrow> 'a object_state_scheme" where
  "set_manager a f s = s\<lparr>managers := (managers s)(a := f (managers s a))\<rparr>"

definition acquire_manager :: "addr \<Rightarrow> 'a object_state_scheme \<Rightarrow> 'a object_state_scheme res" where
  "acquire_manager mgr s =
     bindR (spinlock_acquire (mgr_lock (managers s mgr)) s) (\<lambda>(lk, s). Inr (set_manager mgr (mgr_lock_update (\<lambda>_. lk)) s))"

definition release_manager :: "addr \<Rightarrow> 'a object_state_scheme \<Rightarrow> 'a object_state_scheme res" where
  "release_manager mgr s =
     bindR (spinlock_release (mgr_lock (managers s mgr)) s) (\<lambda>(lk, s). Inr (set_manager mgr (mgr_lock_update (\<lambda>_. lk)) s))"

section \<open>Header lists\<close>

definition kmem_object_header_detach :: "addr \<Rightarrow> header_heap \<Rightarrow> header_heap res" where
  "kmem_object_header_detach node h =
     (if node = 0 then Inl (Panic ''kmem_object_header_detach - NULL argument'')
      else
        let h = (if h_prv (h node) \<noteq> 0
                 then h(h_prv (h node) := (h (h_prv (h node)))\<lparr>h_nxt := h_nxt (h node)\<rparr>) else h);
            h = (if h_nxt (h node) \<noteq> 0
                 then h(h_nxt (h node) := (h (h_nxt (h node)))\<lparr>h_prv := h_prv (h node)\<rparr>) else h);
            h = h(node := (h node)\<lparr>h_prv := 0\<rparr>);
            h = h(node := (h node)\<lparr>h_nxt := 0\<rparr>)
        in Inr h)"

definition kmem_object_header_insert :: "addr \<Rightarrow> addr \<Rightarrow> header_heap \<Rightarrow> header_heap res" where
  "kmem_object_header_insert head node h =
     (if head = 0 \<or> node = 0 then Inl (Panic ''kmem_object_header_insert - NULL argument'')
      else
        let h = h(node := (h node)\<lparr>h_prv := head\<rparr>);
            h = h(node := (h node)\<lparr>h_nxt := h_nxt (h head)\<rparr>);
            h = (if h_nxt (h node) \<noteq> 0
                 then h(h_nxt (h node) := (h (h_nxt (h node)))\<lparr>h_prv := node\<rparr>) else h);
            h = h(head := (h head)\<lparr>h_nxt := node\<rparr>)
        in Inr h)"

interpretation hl: intrusive_list "\<lambda>h a. h_prv (h a)" "\<lambda>h a. h_nxt (h a)"
  kmem_object_header_insert kmem_object_header_detach
  by unfold_locales
    (simp_all add: kmem_object_header_insert_def kmem_object_header_detach_def Let_def, auto simp: fun_eq_iff)

definition free_slots :: "addr \<Rightarrow> addr" where
  "free_slots blk = blk"

definition allocated_slots :: "addr \<Rightarrow> addr" where
  "allocated_slots blk = blk + sizeof_header"

section \<open>Blocks\<close>

text \<open>The loop that links the slots of a new block behind one another.\<close>

partial_function (option) create_slots ::
  "addr \<Rightarrow> ulong \<Rightarrow> addr \<Rightarrow> addr \<Rightarrow> addr \<Rightarrow> 'a object_state_scheme \<Rightarrow> 'a object_state_scheme run" where
  "create_slots block unit_size page_end previous pos s =
     (if pos + unit_size \<le> page_end then
        let cur = pos;
            h = headers s;
            h = h(previous := (h previous)\<lparr>h_nxt := cur\<rparr>);
            h = h(cur := (h cur)\<lparr>h_prv := previous\<rparr>);
            h = h(cur := (h cur)\<lparr>h_nxt := 0\<rparr>);
            h = h(cur := (h cur)\<lparr>parent_block := block\<rparr>);
            s = set_block block (\<lambda>b. b\<lparr>b_total := b_total b + 1\<rparr>) (s\<lparr>headers := h\<rparr>)
        in create_slots block unit_size page_end cur (pos + unit_size) s
      else ret s)"

definition kmem_object_create_block ::
  "addr \<Rightarrow> ulong \<Rightarrow> ulong \<Rightarrow> 'a object_state_scheme \<Rightarrow> (addr \<times> 'a object_state_scheme) run" where
  "kmem_object_create_block mgr page_order siz s =
     (if unat page_order \<ge> MAX_MEM_ORDER then Some (Inl (Panic ''kmem_object_create_block - invalid page_order''))
      else bindM (Some (kmem_alloc_pages page_order s)) (\<lambda>(block, s).
        if block = 0 then ret (0, s)
        else
          let h = headers s;
              h = h(free_slots block := (h (free_slots block))\<lparr>h_prv := 0, h_nxt := 0\<rparr>);
              h = h(allocated_slots block := (h (allocated_slots block))\<lparr>h_prv := 0, h_nxt := 0\<rparr>);
              h = h(allocated_slots block := (h (allocated_slots block))\<lparr>parent_block := block\<rparr>);
              h = h(free_slots block := (h (free_slots block))\<lparr>parent_block := block\<rparr>);
              s = set_block block (\<lambda>_. \<lparr>b_nxt = 0, b_used = 0, b_total = 0,
                b_object_size = BINARY_ROUND_UP siz OBJECT_ALIGNMENT,
                page_count = push_bit (unat page_order) 1, parent_manager = mgr\<rparr>) (s\<lparr>headers := h\<rparr>);
              page_end = block + push_bit (unat page_order + PAGE_SHIFT) 1;
              unit_size = sizeof_header + b_object_size (blocks s block)
          in bindM (create_slots block unit_size page_end (free_slots block)
                      (BINARY_ROUND_UP (block + sizeof_block) OBJECT_ALIGNMENT) s) (\<lambda>s.
             ret (block, s))))"

definition kmem_object_alloc_from_block :: "addr \<Rightarrow> 'a object_state_scheme \<Rightarrow> (addr \<times> 'a object_state_scheme) res" where
  "kmem_object_alloc_from_block blk s =
     (if h_nxt (headers s (free_slots blk)) = 0 then Inl (Panic ''kmem_object_alloc_from_block - no slots available'')
      else
        let node = h_nxt (headers s (free_slots blk))
        in bindR (kmem_object_header_detach node (headers s)) (\<lambda>h.
           bindR (kmem_object_header_insert (allocated_slots blk) node h) (\<lambda>h.
           Inr (node + sizeof_header, set_block blk (\<lambda>b. b\<lparr>b_used := b_used b + 1\<rparr>) (s\<lparr>headers := h\<rparr>)))))"

section \<open>Objects\<close>

text \<open>The search for a block with a free slot: that block or null, and the bytes used in the full ones.\<close>

partial_function (option) find_block ::
  "ulong \<Rightarrow> addr \<Rightarrow> ulong \<Rightarrow> 'a object_state_scheme \<Rightarrow> (addr \<times> ulong) run" where
  "find_block unit_size blk allocated_sum s =
     (if blk = 0 then ret (0, allocated_sum)
      else if h_nxt (headers s (free_slots blk)) \<noteq> 0 then ret (blk, allocated_sum)
      else find_block unit_size (b_nxt (blocks s blk)) (allocated_sum + b_used (blocks s blk) * unit_size) s)"

definition block_capacity :: "nat \<Rightarrow> ulong" where
  "block_capacity ord = BINARY_ROUND_DOWN (push_bit (ord + PAGE_SHIFT) 1 - sizeof_block) OBJECT_ALIGNMENT"

function raise_order :: "ulong \<Rightarrow> nat \<Rightarrow> nat" where
  "raise_order allocated_sum nxt_ord =
     (if nxt_ord + 1 < MAX_MEM_ORDER \<and> block_capacity nxt_ord \<le> allocated_sum
      then raise_order allocated_sum (nxt_ord + 1) else nxt_ord)"
  by pat_completeness auto
termination by (relation "measure (\<lambda>(a, n). MAX_MEM_ORDER - n)") auto

declare raise_order.simps [simp del]

text \<open>The loop that asks for ever smaller blocks; its argument is \<^verbatim>\<open>nxt_ord\<close>.\<close>

primrec try_blocks :: "nat \<Rightarrow> addr \<Rightarrow> ulong \<Rightarrow> 'a object_state_scheme \<Rightarrow> (addr \<times> 'a object_state_scheme) run" where
  "try_blocks 0 mgr unit_size s =
     (if block_capacity 0 \<ge> unit_size
      then kmem_object_create_block mgr 0 (object_size (managers s mgr)) s else ret (0, s))"
| "try_blocks (Suc n) mgr unit_size s =
     (if block_capacity (Suc n) \<ge> unit_size
      then bindM (kmem_object_create_block mgr (word_of_nat (Suc n)) (object_size (managers s mgr)) s) (\<lambda>(new_blk, s).
        if new_blk = 0 then try_blocks n mgr unit_size s else ret (new_blk, s))
      else ret (0, s))"

definition kmem_object_alloc :: "addr \<Rightarrow> 'a object_state_scheme \<Rightarrow> (addr \<times> 'a object_state_scheme) run" where
  "kmem_object_alloc mgr s =
     (if mgr = 0 then Some (Inl Undefined)
      else
        let unit_size = object_size (managers s mgr) + sizeof_header
        in bindM (Some (acquire_manager mgr s)) (\<lambda>s.
           bindM (find_block unit_size (mgr_blocks (managers s mgr)) 0 s) (\<lambda>(blk, allocated_sum).
           bindM (if blk \<noteq> 0 then Some (kmem_object_alloc_from_block blk s)
                  else
                    let allocated_sum = (if allocated_sum < unit_size * 4 then unit_size * 4 else allocated_sum);
                        nxt_ord = raise_order allocated_sum 0
                    in bindM (try_blocks nxt_ord mgr unit_size s) (\<lambda>(new_blk, s).
                       if new_blk = 0 then ret (0, s)
                       else
                         let s = set_block new_blk (b_nxt_update (\<lambda>_. mgr_blocks (managers s mgr))) s;
                             s = set_manager mgr (mgr_blocks_update (\<lambda>_. new_blk)) s
                         in Some (kmem_object_alloc_from_block new_blk s))) (\<lambda>(ret_vaddr, s).
           bindM (Some (release_manager mgr s)) (\<lambda>s. ret (ret_vaddr, s))))))"

definition kmem_object_free :: "addr \<Rightarrow> 'a object_state_scheme \<Rightarrow> 'a object_state_scheme res" where
  "kmem_object_free vaddr s =
     (let header = vaddr - sizeof_header;
          mgr = parent_manager (blocks s (parent_block (headers s header)))
      in if header = 0 \<or> parent_block (headers s header) = 0 \<or> mgr = 0 then Inl Undefined else
         bindR (acquire_manager mgr s) (\<lambda>s.
         bindR (kmem_object_header_detach header (headers s)) (\<lambda>h.
         bindR (kmem_object_header_insert (free_slots (parent_block (h header))) header h) (\<lambda>h.
         let s = s\<lparr>headers := h\<rparr>;
             s = set_block (parent_block (h header)) (\<lambda>b. b\<lparr>b_used := b_used b - 1\<rparr>) s
         in release_manager mgr s))))"

text \<open>The loop that unlinks a block from the middle of its manager's list.\<close>

partial_function (option) unlink_block ::
  "addr \<Rightarrow> addr \<Rightarrow> 'a object_state_scheme \<Rightarrow> 'a object_state_scheme run" where
  "unlink_block block i s =
     (if i = 0 then ret s
      else if b_nxt (blocks s i) = block then ret (set_block i (b_nxt_update (\<lambda>_. b_nxt (blocks s block))) s)
      else unlink_block block (b_nxt (blocks s i)) s)"

definition kmem_object_free_block :: "addr \<Rightarrow> 'a object_state_scheme \<Rightarrow> 'a object_state_scheme run" where
  "kmem_object_free_block block s =
     (if h_nxt (headers s (allocated_slots block)) \<noteq> 0 then Some (Inl (Panic ''kmem_object_free_block - dirty block''))
      else
        let mgr = parent_manager (blocks s block)
        in bindM (Some (acquire_manager mgr s)) (\<lambda>s.
           bindM (if mgr_blocks (managers s mgr) = block
                  then ret (set_manager mgr (mgr_blocks_update (\<lambda>_. b_nxt (blocks s block))) s)
                  else unlink_block block (mgr_blocks (managers s mgr)) s) (\<lambda>s.
           bindM (Some (kmem_free_pages block (page_count (blocks s block)) s)) (\<lambda>s.
           Some (release_manager mgr s)))))"

section \<open>Managers\<close>

text \<open>The result of the allocation is used without a check: a null one is a null dereference.\<close>

definition kmem_object_create_manager ::
  "ulong \<Rightarrow> string \<Rightarrow> 'a object_state_scheme \<Rightarrow> (addr \<times> 'a object_state_scheme) run" where
  "kmem_object_create_manager siz name s =
     bindM (kmem_object_alloc (object_manager_at s) s) (\<lambda>(new_mgr, s).
     if new_mgr = 0 then Some (Inl Undefined)
     else
       let s = set_manager new_mgr (\<lambda>m. m\<lparr>block_name := name, object_size := BINARY_ROUND_UP siz OBJECT_ALIGNMENT,
                 mgr_blocks := 0, mgr_nxt := 0\<rparr>) s
       in bindM (Some (spinlock_acquire (object_manager_lock s) s)) (\<lambda>(lk, s).
          let s = s\<lparr>object_manager_lock := lk\<rparr>;
              s = set_manager new_mgr (mgr_nxt_update (\<lambda>_. mgr_nxt (managers s (object_manager_at s)))) s;
              s = set_manager (object_manager_at s) (mgr_nxt_update (\<lambda>_. new_mgr)) s
          in bindM (Some (spinlock_release (object_manager_lock s) s)) (\<lambda>(lk, s).
             ret (new_mgr, s\<lparr>object_manager_lock := lk\<rparr>))))"

definition kmem_object_init :: "'a object_state_scheme \<Rightarrow> 'a object_state_scheme" where
  "kmem_object_init s =
     (let s = set_manager (object_manager_at s) (\<lambda>m. m\<lparr>block_name := ''kmem_obj_mgr'',
                object_size := BINARY_ROUND_UP sizeof_manager OBJECT_ALIGNMENT\<rparr>) s
      in s\<lparr>object_manager_lock := spinlock_init ''kmem_object_manager_lock''\<rparr>)"

end
