(* ===== verification/Kmem.thy ===== *)
theory Kmem
  imports Object Buddy_Init
begin

text \<open>
  \<^verbatim>\<open>kernel/memory/kmem.c\<close>: the general-purpose allocator on top of the object managers, and the start of
  the whole memory system.
\<close>

definition uni_manager_sizes :: "ulong list" where
  "uni_manager_sizes = [131072, 65536, 32768, 16384, 8192, 4096, 2048, 1024, 512, 256, 128, 64, 32, 0]"

definition uni_manager_names :: "string list" where
  "uni_manager_names = [''umgr-128k'', ''umgr-64k'', ''umgr-32k'', ''umgr-16k'', ''umgr-8k'', ''umgr-4k'',
     ''umgr-2k'', ''umgr-1k'', ''umgr-512'', ''umgr-256'', ''umgr-128'', ''umgr-64'', ''umgr-32'', '''']"

partial_function (option) kmem_alloc_loop ::
  "ulong \<Rightarrow> addr \<Rightarrow> addr \<Rightarrow> 'a object_state_scheme \<Rightarrow> (addr \<times> 'a object_state_scheme) run" where
  "kmem_alloc_loop siz mgr_node ret_vaddr s =
     (if mgr_node \<noteq> 0 \<and> ret_vaddr = 0 then
        let mgr = val (list_mem s mgr_node)
        in bindM (if object_size (managers s mgr) \<ge> siz then kmem_object_alloc mgr s else ret (ret_vaddr, s))
             (\<lambda>(ret_vaddr, s). kmem_alloc_loop siz (nxt (list_mem s mgr_node)) ret_vaddr s)
      else ret (ret_vaddr, s))"

definition kmem_alloc :: "ulong \<Rightarrow> 'a object_state_scheme \<Rightarrow> (addr \<times> 'a object_state_scheme) run" where
  "kmem_alloc siz s = kmem_alloc_loop siz (nxt (list_mem s (uni_managers s))) 0 s"

definition kmem_free :: "addr \<Rightarrow> 'a object_state_scheme \<Rightarrow> 'a object_state_scheme res" where
  "kmem_free vaddr s = kmem_object_free vaddr s"

text \<open>The loop of \<^verbatim>\<open>kmem_init\<close> over the two arrays; it stops at the size 0.\<close>

fun init_managers :: "ulong list \<Rightarrow> string list \<Rightarrow> 'a object_state_scheme \<Rightarrow> 'a object_state_scheme run" where
  "init_managers (siz # sizes) (name # names) s =
     (if siz \<noteq> 0 then
        bindM (kmem_object_alloc (list_node_object_manager s) s) (\<lambda>(node, s).
        bindM (kmem_object_create_manager siz name s) (\<lambda>(mgr, s).
        if node = 0 then Some (Inl Undefined)
        else
          bindM (Some (list_insert (uni_managers s) node ((list_mem s)(node := (list_mem s node)\<lparr>val := mgr\<rparr>)))) (\<lambda>h.
          init_managers sizes names (s\<lparr>list_mem := h\<rparr>))))
      else ret s)"
| "init_managers _ _ s = Some (Inl Undefined)"

definition kmem_init :: "'a object_state_scheme \<Rightarrow> 'a object_state_scheme run" where
  "kmem_init s =
     (let s = s\<lparr>begin_ppn := uma_begin_ppn s, num_ppn := uma_num_ppn s, mem_map_size := uma_mem_map_size s\<rparr>
      in bindM (Some (kmem_page_manager_init s)) (\<lambda>s.
         let s = kmem_object_init s
         in bindM (kmem_object_create_manager sizeof_list_node ''list_node'' s) (\<lambda>(mgr, s).
            init_managers uni_manager_sizes uni_manager_names (s\<lparr>list_node_object_manager := mgr\<rparr>))))"

end
