(* ===== verification/Ram.thy ===== *)
theory Ram
  imports Cstring
begin

text \<open>
  64-bit loads and stores on the byte memory, as the kernel makes them on page tables: little endian, each
  byte mapped. On 8-byte aligned addresses the memory behaves as an array of words.
\<close>

section \<open>Loads and stores\<close>

primrec ldn :: "nat \<Rightarrow> memory \<Rightarrow> addr \<Rightarrow> uint64 res" where
  "ldn 0 m p = Inr 0"
| "ldn (Suc n) m p = bindR (ldb m p) (\<lambda>b. bindR (ldn n m (p + 1)) (\<lambda>w. Inr (ucast b OR push_bit 8 w)))"

primrec stn :: "nat \<Rightarrow> memory \<Rightarrow> addr \<Rightarrow> uint64 \<Rightarrow> memory res" where
  "stn 0 m p v = Inr m"
| "stn (Suc n) m p v = bindR (stb m p (ucast v)) (\<lambda>m. stn n m (p + 1) (drop_bit 8 v))"

definition ld64 :: "memory \<Rightarrow> addr \<Rightarrow> uint64 res" where
  "ld64 m p = ldn 8 m p"

definition st64 :: "memory \<Rightarrow> addr \<Rightarrow> uint64 \<Rightarrow> memory res" where
  "st64 m p v = stn 8 m p v"

section \<open>Memory as an array of words\<close>

definition w64 :: "memory \<Rightarrow> addr \<Rightarrow> uint64" where
  "w64 m p = (case ld64 m p of Inr w \<Rightarrow> w | Inl e \<Rightarrow> 0)"

definition put64 :: "memory \<Rightarrow> addr \<Rightarrow> uint64 \<Rightarrow> memory" where
  "put64 m p v = (\<lambda>a. if unat (a - p) < 8 then Some (ucast (drop_bit (8 * unat (a - p)) v)) else m a)"

lemma ldn_mapped: "mapped m p n \<Longrightarrow> \<exists>w. ldn n m p = Inr w"
proof (induction n arbitrary: p)
  case (Suc n)
  then have "m p \<noteq> None" "mapped m (p + 1) n" by (simp_all add: mapped_Suc)
  then obtain b w where "m p = Some b" "ldn n m (p + 1) = Inr w" using Suc.IH by blast
  then show ?case by simp
qed simp

lemma ld64_mapped: "mapped m p 8 \<Longrightarrow> ld64 m p = Inr (w64 m p)"
  using ldn_mapped [of m p 8] by (auto simp: w64_def ld64_def)

lemma ldn_cong: "(\<And>i. i < n \<Longrightarrow> m' (p + word_of_nat i) = m (p + word_of_nat i)) \<Longrightarrow> ldn n m' p = ldn n m p"
proof (induction n arbitrary: p)
  case (Suc n)
  have "m' p = m p" using Suc.prems [of 0] by simp
  moreover have "ldn n m' (p + 1) = ldn n m (p + 1)"
    by (rule Suc.IH) (use Suc.prems [of "Suc _"] in \<open>simp add: add.assoc\<close>)
  ultimately show ?case by (simp add: ldb_def)
qed simp

lemma w64_cong: "(\<And>i. i < 8 \<Longrightarrow> m' (p + word_of_nat i) = m (p + word_of_nat i)) \<Longrightarrow> w64 m' p = w64 m p"
  using ldn_cong [of 8 m' p m] by (simp add: w64_def ld64_def)

lemma stn_put:
  assumes "mapped m p n" "n \<le> 8"
  shows "stn n m p v = Inr (\<lambda>a. if unat (a - p) < n then Some (ucast (drop_bit (8 * unat (a - p)) v)) else m a)"
  using assms
proof (induction n arbitrary: m p v)
  case (Suc n)
  have "m p \<noteq> None" "mapped m (p + 1) n" using Suc.prems(1) by (simp_all add: mapped_Suc)
  then have st: "stn (Suc n) m p v = stn n (m(p \<mapsto> ucast v)) (p + 1) (drop_bit 8 v)" "mapped (m(p \<mapsto> ucast v)) (p + 1) n"
    by (simp_all add: mapped_upd)
  have eq: "(if unat (a - (p + 1)) < n then Some (ucast (drop_bit (8 * unat (a - (p + 1))) (drop_bit 8 v))) else (m(p \<mapsto> ucast v)) a) =
      (if unat (a - p) < Suc n then Some (ucast (drop_bit (8 * unat (a - p)) v)) else m a)" for a
  proof (cases "a = p")
    case True
    have "\<not> unat (- 1 :: addr) < n" using Suc.prems(2) by (simp add: unsigned_minus_1_eq_mask mask_eq_exp_minus_1)
    then show ?thesis using True by simp
  next
    case False
    then have nz: "a - p \<noteq> 0" by simp
    have "a - (p + 1) = (a - p) - 1" by simp
    then have u: "unat (a - (p + 1)) = unat (a - p) - 1" using unat_minus_one [OF nz] by (simp only:)
    have "0 < unat (a - p)" using nz by (simp only: unat_gt_0) simp
    then obtain j where j: "unat (a - p) = Suc j" by (metis gr0_implies_Suc)
    show ?thesis using False u by (simp add: j add.commute)
  qed
  have n: "n \<le> 8" using Suc.prems(2) by simp
  show ?case by (simp only: st(1) Suc.IH [OF st(2) n] eq)
qed simp

lemma st64_mapped: "mapped m p 8 \<Longrightarrow> st64 m p v = Inr (put64 m p v)"
  using stn_put [of m p 8 v] by (simp add: st64_def put64_def)

lemma put64_mapped [simp]: "mapped m a n \<Longrightarrow> mapped (put64 m p v) a n"
  by (simp add: mapped_def put64_def)

lemma put64_None [simp]: "put64 m p v a = None \<longleftrightarrow> \<not> unat (a - p) < 8 \<and> m a = None"
  by (simp add: put64_def)

lemma ldn_bytes:
  assumes "\<And>i. i < n \<Longrightarrow> m (p + word_of_nat i) = Some (ucast (drop_bit (8 * i) v))"
  shows "ldn n m p = Inr (take_bit (8 * n) v)"
  using assms
proof (induction n arbitrary: p v)
  case (Suc n)
  have 0: "m p = Some (ucast v)" using Suc.prems [of 0] by simp
  have "ldn n m (p + 1) = Inr (take_bit (8 * n) (drop_bit 8 v))"
  proof (rule Suc.IH)
    fix i assume "i < n"
    then show "m (p + 1 + word_of_nat i) = Some (ucast (drop_bit (8 * i) (drop_bit 8 v)))"
      using Suc.prems [of "Suc i"] by (simp add: add.assoc add.commute [of 8])
  qed
  moreover have "ucast (ucast v :: uint8) OR push_bit 8 (take_bit (8 * n) (drop_bit 8 v)) = take_bit (8 * Suc n) v"
    by (rule bit_word_eqI) (auto simp: bit_simps)
  ultimately show ?case using 0 by simp
qed simp

lemma w64_put64_same: "w64 (put64 m p v) p = v"
proof -
  have "ldn 8 (put64 m p v) p = Inr (take_bit (8 * 8) v)"
    by (rule ldn_bytes) (simp add: put64_def unat_off [where n = 8])
  then show ?thesis by (simp add: w64_def ld64_def take_bit_word_eq_self)
qed

text \<open>Aligned words do not overlap.\<close>

definition aligned8 :: "addr \<Rightarrow> bool" where
  "aligned8 p \<longleftrightarrow> 8 dvd unat p"

lemma unat_aligned_add:
  assumes "aligned8 p" "i < 8"
  shows "unat (p + word_of_nat i) = unat p + i"
proof -
  obtain q where q: "unat p = 8 * q" using assms(1) unfolding aligned8_def by (rule dvdE)
  have "unat p < 2 ^ 64" by (rule unat64_less)
  then have "q < 2 ^ 61" using q by simp
  then have "unat p + i < 2 ^ 64" using q assms(2) by simp
  moreover have "unat (word_of_nat i :: addr) = i" using assms(2) by (intro unat_of_nat64) simp
  ultimately show ?thesis by (simp add: unat_word_ariths)
qed

lemma aligned_apart:
  assumes "aligned8 p" "aligned8 q" "p \<noteq> q" "i < 8"
  shows "\<not> unat (q + word_of_nat i - p) < 8"
proof
  assume lt: "unat (q + word_of_nat i - p) < 8"
  define j where "j = unat (q + word_of_nat i - p)"
  have "q + word_of_nat i = p + word_of_nat j" by (simp add: j_def)
  then have e: "unat q + i = unat p + j" using unat_aligned_add [OF assms(2,4)] unat_aligned_add [OF assms(1), of j] lt
    by (metis j_def)
  have "unat p mod 8 = 0" "unat q mod 8 = 0" using assms(1,2) by (simp_all add: aligned8_def)
  then have "unat p = unat q" using e lt assms(4) unfolding j_def [symmetric] by presburger
  then show False using assms(3) by (simp add: word_unat_eq_iff)
qed

lemma w64_put64: "aligned8 p \<Longrightarrow> aligned8 q \<Longrightarrow> w64 (put64 m p v) q = (if q = p then v else w64 m q)"
  using aligned_apart w64_put64_same by (auto simp: put64_def intro!: w64_cong)

text \<open>A page that was cleared.\<close>

lemma ldn_zero: "(\<And>i. i < n \<Longrightarrow> m (p + word_of_nat i) = Some 0) \<Longrightarrow> ldn n m p = Inr 0"
  using ldn_bytes [of n m p 0] by simp

lemma w64_fill_in:
  assumes "\<And>i. i < 8 \<Longrightarrow> unat (q + word_of_nat i - p) < n"
  shows "w64 (fill m p 0 n) q = 0"
proof -
  have "ldn 8 (fill m p 0 n) q = Inr 0" by (rule ldn_zero) (simp add: fill_def assms)
  then show ?thesis by (simp add: w64_def ld64_def)
qed

lemma w64_fill_out:
  assumes "\<And>i. i < 8 \<Longrightarrow> \<not> unat (q + word_of_nat i - p) < n"
  shows "w64 (fill m p 0 n) q = w64 m q"
  by (rule w64_cong) (simp add: fill_def assms)

end
