(* ===== verification/Vmem.thy ===== *)
theory Vmem
  imports Kmem Ram
begin

text \<open>
  \<^verbatim>\<open>kernel/memory/vmem.c\<close> and the page-table macros of \<^verbatim>\<open>kernel/include/vmem.h\<close> for SV39, the mode the
  kernel is built with. \<open>ram\<close> is the memory the kernel sees through its window, byte by byte; page tables
  are read and written in it. The list nodes the page allocator writes into free pages are in
  \<open>list_mem\<close>, so the bytes of a page just allocated are whatever \<open>ram\<close> holds there.
\<close>

section \<open>Constants and macros\<close>

definition VMEM_MODE_SV39 :: uint64 where "VMEM_MODE_SV39 = 8"
definition VMEM_SV39_N_VPN :: nat where "VMEM_SV39_N_VPN = 3"
definition VMEM_MODE_SHIFT :: nat where "VMEM_MODE_SHIFT = 60"
definition VMEM_MODE :: uint64 where "VMEM_MODE = VMEM_MODE_SV39"
definition VA_USER_BEGIN :: ulong where "VA_USER_BEGIN = 0x200000"
definition VA_N_VPN :: nat where "VA_N_VPN = VMEM_SV39_N_VPN"
definition VA_USER_USER_HANDLER_BEGIN :: ulong where "VA_USER_USER_HANDLER_BEGIN = 0x3FFFFF0000"
definition VA_USER_TRAPFRAME_BEGIN :: ulong where "VA_USER_TRAPFRAME_BEGIN = 0x3FFFFF8000"
definition VA_USER_USER_HANDLER_SIZE :: ulong where "VA_USER_USER_HANDLER_SIZE = 0x8000"
definition VA_USER_TRAPFRAME_SIZE :: ulong where "VA_USER_TRAPFRAME_SIZE = 0x8000"
definition VA_USER_STACK_AUTO_EXPAND_THRESHOLD :: ulong where "VA_USER_STACK_AUTO_EXPAND_THRESHOLD = 64"

definition PTE_FLAG_V :: uint64 where "PTE_FLAG_V = push_bit 0 1"
definition PTE_FLAG_R :: uint64 where "PTE_FLAG_R = push_bit 1 1"
definition PTE_FLAG_W :: uint64 where "PTE_FLAG_W = push_bit 2 1"
definition PTE_FLAG_X :: uint64 where "PTE_FLAG_X = push_bit 3 1"
definition PTE_FLAG_U :: uint64 where "PTE_FLAG_U = push_bit 4 1"
definition PTE_FLAGS_WIDTH :: nat where "PTE_FLAGS_WIDTH = 10"
definition PAGE_OFFSET_WIDTH :: nat where "PAGE_OFFSET_WIDTH = 12"
definition PN_WIDTH :: nat where "PN_WIDTH = 9"

definition VA_GET_PN :: "nat \<Rightarrow> ulong \<Rightarrow> ulong" where
  "VA_GET_PN lv va = drop_bit (PN_WIDTH * lv + PAGE_OFFSET_WIDTH) va AND 0x1FF"

definition PA_PTE :: "ulong \<Rightarrow> uint64" where
  "PA_PTE pa = push_bit PTE_FLAGS_WIDTH (drop_bit PAGE_OFFSET_WIDTH pa)"

definition PTE_PA :: "uint64 \<Rightarrow> ulong" where
  "PTE_PA pte = push_bit PAGE_OFFSET_WIDTH (drop_bit PTE_FLAGS_WIDTH pte)"

definition SATP :: "uint64 \<Rightarrow> ulong \<Rightarrow> uint64" where
  "SATP mode pgtbl = push_bit VMEM_MODE_SHIFT mode OR drop_bit PAGE_OFFSET_WIDTH pgtbl"

section \<open>State\<close>

text \<open>\<open>KERNEL_USER_HANDLER_PA_BEGIN\<close> is a symbol of the linker script.\<close>

record vm_state = object_state +
  ram :: memory
  kernel_pagetable :: addr
  pkernel_pgtbl :: "addr list"
  satp :: uint64
  KERNEL_USER_HANDLER_PA_BEGIN :: uint64

text \<open>The address of entry \<open>i\<close> of a table, and access to it.\<close>

definition entry_at :: "addr \<Rightarrow> ulong \<Rightarrow> addr" where
  "entry_at pgtbl i = pgtbl + 8 * i"

definition st_entry :: "addr \<Rightarrow> uint64 \<Rightarrow> 'a vm_state_scheme \<Rightarrow> 'a vm_state_scheme res" where
  "st_entry e v s = bindR (st64 (ram s) e v) (\<lambda>m. Inr (s\<lparr>ram := m\<rparr>))"

definition memset_ram :: "addr \<Rightarrow> uint32 \<Rightarrow> ulong \<Rightarrow> 'a vm_state_scheme \<Rightarrow> 'a vm_state_scheme res" where
  "memset_ram p v n s = bindR (memset p v n (ram s)) (\<lambda>(_, m). Inr (s\<lparr>ram := m\<rparr>))"

section \<open>Walking and mapping\<close>

text \<open>The loop of \<^verbatim>\<open>vm_walk\<close> at level \<open>lv\<close>; the result is the address of the last-level entry or null.\<close>

primrec vm_walk_loop :: "nat \<Rightarrow> addr \<Rightarrow> ulong \<Rightarrow> bool \<Rightarrow> 'a vm_state_scheme \<Rightarrow> (addr \<times> 'a vm_state_scheme) res" where
  "vm_walk_loop 0 pgtbl va alloc s = Inr (entry_at pgtbl (VA_GET_PN 0 va), s)"
| "vm_walk_loop (Suc lv) pgtbl va alloc s =
     (let e = entry_at pgtbl (VA_GET_PN (Suc lv) va)
      in bindR (ld64 (ram s) e) (\<lambda>pte.
         if pte AND PTE_FLAG_V \<noteq> 0 then vm_walk_loop lv (PMA_PA2VA (PTE_PA pte)) va alloc s
         else if \<not> alloc then Inr (0, s)
         else bindR (kmem_alloc_pages 0 s) (\<lambda>(pgtbl, s).
           if pgtbl = 0 then Inr (0, s)
           else bindR (memset_ram pgtbl 0 PAGE_SIZE s) (\<lambda>s.
                bindR (st_entry e (PA_PTE (PMA_VA2PA pgtbl) OR PTE_FLAG_V) s) (\<lambda>s.
                vm_walk_loop lv pgtbl va alloc s)))))"

definition vm_walk :: "addr \<Rightarrow> ulong \<Rightarrow> bool \<Rightarrow> 'a vm_state_scheme \<Rightarrow> (addr \<times> 'a vm_state_scheme) res" where
  "vm_walk pgtbl va alloc s = vm_walk_loop (VA_N_VPN - 1) pgtbl va alloc s"

text \<open>
  The loop of \<^verbatim>\<open>vm_mappages\<close>. Both ends are multiples of the page size, so it makes as many rounds as
  there are pages between them, across the end of the address space if need be.
\<close>

primrec map_loop :: "nat \<Rightarrow> addr \<Rightarrow> ulong \<Rightarrow> ulong \<Rightarrow> ulong \<Rightarrow> 'a vm_state_scheme \<Rightarrow> (int \<times> 'a vm_state_scheme) res" where
  "map_loop 0 pgtbl current_pg pa flags s = Inr (0, s)"
| "map_loop (Suc n) pgtbl current_pg pa flags s =
     bindR (vm_walk pgtbl current_pg True s) (\<lambda>(entry, s).
     if entry = 0 then Inr (- 1, s)
     else bindR (ld64 (ram s) entry) (\<lambda>pte.
       if pte AND PTE_FLAG_V \<noteq> 0 then Inl (Panic ''vm_mappages - overlapped'')
       else bindR (st_entry entry (PA_PTE pa OR PTE_FLAG_V OR flags) s) (\<lambda>s.
            map_loop n pgtbl (current_pg + PAGE_SIZE) (pa + PAGE_SIZE) flags s)))"

definition page_span :: "ulong \<Rightarrow> ulong \<Rightarrow> nat" where
  "page_span va siz = unat (drop_bit PAGE_SHIFT (PAGE_ROUND_UP (va + siz) - PAGE_ROUND_DOWN va))"

definition vm_mappages :: "addr \<Rightarrow> ulong \<Rightarrow> ulong \<Rightarrow> ulong \<Rightarrow> ulong \<Rightarrow> 'a vm_state_scheme \<Rightarrow> (int \<times> 'a vm_state_scheme) res" where
  "vm_mappages pgtbl va pa siz flags s =
     (if siz = 0 then Inr (- 1, s)
      else map_loop (page_span va siz) pgtbl (PAGE_ROUND_DOWN va) pa flags s)"

text \<open>The loop of \<^verbatim>\<open>vm_unmappages\<close> compares with \<open><\<close> and need not end when the range wraps.\<close>

partial_function (option) unmap_loop ::
  "addr \<Rightarrow> ulong \<Rightarrow> ulong \<Rightarrow> bool \<Rightarrow> 'a vm_state_scheme \<Rightarrow> 'a vm_state_scheme run" where
  "unmap_loop pgtbl v_addr bound do_free s =
     (if v_addr < bound then
        bindM (Some (vm_walk pgtbl v_addr False s)) (\<lambda>(entry, s).
        if entry = 0 then Some (Inl (Panic ''vm_unmappages - broken entry''))
        else bindM (Some (ld64 (ram s) entry)) (\<lambda>pte.
          if pte AND PTE_FLAG_V = 0 \<or> pte AND (push_bit PTE_FLAGS_WIDTH 1 - 1) = PTE_FLAG_V
          then Some (Inl (Panic ''vm_unmappages - broken entry''))
          else bindM (if do_free then Some (kmem_free_page (PMA_PA2VA (PTE_PA pte)) s) else ret s) (\<lambda>s.
               bindM (Some (st_entry entry 0 s)) (\<lambda>s.
               unmap_loop pgtbl (v_addr + PAGE_SIZE) bound do_free s))))
      else ret s)"

definition vm_unmappages :: "addr \<Rightarrow> ulong \<Rightarrow> ulong \<Rightarrow> bool \<Rightarrow> 'a vm_state_scheme \<Rightarrow> 'a vm_state_scheme run" where
  "vm_unmappages pgtbl va pg_count do_free s =
     (if va AND (push_bit PN_WIDTH 1 - 1) \<noteq> 0 then Some (Inl (Panic ''vm_unmappages - broken alignment''))
      else unmap_loop pgtbl va (va + PAGE_SIZE * pg_count) do_free s)"

section \<open>Reaping\<close>

text \<open>
  \<^verbatim>\<open>vm_reap_pagetable\<close> from entry \<open>i\<close> on: the loop and the recursion into a lower table are one
  function. Nothing in the code bounds the depth.
\<close>

partial_function (option) reap_from :: "addr \<Rightarrow> nat \<Rightarrow> 'a vm_state_scheme \<Rightarrow> 'a vm_state_scheme run" where
  "reap_from pgtbl i s =
     (if i < 2 ^ PN_WIDTH then
        bindM (Some (ld64 (ram s) (entry_at pgtbl (word_of_nat i)))) (\<lambda>pte.
        if pte AND PTE_FLAG_V \<noteq> 0 \<and> pte AND (PTE_FLAG_R OR PTE_FLAG_W OR PTE_FLAG_X) = 0 then
          bindM (reap_from (PMA_PA2VA (PTE_PA pte)) 0 s) (\<lambda>s.
          bindM (Some (st_entry (entry_at pgtbl (word_of_nat i)) 0 s)) (\<lambda>s.
          reap_from pgtbl (i + 1) s))
        else if pte AND PTE_FLAG_V \<noteq> 0 then Some (Inl (Panic ''vm_reap_pagetable - leaves''))
        else reap_from pgtbl (i + 1) s)
      else Some (kmem_free_page pgtbl s))"

definition vm_reap_pagetable :: "addr \<Rightarrow> 'a vm_state_scheme \<Rightarrow> 'a vm_state_scheme run" where
  "vm_reap_pagetable pgtbl s = reap_from pgtbl 0 s"

partial_function (option) reap_force_from :: "addr \<Rightarrow> nat \<Rightarrow> 'a vm_state_scheme \<Rightarrow> 'a vm_state_scheme run" where
  "reap_force_from pgtbl i s =
     (if i < 2 ^ PN_WIDTH then
        bindM (Some (ld64 (ram s) (entry_at pgtbl (word_of_nat i)))) (\<lambda>pte.
        if pte AND PTE_FLAG_V \<noteq> 0 \<and> pte AND (PTE_FLAG_R OR PTE_FLAG_W OR PTE_FLAG_X) = 0 then
          bindM (reap_force_from (PMA_PA2VA (PTE_PA pte)) 0 s) (\<lambda>s.
          bindM (Some (st_entry (entry_at pgtbl (word_of_nat i)) 0 s)) (\<lambda>s.
          reap_force_from pgtbl (i + 1) s))
        else reap_force_from pgtbl (i + 1) s)
      else Some (kmem_free_page pgtbl s))"

definition vm_reap_pagetable_force :: "addr \<Rightarrow> 'a vm_state_scheme \<Rightarrow> 'a vm_state_scheme run" where
  "vm_reap_pagetable_force pgtbl s = reap_force_from pgtbl 0 s"

section \<open>The kernel's and the user's tables\<close>

definition vm_map_user_handler :: "addr \<Rightarrow> 'a vm_state_scheme \<Rightarrow> 'a vm_state_scheme res" where
  "vm_map_user_handler pgtbl s =
     bindR (vm_mappages pgtbl VA_USER_USER_HANDLER_BEGIN (KERNEL_USER_HANDLER_PA_BEGIN s) VA_USER_USER_HANDLER_SIZE
              (PTE_FLAG_R OR PTE_FLAG_X) s) (\<lambda>(_, s). Inr s)"

definition vm_unmap_user_handler :: "addr \<Rightarrow> 'a vm_state_scheme \<Rightarrow> 'a vm_state_scheme run" where
  "vm_unmap_user_handler pgtbl s =
     vm_unmappages pgtbl VA_USER_USER_HANDLER_BEGIN (drop_bit PAGE_SHIFT VA_USER_USER_HANDLER_SIZE) False s"

definition vm_kernel_init :: "'a vm_state_scheme \<Rightarrow> 'a vm_state_scheme" where
  "vm_kernel_init s =
     (let kpt = PMA_PA2VA (push_bit PAGE_SHIFT (satp s AND (push_bit VMEM_MODE_SHIFT 1 - 1)));
          kpgtbl_base_addr = kpt - word_of_nat (VA_N_VPN - 3) * push_bit PN_WIDTH 1
      in s\<lparr>kernel_pagetable := kpt,
           pkernel_pgtbl := map (\<lambda>i. kpgtbl_base_addr + word_of_nat i * push_bit PN_WIDTH 1) [0..<VA_N_VPN - 2]\<rparr>)"

primrec clear_entries :: "nat \<Rightarrow> addr \<Rightarrow> ulong \<Rightarrow> 'a vm_state_scheme \<Rightarrow> 'a vm_state_scheme res" where
  "clear_entries 0 pgtbl phy_pn s = Inr s"
| "clear_entries (Suc n) pgtbl phy_pn s =
     bindR (st_entry (entry_at pgtbl phy_pn) 0 s) (clear_entries n pgtbl (phy_pn + 1))"

definition vm_kernel_remove_idmap :: "'a vm_state_scheme \<Rightarrow> 'a vm_state_scheme res" where
  "vm_kernel_remove_idmap s =
     bindR (rd (pkernel_pgtbl s) (VA_N_VPN - 3)) (\<lambda>t.
     bindR (clear_entries (2 ^ (PN_WIDTH - 1)) t 0 s) (\<lambda>s.
     vm_map_user_handler (kernel_pagetable s) s))"

definition vm_hart_enable :: "'a vm_state_scheme \<Rightarrow> 'a vm_state_scheme res" where
  "vm_hart_enable s =
     bindR (rd (pkernel_pgtbl s) (VA_N_VPN - 3)) (\<lambda>t. Inr (s\<lparr>satp := SATP VMEM_MODE (PMA_VA2PA t)\<rparr>))"

text \<open>The page is cleared before the check for null.\<close>

definition vm_user_make_pagetable :: "'a vm_state_scheme \<Rightarrow> (addr \<times> 'a vm_state_scheme) res" where
  "vm_user_make_pagetable s =
     bindR (kmem_alloc_pages 0 s) (\<lambda>(p, s).
     bindR (memset_ram p 0 PAGE_SIZE s) (\<lambda>s.
     if p = 0 then Inl (Panic ''vm_user_make_pagetable - no space'')
     else bindR (vm_map_user_handler p s) (\<lambda>s. Inr (p, s))))"

definition vm_translate :: "addr \<Rightarrow> addr \<Rightarrow> 'a vm_state_scheme \<Rightarrow> (addr \<times> 'a vm_state_scheme) res" where
  "vm_translate pgtbl a s =
     bindR (vm_walk pgtbl a False s) (\<lambda>(entry, s).
     if entry = 0 then Inr (0, s)
     else bindR (ld64 (ram s) entry) (\<lambda>pte. Inr (PMA_PA2VA (PTE_PA pte OR (a AND (PAGE_SIZE - 1))), s)))"

section \<open>Copying\<close>

text \<open>
  The loop of \<^verbatim>\<open>vm_uvmcpy_recursive\<close> over the entries from \<open>pn\<close> on; \<open>lower\<close> is the recursive call on the
  level below, absent at level 0.
\<close>

primrec uvmcpy_loop :: "(addr \<Rightarrow> addr \<Rightarrow> 'a vm_state_scheme \<Rightarrow> 'a vm_state_scheme res) option \<Rightarrow> bool \<Rightarrow> nat \<Rightarrow> ulong \<Rightarrow>
    addr \<Rightarrow> addr \<Rightarrow> 'a vm_state_scheme \<Rightarrow> 'a vm_state_scheme res" where
  "uvmcpy_loop lower ow 0 pn pgtbl new_pgtbl s = Inr s"
| "uvmcpy_loop lower ow (Suc n) pn pgtbl new_pgtbl s =
     bindR (ld64 (ram s) (entry_at pgtbl pn)) (\<lambda>pte.
     bindR (if pte AND PTE_FLAG_V = 0 then Inr s
            else if pte AND (PTE_FLAG_R OR PTE_FLAG_X) \<noteq> 0 then
              bindR (ld64 (ram s) (entry_at new_pgtbl pn)) (\<lambda>old.
              if \<not> ow \<and> old \<noteq> 0 then Inr s
              else bindR (kmem_alloc_pages 0 s) (\<lambda>(new_page, s).
                   bindR (memcpy new_page (PMA_PA2VA (PTE_PA pte)) PAGE_SIZE (ram s)) (\<lambda>(_, m).
                   st_entry (entry_at new_pgtbl pn)
                     (PA_PTE (PMA_VA2PA new_page) OR (pte AND (push_bit PTE_FLAGS_WIDTH 1 - 1))) (s\<lparr>ram := m\<rparr>))))
            else case lower of None \<Rightarrow> Inr s
              | Some rec \<Rightarrow>
                bindR (ld64 (ram s) (entry_at new_pgtbl pn)) (\<lambda>old.
                bindR (if old = 0 then
                         bindR (kmem_alloc_pages 0 s) (\<lambda>(new_sub, s).
                         st_entry (entry_at new_pgtbl pn)
                           (PA_PTE (PMA_VA2PA new_sub) OR (pte AND (push_bit PTE_FLAGS_WIDTH 1 - 1))) s)
                       else Inr s) (\<lambda>s.
                bindR (ld64 (ram s) (entry_at pgtbl pn)) (\<lambda>src.
                bindR (ld64 (ram s) (entry_at new_pgtbl pn)) (\<lambda>dst.
                rec (PMA_PA2VA (PTE_PA src)) (PMA_PA2VA (PTE_PA dst)) s)))))
       (uvmcpy_loop lower ow n (pn + 1) pgtbl new_pgtbl))"

primrec vm_uvmcpy_recursive :: "nat \<Rightarrow> bool \<Rightarrow> addr \<Rightarrow> addr \<Rightarrow> 'a vm_state_scheme \<Rightarrow> 'a vm_state_scheme res" where
  "vm_uvmcpy_recursive 0 ow pgtbl new_pgtbl s = uvmcpy_loop None ow (2 ^ PN_WIDTH) 0 pgtbl new_pgtbl s"
| "vm_uvmcpy_recursive (Suc level) ow pgtbl new_pgtbl s =
     uvmcpy_loop (Some (vm_uvmcpy_recursive level ow)) ow (2 ^ PN_WIDTH) 0 pgtbl new_pgtbl s"

definition vm_uvmcpy :: "addr \<Rightarrow> addr \<Rightarrow> bool \<Rightarrow> 'a vm_state_scheme \<Rightarrow> 'a vm_state_scheme res" where
  "vm_uvmcpy pgtbl new_pgtbl ow s = vm_uvmcpy_recursive (VA_N_VPN - 1) ow pgtbl new_pgtbl s"

primrec memcpyin_loop :: "nat \<Rightarrow> addr \<Rightarrow> addr \<Rightarrow> addr \<Rightarrow> 'a vm_state_scheme \<Rightarrow> (int \<times> 'a vm_state_scheme) res" where
  "memcpyin_loop 0 pgtbl dst vsrc s = Inr (0, s)"
| "memcpyin_loop (Suc n) pgtbl dst vsrc s =
     bindR (vm_translate pgtbl vsrc s) (\<lambda>(tmp_ptr, s).
     if tmp_ptr \<noteq> 0 then
       bindR (ldb (ram s) tmp_ptr) (\<lambda>b.
       bindR (stb (ram s) dst b) (\<lambda>m.
       memcpyin_loop n pgtbl (dst + 1) (vsrc + 1) (s\<lparr>ram := m\<rparr>)))
     else Inr (- 1, s))"

definition vm_memcpyin :: "addr \<Rightarrow> addr \<Rightarrow> addr \<Rightarrow> ulong \<Rightarrow> 'a vm_state_scheme \<Rightarrow> (int \<times> 'a vm_state_scheme) res" where
  "vm_memcpyin pgtbl dst vsrc siz s = memcpyin_loop (unat siz) pgtbl dst vsrc s"

primrec memcpyout_loop :: "nat \<Rightarrow> addr \<Rightarrow> addr \<Rightarrow> addr \<Rightarrow> 'a vm_state_scheme \<Rightarrow> (int \<times> 'a vm_state_scheme) res" where
  "memcpyout_loop 0 pgtbl vdst src s = Inr (0, s)"
| "memcpyout_loop (Suc n) pgtbl vdst src s =
     bindR (vm_translate pgtbl vdst s) (\<lambda>(tmp_ptr, s).
     if tmp_ptr \<noteq> 0 then
       bindR (ldb (ram s) src) (\<lambda>b.
       bindR (stb (ram s) tmp_ptr b) (\<lambda>m.
       memcpyout_loop n pgtbl (vdst + 1) (src + 1) (s\<lparr>ram := m\<rparr>)))
     else Inr (- 1, s))"

definition vm_memcpyout :: "addr \<Rightarrow> addr \<Rightarrow> addr \<Rightarrow> ulong \<Rightarrow> 'a vm_state_scheme \<Rightarrow> (int \<times> 'a vm_state_scheme) res" where
  "vm_memcpyout pgtbl vdst src siz s = memcpyout_loop (unat siz) pgtbl vdst src s"

end
