(* ===== verification/Proc.thy ===== *)
theory Proc
  imports Vmem Intrusive_List
begin

text \<open>
  \<^verbatim>\<open>kernel/proc/proc.c\<close> and \<^verbatim>\<open>kernel/proc/scheduler.c\<close>: processes, their list, sleeping and waking, the
  scheduler. \<^verbatim>\<open>proc_switch\<close> leaves this code for another context and comes back when somebody switches
  to the one it saved; what happens in between is the parameter \<open>sw\<close> of the operations that switch, a
  function from the state in which the context is left to the state in which it is resumed. A process is an object of
  the object allocator, found by its address in \<open>procs\<close>; its trapframe is a page of \<open>ram\<close>. Output to the console is left out.
\<close>

section \<open>Processes\<close>

datatype proc_state = PROC_SLEEPING | PROC_RUNNABLE | PROC_RUNNING | PROC_STOPPED | PROC_ZOMBIE | PROC_ALLOCATED

record proc_struct =
  pid :: uint32
  pstate :: proc_state
  killed :: uint32
  exit_state :: uint32
  prv_proc :: addr
  nxt_proc :: addr
  sleeping_chan :: addr
  parent :: addr
  kstack_vaddr :: addr
  stack_vaddr :: addr
  heap_vaddr :: addr
  program_break :: addr
  pgtbl :: addr
  trapframe :: addr
  proc_context :: context_struct

type_synonym proc_heap = "addr \<Rightarrow> proc_struct"

definition sizeof_proc_struct :: ulong where "sizeof_proc_struct = 208"

text \<open>The trapframe is an array of double words; a field is its index.\<close>

definition trapframe_struct :: "string list" where
  "trapframe_struct = [''kernel_satp'', ''kernel_sp'', ''kernel_handler_addr'', ''user_pc'', ''kernel_hartid'',
     ''ra'', ''sp'', ''gp'', ''tp'', ''t0'', ''t1'', ''t2'', ''s0'', ''s1'', ''a0'', ''a1'', ''a2'', ''a3'', ''a4'',
     ''a5'', ''a6'', ''a7'', ''s2'', ''s3'', ''s4'', ''s5'', ''s6'', ''s7'', ''s8'', ''s9'', ''s10'', ''s11'',
     ''t3'', ''t4'', ''t5'', ''t6'']"

definition tf_offset :: "string \<Rightarrow> ulong" where
  "tf_offset f = word_of_nat (8 * length (takeWhile (\<lambda>x. x \<noteq> f) trapframe_struct))"

definition sizeof_trapframe :: ulong where
  "sizeof_trapframe = word_of_nat (8 * length trapframe_struct)"

text \<open>
  The fields \<^verbatim>\<open>lk\<close> of sleeping locks, the lock and the counter of the timer, the list of the processes, and the
  registers of the trap code. \<open>proc_list\<close> and \<open>tick_at\<close> are the addresses of \<^verbatim>\<open>proc_manager.proc_list\<close> and of
  \<^verbatim>\<open>tick\<close>; the remaining fields are addresses of functions and symbols of the linker script.
\<close>

record sleeplock =
  sl_locked :: uint32
  sl_lk :: spinlock
  sl_description :: string
  sl_pid :: uint32

record kernel_state = vm_state +
  procs :: proc_heap
  proc_manager_lock :: spinlock
  pid_counter :: uint32
  proc_list :: addr
  root_proc :: addr
  proc_object_manager :: addr
  sleeplocks :: "addr \<Rightarrow> sleeplock"
  spinlocks :: "addr \<Rightarrow> spinlock"
  tick_lock :: spinlock
  tick :: ulong
  tick_at :: addr
  stvec :: uint64
  sepc :: uint64
  scause :: uint64
  stval :: uint64
  sip :: uint64
  time :: uint64
  utrap_return_at :: uint64
  utrap_handler_at :: uint64
  kernel_handler_at :: uint64
  KERNEL_USER_HANDLER_VA :: uint64
  KERNEL_USER_RETURN_VA :: uint64

definition set_proc :: "addr \<Rightarrow> (proc_struct \<Rightarrow> proc_struct) \<Rightarrow> 'a kernel_state_scheme \<Rightarrow> 'a kernel_state_scheme" where
  "set_proc p f s = s\<lparr>procs := (procs s)(p := f (procs s p))\<rparr>"

text \<open>Reading or writing through a null process pointer is undefined.\<close>

definition proc_at :: "addr \<Rightarrow> 'a kernel_state_scheme \<Rightarrow> proc_struct res" where
  "proc_at p s = (if p = 0 then Inl Undefined else Inr (procs s p))"

definition upd_proc :: "addr \<Rightarrow> (proc_struct \<Rightarrow> proc_struct) \<Rightarrow> 'a kernel_state_scheme \<Rightarrow> 'a kernel_state_scheme res" where
  "upd_proc p f s = (if p = 0 then Inl Undefined else Inr (set_proc p f s))"

definition ld_tf :: "addr \<Rightarrow> string \<Rightarrow> 'a kernel_state_scheme \<Rightarrow> uint64 res" where
  "ld_tf p f s = bindR (proc_at p s) (\<lambda>q. ld64 (ram s) (trapframe q + tf_offset f))"

definition st_tf :: "addr \<Rightarrow> string \<Rightarrow> uint64 \<Rightarrow> 'a kernel_state_scheme \<Rightarrow> 'a kernel_state_scheme res" where
  "st_tf p f v s = bindR (proc_at p s) (\<lambda>q. bindR (st64 (ram s) (trapframe q + tf_offset f) v) (\<lambda>m. Inr (s\<lparr>ram := m\<rparr>)))"

text \<open>\<^verbatim>\<open>current_hart()->running_proc\<close>\<close>

definition current_proc :: "'a kernel_state_scheme \<Rightarrow> addr res" where
  "current_proc s = bindR (rd (harts s) (current_hart s)) (\<lambda>h. Inr (running_proc h))"

definition set_running :: "nat \<Rightarrow> addr \<Rightarrow> 'a kernel_state_scheme \<Rightarrow> 'a kernel_state_scheme res" where
  "set_running h p s = bindR (rd (harts s) h) (\<lambda>c. Inr (s\<lparr>harts := (harts s)[h := c\<lparr>running_proc := p\<rparr>]\<rparr>))"

definition acquire_procs :: "'a kernel_state_scheme \<Rightarrow> 'a kernel_state_scheme res" where
  "acquire_procs s = bindR (spinlock_acquire (proc_manager_lock s) s) (\<lambda>(lk, s). Inr (s\<lparr>proc_manager_lock := lk\<rparr>))"

definition release_procs :: "'a kernel_state_scheme \<Rightarrow> 'a kernel_state_scheme res" where
  "release_procs s = bindR (spinlock_release (proc_manager_lock s) s) (\<lambda>(lk, s). Inr (s\<lparr>proc_manager_lock := lk\<rparr>))"

section \<open>The list of processes\<close>

definition proc_insert :: "addr \<Rightarrow> addr \<Rightarrow> proc_heap \<Rightarrow> proc_heap res" where
  "proc_insert head node h =
     (if head = 0 \<or> node = 0 then Inl (Panic ''proc_insert - null parameters'')
      else
        let h = h(node := (h node)\<lparr>prv_proc := head\<rparr>);
            h = h(node := (h node)\<lparr>nxt_proc := nxt_proc (h head)\<rparr>);
            h = (if nxt_proc (h node) \<noteq> 0
                 then h(nxt_proc (h node) := (h (nxt_proc (h node)))\<lparr>prv_proc := node\<rparr>) else h);
            h = h(head := (h head)\<lparr>nxt_proc := node\<rparr>)
        in Inr h)"

definition proc_detach :: "addr \<Rightarrow> proc_heap \<Rightarrow> proc_heap res" where
  "proc_detach node h =
     (if node = 0 then Inl (Panic ''proc_detach - null parameters'')
      else
        let h = (if prv_proc (h node) \<noteq> 0
                 then h(prv_proc (h node) := (h (prv_proc (h node)))\<lparr>nxt_proc := nxt_proc (h node)\<rparr>) else h);
            h = (if nxt_proc (h node) \<noteq> 0
                 then h(nxt_proc (h node) := (h (nxt_proc (h node)))\<lparr>prv_proc := prv_proc (h node)\<rparr>) else h);
            h = h(node := (h node)\<lparr>nxt_proc := 0\<rparr>);
            h = h(node := (h node)\<lparr>prv_proc := 0\<rparr>)
        in Inr h)"

interpretation pl: intrusive_list "\<lambda>h a. prv_proc (h a)" "\<lambda>h a. nxt_proc (h a)" proc_insert proc_detach
  by unfold_locales (simp_all add: proc_insert_def proc_detach_def Let_def, auto simp: fun_eq_iff)

definition proc_link :: "addr \<Rightarrow> 'a kernel_state_scheme \<Rightarrow> 'a kernel_state_scheme res" where
  "proc_link p s =
     bindR (acquire_procs s) (\<lambda>s.
     bindR (proc_insert (proc_list s) p (procs s)) (\<lambda>h.
     release_procs (s\<lparr>procs := h\<rparr>)))"

definition proc_unlink :: "addr \<Rightarrow> 'a kernel_state_scheme \<Rightarrow> 'a kernel_state_scheme res" where
  "proc_unlink p s =
     bindR (acquire_procs s) (\<lambda>s.
     bindR (proc_detach p (procs s)) (\<lambda>h.
     release_procs (s\<lparr>procs := h\<rparr>)))"

text \<open>The search of \<^verbatim>\<open>proc_lock_and_find\<close> from \<open>i\<close> on.\<close>

partial_function (option) find_pid :: "uint32 \<Rightarrow> addr \<Rightarrow> proc_heap \<Rightarrow> addr run" where
  "find_pid n i h =
     (if i = 0 then ret 0
      else if pid (h i) = n then ret i
      else find_pid n (nxt_proc (h i)) h)"

definition proc_lock_and_find :: "uint32 \<Rightarrow> 'a kernel_state_scheme \<Rightarrow> (addr \<times> 'a kernel_state_scheme) run" where
  "proc_lock_and_find n s =
     bindM (Some (acquire_procs s)) (\<lambda>s.
     bindM (find_pid n (nxt_proc (procs s (proc_list s))) (procs s)) (\<lambda>p.
     if p = 0 then bindM (Some (release_procs s)) (\<lambda>s. ret (0, s))
     else ret (p, s)))"

section \<open>Creating and reaping\<close>

text \<open>The result -1 of an \<^verbatim>\<open>int\<close> is the word with all bits set.\<close>

definition proc_create :: "'a kernel_state_scheme \<Rightarrow> (uint32 \<times> 'a kernel_state_scheme) run" where
  "proc_create s =
     bindM (kmem_object_alloc (proc_object_manager s) s) (\<lambda>(p, s).
     if p = 0 then ret (- 1, s)
     else
       bindM (Some (acquire_procs s)) (\<lambda>s.
       let s = s\<lparr>pid_counter := pid_counter s + 1\<rparr>;
           new_pid = pid_counter s
       in bindM (Some (release_procs s)) (\<lambda>s.
       let s = set_proc p (\<lambda>q. q\<lparr>pid := new_pid, pstate := PROC_ALLOCATED, killed := 0, exit_state := 0, parent := root_proc s,
                 stack_vaddr := VA_USER_USER_HANDLER_BEGIN, heap_vaddr := VA_USER_BEGIN\<rparr>) s
       in bindM (Some (vm_user_make_pagetable s)) (\<lambda>(t, s).
       let s = set_proc p (\<lambda>q. q\<lparr>pgtbl := t\<rparr>) s
       in bindM (Some (kmem_alloc_pages 0 s)) (\<lambda>(k, s).
       let s = set_proc p (\<lambda>q. q\<lparr>kstack_vaddr := k\<rparr>) s
       in bindM (Some (kmem_alloc_pages 0 s)) (\<lambda>(f, s).
       let s = set_proc p (\<lambda>q. q\<lparr>trapframe := f\<rparr>) s
       in bindM (Some (memset_ram f 0 sizeof_trapframe s)) (\<lambda>s.
       bindM (Some (st_tf p ''user_pc'' VA_USER_BEGIN s)) (\<lambda>s.
       bindM (Some (st_tf p ''sp'' (stack_vaddr (procs s p)) s)) (\<lambda>s.
       bindM (Some (st_tf p ''kernel_sp'' (k + PAGE_SIZE) s)) (\<lambda>s.
       bindM (Some (vm_mappages t VA_USER_TRAPFRAME_BEGIN (PMA_VA2PA f) sizeof_trapframe (PTE_FLAG_R OR PTE_FLAG_W) s)) (\<lambda>(_, s).
       let s = set_proc p (\<lambda>q. q\<lparr>proc_context := zero_context\<lparr>cx_sp := k + PAGE_SIZE, cx_ra := utrap_return_at s\<rparr>\<rparr>) s
       in bindM (Some (proc_link p s)) (\<lambda>s. ret (pid (procs s p), s)))))))))))))"

definition proc_reap_detached :: "addr \<Rightarrow> 'a kernel_state_scheme \<Rightarrow> 'a kernel_state_scheme run" where
  "proc_reap_detached p s =
     bindM (vm_unmappages (pgtbl (procs s p)) VA_USER_TRAPFRAME_BEGIN (drop_bit PAGE_SHIFT (PAGE_ROUND_UP sizeof_trapframe)) True s) (\<lambda>s.
     bindM (vm_unmap_user_handler (pgtbl (procs s p)) s) (\<lambda>s.
     bindM (Some (kmem_free_pages (kstack_vaddr (procs s p)) 1 s)) (\<lambda>s.
     bindM (vm_unmappages (pgtbl (procs s p)) (stack_vaddr (procs s p))
              (drop_bit PAGE_SHIFT (VA_USER_USER_HANDLER_BEGIN - stack_vaddr (procs s p))) True s) (\<lambda>s.
     bindM (vm_unmappages (pgtbl (procs s p)) VA_USER_BEGIN (drop_bit PAGE_SHIFT (heap_vaddr (procs s p) - VA_USER_BEGIN)) True s) (\<lambda>s.
     Some (kmem_free p s))))))"

definition proc_reap :: "uint32 \<Rightarrow> 'a kernel_state_scheme \<Rightarrow> 'a kernel_state_scheme run" where
  "proc_reap n s =
     bindM (proc_lock_and_find n s) (\<lambda>(p, s).
     if p = 0 then ret s
     else bindM (Some (proc_detach p (procs s))) (\<lambda>h.
          bindM (Some (release_procs (s\<lparr>procs := h\<rparr>))) (\<lambda>s.
          proc_reap_detached p s)))"

definition proc_set_state :: "uint32 \<Rightarrow> proc_state \<Rightarrow> 'a kernel_state_scheme \<Rightarrow> 'a kernel_state_scheme run" where
  "proc_set_state n st s =
     bindM (proc_lock_and_find n s) (\<lambda>(p, s).
     if p = 0 then ret s
     else Some (release_procs (set_proc p (\<lambda>q. q\<lparr>pstate := st\<rparr>) s)))"

section \<open>Growing\<close>

text \<open>The pages are mapped whether or not there were any: a null result is mapped as physical page 0.\<close>

definition proc_extend_stack :: "uint32 \<Rightarrow> ulong \<Rightarrow> 'a kernel_state_scheme \<Rightarrow> (addr \<times> 'a kernel_state_scheme) run" where
  "proc_extend_stack n page_order s =
     bindM (proc_lock_and_find n s) (\<lambda>(p, s).
     if p = 0 then ret (0, s)
     else bindM (Some (kmem_alloc_pages page_order s)) (\<lambda>(extended_pages, s).
       let siz = push_bit (unat page_order + PAGE_SHIFT) 1;
           s = set_proc p (\<lambda>q. q\<lparr>stack_vaddr := stack_vaddr q - siz\<rparr>) s
       in bindM (Some (vm_mappages (pgtbl (procs s p)) (stack_vaddr (procs s p)) (PMA_VA2PA extended_pages) siz
                   (PTE_FLAG_R OR PTE_FLAG_W OR PTE_FLAG_U) s)) (\<lambda>(_, s).
          bindM (Some (release_procs s)) (\<lambda>s. ret (extended_pages, s)))))"

definition proc_extend_heap :: "uint32 \<Rightarrow> ulong \<Rightarrow> ulong \<Rightarrow> 'a kernel_state_scheme \<Rightarrow> (addr \<times> 'a kernel_state_scheme) run" where
  "proc_extend_heap n page_order mem_flag s =
     bindM (proc_lock_and_find n s) (\<lambda>(p, s).
     if p = 0 then ret (0, s)
     else bindM (Some (kmem_alloc_pages page_order s)) (\<lambda>(extended_pages, s).
       let siz = push_bit (unat page_order + PAGE_SHIFT) 1
       in bindM (Some (vm_mappages (pgtbl (procs s p)) (heap_vaddr (procs s p)) (PMA_VA2PA extended_pages) siz
                   (mem_flag OR PTE_FLAG_U) s)) (\<lambda>(_, s).
          let s = set_proc p (\<lambda>q. q\<lparr>heap_vaddr := heap_vaddr q + siz\<rparr>) s
          in bindM (Some (release_procs s)) (\<lambda>s. ret (extended_pages, s)))))"

definition proc_is_killed :: "addr \<Rightarrow> 'a kernel_state_scheme \<Rightarrow> (uint32 \<times> 'a kernel_state_scheme) res" where
  "proc_is_killed p s =
     bindR (acquire_procs s) (\<lambda>s.
     bindR (proc_at p s) (\<lambda>q.
     bindR (release_procs s) (\<lambda>s. Inr (killed q, s))))"

section \<open>Switching\<close>

type_synonym 'a switch = "'a kernel_state_scheme \<Rightarrow> 'a kernel_state_scheme run"

definition scheduler_switch :: "'a switch \<Rightarrow> 'a kernel_state_scheme \<Rightarrow> 'a kernel_state_scheme run" where
  "scheduler_switch sw s =
     bindM (Some (current_proc s)) (\<lambda>p.
     bindM (Some (rd (harts s) (current_hart s))) (\<lambda>h.
     if p = 0 then Some (Inl Undefined)
     else bindM (sw s) (\<lambda>s.
          bindM (Some (rd (harts s) (current_hart s))) (\<lambda>c.
          ret (s\<lparr>harts := (harts s)[current_hart s := c\<lparr>trap_enabled := trap_enabled h\<rparr>]\<rparr>)))))"

definition scheduler_yield :: "'a switch \<Rightarrow> 'a kernel_state_scheme \<Rightarrow> 'a kernel_state_scheme run" where
  "scheduler_yield sw s =
     bindM (Some (current_proc s)) (\<lambda>p.
     bindM (Some (acquire_procs s)) (\<lambda>s.
     bindM (Some (upd_proc p (\<lambda>q. q\<lparr>pstate := PROC_RUNNABLE\<rparr>) s)) (\<lambda>s.
     bindM (Some (release_procs s)) (\<lambda>s.
     scheduler_switch sw s))))"

text \<open>
  One pass of \<^verbatim>\<open>scheduler\<close> over the list, from \<open>p\<close> on, with the lock held; \<open>sw\<close> runs the process until it
  switches back. The flag \<^verbatim>\<open>locked\<close> is true again whenever the pass ends.
\<close>

partial_function (option) scheduler_pass ::
  "'a switch \<Rightarrow> nat \<Rightarrow> addr \<Rightarrow> 'a kernel_state_scheme \<Rightarrow> 'a kernel_state_scheme run" where
  "scheduler_pass sw this_hart p s =
     (if p = 0 then ret s
      else if pstate (procs s p) = PROC_RUNNABLE then
        bindM (Some (release_procs (set_proc p (\<lambda>q. q\<lparr>pstate := PROC_RUNNING\<rparr>) s))) (\<lambda>s.
        bindM (Some (set_running this_hart p s)) (\<lambda>s.
        bindM (sw s) (\<lambda>s.
        bindM (Some (set_running this_hart 0 s)) (\<lambda>s.
        bindM (Some (acquire_procs s)) (\<lambda>s.
        scheduler_pass sw this_hart (nxt_proc (procs s p)) s)))))
      else scheduler_pass sw this_hart (nxt_proc (procs s p)) s)"

definition scheduler_round :: "'a switch \<Rightarrow> nat \<Rightarrow> 'a kernel_state_scheme \<Rightarrow> 'a kernel_state_scheme run" where
  "scheduler_round sw this_hart s =
     bindM (Some (acquire_procs (enable_interrupt s))) (\<lambda>s.
     bindM (scheduler_pass sw this_hart (nxt_proc (procs s (proc_list s))) s) (\<lambda>s.
     Some (release_procs s)))"

partial_function (option) scheduler_rounds :: "'a switch \<Rightarrow> nat \<Rightarrow> 'a kernel_state_scheme \<Rightarrow> 'a kernel_state_scheme run" where
  "scheduler_rounds sw this_hart s = bindM (scheduler_round sw this_hart s) (\<lambda>s. scheduler_rounds sw this_hart s)"

definition scheduler :: "'a switch \<Rightarrow> 'a kernel_state_scheme \<Rightarrow> 'a kernel_state_scheme run" where
  "scheduler sw s = bindM (Some (set_running (current_hart s) 0 s)) (scheduler_rounds sw (current_hart s))"

section \<open>Sleeping and waking\<close>

text \<open>
  The spinlock a sleeper holds: none, that of the process manager, that of the timer, the one inside a sleeping lock, or one of a
  driver, given by its address.
\<close>

datatype lock_ref = Null_Lock | Proc_Manager_Lock | Tick_Lock | Sleeplock_Lk addr | Lock_At addr

primrec acquire_ref :: "lock_ref \<Rightarrow> 'a kernel_state_scheme \<Rightarrow> 'a kernel_state_scheme res" where
  "acquire_ref Null_Lock s = Inl Undefined"
| "acquire_ref Proc_Manager_Lock s = acquire_procs s"
| "acquire_ref Tick_Lock s = bindR (spinlock_acquire (tick_lock s) s) (\<lambda>(lk, s). Inr (s\<lparr>tick_lock := lk\<rparr>))"
| "acquire_ref (Sleeplock_Lk a) s = bindR (spinlock_acquire (sl_lk (sleeplocks s a)) s) (\<lambda>(lk, s).
     Inr (s\<lparr>sleeplocks := (sleeplocks s)(a := (sleeplocks s a)\<lparr>sl_lk := lk\<rparr>)\<rparr>))"
| "acquire_ref (Lock_At a) s = bindR (spinlock_acquire (spinlocks s a) s) (\<lambda>(lk, s). Inr (s\<lparr>spinlocks := (spinlocks s)(a := lk)\<rparr>))"

primrec release_ref :: "lock_ref \<Rightarrow> 'a kernel_state_scheme \<Rightarrow> 'a kernel_state_scheme res" where
  "release_ref Null_Lock s = Inl Undefined"
| "release_ref Proc_Manager_Lock s = release_procs s"
| "release_ref Tick_Lock s = bindR (spinlock_release (tick_lock s) s) (\<lambda>(lk, s). Inr (s\<lparr>tick_lock := lk\<rparr>))"
| "release_ref (Sleeplock_Lk a) s = bindR (spinlock_release (sl_lk (sleeplocks s a)) s) (\<lambda>(lk, s).
     Inr (s\<lparr>sleeplocks := (sleeplocks s)(a := (sleeplocks s a)\<lparr>sl_lk := lk\<rparr>)\<rparr>))"
| "release_ref (Lock_At a) s = bindR (spinlock_release (spinlocks s a) s) (\<lambda>(lk, s). Inr (s\<lparr>spinlocks := (spinlocks s)(a := lk)\<rparr>))"

definition proc_sleep :: "'a switch \<Rightarrow> addr \<Rightarrow> lock_ref \<Rightarrow> 'a kernel_state_scheme \<Rightarrow> 'a kernel_state_scheme run" where
  "proc_sleep sw chan lk s =
     bindM (Some (current_proc s)) (\<lambda>p.
     bindM (if lk \<noteq> Proc_Manager_Lock
            then bindM (Some (acquire_procs s)) (\<lambda>s. if lk \<noteq> Null_Lock then Some (release_ref lk s) else ret s)
            else ret s) (\<lambda>s.
     bindM (Some (upd_proc p (\<lambda>q. q\<lparr>sleeping_chan := chan, pstate := PROC_SLEEPING\<rparr>) s)) (\<lambda>s.
     bindM (Some (release_procs s)) (\<lambda>s.
     bindM (scheduler_switch sw s) (\<lambda>s.
     bindM (Some (acquire_procs s)) (\<lambda>s.
     bindM (Some (upd_proc p (\<lambda>q. q\<lparr>sleeping_chan := 0\<rparr>) s)) (\<lambda>s.
     bindM (Some (release_procs s)) (\<lambda>s.
     if lk \<noteq> Null_Lock then Some (acquire_ref lk s) else ret s))))))))"

partial_function (option) wake_from :: "addr \<Rightarrow> addr \<Rightarrow> proc_heap \<Rightarrow> proc_heap run" where
  "wake_from chan p h =
     (if p = 0 then ret h
      else
        let h = (if sleeping_chan (h p) = chan \<and> pstate (h p) = PROC_SLEEPING
                 then h(p := (h p)\<lparr>pstate := PROC_RUNNABLE\<rparr>) else h)
        in wake_from chan (nxt_proc (h p)) h)"

definition proc_wakeup :: "addr \<Rightarrow> 'a kernel_state_scheme \<Rightarrow> 'a kernel_state_scheme run" where
  "proc_wakeup chan s =
     bindM (Some (acquire_procs s)) (\<lambda>s.
     bindM (wake_from chan (nxt_proc (procs s (proc_list s))) (procs s)) (\<lambda>h.
     Some (release_procs (s\<lparr>procs := h\<rparr>))))"

section \<open>Exit, kill and fork\<close>

text \<open>The loop of \<^verbatim>\<open>proc_exit\<close> over the children, with the lock held.\<close>

partial_function (option) adopt_from :: "addr \<Rightarrow> addr \<Rightarrow> 'a kernel_state_scheme \<Rightarrow> 'a kernel_state_scheme run" where
  "adopt_from p e s =
     (if e = 0 then ret s
      else if parent (procs s e) = p then
        let s = set_proc e (\<lambda>q. q\<lparr>parent := root_proc s\<rparr>) s
        in bindM (proc_wakeup (parent (procs s e)) s) (\<lambda>s. adopt_from p (nxt_proc (procs s e)) s)
      else adopt_from p (nxt_proc (procs s e)) s)"

definition proc_exit :: "'a switch \<Rightarrow> uint32 \<Rightarrow> 'a kernel_state_scheme \<Rightarrow> 'a kernel_state_scheme run" where
  "proc_exit sw status_code s =
     bindM (Some (acquire_procs s)) (\<lambda>s.
     bindM (Some (current_proc s)) (\<lambda>p.
     bindM (adopt_from p (nxt_proc (procs s (proc_list s))) s) (\<lambda>s.
     bindM (Some (upd_proc p (\<lambda>q. q\<lparr>pstate := PROC_ZOMBIE, exit_state := status_code\<rparr>) s)) (\<lambda>s.
     bindM (Some (release_procs s)) (\<lambda>s.
     bindM (proc_wakeup (parent (procs s p)) s) (\<lambda>s.
     scheduler_switch sw s))))))"

definition proc_kill :: "uint32 \<Rightarrow> 'a kernel_state_scheme \<Rightarrow> (uint32 \<times> 'a kernel_state_scheme) run" where
  "proc_kill n s =
     bindM (proc_lock_and_find n s) (\<lambda>(p, s).
     if p = 0 then ret (- 1, s)
     else
       let s = set_proc p (\<lambda>q. q\<lparr>killed := 1\<rparr>) s;
           s = (if pstate (procs s p) = PROC_SLEEPING then set_proc p (\<lambda>q. q\<lparr>pstate := PROC_RUNNABLE\<rparr>) s else s)
       in bindM (Some (release_procs s)) (\<lambda>s. ret (0, s)))"

definition proc_fork :: "'a kernel_state_scheme \<Rightarrow> (uint32 \<times> 'a kernel_state_scheme) run" where
  "proc_fork s =
     bindM (Some (current_proc s)) (\<lambda>p.
     bindM (proc_create s) (\<lambda>(dup_pid, s).
     if dup_pid = - 1 then ret (- 1, s)
     else
       bindM (proc_lock_and_find dup_pid s) (\<lambda>(dup, s).
       bindM (Some (proc_at p s)) (\<lambda>q.
       bindM (Some (upd_proc dup (\<lambda>d. d\<lparr>parent := p, stack_vaddr := stack_vaddr q, heap_vaddr := heap_vaddr q\<rparr>) s)) (\<lambda>s.
       bindM (Some (ld_tf dup ''kernel_sp'' s)) (\<lambda>kernel_sp.
       bindM (Some (memcpy (trapframe (procs s dup)) (trapframe (procs s p)) sizeof_trapframe (ram s))) (\<lambda>(_, m).
       bindM (Some (st_tf dup ''a0'' 0 (s\<lparr>ram := m\<rparr>))) (\<lambda>s.
       bindM (Some (st_tf dup ''kernel_sp'' kernel_sp s)) (\<lambda>s.
       bindM (Some (vm_uvmcpy (pgtbl (procs s p)) (pgtbl (procs s dup)) False s)) (\<lambda>s.
       bindM (Some (release_procs (set_proc dup (\<lambda>d. d\<lparr>pstate := PROC_RUNNABLE\<rparr>) s))) (\<lambda>s.
       ret (pid (procs s dup), s))))))))))))"

section \<open>The first process\<close>

definition user_prog :: "uint8 list" where
  "user_prog = [0x1, 0x11, 0x6, 0xec, 0x22, 0xe8, 0x0, 0x10, 0xaa, 0x87, 0x23, 0x30, 0xb4, 0xfe, 0x23, 0x26, 0xf4,
     0xfe, 0x81, 0x48, 0x1, 0x48, 0x81, 0x47, 0x1, 0x47, 0x81, 0x46, 0x1, 0x46, 0x81, 0x45, 0x1, 0x45, 0x97, 0x0,
     0x0, 0x0, 0xe7, 0x80, 0x0, 0x3, 0xe5, 0xb7, 0x41, 0x11, 0x6, 0xe4, 0x22, 0xe0, 0x0, 0x8, 0x97, 0x0, 0x0, 0x0,
     0xe7, 0x80, 0xc0, 0xfc, 0xaa, 0x87, 0x3e, 0x85, 0x97, 0x0, 0x0, 0x0, 0xe7, 0x80, 0x80, 0x1, 0x1, 0x0, 0xa2,
     0x60, 0x2, 0x64, 0x41, 0x1, 0x82, 0x80, 0x73, 0x0, 0x0, 0x0, 0x82, 0x80, 0x85, 0x48, 0x73, 0x0, 0x0, 0x0, 0x82,
     0x80, 0x89, 0x48, 0x73, 0x0, 0x0, 0x0, 0x82, 0x80, 0x8d, 0x48, 0x73, 0x0, 0x0, 0x0, 0x82, 0x80, 0x91, 0x48,
     0x73, 0x0, 0x0, 0x0, 0x82, 0x80, 0x95, 0x48, 0x73, 0x0, 0x0, 0x0, 0x82, 0x80, 0x99, 0x48, 0x73, 0x0, 0x0, 0x0,
     0x82, 0x80, 0x9d, 0x48, 0x73, 0x0, 0x0, 0x0, 0x82, 0x80, 0xa1, 0x48, 0x73, 0x0, 0x0, 0x0, 0x82, 0x80]"

primrec write_image :: "uint8 list \<Rightarrow> addr \<Rightarrow> memory \<Rightarrow> memory res" where
  "write_image [] a m = Inr m"
| "write_image (b # bs) a m = bindR (stb m a b) (write_image bs (a + 1))"

definition proc_spawn_test_prog :: "'a kernel_state_scheme \<Rightarrow> 'a kernel_state_scheme run" where
  "proc_spawn_test_prog s =
     bindM (proc_create s) (\<lambda>(n, s).
     bindM (proc_extend_heap n 0 (PTE_FLAG_R OR PTE_FLAG_X) s) (\<lambda>(image, s).
     bindM (proc_extend_stack n 0 s) (\<lambda>(_, s).
     bindM (Some (write_image user_prog image (ram s))) (\<lambda>m.
     bindM (proc_lock_and_find n (s\<lparr>ram := m\<rparr>)) (\<lambda>(p, s).
     bindM (Some (ld_tf p ''user_pc'' s)) (\<lambda>pc.
     bindM (Some (st_tf p ''user_pc'' (pc + 0x2c) s)) (\<lambda>s.
     bindM (Some (release_procs s)) (\<lambda>s.
     proc_set_state n PROC_RUNNABLE s))))))))"

definition proc_init :: "'a kernel_state_scheme \<Rightarrow> 'a kernel_state_scheme run" where
  "proc_init s =
     (let s = s\<lparr>proc_manager_lock := spinlock_init ''proc_mgr_lock''\<rparr>
      in bindM (kmem_object_create_manager sizeof_proc_struct ''proc_struct'' s) (\<lambda>(mgr, s).
         let s = set_proc (proc_list s) (\<lambda>q. q\<lparr>nxt_proc := 0, prv_proc := 0\<rparr>) (s\<lparr>proc_object_manager := mgr\<rparr>)
         in proc_spawn_test_prog s))"

end
