(* ===== verification/Console.thy ===== *)
theory Console
  imports Sbi Uart_Io Proc
begin

text \<open>
  \<^verbatim>\<open>kernel/console/print.c\<close>: formatted output to the firmware's console or to a serial device. A C string is
  the list of its characters before the terminator, \<^verbatim>\<open>NULL\<close> is \<open>None\<close>; an argument list is a list of typed
  values, and taking an argument of another type, or one that is not there, is undefined.
\<close>

record console_state = kernel_state +
  console_lock :: spinlock
  locking_enabled :: int
  kernel_stdout_dev :: addr
  kernel_stdin_dev :: addr

datatype va = Va_Int uint32 | Va_U64 uint64 | Va_Str "string option"

definition byte_of :: "char \<Rightarrow> uint8" where "byte_of c = word_of_nat (of_char c)"
definition char_at :: "uint8 \<Rightarrow> char" where "char_at b = char_of (unat b)"

definition digits :: string where "digits = ''0123456789abcdef''"

section \<open>Characters and numbers\<close>

definition print_char ::
  "'a console_state_scheme firmware \<Rightarrow> 'a console_state_scheme hal_uart_manager \<Rightarrow> char \<Rightarrow> 'a console_state_scheme \<Rightarrow>
   'a console_state_scheme run" where
  "print_char ec um c s =
     (if kernel_stdout_dev s = 0 then
        let (_, s) = sbi_legacy_console_putchar ec (ucast (byte_of c)) s in ret s
      else hal_uart_write um (kernel_stdout_dev s) (byte_of c) s)"

text \<open>The digits of \<open>x\<close>, the last one first, in the 64 bytes of \<open>buf\<close>.\<close>

partial_function (option) digit_loop :: "uint64 \<Rightarrow> uint64 \<Rightarrow> string \<Rightarrow> nat \<Rightarrow> (string \<times> nat) run" where
  "digit_loop x base buf ptr =
     (if x = 0 then ret (buf, ptr)
      else if base = 0 then Some (Inl Undefined)
      else bindM (Some (bindR (rd digits (unat (x mod base))) (wr buf ptr))) (\<lambda>buf.
           digit_loop (x div base) base buf (ptr + 1)))"

primrec print_back ::
  "'a console_state_scheme firmware \<Rightarrow> 'a console_state_scheme hal_uart_manager \<Rightarrow> string \<Rightarrow> nat \<Rightarrow> 'a console_state_scheme \<Rightarrow>
   'a console_state_scheme run" where
  "print_back ec um buf 0 s = ret s"
| "print_back ec um buf (Suc ptr) s =
     bindM (Some (rd buf ptr)) (\<lambda>c. bindM (print_char ec um c s) (print_back ec um buf ptr))"

definition print_uint ::
  "'a console_state_scheme firmware \<Rightarrow> 'a console_state_scheme hal_uart_manager \<Rightarrow> uint64 \<Rightarrow> uint64 \<Rightarrow> 'a console_state_scheme \<Rightarrow>
   'a console_state_scheme run" where
  "print_uint ec um x base s =
     (if x = 0 then print_char ec um (CHR ''0'') s
      else bindM (digit_loop x base (replicate 64 (CHR 0x00)) 0) (\<lambda>(buf, ptr). print_back ec um buf ptr s))"

text \<open>The negation of the smallest \<^verbatim>\<open>int64\<close> overflows.\<close>

definition print_int ::
  "'a console_state_scheme firmware \<Rightarrow> 'a console_state_scheme hal_uart_manager \<Rightarrow> uint64 \<Rightarrow> uint64 \<Rightarrow> 'a console_state_scheme \<Rightarrow>
   'a console_state_scheme run" where
  "print_int ec um x base s =
     (if sint x < 0 then
        bindM (print_char ec um (CHR ''-'') s) (\<lambda>s.
        if x = push_bit 63 1 then Some (Inl Undefined) else print_uint ec um (- x) base s)
      else print_uint ec um x base s)"

section \<open>The lock of the console\<close>

definition console_acquire :: "'a console_state_scheme \<Rightarrow> 'a console_state_scheme res" where
  "console_acquire s =
     (if locking_enabled s \<noteq> 0
      then bindR (spinlock_acquire (console_lock s) s) (\<lambda>(lk, s). Inr (s\<lparr>console_lock := lk\<rparr>)) else Inr s)"

definition console_release :: "'a console_state_scheme \<Rightarrow> 'a console_state_scheme res" where
  "console_release s =
     (if locking_enabled s \<noteq> 0
      then bindR (spinlock_release (console_lock s) s) (\<lambda>(lk, s). Inr (s\<lparr>console_lock := lk\<rparr>)) else Inr s)"

definition putchar ::
  "'a console_state_scheme firmware \<Rightarrow> 'a console_state_scheme hal_uart_manager \<Rightarrow> char \<Rightarrow> 'a console_state_scheme \<Rightarrow>
   'a console_state_scheme run" where
  "putchar ec um c s =
     bindM (Some (console_acquire s)) (\<lambda>s.
     bindM (print_char ec um c s) (\<lambda>s. Some (console_release s)))"

definition getchar :: "'a console_state_scheme hal_uart_manager \<Rightarrow> 'a console_state_scheme \<Rightarrow> (uint8 \<times> 'a console_state_scheme) run" where
  "getchar um s = (if kernel_stdout_dev s = 0 then ret (- 1, s) else hal_uart_read um (kernel_stdout_dev s) s)"

section \<open>Formatted output\<close>

primrec print_str ::
  "'a console_state_scheme firmware \<Rightarrow> 'a console_state_scheme hal_uart_manager \<Rightarrow> string \<Rightarrow> 'a console_state_scheme \<Rightarrow>
   'a console_state_scheme run" where
  "print_str ec um [] s = ret s"
| "print_str ec um (c # cs) s = bindM (print_char ec um c s) (print_str ec um cs)"

text \<open>One conversion; the arguments that are left come with the state.\<close>

definition print_conv ::
  "'a console_state_scheme firmware \<Rightarrow> 'a console_state_scheme hal_uart_manager \<Rightarrow> char \<Rightarrow> va list \<Rightarrow> 'a console_state_scheme \<Rightarrow>
   (va list \<times> 'a console_state_scheme) run" where
  "print_conv ec um c ap s =
     (if c = CHR ''d'' then
        (case ap of Va_Int x # ap \<Rightarrow> bindM (print_int ec um (scast x) 10 s) (\<lambda>s. ret (ap, s)) | _ \<Rightarrow> Some (Inl Undefined))
      else if c = CHR ''x'' then
        (case ap of Va_Int x # ap \<Rightarrow> bindM (print_int ec um (scast x) 16 s) (\<lambda>s. ret (ap, s)) | _ \<Rightarrow> Some (Inl Undefined))
      else if c = CHR ''p'' then
        bindM (print_char ec um (CHR ''0'') s) (\<lambda>s.
        bindM (print_char ec um (CHR ''x'') s) (\<lambda>s.
        case ap of Va_U64 x # ap \<Rightarrow> bindM (print_uint ec um x 16 s) (\<lambda>s. ret (ap, s)) | _ \<Rightarrow> Some (Inl Undefined)))
      else if c = CHR ''u'' then
        (case ap of Va_Int x # ap \<Rightarrow> bindM (print_uint ec um (ucast x) 10 s) (\<lambda>s. ret (ap, s)) | _ \<Rightarrow> Some (Inl Undefined))
      else if c = CHR ''c'' then
        (case ap of Va_Int x # ap \<Rightarrow> bindM (print_char ec um (char_at (ucast x)) s) (\<lambda>s. ret (ap, s)) | _ \<Rightarrow> Some (Inl Undefined))
      else if c = CHR ''s'' then
        (case ap of
           Va_Str x # ap \<Rightarrow>
             bindM (print_str ec um (case x of None \<Rightarrow> ''(null)'' | Some cs \<Rightarrow> cs) s) (\<lambda>s. ret (ap, s))
         | _ \<Rightarrow> Some (Inl Undefined))
      else if c = CHR ''%'' then bindM (print_char ec um (CHR ''%'') s) (\<lambda>s. ret (ap, s))
      else bindM (print_char ec um (CHR ''%'') s) (\<lambda>s. bindM (print_char ec um c s) (\<lambda>s. ret (ap, s))))"

fun print_format ::
  "'a console_state_scheme firmware \<Rightarrow> 'a console_state_scheme hal_uart_manager \<Rightarrow> string \<Rightarrow> va list \<Rightarrow> 'a console_state_scheme \<Rightarrow>
   'a console_state_scheme run" where
  "print_format ec um [] ap s = ret s"
| "print_format ec um (f # fmt) ap s =
     (if f \<noteq> CHR ''%'' then bindM (print_char ec um f s) (print_format ec um fmt ap)
      else case fmt of
          [] \<Rightarrow> print_char ec um (CHR ''%'') s
        | c # fmt \<Rightarrow> bindM (print_conv ec um c ap s) (\<lambda>(ap, s). print_format ec um fmt ap s))"

definition printf ::
  "'a console_state_scheme firmware \<Rightarrow> 'a console_state_scheme hal_uart_manager \<Rightarrow> string option \<Rightarrow> va list \<Rightarrow>
   'a console_state_scheme \<Rightarrow> (int \<times> 'a console_state_scheme) run" where
  "printf ec um fmt ap s =
     (case fmt of None \<Rightarrow> ret (- 1, s)
      | Some fmt \<Rightarrow>
          bindM (Some (console_acquire s)) (\<lambda>s.
          bindM (print_format ec um fmt ap s) (\<lambda>s.
          bindM (Some (console_release s)) (\<lambda>s. ret (0, s)))))"

definition console_init ::
  "'a console_state_scheme firmware \<Rightarrow> 'a console_state_scheme hal_uart_manager \<Rightarrow> 'a console_state_scheme \<Rightarrow>
   'a console_state_scheme run" where
  "console_init ec um s =
     (let s = s\<lparr>console_lock := spinlock_init ''console_lock'', locking_enabled := 1\<rparr>
      in bindM (printf ec um (Some (''[console]console initialized.'' @ [CHR 0x0A])) [] s) (\<lambda>(_, s). ret s))"

section \<open>Dumping a buffer\<close>

partial_function (option) buffer_loop ::
  "('a console_state_scheme firmware \<times> 'a console_state_scheme hal_uart_manager) \<Rightarrow> addr \<Rightarrow> ulong \<Rightarrow> ulong \<Rightarrow>
   'a console_state_scheme \<Rightarrow> 'a console_state_scheme run" where
  "buffer_loop io buf siz i s =
     (if i = siz then ret s
      else
        bindM (Some (ldb (ram s) (buf + i))) (\<lambda>b.
        bindM (if b < 16 then print_char (fst io) (snd io) (CHR ''0'') s else ret s) (\<lambda>s.
        bindM (print_uint (fst io) (snd io) (ucast b) 16 s) (\<lambda>s.
        bindM (print_char (fst io) (snd io) (CHR '' '') s) (\<lambda>s.
        bindM (if (i + 1) mod 16 = 0 \<and> i \<noteq> siz - 1 then print_char (fst io) (snd io) (CHR 0x0A) s else ret s) (\<lambda>s.
        buffer_loop io buf siz (i + 1) s))))))"

definition print_buffer ::
  "'a console_state_scheme firmware \<Rightarrow> 'a console_state_scheme hal_uart_manager \<Rightarrow> addr \<Rightarrow> ulong \<Rightarrow>
   'a console_state_scheme \<Rightarrow> 'a console_state_scheme run" where
  "print_buffer ec um buf siz s =
     bindM (Some (console_acquire s)) (\<lambda>s.
     bindM (buffer_loop (ec, um) buf siz 0 s) (\<lambda>s.
     bindM (print_char ec um (CHR 0x0A) s) (\<lambda>s.
     Some (console_release s))))"

end
