(* ===== verification/Device_Memory.thy ===== *)
theory Device_Memory
  imports Console Bootmem Qsort Fdt_Ro
begin

text \<open>
  \<^verbatim>\<open>kernel/device/memory.c\<close>: the memory of the machine, read from the device tree, and the segments of it that are
  free, computed by a sweep over the sorted ends of the reserved segments. The fixed arrays are lists of 1024 elements, and an
  access outside them is undefined; \<open>img_end\<close> is the end of the kernel image, set by the linker.
\<close>

definition MAX_RAM_SEGMENT :: nat where "MAX_RAM_SEGMENT = 1024"

record memory_state = console_state +
  flatten_device_tree :: addr
  sort_seg_begin :: "uint64 list"
  sort_seg_end :: "uint64 list"
  sort_seg_num :: uint64
  ram_range :: ram_segment
  available_ram_segments :: "ram_segment list"
  available_ram_segments_num :: uint64

section \<open>The sweep\<close>

text \<open>Both ends of a new reserved segment are stored and the count goes up.\<close>

definition add_segment :: "uint64 \<Rightarrow> uint64 \<Rightarrow> 'a memory_state_scheme \<Rightarrow> 'a memory_state_scheme res" where
  "add_segment b e s =
     bindR (wr (sort_seg_begin s) (unat (sort_seg_num s)) b) (\<lambda>bs.
     bindR (wr (sort_seg_end s) (unat (sort_seg_num s)) e) (\<lambda>es.
     Inr (s\<lparr>sort_seg_begin := bs, sort_seg_end := es, sort_seg_num := sort_seg_num s + 1\<rparr>)))"

function align_segments :: "nat \<Rightarrow> 'a memory_state_scheme \<Rightarrow> 'a memory_state_scheme res" where
  "align_segments i s =
     (if i < unat (sort_seg_num s) then
        bindR (rd (sort_seg_begin s) i) (\<lambda>b.
        bindR (wr (sort_seg_begin s) i (b AND NOT (PAGE_SIZE - 1))) (\<lambda>bs.
        bindR (rd (sort_seg_end s) i) (\<lambda>e.
        bindR (wr (sort_seg_end s) i ((e + PAGE_SIZE - 1) AND NOT (PAGE_SIZE - 1))) (\<lambda>es.
        align_segments (i + 1) (s\<lparr>sort_seg_begin := bs, sort_seg_end := es\<rparr>)))))
      else Inr s)"
  by pat_completeness auto
termination by (relation "measure (\<lambda>(i, s). unat (sort_seg_num s) - i)") auto

declare align_segments.simps [simp del]

text \<open>\<^verbatim>\<open>while (ptr < n && arr[ptr] == x) val += delta, ptr++\<close>\<close>

function skip_equal :: "uint64 list \<Rightarrow> nat \<Rightarrow> uint64 \<Rightarrow> int \<Rightarrow> int \<Rightarrow> nat \<Rightarrow> (int \<times> nat) res" where
  "skip_equal arr n x delta v ptr =
     (if ptr < n then
        bindR (rd arr ptr) (\<lambda>y. if y = x then skip_equal arr n x delta (v + delta) (ptr + 1) else Inr (v, ptr))
      else Inr (v, ptr))"
  by pat_completeness auto
termination by (relation "measure (\<lambda>(arr, n, x, delta, v, ptr). n - ptr)") auto

declare skip_equal.simps [simp del]

text \<open>The next position of the sweep, the change of the depth there, and the two indices after it.\<close>

definition next_event :: "uint64 list \<Rightarrow> uint64 list \<Rightarrow> nat \<Rightarrow> nat \<Rightarrow> nat \<Rightarrow> (uint64 \<times> int \<times> nat \<times> nat) res" where
  "next_event bs es n bptr eptr =
     (if bptr = n then bindR (rd es eptr) (\<lambda>e. Inr (e, - 1, bptr, eptr + 1))
      else if eptr = n then bindR (rd bs bptr) (\<lambda>b. Inr (b, 1, bptr + 1, eptr))
      else
        bindR (rd bs bptr) (\<lambda>b. bindR (rd es eptr) (\<lambda>e.
        if b = e then
          bindR (skip_equal bs n b 1 0 bptr) (\<lambda>(v, bptr).
          bindR (skip_equal es n b (- 1) v eptr) (\<lambda>(v, eptr).
          Inr (b, v, bptr, eptr)))
        else if b < e then Inr (b, 1, bptr + 1, eptr)
        else Inr (e, - 1, bptr, eptr + 1))))"

definition note_event :: "int \<Rightarrow> int \<Rightarrow> uint64 \<Rightarrow> uint64 \<Rightarrow> 'a memory_state_scheme \<Rightarrow> (uint64 \<times> 'a memory_state_scheme) res" where
  "note_event acc new_acc pos last_ptr s =
     (if new_acc = 0 \<and> acc > 0 then Inr (pos, s)
      else if new_acc > 0 \<and> acc = 0 \<and> pos > last_ptr then
        bindR (wr (available_ram_segments s) (unat (available_ram_segments_num s)) \<lparr>pa_begin = last_ptr, pa_len = pos - last_ptr\<rparr>) (\<lambda>av.
        Inr (last_ptr, s\<lparr>available_ram_segments := av, available_ram_segments_num := available_ram_segments_num s + 1\<rparr>))
      else Inr (last_ptr, s))"

partial_function (option) sweep :: "nat \<Rightarrow> nat \<Rightarrow> int \<Rightarrow> uint64 \<Rightarrow> 'a memory_state_scheme \<Rightarrow> 'a memory_state_scheme run" where
  "sweep bptr eptr acc last_ptr s =
     (if bptr < unat (sort_seg_num s) \<or> eptr < unat (sort_seg_num s) then
        bindM (Some (next_event (sort_seg_begin s) (sort_seg_end s) (unat (sort_seg_num s)) bptr eptr)) (\<lambda>(pos, v, bptr, eptr).
        bindM (Some (note_event acc (acc + v) pos last_ptr s)) (\<lambda>(last_ptr, s).
        sweep bptr eptr (acc + v) last_ptr s))
      else ret s)"

definition device_calc_available_ram :: "uint64 \<Rightarrow> 'a memory_state_scheme \<Rightarrow> 'a memory_state_scheme run" where
  "device_calc_available_ram img_end s =
     bindM (Some (add_segment (pa_begin (ram_range s)) img_end s)) (\<lambda>s.
     bindM (Some (align_segments 0 s)) (\<lambda>s.
     bindM (Some (add_segment ((pa_begin (ram_range s) + pa_len (ram_range s)) AND NOT (PAGE_SIZE - 1)) (- 1) s)) (\<lambda>s.
     bindM (Some (qsort (sort_seg_begin s) (int_of_u64 (sort_seg_num s)))) (\<lambda>bs.
     bindM (Some (qsort (sort_seg_end s) (int_of_u64 (sort_seg_num s)))) (\<lambda>es.
     let s = s\<lparr>sort_seg_begin := bs, sort_seg_end := es\<rparr>
     in sweep 0 0 0 (pa_begin (ram_range s)) s)))))"

section \<open>The device tree\<close>

definition device_fdt_get_reg :: "literals \<Rightarrow> addr \<Rightarrow> int \<Rightarrow> memory \<Rightarrow> (uint64 \<times> uint64) run" where
  "device_fdt_get_reg lit fdt node_offset m =
     bindM (fdt_get_property fdt node_offset (lit ''reg'') m) (\<lambda>(reg_prop, _).
     if reg_prop = 0 then Some (Inl Undefined)
     else
       bindM (Some (ld64 m (reg_prop + 12))) (\<lambda>p1.
       bindM (Some (ld64 m (reg_prop + 12 + 8))) (\<lambda>p2.
       ret (fdt64_to_cpu p1, fdt64_to_cpu p2))))"

text \<open>The subnodes of \<^verbatim>\<open>reserved-memory\<close>, from the offset \<open>off\<close> on.\<close>

partial_function (option) reserved_loop :: "literals \<Rightarrow> addr \<Rightarrow> int \<Rightarrow> 'a memory_state_scheme \<Rightarrow> 'a memory_state_scheme run" where
  "reserved_loop lit fdt off s =
     (if off < 0 then ret s
      else
        bindM (device_fdt_get_reg lit fdt off (ram s)) (\<lambda>(res_beg, res_len).
        bindM (Some (add_segment res_beg (res_beg + res_len) s)) (\<lambda>s.
        bindM (fdt_next_subnode fdt off (ram s)) (\<lambda>off. reserved_loop lit fdt off s))))"

definition is_prefixed :: "literals \<Rightarrow> string \<Rightarrow> addr \<Rightarrow> int \<Rightarrow> memory \<Rightarrow> bool run" where
  "is_prefixed lit str fdt node_offset m =
     bindM (fdt_get_name fdt node_offset m) (\<lambda>(name, _).
     bindM (strlen (lit str) m) (\<lambda>n.
     bindM (Some (strncmp name (lit str) (n - 1) m)) (\<lambda>r. ret (r = 0))))"

text \<open>
  The walk over the tree: \<open>visit\<close> is the body of the function at a node, and otherwise its loop over the subnodes from
  the offset \<open>off\<close> on.
\<close>

partial_function (option) walk_memory :: "literals \<Rightarrow> addr \<Rightarrow> bool \<Rightarrow> int \<Rightarrow> 'a memory_state_scheme \<Rightarrow> 'a memory_state_scheme run" where
  "walk_memory lit fdt visit off s =
     (if visit then
        bindM (is_prefixed lit ''memory'' fdt off (ram s)) (\<lambda>mem.
        if mem then
          bindM (device_fdt_get_reg lit fdt off (ram s)) (\<lambda>(b, l).
          bindM (fdt_first_subnode fdt off (ram s)) (\<lambda>sub.
          walk_memory lit fdt False sub (s\<lparr>ram_range := \<lparr>pa_begin = b, pa_len = l\<rparr>\<rparr>)))
        else
          bindM (is_prefixed lit ''reserved-memory'' fdt off (ram s)) (\<lambda>res.
          bindM (fdt_first_subnode fdt off (ram s)) (\<lambda>sub.
          if res then reserved_loop lit fdt sub s else walk_memory lit fdt False sub s)))
      else if off < 0 then ret s
      else
        bindM (walk_memory lit fdt True off s) (\<lambda>s.
        bindM (fdt_next_subnode fdt off (ram s)) (\<lambda>off. walk_memory lit fdt False off s)))"

definition device_walk_fdt_for_memory :: "literals \<Rightarrow> addr \<Rightarrow> int \<Rightarrow> 'a memory_state_scheme \<Rightarrow> 'a memory_state_scheme run" where
  "device_walk_fdt_for_memory lit fdt node_offset s = walk_memory lit fdt True node_offset s"

partial_function (option) report_loop ::
  "('a memory_state_scheme firmware \<times> 'a memory_state_scheme hal_uart_manager) \<Rightarrow> nat \<Rightarrow> 'a memory_state_scheme \<Rightarrow> 'a memory_state_scheme run" where
  "report_loop io i s =
     (if i < unat (available_ram_segments_num s) then
        bindM (Some (rd (available_ram_segments s) i)) (\<lambda>g.
        bindM (printf (fst io) (snd io) (Some (''[device_memory]    [%d]%p - %p'' @ [CHR 0x0A]))
                 [Va_Int (word_of_nat i), Va_U64 (pa_begin g), Va_U64 (pa_begin g + pa_len g - 1)] s) (\<lambda>(_, s).
        report_loop io (i + 1) s))
      else ret s)"

definition device_memory_init ::
  "'a memory_state_scheme firmware \<Rightarrow> 'a memory_state_scheme hal_uart_manager \<Rightarrow> literals \<Rightarrow> uint64 \<Rightarrow> 'a memory_state_scheme \<Rightarrow>
   'a memory_state_scheme run" where
  "device_memory_init ec um lit img_end s =
     bindM (device_walk_fdt_for_memory lit (flatten_device_tree s) 0 (s\<lparr>sort_seg_num := 0\<rparr>)) (\<lambda>s.
     bindM (printf ec um (Some (''[device_memory]ram ranges from %p to %p'' @ [CHR 0x0A]))
              [Va_U64 (pa_begin (ram_range s)), Va_U64 (pa_begin (ram_range s) + pa_len (ram_range s) - 1)] s) (\<lambda>(_, s).
     bindM (device_calc_available_ram img_end s) (\<lambda>s.
     bindM (printf ec um (Some (''[device_memory]available memory segments:'' @ [CHR 0x0A])) [] s) (\<lambda>(_, s).
     report_loop (ec, um) 0 s))))"

end
