(* ===== verification/Sweep.thy ===== *)
theory Sweep
  imports Device_Memory Fdt_Query
begin

text \<open>
  The sweep of \<^verbatim>\<open>device_calc_available_ram\<close> is correct: the segments it finds hold exactly the addresses of the memory
  that lie in no reserved segment. The reserved segments are divided into those already closed, those open at the current
  position and those still ahead; the depth of the sweep is the number of open ones.
\<close>

type_synonym span = "uint64 \<times> uint64"

definition covers :: "span \<Rightarrow> uint64 \<Rightarrow> bool" where
  "covers g x \<longleftrightarrow> fst g \<le> x \<and> x < snd g"

text \<open>The division of the segments \<open>S\<close> at the indices \<open>i\<close> and \<open>j\<close> into their sorted beginnings and ends.\<close>

definition divided :: "uint64 list \<Rightarrow> uint64 list \<Rightarrow> span multiset \<Rightarrow> nat \<Rightarrow> nat \<Rightarrow> span multiset \<Rightarrow> span multiset \<Rightarrow> span multiset \<Rightarrow> bool" where
  "divided B E S i j Cl Op Re \<longleftrightarrow> S = Cl + Op + Re \<and> i \<le> length B \<and> j \<le> length E \<and>
     mset (drop i B) = image_mset fst Re \<and> mset (drop j E) = image_mset snd (Op + Re)"

lemma drop_mset: "i < length xs \<Longrightarrow> mset (drop i xs) = add_mset (xs ! i) (mset (drop (Suc i) xs))"
  by (simp flip: Cons_nth_drop_Suc)

lemma sorted_head: "sorted xs \<Longrightarrow> i < length xs \<Longrightarrow> y \<in> set (drop i xs) \<Longrightarrow> xs ! i \<le> y"
  using sorted_wrt_drop [of "(\<le>)" xs i] Cons_nth_drop_Suc [of i xs] by (metis order_refl set_ConsD sorted_simps(2))

lemma open_one:
  assumes "divided B E S i j Cl Op Re" "i < length B"
  shows "\<exists>g. fst g = B ! i \<and> g \<in># Re \<and> divided B E S (Suc i) j Cl (add_mset g Op) (Re - {#g#})"
proof -
  have m: "image_mset fst Re = add_mset (B ! i) (mset (drop (Suc i) B))" using assms by (simp add: divided_def drop_mset)
  then have "B ! i \<in># image_mset fst Re" by simp
  then obtain g where g: "g \<in># Re" "fst g = B ! i" by auto
  obtain Re' where r: "Re = add_mset g Re'" using multi_member_split [OF g(1)] by blast
  have "divided B E S (Suc i) j Cl (add_mset g Op) Re'" using assms m g(2) by (simp add: divided_def r)
  then show ?thesis using g r by (intro exI [of _ g]) simp
qed

lemma close_one:
  assumes "divided B E S i j Cl Op Re" "j < length E" "\<forall>g\<in>#S. fst g \<le> snd g" "\<forall>y\<in>set (drop i B). E ! j < y"
  shows "\<exists>g. snd g = E ! j \<and> g \<in># Op \<and> divided B E S i (Suc j) (add_mset g Cl) (Op - {#g#}) Re"
proof -
  have m: "image_mset snd (Op + Re) = add_mset (E ! j) (mset (drop (Suc j) E))" using assms by (simp add: divided_def drop_mset)
  then have "E ! j \<in># image_mset snd (Op + Re)" by simp
  then have "E ! j \<in> snd ` set_mset (Op + Re)" by (simp only: set_image_mset)
  then obtain g where "E ! j = snd g" and g1: "g \<in># Op + Re" by (rule imageE)
  then have g: "g \<in># Op + Re" "snd g = E ! j" using g1 by simp_all
  have "g \<notin># Re"
  proof
    assume "g \<in># Re"
    then have "fst g \<in># mset (drop i B)" "g \<in># S" using assms(1) by (auto simp: divided_def)
    then have "E ! j < fst g" "fst g \<le> snd g" using assms(3,4) by auto
    then show False using g(2) by simp
  qed
  then have o: "g \<in># Op" using g(1) by simp
  obtain Op' where r: "Op = add_mset g Op'" using multi_member_split [OF o] by blast
  have "divided B E S i (Suc j) (add_mset g Cl) Op' Re" using assms m g(2) by (simp add: divided_def r)
  then show ?thesis using g o r by (intro exI [of _ g]) simp
qed

section \<open>Runs of equal ends\<close>

lemma skip_open:
  assumes "divided B E S i j Cl Op Re" "sorted B" "\<forall>y\<in>set (drop i B). x \<le> y"
  shows "\<exists>w i' Op' Re'. skip_equal B (length B) x 1 v i = Inr (w, i') \<and> i \<le> i' \<and> divided B E S i' j Cl Op' Re' \<and>
    w = v + int (size Op') - int (size Op) \<and> (\<forall>g\<in>#Op'. g \<in># Op \<or> fst g = x) \<and> Op \<subseteq># Op' \<and> (\<forall>y\<in>set (drop i' B). x < y) \<and>
    (Op' \<noteq> Op \<longrightarrow> i < i')"
  using assms
proof (induction "length B - i" arbitrary: i v Op Re)
  case 0
  then show ?case by (subst skip_equal.simps) auto
next
  case (Suc d)
  have i: "i < length B" using Suc.hyps(2) by simp
  have le: "\<forall>y\<in>set (drop i B). B ! i \<le> y"
    using sorted_head [OF Suc.prems(2) i] by blast
  show ?case
  proof (cases "B ! i = x")
    case True
    obtain g where g: "fst g = B ! i" "divided B E S (Suc i) j Cl (add_mset g Op) (Re - {#g#})"
      using open_one [OF Suc.prems(1) i] by blast
    have "\<forall>y\<in>set (drop (Suc i) B). x \<le> y" using Suc.prems(3) set_drop_subset_set_drop [of i "Suc i" B] by auto
    moreover have d: "d = length B - Suc i" using Suc.hyps(2) by simp
    ultimately obtain w i' Op' Re' where
      r: "skip_equal B (length B) x 1 (v + 1) (Suc i) = Inr (w, i')" "Suc i \<le> i'"
      "divided B E S i' j Cl Op' Re'" "w = v + 1 + int (size Op') - int (size (add_mset g Op))"
      "\<forall>h\<in>#Op'. h \<in># add_mset g Op \<or> fst h = x" "add_mset g Op \<subseteq># Op'" "\<forall>y\<in>set (drop i' B). x < y"
      using Suc.hyps(1) [OF d g(2) Suc.prems(2), of "v + 1"] by blast
    have "skip_equal B (length B) x 1 v i = Inr (w, i')" using True i r(1) by (subst skip_equal.simps) (simp add: rd_def)
    moreover have "Op \<subseteq># Op'" using r(6) by (meson mset_subset_eq_insertD subset_mset.less_imp_le)
    ultimately show ?thesis using r g True by (intro exI [of _ w] exI [of _ i'] exI [of _ Op'] exI [of _ Re']) auto
  next
    case False
    have "skip_equal B (length B) x 1 v i = Inr (v, i)" using False i by (subst skip_equal.simps) (simp add: rd_def)
    moreover have "x < B ! i" using Suc.prems(3) i False by (metis Cons_nth_drop_Suc list.set_intros(1) order_less_le)
    ultimately show ?thesis using Suc.prems(1) le by (intro exI [of _ v] exI [of _ i] exI [of _ Op] exI [of _ Re]) force
  qed
qed

lemma skip_close:
  assumes "divided B E S i j Cl Op Re" "sorted E" "\<forall>y\<in>set (drop j E). x \<le> y" "\<forall>g\<in>#S. fst g \<le> snd g" "\<forall>y\<in>set (drop i B). x < y"
  shows "\<exists>w j' Cl' Op'. skip_equal E (length E) x (- 1) v j = Inr (w, j') \<and> j \<le> j' \<and> divided B E S i j' Cl' Op' Re \<and>
    w = v + int (size Op') - int (size Op) \<and> (\<forall>g\<in>#Cl'. g \<in># Cl \<or> snd g = x \<and> g \<in># Op) \<and> Op' \<subseteq># Op \<and> (\<forall>y\<in>set (drop j' E). x < y)"
  using assms
proof (induction "length E - j" arbitrary: j v Cl Op)
  case 0
  then show ?case by (subst skip_equal.simps) auto
next
  case (Suc d)
  have j: "j < length E" using Suc.hyps(2) by simp
  have le: "\<forall>y\<in>set (drop j E). E ! j \<le> y"
    using sorted_head [OF Suc.prems(2) j] by blast
  show ?case
  proof (cases "E ! j = x")
    case True
    obtain g where g: "snd g = E ! j" "g \<in># Op" "divided B E S i (Suc j) (add_mset g Cl) (Op - {#g#}) Re"
      using close_one [OF Suc.prems(1) j Suc.prems(4)] Suc.prems(5) True by blast
    have "\<forall>y\<in>set (drop (Suc j) E). x \<le> y" using Suc.prems(3) set_drop_subset_set_drop [of j "Suc j" E] by auto
    moreover have d: "d = length E - Suc j" using Suc.hyps(2) by simp
    ultimately obtain w j' Cl' Op' where
      r: "skip_equal E (length E) x (- 1) (v - 1) (Suc j) = Inr (w, j')" "Suc j \<le> j'" "divided B E S i j' Cl' Op' Re"
      "w = v - 1 + int (size Op') - int (size (Op - {#g#}))"
      "\<forall>h\<in>#Cl'. h \<in># add_mset g Cl \<or> snd h = x \<and> h \<in># Op - {#g#}" "Op' \<subseteq># Op - {#g#}" "\<forall>y\<in>set (drop j' E). x < y"
      using Suc.hyps(1) [OF d g(3) Suc.prems(2) _ Suc.prems(4,5), of "v - 1"] by blast
    have "skip_equal E (length E) x (- 1) v j = Inr (w, j')" using True j r(1) by (subst skip_equal.simps) (simp add: rd_def)
    moreover have "Op' \<subseteq># Op" using r(6) by (meson diff_subset_eq_self subset_mset.order_trans)
    moreover have "size (Op - {#g#}) = size Op - 1" "0 < size Op" using g(2) by (auto simp: size_Diff_singleton gr0_conv_Suc dest: multi_member_split)
    moreover have "\<forall>h\<in>#Cl'. h \<in># Cl \<or> snd h = x \<and> h \<in># Op" using r(5) g True by (auto dest: in_diffD)
    ultimately show ?thesis using r by (intro exI [of _ w] exI [of _ j'] exI [of _ Cl'] exI [of _ Op']) auto
  next
    case False
    have "skip_equal E (length E) x (- 1) v j = Inr (v, j)" using False j by (subst skip_equal.simps) (simp add: rd_def)
    moreover have "x < E ! j" using Suc.prems(3) j False by (metis Cons_nth_drop_Suc list.set_intros(1) order_less_le)
    ultimately show ?thesis using Suc.prems(1) le by (intro exI [of _ v] exI [of _ j] exI [of _ Cl] exI [of _ Op]) force
  qed
qed

section \<open>One event\<close>

text \<open>What the sweep meets at \<open>pos\<close>: the segments it opens begin there, the ones it closes end there.\<close>

definition event_ok ::
  "uint64 list \<Rightarrow> uint64 list \<Rightarrow> span multiset \<Rightarrow> nat \<Rightarrow> nat \<Rightarrow> span multiset \<Rightarrow> span multiset \<Rightarrow> uint64 \<Rightarrow> int \<Rightarrow> nat \<Rightarrow> nat \<Rightarrow>
   span multiset \<Rightarrow> span multiset \<Rightarrow> span multiset \<Rightarrow> bool" where
  "event_ok B E S i j Cl Op pos v i' j' Cl' Op' Re' \<longleftrightarrow> divided B E S i' j' Cl' Op' Re' \<and> i \<le> i' \<and> j \<le> j' \<and> i + j < i' + j' \<and>
     int (size Op') = int (size Op) + v \<and> (\<forall>g\<in>#Op'. g \<in># Op \<or> fst g = pos) \<and>
     (\<forall>g\<in>#Cl'. g \<in># Cl \<or> snd g = pos \<and> (g \<in># Op \<or> fst g = pos)) \<and>
     (\<forall>y\<in>set (drop i B). pos \<le> y) \<and> (\<forall>y\<in>set (drop j E). pos \<le> y) \<and>
     (Op = {#} \<longrightarrow> Op' \<noteq> {#} \<longrightarrow> i < i') \<and> (Op \<noteq> {#} \<longrightarrow> Op' = {#} \<longrightarrow> pos \<in> set (drop j E))"

lemma nth_in_drop: "i < length xs \<Longrightarrow> xs ! i \<in> set (drop i xs)"
  by (metis Cons_nth_drop_Suc list.set_intros(1))

lemma event_begin:
  assumes "divided B E S i j Cl Op Re" "sorted B" "i < length B" "\<forall>y\<in>set (drop j E). B ! i \<le> y"
  shows "\<exists>Cl' Op' Re'. event_ok B E S i j Cl Op (B ! i) 1 (i + 1) j Cl' Op' Re'"
proof -
  obtain g where "fst g = B ! i" "divided B E S (Suc i) j Cl (add_mset g Op) (Re - {#g#})" using open_one [OF assms(1,3)] by blast
  then have "event_ok B E S i j Cl Op (B ! i) 1 (i + 1) j Cl (add_mset g Op) (Re - {#g#})"
    using assms(4) sorted_head [OF assms(2,3)] by (auto simp: event_ok_def)
  then show ?thesis by blast
qed

lemma event_end:
  assumes "divided B E S i j Cl Op Re" "sorted E" "j < length E" "\<forall>g\<in>#S. fst g \<le> snd g" "\<forall>y\<in>set (drop i B). E ! j < y"
  shows "\<exists>Cl' Op' Re'. event_ok B E S i j Cl Op (E ! j) (- 1) i (j + 1) Cl' Op' Re'"
proof -
  obtain g where g: "snd g = E ! j" "g \<in># Op" "divided B E S i (Suc j) (add_mset g Cl) (Op - {#g#}) Re"
    using close_one [OF assms(1,3,4,5)] by blast
  obtain Op' where o: "Op = add_mset g Op'" using multi_member_split [OF g(2)] by blast
  have "event_ok B E S i j Cl Op (E ! j) (- 1) i (j + 1) (add_mset g Cl) Op' Re"
    using g assms(5) sorted_head [OF assms(2,3)] nth_in_drop [OF assms(3)] by (auto simp: event_ok_def o less_imp_le)
  then show ?thesis by blast
qed

lemma event_both:
  assumes "divided B E S i j Cl Op Re" "sorted B" "sorted E" "i < length B" "j < length E" "\<forall>g\<in>#S. fst g \<le> snd g" "B ! i = E ! j"
  shows "\<exists>v i' w j' Cl' Op' Re'. skip_equal B (length B) (B ! i) 1 0 i = Inr (v, i') \<and> skip_equal E (length E) (B ! i) (- 1) v j = Inr (w, j') \<and>
    event_ok B E S i j Cl Op (B ! i) w i' j' Cl' Op' Re'"
proof -
  let ?x = "B ! i"
  have b: "\<forall>y\<in>set (drop i B). ?x \<le> y" and e: "\<forall>y\<in>set (drop j E). ?x \<le> y"
    using sorted_head [OF assms(2,4)] sorted_head [OF assms(3,5)] assms(7) by auto
  from skip_open [OF assms(1,2) b, of 0] obtain v i' Op1 Re1 where o: "skip_equal B (length B) ?x 1 0 i = Inr (v, i')" "i \<le> i'"
    "divided B E S i' j Cl Op1 Re1" "v = int (size Op1) - int (size Op)" "\<forall>g\<in>#Op1. g \<in># Op \<or> fst g = ?x" "Op \<subseteq># Op1"
    "\<forall>y\<in>set (drop i' B). ?x < y" "Op1 \<noteq> Op \<longrightarrow> i < i'" by auto
  from skip_close [OF o(3) assms(3) e assms(6) o(7), of v] obtain w j' Cl' Op2 where c: "skip_equal E (length E) ?x (- 1) v j = Inr (w, j')"
    "j \<le> j'" "divided B E S i' j' Cl' Op2 Re1" "w = v + int (size Op2) - int (size Op1)" "\<forall>g\<in>#Cl'. g \<in># Cl \<or> snd g = ?x \<and> g \<in># Op1"
    "Op2 \<subseteq># Op1" "\<forall>y\<in>set (drop j' E). ?x < y" by blast
  have "i' \<noteq> i" using o(7) nth_in_drop [OF assms(4)] by auto
  moreover have "\<forall>g\<in>#Op2. g \<in># Op \<or> fst g = ?x" using o(5) c(6) by (meson mset_subset_eqD)
  moreover have "\<forall>g\<in>#Cl'. g \<in># Cl \<or> snd g = ?x \<and> (g \<in># Op \<or> fst g = ?x)" using o(5) c(5) by blast
  moreover have "?x \<in> set (drop j E)" using nth_in_drop [OF assms(5)] assms(7) by simp
  ultimately have "event_ok B E S i j Cl Op ?x w i' j' Cl' Op2 Re1"
    using o(2,4) c(2,3,4) b e unfolding event_ok_def by simp
  then show ?thesis using o(1) c(1) by blast
qed

lemma next_event_ok:
  assumes "divided B E S i j Cl Op Re" "sorted B" "sorted E" "length B = n" "length E = n" "i < n \<or> j < n" "\<forall>g\<in>#S. fst g \<le> snd g"
  shows "\<exists>pos v i' j' Cl' Op' Re'. next_event B E n i j = Inr (pos, v, i', j') \<and> event_ok B E S i j Cl Op pos v i' j' Cl' Op' Re'"
proof -
  have ij: "i \<le> n" "j \<le> n" using assms(1,4,5) by (auto simp: divided_def)
  consider "i = n" "j < n" | "i < n" "j = n" | "i < n" "j < n" "B ! i = E ! j" | "i < n" "j < n" "B ! i < E ! j" | "i < n" "j < n" "E ! j < B ! i"
    using ij assms(6) by fastforce
  then show ?thesis
  proof cases
    case 1
    then show ?thesis using event_end [OF assms(1,3) _ assms(7)] assms(4,5) by (fastforce simp: next_event_def rd_def)
  next
    case 2
    then show ?thesis using event_begin [OF assms(1,2)] assms(4,5) by (fastforce simp: next_event_def rd_def)
  next
    case 3
    then show ?thesis using event_both [OF assms(1,2,3) _ _ assms(7)] assms(4,5) by (fastforce simp: next_event_def rd_def)
  next
    case 4
    then have "\<forall>y\<in>set (drop j E). B ! i \<le> y" using sorted_head [OF assms(3)] assms(5) by fastforce
    with 4 show ?thesis using event_begin [OF assms(1,2)] assms(4,5) by (fastforce simp: next_event_def rd_def)
  next
    case 5
    then have "\<forall>y\<in>set (drop i B). E ! j < y" using sorted_head [OF assms(2)] assms(4) by fastforce
    with 5 show ?thesis using event_end [OF assms(1,3) _ assms(7)] assms(4,5) by (fastforce simp: next_event_def rd_def)
  qed
qed

section \<open>The segments found\<close>

definition free_in :: "ram_segment list \<Rightarrow> uint64 \<Rightarrow> bool" where
  "free_in gs x \<longleftrightarrow> (\<exists>g\<in>set gs. pa_begin g \<le> x \<and> x < pa_begin g + pa_len g)"

definition found :: "'a memory_state_scheme \<Rightarrow> ram_segment list" where
  "found s = take (unat (available_ram_segments_num s)) (available_ram_segments s)"

text \<open>Up to \<open>cur\<close> the segments found are the gaps between the reserved ones, in order.\<close>

definition swept :: "uint64 \<Rightarrow> span multiset \<Rightarrow> uint64 \<Rightarrow> ram_segment list \<Rightarrow> bool" where
  "swept pa S cur gs \<longleftrightarrow> (\<forall>x. free_in gs x \<longleftrightarrow> pa \<le> x \<and> x < cur \<and> (\<forall>g\<in>#S. \<not> covers g x)) \<and>
     sorted_wrt (\<lambda>g h. pa_begin g + pa_len g \<le> pa_begin h) gs \<and> (\<forall>g\<in>set gs. pa_begin g < pa_begin g + pa_len g \<and> pa_begin g + pa_len g \<le> cur)"

lemma swept_covered:
  assumes "swept pa S cur gs" "cur \<le> c" "\<forall>x. cur \<le> x \<longrightarrow> x < c \<longrightarrow> (\<exists>g\<in>#S. covers g x)"
  shows "swept pa S c gs"
  unfolding swept_def
proof (intro conjI allI)
  have s: "free_in gs x \<longleftrightarrow> pa \<le> x \<and> x < cur \<and> (\<forall>g\<in>#S. \<not> covers g x)" for x using assms(1) by (simp add: swept_def)
  show "free_in gs x \<longleftrightarrow> pa \<le> x \<and> x < c \<and> (\<forall>g\<in>#S. \<not> covers g x)" for x
    unfolding s using assms(2,3) by (meson not_le less_le_trans)
  show "sorted_wrt (\<lambda>g h. pa_begin g + pa_len g \<le> pa_begin h) gs" using assms(1) by (simp add: swept_def)
  show "\<forall>g\<in>set gs. pa_begin g < pa_begin g + pa_len g \<and> pa_begin g + pa_len g \<le> c" using assms(1,2) by (fastforce simp: swept_def)
qed

lemma swept_free:
  assumes "swept pa S cur gs" "pa \<le> cur" "cur < pos" "\<forall>x. cur \<le> x \<longrightarrow> x < pos \<longrightarrow> (\<forall>g\<in>#S. \<not> covers g x)"
  shows "swept pa S pos (gs @ [\<lparr>pa_begin = cur, pa_len = pos - cur\<rparr>])"
  unfolding swept_def
proof (intro conjI allI)
  have s: "free_in gs x \<longleftrightarrow> pa \<le> x \<and> x < cur \<and> (\<forall>g\<in>#S. \<not> covers g x)" for x using assms(1) by (simp add: swept_def)
  have a: "free_in (gs @ [\<lparr>pa_begin = cur, pa_len = pos - cur\<rparr>]) x \<longleftrightarrow> free_in gs x \<or> cur \<le> x \<and> x < pos" for x
    by (auto simp: free_in_def)
  show "free_in (gs @ [\<lparr>pa_begin = cur, pa_len = pos - cur\<rparr>]) x \<longleftrightarrow> pa \<le> x \<and> x < pos \<and> (\<forall>g\<in>#S. \<not> covers g x)" for x
    unfolding a s using assms(2-4) by (meson not_le less_trans order_trans)
  show "sorted_wrt (\<lambda>g h. pa_begin g + pa_len g \<le> pa_begin h) (gs @ [\<lparr>pa_begin = cur, pa_len = pos - cur\<rparr>])"
    using assms(1) by (simp add: swept_def sorted_wrt_append)
  show "\<forall>g\<in>set (gs @ [\<lparr>pa_begin = cur, pa_len = pos - cur\<rparr>]). pa_begin g < pa_begin g + pa_len g \<and> pa_begin g + pa_len g \<le> pos"
    using assms(1,3) by (fastforce simp: swept_def)
qed

section \<open>The invariant\<close>

text \<open>The addresses below \<open>cur\<close> are settled.\<close>

definition settled ::
  "uint64 list \<Rightarrow> uint64 list \<Rightarrow> uint64 \<Rightarrow> nat \<Rightarrow> nat \<Rightarrow> span multiset \<Rightarrow> span multiset \<Rightarrow> uint64 \<Rightarrow> bool" where
  "settled B E pa i j Cl Op cur \<longleftrightarrow> pa \<le> cur \<and> (\<forall>g\<in>#Op. fst g \<le> cur) \<and> (\<forall>y\<in>set (drop j E). cur \<le> y) \<and>
     (\<forall>y\<in>set (drop i B). cur \<le> y \<or> cur = pa) \<and> (\<forall>g\<in>#Cl. snd g \<le> cur \<or> snd g \<le> fst g)"

lemma drop_later: "i \<le> i' \<Longrightarrow> y \<in> set (drop i' xs) \<Longrightarrow> y \<in> set (drop i xs)"
  using set_drop_subset_set_drop [of i i' xs] by blast

lemma settled_event:
  assumes "settled B E pa i j Cl Op cur" "event_ok B E S i j Cl Op pos v i' j' Cl' Op' Re'"
  shows "settled B E pa i' j' Cl' Op' (if Op = {#} \<and> Op' = {#} then cur else max cur pos)"
proof -
  have e: "i \<le> i'" "j \<le> j'" "\<forall>g\<in>#Op'. g \<in># Op \<or> fst g = pos" "\<forall>g\<in>#Cl'. g \<in># Cl \<or> snd g = pos \<and> (g \<in># Op \<or> fst g = pos)"
    "\<forall>y\<in>set (drop i B). pos \<le> y" "\<forall>y\<in>set (drop j E). pos \<le> y" using assms(2) by (simp_all add: event_ok_def)
  have s: "pa \<le> cur" "\<forall>g\<in>#Op. fst g \<le> cur" "\<forall>y\<in>set (drop j E). cur \<le> y" "\<forall>y\<in>set (drop i B). cur \<le> y \<or> cur = pa"
    "\<forall>g\<in>#Cl. snd g \<le> cur \<or> snd g \<le> fst g" using assms(1) by (simp_all add: settled_def)
  have "cur \<le> y \<and> pos \<le> y" if "y \<in> set (drop j' E)" for y using drop_later [OF e(2) that] s(3) e(6) by blast
  then have E: "\<forall>y\<in>set (drop j' E). cur \<le> y \<and> pos \<le> y" by blast
  have "(cur \<le> y \<or> cur = pa) \<and> pos \<le> y" if "y \<in> set (drop i' B)" for y using drop_later [OF e(1) that] s(4) e(5) by blast
  then have B: "\<forall>y\<in>set (drop i' B). (cur \<le> y \<or> cur = pa) \<and> pos \<le> y" by blast
  show ?thesis
  proof (cases "Op = {#} \<and> Op' = {#}")
    case True
    then have "\<forall>g\<in>#Cl'. snd g \<le> cur \<or> snd g \<le> fst g" using s(5) e(4) by fastforce
    then show ?thesis using True s(1) E B by (simp add: settled_def)
  next
    case False
    have "\<forall>g\<in>#Op'. fst g \<le> max cur pos" using e(3) s(2) by (auto simp: le_max_iff_disj)
    moreover have "\<forall>g\<in>#Cl'. snd g \<le> max cur pos \<or> snd g \<le> fst g" using e(4) s(5) by (auto simp: le_max_iff_disj)
    moreover have "\<forall>y\<in>set (drop i' B). max cur pos \<le> y \<or> max cur pos = pa" using B s(1) by (auto simp: max_def)
    ultimately show ?thesis unfolding if_not_P [OF False] settled_def using s(1) E by (simp add: le_max_iff_disj)
  qed
qed

text \<open>With no segment open nothing is reserved up to the next event; with one open everything is.\<close>

lemma gap_free:
  assumes "settled B E pa i j Cl {#} cur" "event_ok B E S i j Cl {#} pos v i' j' Cl' Op' Re'" "divided B E S i j Cl {#} Re" "cur \<le> x" "x < pos" "g \<in># S"
  shows "\<not> covers g x"
proof -
  have "g \<in># Cl \<or> g \<in># Re" using assms(3,6) by (auto simp: divided_def)
  then show ?thesis
  proof
    assume "g \<in># Cl"
    then have "snd g \<le> cur \<or> snd g \<le> fst g" using assms(1) by (simp add: settled_def)
    then show ?thesis using assms(4) by (auto simp: covers_def)
  next
    assume "g \<in># Re"
    then have "fst g \<in># mset (drop i B)" using assms(3) by (simp add: divided_def)
    then have "pos \<le> fst g" using assms(2) by (simp add: event_ok_def)
    then show ?thesis using assms(5) by (auto simp: covers_def)
  qed
qed

lemma gap_covered:
  assumes "settled B E pa i j Cl Op cur" "event_ok B E S i j Cl Op pos v i' j' Cl' Op' Re'" "divided B E S i j Cl Op Re" "Op \<noteq> {#}" "cur \<le> x" "x < pos"
  shows "\<exists>g\<in>#S. covers g x"
proof -
  obtain g where g: "g \<in># Op" using assms(4) by (meson multiset_nonemptyE)
  have "snd g \<in># image_mset snd (Op + Re)" using g by simp
  then have "snd g \<in># mset (drop j E)" using assms(3) by (simp add: divided_def)
  then have "pos \<le> snd g" using assms(2) by (simp add: event_ok_def)
  moreover have "fst g \<le> cur" using g assms(1) by (simp add: settled_def)
  ultimately have "covers g x" using assms(5,6) by (auto simp: covers_def)
  moreover have "g \<in># S" using g assms(3) by (simp add: divided_def)
  ultimately show ?thesis by blast
qed

definition sweep_inv ::
  "uint64 list \<Rightarrow> uint64 list \<Rightarrow> span multiset \<Rightarrow> uint64 \<Rightarrow> nat \<Rightarrow> nat \<Rightarrow> int \<Rightarrow> uint64 \<Rightarrow> 'a memory_state_scheme \<Rightarrow> bool" where
  "sweep_inv B E S pa i j acc last_ptr s \<longleftrightarrow> (\<exists>Cl Op Re cur. divided B E S i j Cl Op Re \<and> acc = int (size Op) \<and>
     (Op = {#} \<longrightarrow> last_ptr = cur) \<and> settled B E pa i j Cl Op cur \<and> swept pa S cur (found s) \<and>
     unat (available_ram_segments_num s) \<le> i \<and> length (available_ram_segments s) = 1024)"

text \<open>What the sweep leaves alone.\<close>

definition sweep_frame :: "'a memory_state_scheme \<Rightarrow> 'a memory_state_scheme \<Rightarrow> bool" where
  "sweep_frame s t \<longleftrightarrow> (\<exists>av k. t = s\<lparr>available_ram_segments := av, available_ram_segments_num := k\<rparr>)"

lemma note_found:
  assumes "unat (available_ram_segments_num s) < 1024" "length (available_ram_segments s) = 1024"
  shows "\<exists>t. bindR (wr (available_ram_segments s) (unat (available_ram_segments_num s)) g) (\<lambda>av.
      Inr (l, s\<lparr>available_ram_segments := av, available_ram_segments_num := available_ram_segments_num s + 1\<rparr>)) = Inr (l, t) \<and>
    found t = found s @ [g] \<and> sweep_frame s t \<and> unat (available_ram_segments_num t) = unat (available_ram_segments_num s) + 1 \<and>
    length (available_ram_segments t) = 1024"
proof -
  have u: "unat (available_ram_segments_num s + 1) = unat (available_ram_segments_num s) + 1"
    using assms(1) by (simp add: unat_word_ariths)
  show ?thesis using assms
    by (auto simp: wr_def found_def u sweep_frame_def take_Suc_conv_app_nth intro!: exI)
qed

lemma note_event_inv:
  assumes "divided B E S i j Cl Op Re" "(Op = {#} \<longrightarrow> last_ptr = cur)" "settled B E pa i j Cl Op cur" "swept pa S cur (found s)"
    "unat (available_ram_segments_num s) \<le> i" "length (available_ram_segments s) = 1024" "length B \<le> 1024"
    "event_ok B E S i j Cl Op pos v i' j' Cl' Op' Re'"
  shows "\<exists>l t. note_event (int (size Op)) (int (size Op) + v) pos last_ptr s = Inr (l, t) \<and>
    sweep_inv B E S pa i' j' (int (size Op) + v) l t \<and> sweep_frame s t"
proof -
  let ?cur = "if Op = {#} \<and> Op' = {#} then cur else max cur pos"
  have e: "divided B E S i' j' Cl' Op' Re'" "i \<le> i'" "int (size Op) + v = int (size Op')" using assms(8) by (simp_all add: event_ok_def)
  have st: "settled B E pa i' j' Cl' Op' ?cur" by (rule settled_event [OF assms(3,8)])
  have inv: "sweep_inv B E S pa i' j' (int (size Op')) l t" if "Op' = {#} \<longrightarrow> l = ?cur" "swept pa S ?cur (found t)"
      "unat (available_ram_segments_num t) \<le> i'" "length (available_ram_segments t) = 1024" for l t
    using that e(1) st unfolding sweep_inv_def by blast
  have refl: "sweep_frame s s" by (auto simp: sweep_frame_def intro!: exI [of _ "available_ram_segments s"] exI [of _ "available_ram_segments_num s"])
  consider (keep) "Op = {#}" "Op' = {#}" | (start) "Op = {#}" "Op' \<noteq> {#}" "cur < pos" | (low) "Op = {#}" "Op' \<noteq> {#}" "pos \<le> cur" | (inside) "Op \<noteq> {#}"
    by force
  then show ?thesis
  proof cases
    case keep
    have "sweep_inv B E S pa i' j' (int (size Op')) last_ptr s" by (rule inv) (use keep assms e(2) in auto)
    then show ?thesis using keep e(3) refl by (simp add: note_event_def)
  next
    case start
    have i: "i < i'" using assms(8) start by (simp add: event_ok_def)
    then have "unat (available_ram_segments_num s) < 1024" using assms(5,7) e(1) by (simp add: divided_def)
    from note_found [OF this assms(6), of "\<lparr>pa_begin = cur, pa_len = pos - cur\<rparr>" cur] obtain t where t:
      "note_event (int (size Op)) (int (size Op) + v) pos last_ptr s = Inr (cur, t)" "found t = found s @ [\<lparr>pa_begin = cur, pa_len = pos - cur\<rparr>]"
      "sweep_frame s t" "unat (available_ram_segments_num t) = unat (available_ram_segments_num s) + 1" "length (available_ram_segments t) = 1024"
      using start assms(2) e(3) by (auto simp: note_event_def nonempty_has_size)
    have "swept pa S pos (found t)"
      unfolding t(2) by (rule swept_free [OF assms(4)]) (use assms(3) start gap_free [of B E pa i j Cl cur S pos] assms(1,8) in \<open>auto simp: settled_def\<close>)
    then have "sweep_inv B E S pa i' j' (int (size Op')) cur t" using start t(4,5) i assms(5) by (intro inv) (auto simp: max_def)
    then show ?thesis using t(1,3) e(3) by auto
  next
    case low
    have "sweep_inv B E S pa i' j' (int (size Op')) last_ptr s" by (rule inv) (use low assms e(2) in \<open>auto simp: max_def\<close>)
    then show ?thesis using low e(3) refl assms(2) by (auto simp: note_event_def)
  next
    case inside
    have c: "swept pa S (max cur pos) (found s)"
      using gap_covered [OF assms(3,8,1) inside] by (intro swept_covered [OF assms(4)]) (auto simp: less_max_iff_disj)
    let ?l = "if Op' = {#} then pos else last_ptr"
    have "Op' = {#} \<longrightarrow> cur \<le> pos" using assms(3,8) inside by (auto simp: event_ok_def settled_def)
    then have "sweep_inv B E S pa i' j' (int (size Op')) ?l s" by (intro inv) (use inside c assms(5,6) e(2) in \<open>auto simp: max_def\<close>)
    moreover have "note_event (int (size Op)) (int (size Op) + v) pos last_ptr s = Inr (?l, s)"
      using inside e(3) by (auto simp: note_event_def nonempty_has_size)
    ultimately show ?thesis using e(3) refl by auto
  qed
qed

section \<open>The whole sweep\<close>

lemma skip_equal_take: "n \<le> length arr \<Longrightarrow> skip_equal (take n arr) n x d v i = skip_equal arr n x d v i"
proof (induction "n - i" arbitrary: v i)
  case 0
  then show ?case by (subst (1 2) skip_equal.simps) simp
next
  case (Suc k)
  then have "skip_equal (take n arr) n x d (v + d) (i + 1) = skip_equal arr n x d (v + d) (i + 1)" by simp
  then show ?case using Suc.prems Suc.hyps(2) by (subst (1 2) skip_equal.simps) (simp add: rd_def)
qed

lemma next_event_take:
  assumes "n \<le> length bs" "n \<le> length es" "i \<le> n" "j \<le> n" "i < n \<or> j < n"
  shows "next_event (take n bs) (take n es) n i j = next_event bs es n i j"
  using assms by (auto simp: next_event_def rd_def skip_equal_take)

lemma sweep_frame_trans: "sweep_frame s t \<Longrightarrow> sweep_frame t u \<Longrightarrow> sweep_frame s u"
  unfolding sweep_frame_def by (elim exE) (rule exI, rule exI, simp)

lemma sweep_frame_fields:
  "sweep_frame s t \<Longrightarrow> sort_seg_begin t = sort_seg_begin s \<and> sort_seg_end t = sort_seg_end s \<and> sort_seg_num t = sort_seg_num s"
  by (auto simp: sweep_frame_def)

lemma sweep_correct:
  assumes "\<forall>g\<in>#S. fst g \<le> snd g" "n \<le> 1024"
  shows "n = unat (sort_seg_num s) \<Longrightarrow> n \<le> length (sort_seg_begin s) \<Longrightarrow> n \<le> length (sort_seg_end s) \<Longrightarrow>
    sorted (take n (sort_seg_begin s)) \<Longrightarrow> sorted (take n (sort_seg_end s)) \<Longrightarrow>
    sweep_inv (take n (sort_seg_begin s)) (take n (sort_seg_end s)) S pa i j acc last_ptr s \<Longrightarrow>
    \<exists>acc' l t. sweep i j acc last_ptr s = ret t \<and> sweep_frame s t \<and>
      sweep_inv (take n (sort_seg_begin s)) (take n (sort_seg_end s)) S pa n n acc' l t"
proof (induction "2 * n - (i + j)" arbitrary: i j acc last_ptr s rule: less_induct)
  case less
  let ?B = "take n (sort_seg_begin s)" and ?E = "take n (sort_seg_end s)"
  from less.prems(6) obtain Cl Op Re cur where I: "divided ?B ?E S i j Cl Op Re" "acc = int (size Op)" "Op = {#} \<longrightarrow> last_ptr = cur"
    "settled ?B ?E pa i j Cl Op cur" "swept pa S cur (found s)" "unat (available_ram_segments_num s) \<le> i" "length (available_ram_segments s) = 1024"
    unfolding sweep_inv_def by blast
  have len: "length ?B = n" "length ?E = n" using less.prems(2,3) by simp_all
  have ij: "i \<le> n" "j \<le> n" using I(1) len by (auto simp: divided_def)
  show ?case
  proof (cases "i < n \<or> j < n")
    case False
    then have "sweep i j acc last_ptr s = ret s" using less.prems(1) by (subst sweep.simps) simp
    moreover have "sweep_frame s s" by (auto simp: sweep_frame_def intro!: exI [of _ "available_ram_segments s"] exI [of _ "available_ram_segments_num s"])
    moreover have "i = n" "j = n" using False ij by simp_all
    ultimately show ?thesis using less.prems(6) by blast
  next
    case True
    from next_event_ok [OF I(1) less.prems(4,5) len True assms(1)] obtain pos v i' j' Cl' Op' Re' where
      e: "next_event ?B ?E n i j = Inr (pos, v, i', j')" "event_ok ?B ?E S i j Cl Op pos v i' j' Cl' Op' Re'" by blast
    have "length ?B \<le> 1024" using assms(2) len by simp
    from note_event_inv [OF I(1,3,4,5,6,7) this e(2)] obtain l t where
      t: "note_event acc (acc + v) pos last_ptr s = Inr (l, t)" "sweep_inv ?B ?E S pa i' j' (acc + v) l t" "sweep_frame s t" using I(2) by blast
    have ev: "next_event (sort_seg_begin s) (sort_seg_end s) (unat (sort_seg_num s)) i j = Inr (pos, v, i', j')"
      using e(1) next_event_take [OF less.prems(2,3) ij True] less.prems(1) by simp
    have step: "sweep i j acc last_ptr s = sweep i' j' (acc + v) l t"
      using True less.prems(1) t(1) by (subst sweep.simps) (simp add: ev)
    have f: "sort_seg_begin t = sort_seg_begin s" "sort_seg_end t = sort_seg_end s" "sort_seg_num t = sort_seg_num s"
      using sweep_frame_fields [OF t(3)] by simp_all
    have "i + j < i' + j'" "i' \<le> n" "j' \<le> n" using e(2) len by (auto simp: event_ok_def divided_def)
    then have m: "2 * n - (i' + j') < 2 * n - (i + j)" by simp
    have "\<exists>acc' l' u. sweep i' j' (acc + v) l t = ret u \<and> sweep_frame t u \<and> sweep_inv ?B ?E S pa n n acc' l' u"
      using less.hyps [OF m, of t "acc + v" l] less.prems t(2) by (simp add: f)
    then show ?thesis using step sweep_frame_trans [OF t(3)] by metis
  qed
qed

lemma sweep_end:
  assumes "sweep_inv B E S pa n n acc l t" "length B = n" "length E = n" "(r, - 1) \<in># S" "r < - 1"
  shows "swept pa S (- 1) (found t)"
proof -
  from assms(1) obtain Cl Op Re cur where I: "divided B E S n n Cl Op Re" "settled B E pa n n Cl Op cur" "swept pa S cur (found t)"
    unfolding sweep_inv_def by blast
  have "Re = {#}" "Op = {#}" "S = Cl" using I(1) assms(2,3) by (auto simp: divided_def)
  then have "(- 1 :: uint64) \<le> cur \<or> - 1 \<le> r" using I(2) assms(4) by (auto simp: settled_def)
  then have "cur = - 1" using assms(5) by (auto simp: word_order.extremum_unique)
  then show ?thesis using I(3) by simp
qed

section \<open>Before the sweep\<close>

lemma add_segment_take:
  assumes "unat (sort_seg_num s) < 1024" "length (sort_seg_begin s) = 1024" "length (sort_seg_end s) = 1024"
  shows "\<exists>bs es. add_segment b e s = Inr (s\<lparr>sort_seg_begin := bs, sort_seg_end := es, sort_seg_num := sort_seg_num s + 1\<rparr>) \<and>
    length bs = 1024 \<and> length es = 1024 \<and> unat (sort_seg_num s + 1) = unat (sort_seg_num s) + 1 \<and>
    take (unat (sort_seg_num s) + 1) bs = take (unat (sort_seg_num s)) (sort_seg_begin s) @ [b] \<and>
    take (unat (sort_seg_num s) + 1) es = take (unat (sort_seg_num s)) (sort_seg_end s) @ [e]"
  using assms
  by (intro exI [of _ "(sort_seg_begin s)[unat (sort_seg_num s) := b]"] exI [of _ "(sort_seg_end s)[unat (sort_seg_num s) := e]"])
    (simp add: add_segment_def wr_def unat_word_ariths take_Suc_conv_app_nth)

lemma align_segments_take:
  "unat (sort_seg_num s) = n \<Longrightarrow> n \<le> length (sort_seg_begin s) \<Longrightarrow> n \<le> length (sort_seg_end s) \<Longrightarrow> i \<le> n \<Longrightarrow>
   \<exists>bs es. align_segments i s = Inr (s\<lparr>sort_seg_begin := bs, sort_seg_end := es\<rparr>) \<and>
     length bs = length (sort_seg_begin s) \<and> length es = length (sort_seg_end s) \<and>
     take n bs = take i (sort_seg_begin s) @ map PAGE_ROUND_DOWN (drop i (take n (sort_seg_begin s))) \<and>
     take n es = take i (sort_seg_end s) @ map PAGE_ROUND_UP (drop i (take n (sort_seg_end s)))"
proof (induction "n - i" arbitrary: i s)
  case 0
  then have "align_segments i s = Inr s" by (subst align_segments.simps) simp
  moreover have "i = n" using 0 by simp
  ultimately show ?case by (intro exI [of _ "sort_seg_begin s"] exI [of _ "sort_seg_end s"]) simp
next
  case (Suc k)
  let ?bs = "(sort_seg_begin s)[i := PAGE_ROUND_DOWN (sort_seg_begin s ! i)]" and ?es = "(sort_seg_end s)[i := PAGE_ROUND_UP (sort_seg_end s ! i)]"
  let ?t = "s\<lparr>sort_seg_begin := ?bs, sort_seg_end := ?es\<rparr>"
  have i: "i < n" and ni: "n - i = Suc (n - Suc i)" using Suc.hyps(2) by simp_all
  have step: "align_segments i s = align_segments (i + 1) ?t"
    using i Suc.prems by (subst align_segments.simps) (simp add: rd_def wr_def PAGE_ROUND_DOWN_def PAGE_ROUND_UP_def)
  have d: "drop i (take n xs) = xs ! i # drop (i + 1) (take n (xs[i := y]))" "take (i + 1) (xs[i := y]) = take i xs @ [y]"
    if "n \<le> length xs" for xs :: "uint64 list" and y
    using that i ni by (simp_all add: Cons_nth_drop_Suc [symmetric] take_Suc_conv_app_nth drop_take)
  have "\<exists>bs es. align_segments (i + 1) ?t = Inr (?t\<lparr>sort_seg_begin := bs, sort_seg_end := es\<rparr>) \<and>
     length bs = length (sort_seg_begin ?t) \<and> length es = length (sort_seg_end ?t) \<and>
     take n bs = take (i + 1) (sort_seg_begin ?t) @ map PAGE_ROUND_DOWN (drop (i + 1) (take n (sort_seg_begin ?t))) \<and>
     take n es = take (i + 1) (sort_seg_end ?t) @ map PAGE_ROUND_UP (drop (i + 1) (take n (sort_seg_end ?t)))"
    using Suc.hyps(2) Suc.prems i by (intro Suc.hyps(1)) simp_all
  then show ?case using d(1) [OF Suc.prems(2), of "PAGE_ROUND_DOWN (sort_seg_begin s ! i)"] d(2) [OF Suc.prems(2), of "PAGE_ROUND_DOWN (sort_seg_begin s ! i)"]
      d(1) [OF Suc.prems(3), of "PAGE_ROUND_UP (sort_seg_end s ! i)"] d(2) [OF Suc.prems(3), of "PAGE_ROUND_UP (sort_seg_end s ! i)"]
    unfolding step by auto
qed

lemma qsort_take:
  assumes "n \<le> length arr"
  shows "\<exists>arr'. qsort arr (int n) = Inr arr' \<and> length arr' = length arr \<and> sorted (take n arr') \<and> mset (take n arr') = mset (take n arr)"
proof -
  obtain arr' where a: "qsort_typ (int 0) (int n - 1) arr = Inr arr'" "reorders 0 n arr arr'" "sorted (seg 0 n arr')"
    using qsort_typ_spec [of 0 n arr] assms by auto
  then show ?thesis using reorders_mset_seg [OF a(2)] reorders_length [OF a(2)] by (auto simp: qsort_def seg_def)
qed

section \<open>The available memory\<close>

text \<open>The reserved segments: those of the device tree and the kernel image, and a segment rounded out to pages.\<close>

definition reserved :: "uint64 \<Rightarrow> 'a memory_state_scheme \<Rightarrow> span list" where
  "reserved img_end s = zip (take (unat (sort_seg_num s)) (sort_seg_begin s)) (take (unat (sort_seg_num s)) (sort_seg_end s)) @
     [(pa_begin (ram_range s), img_end)]"

definition round_span :: "span \<Rightarrow> span" where
  "round_span g = (PAGE_ROUND_DOWN (fst g), PAGE_ROUND_UP (snd g))"

definition ram_end :: "'a memory_state_scheme \<Rightarrow> uint64" where
  "ram_end s = PAGE_ROUND_DOWN (pa_begin (ram_range s) + pa_len (ram_range s))"

lemma sweep_start:
  assumes "length (available_ram_segments s) = 1024" "available_ram_segments_num s = 0" "mset B = image_mset fst S" "mset E = image_mset snd S"
    "\<forall>g\<in>#S. pa \<le> snd g"
  shows "sweep_inv B E S pa 0 0 0 pa s"
proof -
  have "set E = snd ` set_mset S" using assms(4) by (metis set_image_mset set_mset_mset)
  then have "\<forall>y\<in>set E. pa \<le> y" using assms(5) by auto
  moreover have "swept pa S pa []" by (auto simp: swept_def free_in_def)
  ultimately have "divided B E S 0 0 {#} {#} S" "settled B E pa 0 0 {#} {#} pa" "swept pa S pa (found s)"
    using assms by (simp_all add: divided_def settled_def found_def)
  then show ?thesis unfolding sweep_inv_def using assms(1,2)
    by (intro exI [of _ "{#}"] exI [of _ S] exI [of _ pa]) simp
qed

lemma map_round_zip:
  assumes "length xs = length ys"
  shows "map fst (map round_span (zip xs ys)) = map PAGE_ROUND_DOWN xs" "map snd (map round_span (zip xs ys)) = map PAGE_ROUND_UP ys"
proof -
  have "map fst (map round_span (zip xs ys)) = map PAGE_ROUND_DOWN (map fst (zip xs ys))"
    "map snd (map round_span (zip xs ys)) = map PAGE_ROUND_UP (map snd (zip xs ys))" by (simp_all add: round_span_def)
  then show "map fst (map round_span (zip xs ys)) = map PAGE_ROUND_DOWN xs" "map snd (map round_span (zip xs ys)) = map PAGE_ROUND_UP ys"
    using assms by (simp_all only: map_fst_zip map_snd_zip)
qed

lemma map_reserved:
  assumes "length (sort_seg_begin s) = length (sort_seg_end s)"
  shows "map fst (map round_span (reserved img_end s) @ [(r, e)]) =
      map PAGE_ROUND_DOWN (take (unat (sort_seg_num s)) (sort_seg_begin s) @ [pa_begin (ram_range s)]) @ [r]"
    "map snd (map round_span (reserved img_end s) @ [(r, e)]) = map PAGE_ROUND_UP (take (unat (sort_seg_num s)) (sort_seg_end s) @ [img_end]) @ [e]"
  using map_round_zip [of "take (unat (sort_seg_num s)) (sort_seg_begin s)" "take (unat (sort_seg_num s)) (sort_seg_end s)"] assms
  by (simp_all only: reserved_def map_append length_take) (simp_all add: round_span_def)

lemma calc_prepares:
  fixes s :: "'a memory_state_scheme"
  assumes "unat (sort_seg_num s) + 2 \<le> 1024" "length (sort_seg_begin s) = 1024" "length (sort_seg_end s) = 1024"
  obtains t where "device_calc_available_ram img_end s = sweep 0 0 0 (pa_begin (ram_range s)) t" "unat (sort_seg_num t) = unat (sort_seg_num s) + 2"
    "length (sort_seg_begin t) = 1024" "length (sort_seg_end t) = 1024" "available_ram_segments t = available_ram_segments s"
    "available_ram_segments_num t = available_ram_segments_num s"
    "sorted (take (unat (sort_seg_num t)) (sort_seg_begin t))" "sorted (take (unat (sort_seg_num t)) (sort_seg_end t))"
    "mset (take (unat (sort_seg_num t)) (sort_seg_begin t)) = mset (map fst (map round_span (reserved img_end s) @ [(ram_end s, - 1)]))"
    "mset (take (unat (sort_seg_num t)) (sort_seg_end t)) = mset (map snd (map round_span (reserved img_end s) @ [(ram_end s, - 1)]))"
proof -
  let ?k = "unat (sort_seg_num s)" and ?pa = "pa_begin (ram_range s)"
  obtain bs1 es1 where 1: "add_segment ?pa img_end s = Inr (s\<lparr>sort_seg_begin := bs1, sort_seg_end := es1, sort_seg_num := sort_seg_num s + 1\<rparr>)"
    "length bs1 = 1024" "length es1 = 1024" "unat (sort_seg_num s + 1) = ?k + 1" "take (?k + 1) bs1 = take ?k (sort_seg_begin s) @ [?pa]"
    "take (?k + 1) es1 = take ?k (sort_seg_end s) @ [img_end]" using add_segment_take [of s ?pa img_end] assms by auto
  define s1 where "s1 = s\<lparr>sort_seg_begin := bs1, sort_seg_end := es1, sort_seg_num := sort_seg_num s + 1\<rparr>"
  obtain bs2 es2 where 2: "align_segments 0 s1 = Inr (s1\<lparr>sort_seg_begin := bs2, sort_seg_end := es2\<rparr>)" "length bs2 = 1024" "length es2 = 1024"
    "take (?k + 1) bs2 = map PAGE_ROUND_DOWN (take (?k + 1) bs1)" "take (?k + 1) es2 = map PAGE_ROUND_UP (take (?k + 1) es1)"
    using align_segments_take [of s1 "?k + 1" 0] assms 1(2-4) by (auto simp: s1_def)
  define s2 where "s2 = s1\<lparr>sort_seg_begin := bs2, sort_seg_end := es2\<rparr>"
  obtain bs3 es3 where 3: "add_segment (ram_end s) (- 1) s2 = Inr (s2\<lparr>sort_seg_begin := bs3, sort_seg_end := es3, sort_seg_num := sort_seg_num s2 + 1\<rparr>)"
    "length bs3 = 1024" "length es3 = 1024" "unat (sort_seg_num s2 + 1) = ?k + 2" "take (?k + 2) bs3 = take (?k + 1) bs2 @ [ram_end s]"
    "take (?k + 2) es3 = take (?k + 1) es2 @ [- 1]" using add_segment_take [of s2 "ram_end s" "- 1"] assms 1(4) 2(2,3) by (auto simp: s1_def s2_def)
  obtain bs4 where 4: "qsort bs3 (int (?k + 2)) = Inr bs4" "length bs4 = 1024" "sorted (take (?k + 2) bs4)" "mset (take (?k + 2) bs4) = mset (take (?k + 2) bs3)"
    using qsort_take [of "?k + 2" bs3] assms(1) 3(2) by auto
  obtain es4 where 5: "qsort es3 (int (?k + 2)) = Inr es4" "length es4 = 1024" "sorted (take (?k + 2) es4)" "mset (take (?k + 2) es4) = mset (take (?k + 2) es3)"
    using qsort_take [of "?k + 2" es3] assms(1) 3(3) by auto
  define t where "t = s2\<lparr>sort_seg_num := sort_seg_num s2 + 1, sort_seg_begin := bs4, sort_seg_end := es4\<rparr>"
  have "sort_seg_num s2 + 1 = word_of_nat (?k + 2)" using 3(4) by (metis of_nat_unat ucast_id)
  moreover have "int (?k + 2) \<le> INT_MAX" using assms(1) unfolding INT_MAX_def by linarith
  ultimately have n: "int_of_u64 (sort_seg_num s2 + 1) = int (?k + 2)" by (simp only: int_of_u64_nat)
  show thesis
  proof (rule that [of t])
    have "ram_range s2 = ram_range s" by (simp add: s2_def s1_def)
    then show "device_calc_available_ram img_end s = sweep 0 0 0 ?pa t"
      using 1(1) 2(1) 3(1) 4(1) 5(1) n
      by (simp add: device_calc_available_ram_def t_def ram_end_def PAGE_ROUND_DOWN_def s1_def [symmetric] s2_def [symmetric])
  qed (use 1 2 3 4 5 assms in \<open>simp_all add: t_def s2_def s1_def map_reserved del: map_map map_append\<close>)
qed

lemma calc_available_correct:
  fixes s :: "'a memory_state_scheme"
  assumes "unat (sort_seg_num s) + 2 \<le> 1024" "length (sort_seg_begin s) = 1024" "length (sort_seg_end s) = 1024"
    "length (available_ram_segments s) = 1024" "available_ram_segments_num s = 0"
    "\<forall>g\<in>set (reserved img_end s). PAGE_ROUND_DOWN (fst g) \<le> PAGE_ROUND_UP (snd g) \<and> pa_begin (ram_range s) \<le> PAGE_ROUND_UP (snd g)"
  shows "\<exists>t. device_calc_available_ram img_end s = ret t \<and>
    swept (pa_begin (ram_range s)) (mset (map round_span (reserved img_end s) @ [(ram_end s, - 1)])) (- 1) (found t)"
proof -
  let ?pa = "pa_begin (ram_range s)" and ?S = "map round_span (reserved img_end s) @ [(ram_end s, - 1)]"
  obtain t where t: "device_calc_available_ram img_end s = sweep 0 0 0 ?pa t" "unat (sort_seg_num t) = unat (sort_seg_num s) + 2"
    "length (sort_seg_begin t) = 1024" "length (sort_seg_end t) = 1024" "available_ram_segments t = available_ram_segments s"
    "available_ram_segments_num t = available_ram_segments_num s"
    "sorted (take (unat (sort_seg_num t)) (sort_seg_begin t))" "sorted (take (unat (sort_seg_num t)) (sort_seg_end t))"
    "mset (take (unat (sort_seg_num t)) (sort_seg_begin t)) = mset (map fst ?S)" "mset (take (unat (sort_seg_num t)) (sort_seg_end t)) = mset (map snd ?S)"
    using calc_prepares [OF assms(1-3)] .
  let ?n = "unat (sort_seg_num t)"
  let ?B = "take ?n (sort_seg_begin t)" and ?E = "take ?n (sort_seg_end t)"
  have n: "?n \<le> 1024" using assms(1) t(2) by simp
  have S: "\<forall>g\<in>#mset ?S. fst g \<le> snd g" "\<forall>g\<in>#mset ?S. ?pa \<le> snd g" using assms(6) by (auto simp: round_span_def)
  have "sweep_inv ?B ?E (mset ?S) ?pa 0 0 0 ?pa t"
    by (rule sweep_start) (use assms(4,5) t S(2) in \<open>simp_all only: mset_map\<close>)
  from sweep_correct [OF S(1) n _ _ _ t(7,8) this] obtain acc l u where
    u: "sweep 0 0 0 ?pa t = ret u" "sweep_inv ?B ?E (mset ?S) ?pa ?n ?n acc l u" using n t(3,4) by auto
  have "unat (ram_end s) mod 4096 = 0" by (simp add: ram_end_def unat_PAGE_ROUND_DOWN)
  moreover have "unat (- 1 :: uint64) mod 4096 = 4095" by (simp add: unsigned_minus_1_eq_mask mask_eq_exp_minus_1)
  ultimately have "ram_end s \<noteq> - 1" by auto
  then have "ram_end s < - 1" by (simp add: word_order.not_eq_extremum)
  then have "swept ?pa (mset ?S) (- 1) (found u)" using n t(3,4) by (intro sweep_end [OF u(2)]) simp_all
  then show ?thesis using u(1) t(1) by auto
qed

end
