(* ===== verification/Console_Props.thy ===== *)
theory Console_Props
  imports Console
begin

text \<open>
  What the console prints for a number, and that \<^verbatim>\<open>strtoul\<close> of \<^verbatim>\<open>string.c\<close> reads it back.
\<close>

section \<open>Digits\<close>

text \<open>The numeral of \<open>n\<close> in base \<open>b\<close>, the first digit first.\<close>

function numeral_in :: "nat \<Rightarrow> nat \<Rightarrow> string" where
  "numeral_in b n = (if n < b \<or> b < 2 then [digits ! n] else numeral_in b (n div b) @ [digits ! (n mod b)])"
  by pat_completeness auto
termination by (relation "measure snd") auto

declare numeral_in.simps [simp del]

lemma length_digits [simp]: "length digits = 16"
  by (simp add: digits_def)

lemma numeral_in_nonempty [simp]: "numeral_in b n \<noteq> []"
  by (subst numeral_in.simps) simp

lemma length_numeral_in: "2 \<le> b \<Longrightarrow> 0 < k \<Longrightarrow> n < 2 ^ k \<Longrightarrow> length (numeral_in b n) \<le> k"
proof (induction b n arbitrary: k rule: numeral_in.induct)
  case (1 b n)
  show ?case
  proof (cases "n < b")
    case True
    then show ?thesis using 1 by (subst numeral_in.simps) simp
  next
    case False
    have k: "1 < k"
    proof (rule ccontr)
      assume "\<not> 1 < k"
      then have "k = 1" using 1 by simp
      then show False using 1 False by simp
    qed
    have "n div b \<le> n div 2" using 1 by (intro div_le_mono2) simp_all
    moreover have "(2 :: nat) ^ k = 2 * 2 ^ (k - 1)" using k by (simp flip: power_Suc)
    ultimately have "n div b < 2 ^ (k - 1)" using 1 by simp
    then have "length (numeral_in b (n div b)) \<le> k - 1" using 1 False k by simp
    then show ?thesis using k False 1 by (subst numeral_in.simps) simp
  qed
qed

section \<open>The buffer\<close>

lemma digit_loop_numeral:
  assumes "2 \<le> unat base" "unat base \<le> 16"
  shows "x \<noteq> 0 \<Longrightarrow> length buf = 64 \<Longrightarrow> ptr + length (numeral_in (unat base) (unat x)) \<le> 64 \<Longrightarrow>
    \<exists>buf'. digit_loop x base buf ptr = ret (buf', ptr + length (numeral_in (unat base) (unat x))) \<and> length buf' = 64 \<and>
      take (ptr + length (numeral_in (unat base) (unat x))) buf' = take ptr buf @ rev (numeral_in (unat base) (unat x))"
proof (induction "unat x" arbitrary: x buf ptr rule: less_induct)
  case less
  let ?b = "unat base" and ?n = "unat x"
  let ?c = "digits ! (?n mod ?b)"
  have nz: "base \<noteq> 0" using assms(1) by auto
  have "?n mod ?b < ?b" using assms(1) by (intro mod_less_divisor) simp
  then have m: "?n mod ?b < 16" using assms(2) by simp
  have ptr: "ptr < 64" using less.prems(3) by (cases "numeral_in ?b ?n") auto
  have u: "unat (x mod base) = ?n mod ?b" "unat (x div base) = ?n div ?b" by (simp_all add: unat_mod unat_div)
  have step: "digit_loop x base buf ptr = digit_loop (x div base) base (buf[ptr := ?c]) (ptr + 1)"
    using less.prems(1,2) nz m ptr u(1) by (subst digit_loop.simps) (simp add: rd_def wr_def)
  have tk: "take (ptr + 1) (buf[ptr := ?c]) = take ptr buf @ [?c]" using ptr less.prems(2) by (simp add: take_Suc_conv_app_nth)
  show ?case
  proof (cases "?n < ?b")
    case True
    then have "x div base = 0" using u(2) by (metis div_less unat_eq_zero)
    then have "digit_loop x base buf ptr = ret (buf[ptr := ?c], ptr + 1)" by (subst step, subst digit_loop.simps) simp
    moreover have "numeral_in ?b ?n = [?c]" using True by (subst numeral_in.simps) simp
    ultimately show ?thesis using tk less.prems(2) by (intro exI [of _ "buf[ptr := ?c]"]) simp
  next
    case False
    have n: "numeral_in ?b ?n = numeral_in ?b (?n div ?b) @ [?c]" using False assms(1) by (subst numeral_in.simps) simp
    have pos: "0 < ?n" using less.prems(1) by (simp add: unat_gt_0)
    have lt: "unat (x div base) < ?n" unfolding u(2) using pos assms(1) by (intro div_less_dividend) simp_all
    have d: "x div base \<noteq> 0"
      using False assms(1) u(2) by (metis div_greater_zero_iff linorder_not_less unat_gt_0 not_numeral_le_zero gr0I)
    from less.hyps [OF lt d, of "buf[ptr := ?c]" "ptr + 1"] obtain buf' where
      "digit_loop (x div base) base (buf[ptr := ?c]) (ptr + 1) = ret (buf', ptr + 1 + length (numeral_in ?b (?n div ?b)))"
      "length buf' = 64" "take (ptr + 1 + length (numeral_in ?b (?n div ?b))) buf' = take ptr buf @ [?c] @ rev (numeral_in ?b (?n div ?b))"
      using less.prems n tk u(2) by auto
    then show ?thesis using step n by auto
  qed
qed

lemma print_back_rev: "ptr \<le> length buf \<Longrightarrow> print_back ec um buf ptr s = print_str ec um (rev (take ptr buf)) s"
proof (induction ptr arbitrary: s)
  case (Suc ptr)
  then show ?case by (simp add: rd_def take_Suc_conv_app_nth cong: option.case_cong) (simp add: bindM_def split: option.splits sum.splits)
qed simp

lemma print_uint_numeral:
  assumes "2 \<le> unat base" "unat base \<le> 16"
  shows "print_uint ec um x base s = print_str ec um (numeral_in (unat base) (unat x)) s"
proof (cases "x = 0")
  case True
  have "numeral_in (unat base) 0 = ''0''" using assms by (subst numeral_in.simps) (simp add: digits_def)
  moreover have "print_str ec um [] = ret" by (rule ext) simp
  moreover have "bindM (print_char ec um (CHR ''0'') s) ret = print_char ec um (CHR ''0'') s"
    by (simp add: bindM_def split: option.splits sum.splits)
  ultimately show ?thesis using True by (simp add: print_uint_def)
next
  case False
  let ?ds = "numeral_in (unat base) (unat x)"
  have len: "length ?ds \<le> 64" by (rule length_numeral_in [OF assms(1)]) (use unsigned_less [of x] in simp_all)
  obtain buf where b: "digit_loop x base (replicate 64 (CHR 0x00)) 0 = ret (buf, length ?ds)" "length buf = 64" "take (length ?ds) buf = rev ?ds"
    using digit_loop_numeral [OF assms False, of "replicate 64 (CHR 0x00)" 0] len by auto
  then show ?thesis using False len by (simp add: print_uint_def print_back_rev)
qed

section \<open>Reading a numeral\<close>

lemma digit_cases:
  assumes "k < 16"
  shows "decode_digit (byte_of (digits ! k)) = word_of_nat k" "byte_of (digits ! k) \<noteq> 0"
proof -
  have "k \<in> {0, 1, 2, 3, 4, 5, 6, 7, 8, 9, 10, 11, 12, 13, 14, 15}" using assms unfolding insert_iff empty_iff by presburger
  then show "decode_digit (byte_of (digits ! k)) = word_of_nat k" "byte_of (digits ! k) \<noteq> 0"
    by (elim insertE emptyE; simp add: digits_def byte_of_def decode_digit_def tolower_def)+
qed

lemma decode_zero: "b \<le> 16 \<Longrightarrow> \<not> decode_digit 0 < (b :: uint32)"
  by (simp add: decode_digit_def tolower_def word_le_nat_alt word_less_nat_alt)

text \<open>The loop of \<^verbatim>\<open>strtoul\<close> over a numeral that is followed by \<open>cs\<close>.\<close>

lemma cstr_append: "cstr m p (cs @ ds) \<Longrightarrow> cstr m (p + word_of_nat (length cs)) ds"
proof (induction cs arbitrary: p)
  case (Cons c cs)
  then have "cstr m (p + 1 + word_of_nat (length cs)) ds" by simp
  then show ?case by (simp add: add.assoc)
qed simp

lemma strtoul_loop_digit:
  assumes "m p = Some (byte_of (digits ! k))" "k < unat b" "b \<le> 16"
  shows "strtoul_loop p b v m = strtoul_loop (p + 1) b (v * ucast b + word_of_nat k) m"
proof -
  have k: "k < 16" using assms(2,3) by (simp add: word_le_nat_alt)
  have "(word_of_nat k :: uint32) < b" using assms(2) k by (simp add: word_less_nat_alt unat_of_nat)
  moreover have "ucast (word_of_nat k :: uint32) = (word_of_nat k :: ulong)"
    using k by (simp add: word_unat_eq_iff unat_of_nat unsigned_ucast_eq take_bit_nat_eq_self)
  ultimately show ?thesis using assms(1) digit_cases [OF k] by (subst strtoul_loop.simps) simp
qed

lemma strtoul_loop_numeral:
  assumes "2 \<le> unat b" "b \<le> 16"
  shows "cstr m p (map byte_of (numeral_in (unat b) n) @ cs) \<Longrightarrow>
    strtoul_loop p b 0 m = strtoul_loop (p + word_of_nat (length (numeral_in (unat b) n))) b (word_of_nat n) m"
proof (induction n arbitrary: p cs rule: less_induct)
  case (less n)
  show ?case
  proof (cases "n < unat b")
    case True
    have d: "numeral_in (unat b) n = [digits ! n]" using True by (subst numeral_in.simps) simp
    then show ?thesis using less.prems strtoul_loop_digit [OF _ True assms(2), of m p 0] by simp
  next
    case False
    let ?k = "n mod unat b" and ?n = "n div unat b"
    let ?ds = "numeral_in (unat b) ?n"
    let ?q = "p + word_of_nat (length ?ds)"
    have d: "numeral_in (unat b) n = ?ds @ [digits ! ?k]" using False assms(1) by (subst numeral_in.simps) simp
    have c: "cstr m p (map byte_of ?ds @ byte_of (digits ! ?k) # cs)" using less.prems d by simp
    from cstr_append [OF this] have q: "m ?q = Some (byte_of (digits ! ?k))" by simp
    have "?n < n" using False assms(1) by (intro div_less_dividend) simp_all
    from less.IH [OF this c] have "strtoul_loop p b 0 m = strtoul_loop ?q b (word_of_nat ?n) m" .
    also have "\<dots> = strtoul_loop (?q + 1) b (word_of_nat ?n * ucast b + word_of_nat ?k) m"
      using q assms by (intro strtoul_loop_digit) (auto intro!: mod_less_divisor)
    also have "word_of_nat ?n * ucast b + word_of_nat ?k = (word_of_nat (?n * unat b + ?k) :: ulong)"
      by (simp only: of_nat_add of_nat_mult of_nat_unat)
    finally show ?thesis by (simp add: d ac_simps)
  qed
qed

lemma numeral_in_head: "2 \<le> b \<Longrightarrow> b \<le> 16 \<Longrightarrow> 0 < n \<Longrightarrow> \<exists>k ds. numeral_in b n = digits ! k # ds \<and> 0 < k \<and> k < b"
proof (induction b n rule: numeral_in.induct)
  case (1 b n)
  show ?case
  proof (cases "n < b")
    case True
    then show ?thesis using 1 by (subst numeral_in.simps) auto
  next
    case False
    then have "0 < n div b" using 1 by (simp add: div_greater_zero_iff)
    then show ?thesis using 1 False by (subst numeral_in.simps) auto
  qed
qed

text \<open>The two prefixes \<^verbatim>\<open>strtoul\<close> may see: none, and \<^verbatim>\<open>0x\<close>.\<close>

lemma strtoul_numeral:
  assumes "b \<in> {10, 16}" "cstr m p (map byte_of (numeral_in (unat b) (unat x)))"
  shows "strtoul p b m = ret (x, p + word_of_nat (length (numeral_in (unat b) (unat x))))"
proof -
  let ?ds = "numeral_in (unat b) (unat x)"
  have b: "2 \<le> unat b" "b \<le> 16" "unat b \<le> 16" "b \<noteq> 0" using assms(1) by auto
  have "parse_integer_fixup_radix p b m = Inr (p, b)"
  proof (cases "x = 0")
    case True
    have "?ds = ''0''" using True b(1) by (subst numeral_in.simps) (simp add: digits_def)
    then show ?thesis using assms(2) b(4) by (simp add: parse_integer_fixup_radix_def byte_of_def tolower_def)
  next
    case False
    then have "0 < unat x" by (simp add: unat_gt_0)
    from numeral_in_head [OF b(1,3) this] obtain k ds where k: "?ds = digits ! k # ds" "0 < k" "k < 16" using b(3) by auto
    have "decode_digit 48 = 0" by (simp add: decode_digit_def tolower_def)
    moreover have "(word_of_nat k :: uint32) \<noteq> 0" using k(2,3) by (simp add: word_unat_eq_iff unat_of_nat)
    ultimately have "byte_of (digits ! k) \<noteq> 48" using digit_cases(1) [OF k(3)] by auto
    then show ?thesis using assms(2) k(1) b(4) by (simp add: parse_integer_fixup_radix_def)
  qed
  moreover have "strtoul_loop p b 0 m = strtoul_loop (p + word_of_nat (length ?ds)) b x m"
    using strtoul_loop_numeral [OF b(1,2), of m p "unat x" "[]"] assms(2) by simp
  moreover have "m (p + word_of_nat (length ?ds)) = Some 0"
    using cstr_append [of m p "map byte_of ?ds" "[]"] assms(2) by simp
  ultimately show ?thesis using decode_zero [OF b(2)]
    by (simp add: strtoul_def) (subst strtoul_loop.simps, simp)
qed

lemma strtoul_prefixed:
  assumes "cstr m p (map byte_of (''0x'' @ numeral_in 16 (unat x)))"
  shows "strtoul p b m = ret (x, p + word_of_nat (2 + length (numeral_in 16 (unat x))))"
proof -
  let ?ds = "numeral_in 16 (unat x)"
  have c: "m p = Some 48" "m (p + 1) = Some 120" "cstr m (p + 2) (map byte_of ?ds)"
    using assms by (simp_all add: byte_of_def add.assoc)
  have "parse_integer_fixup_radix p b m = Inr (p + 2, 16)" using c by (simp add: parse_integer_fixup_radix_def tolower_def)
  moreover have "strtoul_loop (p + 2) 16 0 m = strtoul_loop (p + 2 + word_of_nat (length ?ds)) 16 x m"
    using strtoul_loop_numeral [of 16 m "p + 2" "unat x" "[]"] c(3) by simp
  moreover have "m (p + 2 + word_of_nat (length ?ds)) = Some 0"
    using cstr_append [of m "p + 2" "map byte_of ?ds" "[]"] c(3) by simp
  ultimately show ?thesis using decode_zero [of 16]
    by (simp add: strtoul_def) (subst strtoul_loop.simps, simp add: add.assoc)
qed

section \<open>Properties\<close>

text \<open>C40. What the console prints for a number is what \<^verbatim>\<open>strtoul\<close> reads: \<^verbatim>\<open>print_uint\<close> in base 10 or 16 prints the digits of the
  number, and \<^verbatim>\<open>strtoul\<close> of a string of them in the same base returns the number; the \<^verbatim>\<open>%p\<close> of \<^verbatim>\<open>printf\<close> puts
  \<^verbatim>\<open>0x\<close> in front, and \<^verbatim>\<open>strtoul\<close> reads that in every base.\<close>

theorem print_strtoul_roundtrip:
  fixes ec :: "'a console_state_scheme firmware"
  assumes "base \<in> {10, 16}"
  shows "print_uint ec um x base s = print_str ec um (numeral_in (unat base) (unat x)) s \<and>
    print_conv ec um (CHR ''p'') (Va_U64 x # ap) s = bindM (print_str ec um (''0x'' @ numeral_in 16 (unat x)) s) (\<lambda>s. ret (ap, s)) \<and>
    (cstr m p (map byte_of (numeral_in (unat base) (unat x))) \<longrightarrow>
      strtoul p (ucast base) m = ret (x, p + word_of_nat (length (numeral_in (unat base) (unat x))))) \<and>
    (cstr m q (map byte_of (''0x'' @ numeral_in 16 (unat x))) \<longrightarrow>
      strtoul q b m = ret (x, q + word_of_nat (2 + length (numeral_in 16 (unat x)))))"
proof (intro conjI impI)
  show "print_uint ec um x base s = print_str ec um (numeral_in (unat base) (unat x)) s"
    using assms by (intro print_uint_numeral) auto
  show "print_conv ec um (CHR ''p'') (Va_U64 x # ap) s = bindM (print_str ec um (''0x'' @ numeral_in 16 (unat x)) s) (\<lambda>s. ret (ap, s))"
    using print_uint_numeral [of 16 ec um x] by (simp add: print_conv_def bindM_assoc)
  show "strtoul p (ucast base) m = ret (x, p + word_of_nat (length (numeral_in (unat base) (unat x))))"
    if "cstr m p (map byte_of (numeral_in (unat base) (unat x)))"
    using strtoul_numeral [of "ucast base" m p x] that assms by auto
  show "strtoul q b m = ret (x, q + word_of_nat (2 + length (numeral_in 16 (unat x))))"
    if "cstr m q (map byte_of (''0x'' @ numeral_in 16 (unat x)))"
    by (rule strtoul_prefixed [OF that])
qed

theorem print_strtoul_roundtrip_witness:
  "(\<forall>(ec :: console_state firmware) um s. print_uint ec um 123 10 s = print_str ec um ''123'' s) \<and> strtoul 0x10 10 sample_memory = ret (123, 0x13)"
proof -
  have n: "numeral_in 10 123 = ''123''" by (simp add: numeral_in.simps [of 10] digits_def)
  have c: "cstr sample_memory 0x10 (map byte_of ''123'')" by (simp add: byte_of_def)
  have P: "print_uint ec um 123 10 s = print_str ec um ''123'' s \<and> strtoul 0x10 10 sample_memory = ret (123, 0x13)"
    for ec :: "console_state firmware" and um s
    using print_strtoul_roundtrip [of 10 ec um 123 s "[]" sample_memory "0x10" 0 0] c by (simp add: n)
  then show ?thesis by blast
qed

end
