(* ===== verification/Sleeplock.thy ===== *)
theory Sleeplock
  imports Proc
begin

text \<open>
  \<^verbatim>\<open>kernel/sleeplock.c\<close>: locks whose waiters sleep. A sleeping lock is its address in \<open>sleeplocks\<close>, which is
  also the channel its waiters sleep on.
\<close>

definition set_sleeplock :: "addr \<Rightarrow> (sleeplock \<Rightarrow> sleeplock) \<Rightarrow> 'a kernel_state_scheme \<Rightarrow> 'a kernel_state_scheme" where
  "set_sleeplock lk f s = s\<lparr>sleeplocks := (sleeplocks s)(lk := f (sleeplocks s lk))\<rparr>"

definition sleeplock_init :: "addr \<Rightarrow> string \<Rightarrow> 'a kernel_state_scheme \<Rightarrow> 'a kernel_state_scheme" where
  "sleeplock_init lk desc s =
     set_sleeplock lk (\<lambda>_. \<lparr>sl_locked = 0, sl_lk = spinlock_init ''sleeplock_spinlock'', sl_description = desc, sl_pid = 0\<rparr>) s"

partial_function (option) sleeplock_wait :: "'a switch \<Rightarrow> addr \<Rightarrow> 'a kernel_state_scheme \<Rightarrow> 'a kernel_state_scheme run" where
  "sleeplock_wait sw lk s =
     (if sl_locked (sleeplocks s lk) \<noteq> 0
      then bindM (proc_sleep sw lk (Sleeplock_Lk lk) s) (\<lambda>s. sleeplock_wait sw lk s)
      else ret s)"

definition sleeplock_acquire :: "'a switch \<Rightarrow> addr \<Rightarrow> 'a kernel_state_scheme \<Rightarrow> 'a kernel_state_scheme run" where
  "sleeplock_acquire sw lk s =
     bindM (Some (acquire_ref (Sleeplock_Lk lk) s)) (\<lambda>s.
     bindM (sleeplock_wait sw lk s) (\<lambda>s.
     bindM (Some (current_proc s)) (\<lambda>p.
     bindM (Some (proc_at p s)) (\<lambda>q.
     Some (release_ref (Sleeplock_Lk lk) (set_sleeplock lk (\<lambda>l. l\<lparr>sl_locked := 1, sl_pid := pid q\<rparr>) s))))))"

definition sleeplock_release :: "addr \<Rightarrow> 'a kernel_state_scheme \<Rightarrow> 'a kernel_state_scheme run" where
  "sleeplock_release lk s =
     bindM (Some (acquire_ref (Sleeplock_Lk lk) s)) (\<lambda>s.
     bindM (proc_wakeup lk s) (\<lambda>s.
     Some (release_ref (Sleeplock_Lk lk) (set_sleeplock lk (\<lambda>l. l\<lparr>sl_locked := 0, sl_pid := 0\<rparr>) s))))"

definition is_holding_sleeplock :: "addr \<Rightarrow> 'a kernel_state_scheme \<Rightarrow> (bool \<times> 'a kernel_state_scheme) run" where
  "is_holding_sleeplock lk s =
     bindM (Some (acquire_ref (Sleeplock_Lk lk) s)) (\<lambda>s.
     bindM (if sl_locked (sleeplocks s lk) = 0 then ret False
            else bindM (Some (current_proc s)) (\<lambda>p.
                 bindM (Some (proc_at p s)) (\<lambda>q. ret (sl_pid (sleeplocks s lk) = pid q)))) (\<lambda>res.
     bindM (Some (release_ref (Sleeplock_Lk lk) s)) (\<lambda>s. ret (res, s))))"

end
