(* ===== verification/Syscall.thy ===== *)
theory Syscall
  imports Console
begin

text \<open>
  \<^verbatim>\<open>kernel/proc/syscall.c\<close>: the system calls and their table, with the entry 0 that \<^verbatim>\<open>KERNEL_DEBUG_MODE\<close> of
  \<^verbatim>\<open>parameters.h\<close> adds. An \<^verbatim>\<open>int\<close> returned as \<^verbatim>\<open>uint64\<close> is sign-extended.
\<close>

definition sys_debug_yell ::
  "'a console_state_scheme firmware \<Rightarrow> 'a console_state_scheme hal_uart_manager \<Rightarrow> ('a console_state_scheme \<Rightarrow> 'a console_state_scheme run) \<Rightarrow>
   'a console_state_scheme \<Rightarrow> (uint64 \<times> 'a console_state_scheme) run" where
  "sys_debug_yell ec um sw s =
     bindM (Some (current_proc s)) (\<lambda>p.
     bindM (Some (proc_at p s)) (\<lambda>q.
     bindM (printf ec um (Some (''[sys_debug]pid #%d yelling with trapframe: '' @ [CHR 0x0A])) [Va_Int (pid q)] s) (\<lambda>(_, s).
     bindM (print_buffer ec um (trapframe (procs s p)) sizeof_trapframe s) (\<lambda>s.
     bindM (Some (ld_tf p ''a0'' s)) (\<lambda>a0. bindM (Some (ld_tf p ''a1'' s)) (\<lambda>a1.
     bindM (Some (ld_tf p ''a2'' s)) (\<lambda>a2. bindM (Some (ld_tf p ''a3'' s)) (\<lambda>a3.
     bindM (Some (ld_tf p ''a4'' s)) (\<lambda>a4. bindM (Some (ld_tf p ''a5'' s)) (\<lambda>a5.
     bindM (Some (ld_tf p ''a6'' s)) (\<lambda>a6. bindM (Some (ld_tf p ''a7'' s)) (\<lambda>a7.
     bindM (printf ec um (Some (''a0 = %p, a1 = %p, a2 = %p, a3 = %p, a4 = %p, a5 = %p, a6 = %p, a7 = %p.'' @ [CHR 0x0A]))
              (map Va_U64 [a0, a1, a2, a3, a4, a5, a6, a7]) s) (\<lambda>(_, s).
     bindM (getchar um s) (\<lambda>(c, s).
     bindM (printf ec um (Some (''System got an %c'' @ [CHR 0x0A])) [Va_Int (ucast c)] s) (\<lambda>(_, s).
     ret (0, s))))))))))))))))"

definition sys_exit :: "'a switch \<Rightarrow> 'a kernel_state_scheme \<Rightarrow> (uint64 \<times> 'a kernel_state_scheme) run" where
  "sys_exit sw s =
     bindM (Some (current_proc s)) (\<lambda>p.
     bindM (Some (ld_tf p ''a0'' s)) (\<lambda>a0.
     bindM (proc_exit sw (ucast a0) s) (\<lambda>s. ret (0, s))))"

definition sys_fork :: "'a switch \<Rightarrow> 'a kernel_state_scheme \<Rightarrow> (uint64 \<times> 'a kernel_state_scheme) run" where
  "sys_fork sw s = bindM (proc_fork s) (\<lambda>(n, s). ret (scast n, s))"

definition sys_kill :: "'a switch \<Rightarrow> 'a kernel_state_scheme \<Rightarrow> (uint64 \<times> 'a kernel_state_scheme) run" where
  "sys_kill sw s =
     bindM (Some (current_proc s)) (\<lambda>p.
     bindM (Some (ld_tf p ''a0'' s)) (\<lambda>a0.
     bindM (proc_kill (ucast a0) s) (\<lambda>(r, s). ret (scast r, s))))"

text \<open>The loop of \<^verbatim>\<open>syscall_sleep\<close>, entered with the lock of the timer held.\<close>

partial_function (option) sleep_loop ::
  "'a switch \<Rightarrow> uint64 \<Rightarrow> uint64 \<Rightarrow> 'a kernel_state_scheme \<Rightarrow> (uint64 \<times> 'a kernel_state_scheme) run" where
  "sleep_loop sw start ticks s =
     (if tick s - start < ticks then
        bindM (Some (current_proc s)) (\<lambda>p.
        bindM (Some (proc_is_killed p s)) (\<lambda>(k, s).
        if k \<noteq> 0 then bindM (Some (release_ref Tick_Lock s)) (\<lambda>s. ret (- 1, s))
        else bindM (proc_sleep sw (tick_at s) Tick_Lock s) (\<lambda>s. sleep_loop sw start ticks s)))
      else bindM (Some (release_ref Tick_Lock s)) (\<lambda>s. ret (0, s)))"

definition syscall_sleep :: "'a switch \<Rightarrow> 'a kernel_state_scheme \<Rightarrow> (uint64 \<times> 'a kernel_state_scheme) run" where
  "syscall_sleep sw s =
     bindM (Some (current_proc s)) (\<lambda>p.
     bindM (Some (ld_tf p ''a0'' s)) (\<lambda>ticks.
     bindM (Some (acquire_ref Tick_Lock s)) (\<lambda>s.
     sleep_loop sw (tick s) ticks s)))"

definition syscall_uptime :: "'a switch \<Rightarrow> 'a kernel_state_scheme \<Rightarrow> (uint64 \<times> 'a kernel_state_scheme) run" where
  "syscall_uptime sw s =
     bindM (Some (acquire_ref Tick_Lock s)) (\<lambda>s.
     let r = tick s
     in bindM (Some (release_ref Tick_Lock s)) (\<lambda>s. ret (r, s)))"

text \<open>
  The search of \<^verbatim>\<open>syscall_wait\<close> for a dead child, from \<open>p\<close> on: a result to return at once, or whether there are children.
  \<^verbatim>\<open>&p->exit_state\<close> is 12 bytes into the process; the four bytes copied out are those of the field.
\<close>

partial_function (option) wait_from ::
  "addr \<Rightarrow> addr \<Rightarrow> addr \<Rightarrow> bool \<Rightarrow> 'a kernel_state_scheme \<Rightarrow> (uint64 option \<times> bool \<times> 'a kernel_state_scheme) run" where
  "wait_from cp ret_addr p children s =
     (if p = 0 then ret (None, children, s)
      else if parent (procs s p) = cp then
        if pstate (procs s p) = PROC_ZOMBIE then
          let ret_pid = scast (pid (procs s p))
          in bindM (if ret_addr \<noteq> 0
                    then bindM (Some (stn 4 (ram s) (p + 12) (ucast (exit_state (procs s p))))) (\<lambda>m.
                         Some (vm_memcpyout (pgtbl (procs s cp)) ret_addr (p + 12) 4 (s\<lparr>ram := m\<rparr>)))
                    else ret (0, s)) (\<lambda>(r, s).
             if r \<noteq> 0 then bindM (Some (release_procs s)) (\<lambda>s. ret (Some (- 1), True, s))
             else bindM (Some (proc_detach p (procs s))) (\<lambda>h.
                  bindM (proc_reap_detached p (s\<lparr>procs := h\<rparr>)) (\<lambda>s.
                  bindM (Some (release_procs s)) (\<lambda>s. ret (Some ret_pid, True, s)))))
        else wait_from cp ret_addr (nxt_proc (procs s p)) True s
      else wait_from cp ret_addr (nxt_proc (procs s p)) children s)"

partial_function (option) wait_loop :: "'a switch \<Rightarrow> 'a kernel_state_scheme \<Rightarrow> (uint64 \<times> 'a kernel_state_scheme) run" where
  "wait_loop sw s =
     bindM (Some (current_proc s)) (\<lambda>cp.
     bindM (Some (ld_tf cp ''a0'' s)) (\<lambda>ret_addr.
     bindM (wait_from cp ret_addr (nxt_proc (procs s (proc_list s))) False s) (\<lambda>(r, children, s).
     case r of Some v \<Rightarrow> ret (v, s)
     | None \<Rightarrow>
         if \<not> children \<or> killed (procs s cp) \<noteq> 0 then bindM (Some (release_procs s)) (\<lambda>s. ret (- 1, s))
         else bindM (proc_sleep sw cp Proc_Manager_Lock s) (\<lambda>s. wait_loop sw s))))"

definition syscall_wait :: "'a switch \<Rightarrow> 'a kernel_state_scheme \<Rightarrow> (uint64 \<times> 'a kernel_state_scheme) run" where
  "syscall_wait sw s = bindM (Some (acquire_procs s)) (\<lambda>s. wait_loop sw s)"

text \<open>The order of the pages \<^verbatim>\<open>syscall_sbrk\<close> asks for; a shift by 64 or more is undefined.\<close>

partial_function (option) sbrk_order :: "ulong \<Rightarrow> ulong \<Rightarrow> nat \<Rightarrow> nat run" where
  "sbrk_order new_break heap page_order =
     (if 64 \<le> page_order then Some (Inl Undefined)
      else if new_break > heap + push_bit page_order PAGE_SIZE then sbrk_order new_break heap (page_order + 1)
      else ret page_order)"

definition syscall_sbrk :: "'a switch \<Rightarrow> 'a kernel_state_scheme \<Rightarrow> (uint64 \<times> 'a kernel_state_scheme) run" where
  "syscall_sbrk sw s =
     bindM (Some (current_proc s)) (\<lambda>p.
     bindM (Some (ld_tf p ''a0'' s)) (\<lambda>delta.
     bindM (Some (acquire_procs s)) (\<lambda>s.
     let q = procs s p in
     if delta = push_bit 63 1 then Some (Inl Undefined)
     else if sint delta < 0 \<and> heap_vaddr q - VA_USER_BEGIN < - delta then
       bindM (Some (release_procs s)) (\<lambda>s. ret (program_break (procs s p), s))
     else
       bindM (if program_break q + delta > heap_vaddr q then
                bindM (sbrk_order (program_break q + delta) (heap_vaddr q) 0) (\<lambda>page_order.
                bindM (Some (kmem_alloc_pages (word_of_nat page_order) s)) (\<lambda>(a, s).
                if a \<noteq> 0 then
                  bindM (Some (vm_mappages (pgtbl q) (heap_vaddr q) (PMA_VA2PA a) (push_bit page_order PAGE_SIZE)
                           (PTE_FLAG_R OR PTE_FLAG_W OR PTE_FLAG_U) s)) (\<lambda>(_, s).
                  ret (set_proc p (\<lambda>q. q\<lparr>heap_vaddr := heap_vaddr q + push_bit page_order PAGE_SIZE,
                         program_break := program_break q + delta\<rparr>) s))
                else ret s))
              else if program_break q + delta \<le> heap_vaddr q - PAGE_SIZE then
                let s = set_proc p (\<lambda>q. q\<lparr>program_break := program_break q + delta\<rparr>) s;
                    new_end = PAGE_ROUND_UP (program_break (procs s p));
                    current_end = PAGE_ROUND_DOWN (heap_vaddr (procs s p))
                in vm_unmappages (pgtbl q) new_end (drop_bit PAGE_SHIFT (current_end - new_end)) True s
              else ret s) (\<lambda>s.
       bindM (Some (release_procs s)) (\<lambda>s. ret (program_break (procs s p), s))))))"

definition syscall_getpid :: "'a switch \<Rightarrow> 'a kernel_state_scheme \<Rightarrow> (uint64 \<times> 'a kernel_state_scheme) run" where
  "syscall_getpid sw s =
     bindM (Some (current_proc s)) (\<lambda>p. bindM (Some (proc_at p s)) (\<lambda>q. ret (ucast (pid q), s)))"

definition syscall_handlers ::
  "'a console_state_scheme firmware \<Rightarrow> 'a console_state_scheme hal_uart_manager \<Rightarrow>
   (('a console_state_scheme \<Rightarrow> 'a console_state_scheme run) \<Rightarrow> 'a console_state_scheme \<Rightarrow> (uint64 \<times> 'a console_state_scheme) run) list" where
  "syscall_handlers ec um = [sys_debug_yell ec um, sys_exit, sys_fork, sys_kill, syscall_sleep, syscall_uptime,
     syscall_wait, syscall_sbrk, syscall_getpid]"

text \<open>The number of the call is an \<^verbatim>\<open>int\<close>; nothing checks it against the table.\<close>

definition syscall_handler ::
  "'a console_state_scheme firmware \<Rightarrow> 'a console_state_scheme hal_uart_manager \<Rightarrow> ('a console_state_scheme \<Rightarrow> 'a console_state_scheme run) \<Rightarrow>
   'a console_state_scheme \<Rightarrow> 'a console_state_scheme run" where
  "syscall_handler ec um sw s =
     bindM (Some (current_proc s)) (\<lambda>p.
     bindM (Some (ld_tf p ''a7'' s)) (\<lambda>a7.
     let call_typ = ucast a7 :: uint32
     in bindM (Some (rd (syscall_handlers ec um) (unat call_typ))) (\<lambda>f.
        bindM (f sw s) (\<lambda>(r, s). Some (st_tf p ''a0'' r s)))))"

end
