(* ===== verification/Hal_Trap.thy ===== *)
theory Hal_Trap
  imports Runs Prelude
begin

text \<open>
  \<^verbatim>\<open>kernel/device/hal/trap.c\<close>: the interrupt controller and the handlers that drivers register. The
  routines of a driver are function values over a state \<open>'s\<close>, null pointers to them \<open>None\<close>.
\<close>

record 's irq_struct =
  interrupt_src_id :: int
  irq_dev :: addr
  irq_handler :: "(addr \<Rightarrow> 's \<Rightarrow> (int \<times> 's) run) option"
  irq_next :: addr

text \<open>The routine \<open>int_init\<close> is given what it may read of the list of interrupts: the source and the next element of each.\<close>

record 's interruptor_struct =
  int_dev :: addr
  int_init :: "addr \<Rightarrow> (addr \<Rightarrow> int \<times> addr) \<Rightarrow> addr \<Rightarrow> 's \<Rightarrow> 's run"
  int_enable_src :: "addr \<Rightarrow> uint32 \<Rightarrow> 's \<Rightarrow> 's run"
  int_disable_src :: "addr \<Rightarrow> uint32 \<Rightarrow> 's \<Rightarrow> 's run"
  int_check_src_status :: "addr \<Rightarrow> uint32 \<Rightarrow> 's \<Rightarrow> (int \<times> 's) run"
  int_claim :: "(addr \<Rightarrow> 's \<Rightarrow> (uint64 \<times> 's) run) option"
  int_complete :: "(addr \<Rightarrow> uint32 \<Rightarrow> 's \<Rightarrow> 's run) option"

text \<open>\<open>irqs_head\<close> is the address of the head of the list.\<close>

record 's hal_trap_manager =
  interruptor :: "'s interruptor_struct option"
  irqs :: "addr \<Rightarrow> 's irq_struct"
  irqs_head :: addr

definition hal_trap_register_interruptor ::
  "'s interruptor_struct option \<Rightarrow> 's hal_trap_manager \<Rightarrow> int \<times> 's hal_trap_manager" where
  "hal_trap_register_interruptor dev hm =
     (case dev of None \<Rightarrow> (- 1, hm)
      | Some d \<Rightarrow> if int_claim d = None \<or> int_complete d = None then (- 1, hm) else (0, hm\<lparr>interruptor := Some d\<rparr>))"

definition hal_trap_register_irq :: "addr \<Rightarrow> 's hal_trap_manager \<Rightarrow> int \<times> 's hal_trap_manager" where
  "hal_trap_register_irq irq hm =
     (if irq = 0 \<or> irq_handler (irqs hm irq) = None \<or> interrupt_src_id (irqs hm irq) \<le> 0 \<or> interrupt_src_id (irqs hm irq) > 1023
      then (- 1, hm)
      else
        let h = irqs hm;
            h = h(irq := (h irq)\<lparr>irq_next := irq_next (h (irqs_head hm))\<rparr>);
            h = h(irqs_head hm := (h (irqs_head hm))\<lparr>irq_next := irq\<rparr>)
        in (0, hm\<lparr>irqs := h\<rparr>))"

text \<open>The search for the handler of the source \<open>irq\<close>, and its call.\<close>

partial_function (option) dispatch_irq :: "('s hal_trap_manager \<times> uint64) \<Rightarrow> addr \<Rightarrow> 's \<Rightarrow> 's run" where
  "dispatch_irq hi i s =
     (if i = 0 then ret s
      else if word_of_int (interrupt_src_id (irqs (fst hi) i)) = snd hi then
        (case irq_handler (irqs (fst hi) i) of None \<Rightarrow> Some (Inl Undefined)
         | Some f \<Rightarrow> bindM (f (irq_dev (irqs (fst hi) i)) s) (\<lambda>(_, s). ret s))
      else dispatch_irq hi (irq_next (irqs (fst hi) i)) s)"

definition hal_trap_handler :: "'s hal_trap_manager \<Rightarrow> uint64 \<Rightarrow> 's \<Rightarrow> 's run" where
  "hal_trap_handler hm cause s =
     (case interruptor hm of None \<Rightarrow> ret s
      | Some d \<Rightarrow>
          (case (int_claim d, int_complete d) of
             (Some claim, Some complete) \<Rightarrow>
               bindM (claim (int_dev d) s) (\<lambda>(irq, s).
               if irq \<noteq> 0 then
                 bindM (dispatch_irq (hm, irq) (irq_next (irqs hm (irqs_head hm))) s) (\<lambda>s.
                 complete (int_dev d) (ucast irq) s)
               else ret s)
           | _ \<Rightarrow> Some (Inl Undefined)))"

definition hal_trap_init :: "'s hal_trap_manager \<Rightarrow> 's \<Rightarrow> 's run" where
  "hal_trap_init hm s = (case interruptor hm of None \<Rightarrow> ret s | Some d \<Rightarrow>
       int_init d (int_dev d) (\<lambda>a. (interrupt_src_id (irqs hm a), irq_next (irqs hm a))) (irqs_head hm) s)"

end
