(* ===== verification/Trap.thy ===== *)
theory Trap
  imports Syscall Hal_Trap
begin

text \<open>
  \<^verbatim>\<open>kernel/trap/trap.c\<close>: the timer, traps from the kernel and from user programs, and the return to user mode. The
  device interrupts go to \<open>hal_trap_handler\<close> with the registered drivers \<open>hm\<close>.
\<close>

definition SSTATUS_SPP :: uint64 where "SSTATUS_SPP = push_bit 8 1"
definition SSTATUS_SPIE :: uint64 where "SSTATUS_SPIE = push_bit 5 1"
definition SCAUSE_INTERRUPT :: uint64 where "SCAUSE_INTERRUPT = push_bit 63 1"
definition SCAUSE_STI :: uint64 where "SCAUSE_STI = SCAUSE_INTERRUPT OR 5"
definition SCAUSE_SEI :: uint64 where "SCAUSE_SEI = SCAUSE_INTERRUPT OR 9"
definition SCAUSE_USER_ECALL :: uint64 where "SCAUSE_USER_ECALL = 8"
definition SCAUSE_LOAD_PAGE_FAULT :: uint64 where "SCAUSE_LOAD_PAGE_FAULT = 13"
definition SCAUSE_STORE_PAGE_FAULT :: uint64 where "SCAUSE_STORE_PAGE_FAULT = 15"
definition SCHEDULING_TIME_SPAN :: uint64 where "SCHEDULING_TIME_SPAN = 1000000"

definition tick_init :: "'a kernel_state_scheme \<Rightarrow> 'a kernel_state_scheme" where
  "tick_init s = s\<lparr>tick_lock := spinlock_init ''tick_lock'', tick := 0\<rparr>"

definition tick_handler :: "'a kernel_state_scheme \<Rightarrow> 'a kernel_state_scheme run" where
  "tick_handler s =
     bindM (Some (acquire_ref Tick_Lock s)) (\<lambda>s.
     bindM (Some (release_ref Tick_Lock (s\<lparr>tick := tick s + 1\<rparr>))) (\<lambda>s.
     proc_wakeup (tick_at s) s))"

definition ktrap_install_handler :: "'a kernel_state_scheme \<Rightarrow> 'a kernel_state_scheme" where
  "ktrap_install_handler s = s\<lparr>stvec := kernel_handler_at s\<rparr>"

definition ktrap_schedule_timer :: "'a kernel_state_scheme firmware \<Rightarrow> uint64 \<Rightarrow> 'a kernel_state_scheme \<Rightarrow> 'a kernel_state_scheme" where
  "ktrap_schedule_timer ec delta s = snd (sbi_set_timer ec (time s + delta) s)"

definition timer_trap :: "'a kernel_state_scheme firmware \<Rightarrow> 'a kernel_state_scheme \<Rightarrow> 'a kernel_state_scheme run" where
  "timer_trap ec s =
     (let s = ktrap_schedule_timer ec SCHEDULING_TIME_SPAN s
      in bindM (if current_hart_id s = 0 then tick_handler s else ret s) (\<lambda>s.
         ret (s\<lparr>sip := sip s AND NOT 32\<rparr>)))"

definition ktrap_handler ::
  "'a console_state_scheme firmware \<Rightarrow> 'a console_state_scheme hal_uart_manager \<Rightarrow> 'a console_state_scheme hal_trap_manager \<Rightarrow> ('a console_state_scheme \<Rightarrow> 'a console_state_scheme run) \<Rightarrow> 'a console_state_scheme \<Rightarrow> 'a console_state_scheme run" where
  "ktrap_handler ec um hm sw s =
     (let epc = sepc s; status = sstatus s; cause = scause s
      in bindM (if cause = SCAUSE_STI then
                  bindM (timer_trap ec s) (\<lambda>s.
                  bindM (Some (current_proc s)) (\<lambda>p.
                  if p \<noteq> 0 \<and> pstate (procs s p) = PROC_RUNNING then scheduler_yield sw s else ret s))
                else if cause = SCAUSE_SEI then hal_trap_handler hm cause s
                else
                  bindM (printf ec um (Some (''[trap]unknown cause: %p, stval: %p, sepc: %p'' @ [CHR 0x0A]))
                           [Va_U64 cause, Va_U64 (stval s), Va_U64 epc] s) (\<lambda>_.
                  Some (Inl (Panic (''ktrap_handler'' @ [CHR 0x0A]))))) (\<lambda>s.
         ret (s\<lparr>sepc := epc, sstatus := status\<rparr>)))"

text \<open>
  The return to user mode: the address of \<^verbatim>\<open>user_return\<close> in the user's address space and its argument, the
  \<^verbatim>\<open>satp\<close> of the process.
\<close>

definition utrap_return :: "'a kernel_state_scheme \<Rightarrow> (uint64 \<times> uint64 \<times> 'a kernel_state_scheme) res" where
  "utrap_return s =
     bindR (current_proc s) (\<lambda>p.
     let s = disable_interrupt s;
         s = s\<lparr>stvec := KERNEL_USER_HANDLER_VA s - KERNEL_USER_HANDLER_PA_BEGIN s + VA_USER_USER_HANDLER_BEGIN\<rparr>
     in bindR (st_tf p ''kernel_satp'' (satp s) s) (\<lambda>s.
        bindR (st_tf p ''kernel_handler_addr'' (utrap_handler_at s) s) (\<lambda>s.
        bindR (st_tf p ''kernel_hartid'' (tp s) s) (\<lambda>s.
        let s = s\<lparr>sstatus := (sstatus s AND NOT SSTATUS_SPP) OR SSTATUS_SPIE\<rparr>
        in bindR (ld_tf p ''user_pc'' s) (\<lambda>pc.
           Inr (KERNEL_USER_RETURN_VA s - KERNEL_USER_HANDLER_PA_BEGIN s + VA_USER_USER_HANDLER_BEGIN,
                SATP VMEM_MODE (PMA_VA2PA (pgtbl (procs s p))), s\<lparr>sepc := pc\<rparr>))))))"

definition utrap_dispatch ::
  "'a console_state_scheme firmware \<Rightarrow> 'a console_state_scheme hal_uart_manager \<Rightarrow> 'a console_state_scheme hal_trap_manager \<Rightarrow> ('a console_state_scheme \<Rightarrow> 'a console_state_scheme run) \<Rightarrow> addr \<Rightarrow> 'a console_state_scheme \<Rightarrow> 'a console_state_scheme run" where
  "utrap_dispatch ec um hm sw p s =
     (let cause = scause s; tval = stval s
      in if cause = SCAUSE_STI then bindM (timer_trap ec s) (scheduler_yield sw)
         else if cause = SCAUSE_SEI then hal_trap_handler hm cause s
         else if cause = SCAUSE_USER_ECALL then
           bindM (Some (proc_is_killed p s)) (\<lambda>(k, s).
           bindM (if k \<noteq> 0 then proc_exit sw (- 1) s else ret s) (\<lambda>s.
           bindM (Some (ld_tf p ''user_pc'' s)) (\<lambda>pc.
           bindM (Some (st_tf p ''user_pc'' (pc + 4) s)) (\<lambda>s.
           syscall_handler ec um sw (enable_interrupt s)))))
         else if (cause = SCAUSE_STORE_PAGE_FAULT \<or> cause = SCAUSE_LOAD_PAGE_FAULT) \<and>
                 tval \<ge> stack_vaddr (procs s p) - VA_USER_STACK_AUTO_EXPAND_THRESHOLD \<and> tval < VA_USER_TRAPFRAME_BEGIN then
           bindM (proc_extend_stack (pid (procs s p)) 0 s) (\<lambda>(_, s). ret s)
         else
           bindM (printf ec um (Some (''[proc]user program #%d unexpected interrupted, scause: %p, sepc: %p, killed'' @ [CHR 0x0A]))
                    [Va_Int (pid (procs s p)), Va_U64 cause, Va_U64 (sepc s)] s) (\<lambda>(_, s).
           bindM (proc_kill (pid (procs s p)) s) (\<lambda>(_, s). ret s)))"

definition utrap_handler ::
  "'a console_state_scheme firmware \<Rightarrow> 'a console_state_scheme hal_uart_manager \<Rightarrow> 'a console_state_scheme hal_trap_manager \<Rightarrow> ('a console_state_scheme \<Rightarrow> 'a console_state_scheme run) \<Rightarrow> 'a console_state_scheme \<Rightarrow> (uint64 \<times> uint64 \<times> 'a console_state_scheme) run" where
  "utrap_handler ec um hm sw s =
     (let s = ktrap_install_handler s
      in bindM (Some (current_proc s)) (\<lambda>p.
         bindM (Some (st_tf p ''user_pc'' (sepc s) s)) (\<lambda>s.
         bindM (utrap_dispatch ec um hm sw p s) (\<lambda>s.
         bindM (Some (proc_is_killed p s)) (\<lambda>(k, s).
         bindM (if k \<noteq> 0 then proc_exit sw (- 1) s else ret s) (\<lambda>s.
         Some (utrap_return s)))))))"

end
