(* ===== verification/Object_Correct.thy ===== *)
theory Object_Correct
  imports Kmem
begin

text \<open>
  Correctness of the object allocator. The invariant describes, for each manager, the blocks it has: each
  is a run of pages of its own, cut into slots of equal size, every slot on exactly one of the block's
  two lists.
\<close>

section \<open>Addresses in pages\<close>

abbreviation window_base :: nat where
  "window_base \<equiv> 2 ^ 64 - 2 ^ 38"

lemma unat_page_va:
  assumes "range_ok b n" "p < n"
  shows "unat (page_va b p) = window_base + (p + unat b) * 4096"
proof -
  have u: "unat (push_bit PAGE_SHIFT (word_of_nat p + b :: ulong)) = (p + unat b) * 4096"
    using unat_page(2) [OF assms] .
  have lt: "(p + unat b) * 4096 < 2 ^ 38" using assms by simp
  have k: "unat VA_KERNEL_BEGIN = window_base" by (simp add: VA_KERNEL_BEGIN_def)
  have "page_va b p = push_bit PAGE_SHIFT (word_of_nat p + b) + VA_KERNEL_BEGIN"
    unfolding page_va_def by (rule PMA_PA2VA_add) (use u lt in simp)
  then show ?thesis using u lt k by (simp add: unat_word_ariths)
qed

text \<open>The addresses inside the pages of a set.\<close>

definition region :: "ulong \<Rightarrow> nat set \<Rightarrow> addr set" where
  "region b S = {x. \<exists>p\<in>S. unat x div 4096 = unat (page_va b p) div 4096}"

lemma region_disjoint:
  assumes "range_ok b n" "S \<subseteq> {..<n}" "T \<subseteq> {..<n}" "S \<inter> T = {}"
  shows "region b S \<inter> region b T = {}"
proof -
  have "p = q" if "p \<in> S" "q \<in> T" "unat (page_va b p) div 4096 = unat (page_va b q) div 4096" for p q
  proof -
    have "p < n" "q < n" using that assms(2,3) by auto
    then show ?thesis using that(3) by (simp add: unat_page_va [OF assms(1)])
  qed
  then show ?thesis using assms(4) unfolding region_def by auto (metis disjoint_iff)
qed

lemma pages_subset: "(k + 1) * 2 ^ d \<le> n \<Longrightarrow> pages d k \<subseteq> {..<n}"
  by (auto simp: pages_range)

text \<open>The address \<open>i\<close> bytes into a block.\<close>

definition blk_addr :: "ulong \<Rightarrow> nat \<Rightarrow> nat \<Rightarrow> addr" where
  "blk_addr b d k = page_va b (k * 2 ^ d)"

lemma block_first: "(k + 1) * 2 ^ d \<le> n \<Longrightarrow> k * 2 ^ d < (n :: nat)"
  by (simp add: algebra_simps) (metis add_lessD1 less_le_trans less_add_same_cancel2 zero_less_numeral zero_less_power)

lemma unat_in_block:
  assumes "unat b + n < 2 ^ 26" "(k + 1) * 2 ^ d \<le> n" "i \<le> 2 ^ (d + 12)"
  shows "unat (blk_addr b d k + word_of_nat i) = unat (blk_addr b d k) + i"
    "unat (blk_addr b d k) = window_base + (k * 2 ^ d + unat b) * 4096"
    "unat (blk_addr b d k) + i < 2 ^ 64"
proof -
  have r: "range_ok b n" using assms(1) by simp
  show a: "unat (blk_addr b d k) = window_base + (k * 2 ^ d + unat b) * 4096"
    unfolding blk_addr_def by (rule unat_page_va [OF r block_first [OF assms(2)]])
  have "(2 :: nat) ^ (d + 12) = 2 ^ d * 4096" by (simp add: power_add)
  then have "(k * 2 ^ d + unat b) * 4096 + i \<le> ((k + 1) * 2 ^ d + unat b) * 4096"
    using assms(3) by (simp add: algebra_simps)
  also have "\<dots> \<le> (n + unat b) * 4096" using assms(2) by (intro mult_le_mono1 add_right_mono)
  also have "\<dots> < 2 ^ 38" using assms(1) by simp
  finally show lt: "unat (blk_addr b d k) + i < 2 ^ 64" unfolding a by simp
  then show "unat (blk_addr b d k + word_of_nat i) = unat (blk_addr b d k) + i"
    by (simp add: unat_word_ariths unat_of_nat)
qed

lemma in_block_region:
  assumes "unat b + n < 2 ^ 26" "(k + 1) * 2 ^ d \<le> n" "i < 2 ^ (d + 12)"
  shows "blk_addr b d k + word_of_nat i \<in> region b (pages d k)"
proof -
  define j where "j = i div 4096"
  have ij: "i = j * 4096 + i mod 4096" by (simp add: j_def)
  have "(2 :: nat) ^ (d + 12) = 2 ^ d * 4096" by (simp add: power_add)
  then have j: "j < 2 ^ d" using assms(3) unfolding j_def by (metis less_mult_imp_div_less)
  then have p: "k * 2 ^ d + j \<in> pages d k" by (simp add: pages_range)
  then have pn: "k * 2 ^ d + j < n" using pages_subset [OF assms(2)] by auto
  have "unat (blk_addr b d k + word_of_nat i) div 4096 = (window_base + (k * 2 ^ d + unat b) * 4096 + i) div 4096"
    using unat_in_block [OF assms(1,2), of i] assms(3) by simp
  also have "\<dots> = (window_base + (k * 2 ^ d + j + unat b) * 4096 + i mod 4096) div 4096"
    by (subst ij) (simp add: algebra_simps)
  also have "\<dots> = unat (page_va b (k * 2 ^ d + j)) div 4096"
  proof -
    have "range_ok b n" using assms(1) by simp
    from unat_page_va [OF this pn] show ?thesis by simp
  qed
  finally show ?thesis using p unfolding region_def by blast
qed

lemma blk_addr_nonzero [simp]: "blk_addr b d k \<noteq> 0"
  by (simp add: blk_addr_def)

section \<open>Slots\<close>

text \<open>The slots of a block of order \<open>d\<close> at \<open>a\<close>, of \<open>u\<close> bytes each with their header.\<close>

definition slot_at :: "addr \<Rightarrow> nat \<Rightarrow> nat \<Rightarrow> addr" where
  "slot_at a u i = a + word_of_nat (96 + i * u)"

definition slot_count :: "nat \<Rightarrow> nat \<Rightarrow> nat" where
  "slot_count u d = (2 ^ (d + 12) - 96) div u"

definition slot_list :: "addr \<Rightarrow> nat \<Rightarrow> nat \<Rightarrow> addr list" where
  "slot_list a u d = map (slot_at a u) [0..<slot_count u d]"

lemma block_big: "96 < (2 :: nat) ^ (d + 12)"
proof -
  have "(2 :: nat) ^ 12 \<le> 2 ^ (d + 12)" by (rule power_increasing) simp_all
  then show ?thesis by simp
qed

lemma slot_end: "i < slot_count u d \<Longrightarrow> 96 + i * u + u \<le> 2 ^ (d + 12)"
proof -
  assume "i < slot_count u d"
  then have "Suc i * u \<le> slot_count u d * u" by (intro mult_le_mono1) simp
  also have "\<dots> \<le> 2 ^ (d + 12) - 96" by (simp add: slot_count_def)
  finally show ?thesis using block_big [of d] by simp
qed

lemma slot_more: "slot_count u d \<le> i \<Longrightarrow> 0 < u \<Longrightarrow> 2 ^ (d + 12) < 96 + i * u + u"
proof -
  assume i: "slot_count u d \<le> i" and u: "0 < u"
  have "2 ^ (d + 12) - 96 < Suc (slot_count u d) * u" using u dividend_less_times_div [OF u, of "2 ^ (d + 12) - 96"]
    by (simp add: slot_count_def mult.commute)
  also have "\<dots> \<le> Suc i * u" using i by (intro mult_le_mono1) simp
  finally show ?thesis by simp
qed

lemma unat_slot:
  assumes "unat b + n < 2 ^ 26" "(k + 1) * 2 ^ d \<le> n" "i < slot_count u d"
  shows "unat (slot_at (blk_addr b d k) u i) = unat (blk_addr b d k) + 96 + i * u"
  using unat_in_block(1) [OF assms(1,2), of "96 + i * u"] slot_end [OF assms(3)] by (simp add: slot_at_def)

lemma slot_list_props:
  assumes "unat b + n < 2 ^ 26" "(k + 1) * 2 ^ d \<le> n" "0 < u"
  shows "distinct (slot_list (blk_addr b d k) u d)"
    "free_slots (blk_addr b d k) \<notin> set (slot_list (blk_addr b d k) u d)"
    "allocated_slots (blk_addr b d k) \<notin> set (slot_list (blk_addr b d k) u d)"
    "0 \<notin> set (slot_list (blk_addr b d k) u d)"
    "free_slots (blk_addr b d k) \<noteq> allocated_slots (blk_addr b d k)" "allocated_slots (blk_addr b d k) \<noteq> 0"
proof -
  let ?a = "blk_addr b d k"
  note us = unat_slot [OF assms(1,2), where u = u]
  have h: "unat (allocated_slots ?a) = unat ?a + 24" 
    using unat_in_block(1) [OF assms(1,2), of 24] block_big [of d] by (simp add: allocated_slots_def sizeof_header_def)
  show "distinct (slot_list ?a u d)" unfolding slot_list_def distinct_map
  proof (intro conjI inj_onI)
    fix i j assume ij: "i \<in> set [0..<slot_count u d]" "j \<in> set [0..<slot_count u d]" "slot_at ?a u i = slot_at ?a u j"
    then have "unat (slot_at ?a u i) = unat (slot_at ?a u j)" by simp
    then show "i = j" using ij(1,2) assms(3) us by simp
  qed simp
  have m: "x \<in> set (slot_list ?a u d) \<Longrightarrow> unat ?a + 96 \<le> unat x" for x
    using us by (auto simp: slot_list_def)
  show "free_slots ?a \<notin> set (slot_list ?a u d)" using m [of ?a] by (auto simp: free_slots_def)
  show "allocated_slots ?a \<notin> set (slot_list ?a u d)" using m [of "allocated_slots ?a"] h by auto
  show "0 \<notin> set (slot_list ?a u d)" using m [of 0] by auto
  show "free_slots ?a \<noteq> allocated_slots ?a" using h by (auto simp: free_slots_def)
  show "allocated_slots ?a \<noteq> 0" using h by (metis add_is_0 unat_0 zero_neq_numeral)
qed

lemma block_headers_region:
  assumes "unat b + n < 2 ^ 26" "(k + 1) * 2 ^ d \<le> n" "0 < u"
  shows "set (slot_list (blk_addr b d k) u d) \<subseteq> region b (pages d k)"
    "free_slots (blk_addr b d k) \<in> region b (pages d k)" "allocated_slots (blk_addr b d k) \<in> region b (pages d k)"
proof -
  note ir = in_block_region [OF assms(1,2)]
  have "slot_at (blk_addr b d k) u i \<in> region b (pages d k)" if "i < slot_count u d" for i
    unfolding slot_at_def by (rule ir) (use slot_end [OF that] assms(3) in linarith)
  then show "set (slot_list (blk_addr b d k) u d) \<subseteq> region b (pages d k)" by (auto simp: slot_list_def)
  show "free_slots (blk_addr b d k) \<in> region b (pages d k)" using ir [of 0] by (simp add: free_slots_def)
  show "allocated_slots (blk_addr b d k) \<in> region b (pages d k)"
    using ir [of 24] block_big [of d] by (simp add: allocated_slots_def sizeof_header_def)
qed

section \<open>The header routines outside their list\<close>

lemma header_detach_frame:
  assumes "kmem_object_header_detach x h = Inr h'"
  shows "parent_block (h' y) = parent_block (h y)" "y \<notin> {x, h_prv (h x), h_nxt (h x)} \<Longrightarrow> h' y = h y"
  using assms by (auto simp: kmem_object_header_detach_def Let_def split: if_splits)

lemma header_insert_frame:
  assumes "kmem_object_header_insert a x h = Inr h'"
  shows "parent_block (h' y) = parent_block (h y)" "y \<notin> {a, x, h_nxt (h a)} \<Longrightarrow> h' y = h y"
  using assms by (auto simp: kmem_object_header_insert_def Let_def split: if_splits)

text \<open>Moving a node from the list at \<open>a\<close> to the list at \<open>c\<close>.\<close>

lemma dlist_links:
  assumes "dlist P N a xs" "x \<in> set xs"
  shows "P x \<in> set (a # xs)" "N x = 0 \<or> N x \<in> set xs"
proof -
  obtain as bs where xs: "xs = as @ x # bs" using assms(2) by (meson split_list)
  have d: "distinct (a # as)" "dll P N a (as @ x # bs)" using assms(1) by (auto simp: dlist_def xs)
  from d(2) have *: "P x = last (a # as)" "dll P N x bs" by (simp_all only: dll_append [OF d(1)])
  show "P x \<in> set (a # xs)" unfolding *(1) xs using last_in_set [of "a # as"] by auto
  show "N x = 0 \<or> N x \<in> set xs" using *(2) by (cases bs) (auto simp: xs)
qed

lemma move_node:
  fixes h :: header_heap
  assumes a: "hl.carries h a xs" and c: "hl.carries h c ys" and x: "x \<in> set xs"
    and dis: "set (a # xs) \<inter> set (c # ys) = {}"
  obtains h1 h2 where "kmem_object_header_detach x h = Inr h1" "kmem_object_header_insert c x h1 = Inr h2"
    "hl.carries h2 a (remove1 x xs)" "hl.carries h2 c (x # ys)"
    "\<And>y. parent_block (h1 y) = parent_block (h y)" "\<And>y. parent_block (h2 y) = parent_block (h y)"
    "\<And>y. y \<notin> set (a # xs) \<union> set (c # ys) \<Longrightarrow> y \<noteq> 0 \<Longrightarrow> h2 y = h y"
proof -
  obtain h1 where h1: "kmem_object_header_detach x h = Inr h1" "hl.carries h1 a (remove1 x xs)"
    "\<And>h' zs. hl.carries h h' zs \<Longrightarrow> set (h' # zs) \<inter> set (a # xs) = {} \<Longrightarrow> hl.carries h1 h' zs"
    by (rule hl.det_carries [OF a x]) (rule that)
  have c1: "hl.carries h1 c ys" by (rule h1(3) [OF c]) (use dis in auto)
  have xn: "x \<noteq> 0" "x \<notin> set (c # ys)" using dlist_nonzero [OF a] x dis by auto
  obtain h2 where h2: "kmem_object_header_insert c x h1 = Inr h2" "hl.carries h2 c (x # ys)"
    "\<And>h' zs. hl.carries h1 h' zs \<Longrightarrow> set (h' # zs) \<inter> set (x # c # ys) = {} \<Longrightarrow> hl.carries h2 h' zs"
    by (rule hl.ins_carries [OF c1 xn]) (rule that)
  have "distinct (a # xs)" using a by (simp add: dlist_def)
  then have "set (a # remove1 x xs) \<inter> set (x # c # ys) = {}" using dis x by auto
  then have "hl.carries h2 a (remove1 x xs)" by (rule h2(3) [OF h1(2)])
  moreover have nx: "h_nxt (h1 c) = 0 \<or> h_nxt (h1 c) \<in> set ys" using dlist_first [OF c1] by (cases ys) auto
  have "h2 y = h y" if "y \<notin> set (a # xs) \<union> set (c # ys)" "y \<noteq> 0" for y
  proof -
    have "h2 y = h1 y" by (rule header_insert_frame(2) [OF h2(1)]) (use that x nx in auto)
    also have "\<dots> = h y" by (rule header_detach_frame(2) [OF h1(1)]) (use that x dlist_links [OF a x] in auto)
    finally show ?thesis .
  qed
  ultimately show thesis
    using that [OF h1(1) h2(1)] h2(2) header_insert_frame(1) [OF h2(1)] header_detach_frame(1) [OF h1(1)] by simp
qed

section \<open>The invariant\<close>

text \<open>A block: its order and number among the pages, its free and its allocated slots.\<close>

type_synonym obj_block = "nat \<times> nat \<times> addr list \<times> addr list"

definition unit_of :: "addr \<Rightarrow> 'a object_state_scheme \<Rightarrow> nat" where
  "unit_of mgr s = unat (object_size (managers s mgr)) + 24"

definition block_pages_of :: "obj_block \<Rightarrow> nat set" where
  "block_pages_of = (\<lambda>(d, k, fl, al). pages d k)"

definition addr_of_block :: "'a object_state_scheme \<Rightarrow> obj_block \<Rightarrow> addr" where
  "addr_of_block s = (\<lambda>(d, k, fl, al). blk_addr (begin_ppn s) d k)"

definition block_inv :: "'a object_state_scheme \<Rightarrow> addr \<Rightarrow> obj_block \<Rightarrow> bool" where
  "block_inv s mgr = (\<lambda>(d, k, fl, al).
     let a = blk_addr (begin_ppn s) d k; slots = slot_list a (unit_of mgr s) d in
     d < MAX_MEM_ORDER \<and> (k + 1) * 2 ^ d \<le> npages s \<and> pages d k \<inter> free_set s = {} \<and>
     hl.carries (headers s) (free_slots a) fl \<and> hl.carries (headers s) (allocated_slots a) al \<and>
     set fl \<inter> set al = {} \<and> set fl \<union> set al = set slots \<and>
     (\<forall>x\<in>set slots. parent_block (headers s x) = a) \<and>
     b_used (blocks s a) = word_of_nat (length al) \<and> b_total (blocks s a) = word_of_nat (length slots) \<and>
     b_object_size (blocks s a) = object_size (managers s mgr) \<and> page_count (blocks s a) = push_bit d 1 \<and>
     parent_manager (blocks s a) = mgr)"

lemma block_inv_frame:
  assumes inv: "block_inv s mgr (d, k, fl, al)" and top: "unat (begin_ppn s) + npages s < 2 ^ 26"
    and eq: "begin_ppn t = begin_ppn s" "num_ppn t = num_ppn s" "object_size (managers t mgr) = object_size (managers s mgr)"
    and fs: "pages d k \<inter> free_set t = {}"
    and hd: "\<And>x. x \<in> region (begin_ppn s) (pages d k) \<Longrightarrow> headers t x = headers s x"
    and bl: "\<exists>v. blocks t (blk_addr (begin_ppn s) d k) = (blocks s (blk_addr (begin_ppn s) d k))\<lparr>b_nxt := v\<rparr>"
  shows "block_inv t mgr (d, k, fl, al)"
proof -
  let ?a = "blk_addr (begin_ppn s) d k"
  have u: "unit_of mgr t = unit_of mgr s" "0 < unit_of mgr s" using eq(3) by (simp_all add: unit_of_def)
  have I: "d < MAX_MEM_ORDER" "(k + 1) * 2 ^ d \<le> npages s" "hl.carries (headers s) (free_slots ?a) fl"
    "hl.carries (headers s) (allocated_slots ?a) al" "set fl \<union> set al = set (slot_list ?a (unit_of mgr s) d)"
    "set fl \<inter> set al = {}" "\<forall>x\<in>set (slot_list ?a (unit_of mgr s) d). parent_block (headers s x) = ?a"
    "b_used (blocks s ?a) = word_of_nat (length al)"
    "b_total (blocks s ?a) = word_of_nat (length (slot_list ?a (unit_of mgr s) d))"
    "b_object_size (blocks s ?a) = object_size (managers s mgr)" "page_count (blocks s ?a) = push_bit d 1"
    "parent_manager (blocks s ?a) = mgr"
    using inv unfolding block_inv_def Let_def by simp_all
  note reg = block_headers_region [OF top I(2) u(2)]
  have sub: "set (free_slots ?a # fl) \<subseteq> region (begin_ppn s) (pages d k)"
    "set (allocated_slots ?a # al) \<subseteq> region (begin_ppn s) (pages d k)"
    using reg I(5) by auto
  have "hl.carries (headers t) (free_slots ?a) fl"
    by (rule dlist_frame [OF I(3)]) (use sub(1) hd in auto)
  moreover have "hl.carries (headers t) (allocated_slots ?a) al"
    by (rule dlist_frame [OF I(4)]) (use sub(2) hd in auto)
  moreover have "\<forall>x\<in>set (slot_list ?a (unit_of mgr s) d). parent_block (headers t x) = ?a"
    using I(7) hd reg(1) by auto
  moreover obtain v where v: "blocks t ?a = (blocks s ?a)\<lparr>b_nxt := v\<rparr>" using bl by blast
  ultimately show ?thesis using I(1,2,5,6,8-) fs v unfolding block_inv_def Let_def eq u(1) by simp
qed

lemmas block_inv_simps = block_inv_def Let_def prod.case

text \<open>Taking the first free slot of a block, and giving an allocated one back.\<close>

lemma take_slot:
  assumes inv: "block_inv s mgr (d, k, x # fl, al)" and top: "unat (begin_ppn s) + npages s < 2 ^ 26"
  obtains h where "kmem_object_alloc_from_block (blk_addr (begin_ppn s) d k) s =
      Inr (x + 24, set_block (blk_addr (begin_ppn s) d k) (\<lambda>b. b\<lparr>b_used := b_used b + 1\<rparr>) (s\<lparr>headers := h\<rparr>))"
    "block_inv (set_block (blk_addr (begin_ppn s) d k) (\<lambda>b. b\<lparr>b_used := b_used b + 1\<rparr>) (s\<lparr>headers := h\<rparr>)) mgr (d, k, fl, x # al)"
    "\<And>y. y \<notin> region (begin_ppn s) (pages d k) \<Longrightarrow> y \<noteq> 0 \<Longrightarrow> h y = headers s y"
proof -
  let ?a = "blk_addr (begin_ppn s) d k"
  let ?slots = "slot_list ?a (unit_of mgr s) d"
  have u: "0 < unit_of mgr s" by (simp add: unit_of_def)
  have I: "d < MAX_MEM_ORDER" "(k + 1) * 2 ^ d \<le> npages s" "hl.carries (headers s) (free_slots ?a) (x # fl)"
    "hl.carries (headers s) (allocated_slots ?a) al" "set (x # fl) \<union> set al = set ?slots"
    "set (x # fl) \<inter> set al = {}" "\<forall>x\<in>set ?slots. parent_block (headers s x) = ?a" "pages d k \<inter> free_set s = {}"
    "b_used (blocks s ?a) = word_of_nat (length al)" "b_total (blocks s ?a) = word_of_nat (length ?slots)"
    "b_object_size (blocks s ?a) = object_size (managers s mgr)" "page_count (blocks s ?a) = push_bit d 1"
    "parent_manager (blocks s ?a) = mgr"
    using inv unfolding block_inv_simps by blast+
  note reg = block_headers_region [OF top I(2) u]
  have dis: "set (free_slots ?a # x # fl) \<inter> set (allocated_slots ?a # al) = {}"
    using slot_list_props [OF top I(2) u] I(5,6) by auto
  obtain h1 h where h: "kmem_object_header_detach x (headers s) = Inr h1"
    "kmem_object_header_insert (allocated_slots ?a) x h1 = Inr h"
    "hl.carries h (free_slots ?a) (remove1 x (x # fl))" "hl.carries h (allocated_slots ?a) (x # al)"
    "\<And>y. parent_block (h1 y) = parent_block (headers s y)" "\<And>y. parent_block (h y) = parent_block (headers s y)"
    "\<And>y. y \<notin> set (free_slots ?a # x # fl) \<union> set (allocated_slots ?a # al) \<Longrightarrow> y \<noteq> 0 \<Longrightarrow> h y = headers s y"
    by (rule move_node [OF I(3,4) _ dis, of x]) (simp, rule that)
  have first: "h_nxt (headers s (free_slots ?a)) = x" "x \<noteq> 0"
    using dlist_first [OF I(3)] dlist_nonzero [OF I(3)] by auto
  let ?t = "set_block ?a (\<lambda>b. b\<lparr>b_used := b_used b + 1\<rparr>) (s\<lparr>headers := h\<rparr>)"
  show thesis
  proof (rule that [of h])
    show "kmem_object_alloc_from_block ?a s = Inr (x + 24, ?t)"
      using first h(1,2) by (simp add: kmem_object_alloc_from_block_def Let_def sizeof_header_def)
    have "blocks ?t ?a = (blocks s ?a)\<lparr>b_used := word_of_nat (length (x # al))\<rparr>"
      using I(9) by (simp add: set_block_def add.commute)
    moreover have "x \<notin> set fl" using I(3) by (simp add: dlist_def)
    moreover have "unit_of mgr ?t = unit_of mgr s" "free_set ?t = free_set s" "begin_ppn ?t = begin_ppn s"
      "num_ppn ?t = num_ppn s" "managers ?t = managers s" "headers ?t = h"
      by (simp_all add: unit_of_def set_block_def free_set_def)
    ultimately show "block_inv ?t mgr (d, k, fl, x # al)"
      unfolding block_inv_simps using I(1,2,5-8,10-) h(3,4,6) by auto
    show "h y = headers s y" if "y \<notin> region (begin_ppn s) (pages d k)" "y \<noteq> 0" for y
      by (rule h(7)) (use that reg I(5) in auto)
  qed
qed

lemma put_slot:
  assumes inv: "block_inv s mgr (d, k, fl, al)" and top: "unat (begin_ppn s) + npages s < 2 ^ 26" and x: "x \<in> set al"
  obtains h1 h where "kmem_object_header_detach x (headers s) = Inr h1" "parent_block (h1 x) = blk_addr (begin_ppn s) d k"
    "kmem_object_header_insert (free_slots (blk_addr (begin_ppn s) d k)) x h1 = Inr h"
    "parent_block (headers s x) = blk_addr (begin_ppn s) d k" "parent_block (h x) = blk_addr (begin_ppn s) d k"
    "block_inv (set_block (blk_addr (begin_ppn s) d k) (\<lambda>b. b\<lparr>b_used := b_used b - 1\<rparr>) (s\<lparr>headers := h\<rparr>)) mgr
       (d, k, x # fl, remove1 x al)"
    "\<And>y. y \<notin> region (begin_ppn s) (pages d k) \<Longrightarrow> y \<noteq> 0 \<Longrightarrow> h y = headers s y"
proof -
  let ?a = "blk_addr (begin_ppn s) d k"
  let ?slots = "slot_list ?a (unit_of mgr s) d"
  have u: "0 < unit_of mgr s" by (simp add: unit_of_def)
  have I: "d < MAX_MEM_ORDER" "(k + 1) * 2 ^ d \<le> npages s" "hl.carries (headers s) (free_slots ?a) fl"
    "hl.carries (headers s) (allocated_slots ?a) al" "set fl \<union> set al = set ?slots"
    "set fl \<inter> set al = {}" "\<forall>x\<in>set ?slots. parent_block (headers s x) = ?a" "pages d k \<inter> free_set s = {}"
    "b_used (blocks s ?a) = word_of_nat (length al)" "b_total (blocks s ?a) = word_of_nat (length ?slots)"
    "b_object_size (blocks s ?a) = object_size (managers s mgr)" "page_count (blocks s ?a) = push_bit d 1"
    "parent_manager (blocks s ?a) = mgr"
    using inv unfolding block_inv_simps by blast+
  note reg = block_headers_region [OF top I(2) u]
  have dis: "set (allocated_slots ?a # al) \<inter> set (free_slots ?a # fl) = {}"
    using slot_list_props [OF top I(2) u] I(5,6) by auto
  obtain h1 h where h: "kmem_object_header_detach x (headers s) = Inr h1"
    "kmem_object_header_insert (free_slots ?a) x h1 = Inr h"
    "hl.carries h (allocated_slots ?a) (remove1 x al)" "hl.carries h (free_slots ?a) (x # fl)"
    "\<And>y. parent_block (h1 y) = parent_block (headers s y)" "\<And>y. parent_block (h y) = parent_block (headers s y)"
    "\<And>y. y \<notin> set (allocated_slots ?a # al) \<union> set (free_slots ?a # fl) \<Longrightarrow> y \<noteq> 0 \<Longrightarrow> h y = headers s y"
    by (rule move_node [OF I(4,3) x dis]) (rule that)
  let ?t = "set_block ?a (\<lambda>b. b\<lparr>b_used := b_used b - 1\<rparr>) (s\<lparr>headers := h\<rparr>)"
  have xs: "parent_block (headers s x) = ?a" using I(5,7) x by auto
  have d: "distinct al" using I(4) by (simp add: dlist_def)
  have len: "word_of_nat (length al) - 1 = (word_of_nat (length (remove1 x al)) :: ulong)"
  proof -
    have "length al = Suc (length (remove1 x al))" using x length_pos_if_in_set [OF x] by (simp add: length_remove1)
    then show ?thesis by simp
  qed
  have "blocks ?t ?a = (blocks s ?a)\<lparr>b_used := word_of_nat (length (remove1 x al))\<rparr>"
    using I(9) len by (simp add: set_block_def)
  moreover have "set (remove1 x al) = set al - {x}" using d by simp
  moreover have "unit_of mgr ?t = unit_of mgr s" "free_set ?t = free_set s" "begin_ppn ?t = begin_ppn s"
    "num_ppn ?t = num_ppn s" "managers ?t = managers s" "headers ?t = h"
    by (simp_all add: unit_of_def set_block_def free_set_def)
  ultimately have "block_inv ?t mgr (d, k, x # fl, remove1 x al)"
    unfolding block_inv_simps using I(1,2,5-8,10-) h(3,4,6) x by auto
  moreover have "h y = headers s y" if "y \<notin> region (begin_ppn s) (pages d k)" "y \<noteq> 0" for y
    by (rule h(7)) (use that reg I(5) in auto)
  ultimately show thesis using that [OF h(1) _ h(2)] h(5,6) xs by simp
qed

section \<open>New blocks\<close>

lemma dlist_snoc:
  assumes "dlist P N h xs" "x \<noteq> 0" "x \<notin> set (h # xs)"
    and N': "N' = N(last (h # xs) := x, x := 0)" and P': "P' = P(x := last (h # xs))"
  shows "dlist P' N' h (xs @ [x])"
proof -
  let ?l = "last (h # xs)"
  have d: "h \<noteq> 0" "distinct (h # xs)" "dll P N h xs" using assms(1) by (auto simp: dlist_def)
  have l: "?l \<in> set (h # xs)" by (rule last_in_set) simp
  have "N ?l = 0" using d(3) by (induction xs arbitrary: h) auto
  then have "dll P' (N'(?l := 0)) h xs = dll P N h xs"
    using assms(3) l by (intro dll_cong) (auto simp: N' P')
  then have "dll P' N' h (xs @ [x])" unfolding dll_append [OF d(2)] using d(3) assms(2,3) l by (auto simp: N' P')
  then show ?thesis using d assms(3) by (auto simp: dlist_def)
qed

text \<open>
  The allocator's pages end below the top of the window, so that the address arithmetic of the slot
  loop does not wrap.
\<close>

abbreviation obj_range :: "ulong \<Rightarrow> nat \<Rightarrow> bool" where
  "obj_range b n \<equiv> unat b + n + 1024 \<le> 2 ^ 26"

lemma slot_loop_test:
  assumes "obj_range b n" "(k + 1) * 2 ^ d \<le> n" "unat usz = u" "u < 2 ^ 22" "0 < u" "i \<le> slot_count u d"
  shows "slot_at (blk_addr b d k) u i + usz \<le> blk_addr b d k + push_bit (d + PAGE_SHIFT) 1 \<longleftrightarrow> i < slot_count u d"
    "slot_at (blk_addr b d k) u i + usz = slot_at (blk_addr b d k) u (Suc i)"
proof -
  let ?a = "blk_addr b d k"
  have top: "unat b + n < 2 ^ 26" using assms(1) by simp
  have le: "96 + i * u \<le> 2 ^ (d + 12)"
  proof (cases i)
    case 0
    then show ?thesis using block_big [of d] by simp
  next
    case (Suc j)
    then show ?thesis using slot_end [of j u d] assms(6) by simp
  qed
  have e: "unat (?a + push_bit (d + PAGE_SHIFT) 1) = unat ?a + 2 ^ (d + 12)"
    using unat_in_block(1) [OF top assms(2), of "2 ^ (d + 12)"] by (simp add: PAGE_SHIFT_def push_bit_eq_mult)
  have "unat ?a + 2 ^ (d + 12) \<le> 2 ^ 64 - 2 ^ 22"
  proof -
    have "unat ?a + 2 ^ (d + 12) = window_base + ((k + 1) * 2 ^ d + unat b) * 4096"
      using unat_in_block(2) [OF top assms(2), of 0] by (simp add: power_add algebra_simps)
    also have "\<dots> \<le> window_base + (n + unat b) * 4096" using assms(2) by (intro add_left_mono mult_le_mono1 add_right_mono)
    also have "\<dots> \<le> 2 ^ 64 - 2 ^ 22" using assms(1) by simp
    finally show ?thesis .
  qed
  moreover have p: "unat (slot_at ?a u i) = unat ?a + (96 + i * u)"
    unfolding slot_at_def by (rule unat_in_block(1) [OF top assms(2) le])
  ultimately have "unat (slot_at ?a u i + usz) = unat ?a + (96 + i * u) + u"
    using le assms(3,4) by (simp add: unat_word_ariths)
  then have "slot_at ?a u i + usz \<le> ?a + push_bit (d + PAGE_SHIFT) 1 \<longleftrightarrow> 96 + i * u + u \<le> 2 ^ (d + 12)"
    unfolding word_le_nat_alt e by (simp add: add.assoc)
  then show "slot_at ?a u i + usz \<le> ?a + push_bit (d + PAGE_SHIFT) 1 \<longleftrightarrow> i < slot_count u d"
    using slot_end [of i u d] slot_more [of u d i] assms(5) by (meson not_less)
  have "usz = word_of_nat u" using assms(3) by (metis of_nat_unat ucast_id)
  then show "slot_at ?a u i + usz = slot_at ?a u (Suc i)" by (simp add: slot_at_def algebra_simps)
qed

lemma create_slots_correct:
  assumes "obj_range b n" "(k + 1) * 2 ^ d \<le> n" "unat usz = u" "u < 2 ^ 22" "0 < u" "a = blk_addr b d k"
    and "i \<le> slot_count u d" "hl.carries (headers s) (free_slots a) (take i (slot_list a u d))"
  shows "\<exists>h. create_slots a usz (a + push_bit (d + PAGE_SHIFT) 1) (last (free_slots a # take i (slot_list a u d))) (slot_at a u i) s =
      ret (s\<lparr>headers := h, blocks := (blocks s)(a := (blocks s a)\<lparr>b_total := b_total (blocks s a) + word_of_nat (slot_count u d - i)\<rparr>)\<rparr>) \<and>
    hl.carries h (free_slots a) (slot_list a u d) \<and>
    (\<forall>x. parent_block (h x) = (if x \<in> set (drop i (slot_list a u d)) then a else parent_block (headers s x))) \<and>
    (\<forall>x. x \<notin> set (free_slots a # slot_list a u d) \<longrightarrow> h x = headers s x)"
  using assms(7-)
proof (induction "slot_count u d - i" arbitrary: i s)
  case 0
  then have i: "i = slot_count u d" and len: "take i (slot_list a u d) = slot_list a u d" "drop i (slot_list a u d) = []"
    by (simp_all add: slot_list_def)
  have "\<not> slot_at a u i + usz \<le> a + push_bit (d + PAGE_SHIFT) 1"
    using slot_loop_test(1) [OF assms(1-5), of i] i unfolding assms(6) by simp
  then have r: "create_slots a usz (a + push_bit (d + PAGE_SHIFT) 1) (last (free_slots a # take i (slot_list a u d))) (slot_at a u i) s = ret s"
    by (subst create_slots.simps) simp
  show ?case unfolding r using 0(3) len i by (intro exI [of _ "headers s"]) simp
next
  case (Suc m)
  let ?sl = "slot_list a u d" and ?x = "slot_at a u i" and ?pe = "a + push_bit (d + PAGE_SHIFT) 1"
  let ?p = "last (free_slots a # take i ?sl)"
  have i: "i < slot_count u d" using Suc.hyps(2) by simp
  have top: "unat b + n < 2 ^ 26" using assms(1) by simp
  have len: "length ?sl = slot_count u d" "?sl ! i = ?x" using i by (simp_all add: slot_list_def)
  then have tk: "take (Suc i) ?sl = take i ?sl @ [?x]" "drop i ?sl = ?x # drop (Suc i) ?sl"
    using i by (simp add: take_Suc_conv_app_nth) (metis Cons_nth_drop_Suc len i)
  note sp = slot_list_props [OF top assms(2,5), folded assms(6)]
  have xin: "?x \<in> set ?sl" using len i nth_mem by metis
  have dd: "distinct (take (Suc i) ?sl)" using sp(1) by simp
  have x0: "?x \<noteq> 0" "?x \<notin> set (free_slots a # take i ?sl)" using xin sp dd unfolding tk(1) by auto
  define h where "h = (let h = headers s; h = h(?p := (h ?p)\<lparr>h_nxt := ?x\<rparr>); h = h(?x := (h ?x)\<lparr>h_prv := ?p\<rparr>);
    h = h(?x := (h ?x)\<lparr>h_nxt := 0\<rparr>) in h(?x := (h ?x)\<lparr>parent_block := a\<rparr>))"
  define s1 where "s1 = set_block a (\<lambda>b. b\<lparr>b_total := b_total b + 1\<rparr>) (s\<lparr>headers := h\<rparr>)"
  have pin: "?p \<in> set (free_slots a # take i ?sl)" by (rule last_in_set) simp
  then have px: "?p \<noteq> ?x" using x0(2) by auto
  have hh: "h_nxt (h y) = ((\<lambda>y. h_nxt (headers s y))(?p := ?x, ?x := 0)) y" "h_prv (h y) = ((\<lambda>y. h_prv (headers s y))(?x := ?p)) y"
    "parent_block (h y) = (if y = ?x then a else parent_block (headers s y))" "y \<noteq> ?x \<Longrightarrow> y \<noteq> ?p \<Longrightarrow> h y = headers s y" for y
    using px by (simp_all add: h_def Let_def)
  have "hl.carries h (free_slots a) (take i ?sl @ [?x])"
    by (rule dlist_snoc [OF Suc.prems(2) x0]) (auto simp: hh fun_eq_iff)
  then have c1: "hl.carries (headers s1) (free_slots a) (take (Suc i) ?sl)" by (simp add: s1_def set_block_def tk(1))
  have m: "m = slot_count u d - Suc i" "Suc i \<le> slot_count u d" using Suc.hyps(2) i by simp_all
  obtain g where g: "create_slots a usz ?pe (last (free_slots a # take (Suc i) ?sl)) (slot_at a u (Suc i)) s1 =
      ret (s1\<lparr>headers := g, blocks := (blocks s1)(a := (blocks s1 a)\<lparr>b_total := b_total (blocks s1 a) + word_of_nat (slot_count u d - Suc i)\<rparr>)\<rparr>)"
    "hl.carries g (free_slots a) ?sl"
    "\<And>x. parent_block (g x) = (if x \<in> set (drop (Suc i) ?sl) then a else parent_block (headers s1 x))"
    "\<And>x. x \<notin> set (free_slots a # ?sl) \<Longrightarrow> g x = headers s1 x"
    using Suc.hyps(1) [OF m c1] by blast
  note t = slot_loop_test [OF assms(1-5), of i, folded assms(6)]
  have "create_slots a usz ?pe ?p ?x s = create_slots a usz ?pe ?x (slot_at a u (Suc i)) s1"
    using t i by (subst create_slots.simps) (simp add: s1_def h_def Let_def)
  moreover have "last (free_slots a # take (Suc i) ?sl) = ?x" by (simp add: tk(1))
  moreover have "s1\<lparr>headers := g, blocks := (blocks s1)(a := (blocks s1 a)\<lparr>b_total := b_total (blocks s1 a) + word_of_nat (slot_count u d - Suc i)\<rparr>)\<rparr> =
      s\<lparr>headers := g, blocks := (blocks s)(a := (blocks s a)\<lparr>b_total := b_total (blocks s a) + word_of_nat (slot_count u d - i)\<rparr>)\<rparr>"
  proof -
    have "slot_count u d - i = Suc (slot_count u d - Suc i)" using i by simp
    then show ?thesis by (simp add: s1_def set_block_def add.assoc)
  qed
  moreover have "headers s1 = h" by (simp add: s1_def set_block_def)
  moreover have "g x = headers s x" if "x \<notin> set (free_slots a # ?sl)" for x
  proof -
    have "x \<noteq> ?x" "x \<noteq> ?p" using that xin pin by (auto dest: in_set_takeD)
    then show ?thesis using g(4) [OF that] hh(4) calculation(4) by simp
  qed
  ultimately show ?case using g(1-3) tk(2) hh(3) by (intro exI [of _ g]) auto
qed

lemma round_up_8:
  assumes "8 dvd unat x" "unat x + 7 < 2 ^ 64"
  shows "BINARY_ROUND_UP x OBJECT_ALIGNMENT = x"
proof -
  obtain q where q: "unat x = 8 * q" using assms(1) by (rule dvdE)
  have "BINARY_ROUND_UP x OBJECT_ALIGNMENT = (x + 7) AND NOT (mask 3)"
    by (simp add: BINARY_ROUND_UP_def OBJECT_ALIGNMENT_def mask_eq_exp_minus_1 add.commute)
  moreover have "unat (x + 7) = 8 * q + 7" using assms(2) q by (simp add: unat_word_ariths)
  then have "unat ((x + 7) AND NOT (mask 3)) = unat x" unfolding unat_round_down using q by simp
  ultimately show ?thesis by (simp add: word_unat_eq_iff)
qed

text \<open>The page allocator's invariant only reads the fields of its own record.\<close>

lemma kmem_ok_cong:
  assumes "kmem_ok s" "begin_ppn t = begin_ppn s" "num_ppn t = num_ppn s" "mem_map t = mem_map s"
    "free_areas t = free_areas s" "list_mem t = list_mem s" "locked (page_manager_lock t) = 0" "cpu_ok t"
  shows "kmem_ok t"
proof -
  obtain F where F: "rep s F" "buddy_inv (npages s) F" "\<forall>p<npages s. bm (mem_map s) p \<longleftrightarrow> p \<notin> free_pages F"
    using assms(1) by (auto simp: kmem_ok_def kmem_inv_def)
  have "rep t F" by (rule rep_cong [OF F(1)]) (use assms in simp_all)
  then have "kmem_inv t F" using F assms by (simp add: kmem_inv_def)
  then show ?thesis using assms by (auto simp: kmem_ok_def lock_free_def)
qed

lemma kmem_ok_lock: "kmem_ok s \<Longrightarrow> locked (page_manager_lock s) = 0 \<and> cpu_ok s"
  by (simp add: kmem_ok_def lock_free_def)

lemma cpu_ok_cong: "cpu_ok s \<Longrightarrow> tp t = tp s \<Longrightarrow> sstatus t = sstatus s \<Longrightarrow> harts t = harts s \<Longrightarrow> cpu_ok t"
  by (rule cpu_eq_ok [OF cpu_eq_same])

lemma kmem_ok_object [simp]:
  "kmem_ok (s\<lparr>headers := h\<rparr>) = kmem_ok s" "kmem_ok (s\<lparr>blocks := B\<rparr>) = kmem_ok s" "kmem_ok (s\<lparr>managers := M\<rparr>) = kmem_ok s"
proof -
  have 1: "kmem_ok s \<Longrightarrow> kmem_ok (s\<lparr>headers := h\<rparr>)" for s :: "'a object_state_scheme" and h
    by (rule kmem_ok_cong [of s]) (auto dest: kmem_ok_lock intro: cpu_ok_cong)
  have 2: "kmem_ok s \<Longrightarrow> kmem_ok (s\<lparr>blocks := h\<rparr>)" for s :: "'a object_state_scheme" and h
    by (rule kmem_ok_cong [of s]) (auto dest: kmem_ok_lock intro: cpu_ok_cong)
  have 3: "kmem_ok s \<Longrightarrow> kmem_ok (s\<lparr>managers := h\<rparr>)" for s :: "'a object_state_scheme" and h
    by (rule kmem_ok_cong [of s]) (auto dest: kmem_ok_lock intro: cpu_ok_cong)
  show "kmem_ok (s\<lparr>headers := h\<rparr>) = kmem_ok s" using 1 [of s h] 1 [of "s\<lparr>headers := h\<rparr>" "headers s"] by auto
  show "kmem_ok (s\<lparr>blocks := B\<rparr>) = kmem_ok s" using 2 [of s B] 2 [of "s\<lparr>blocks := B\<rparr>" "blocks s"] by auto
  show "kmem_ok (s\<lparr>managers := M\<rparr>) = kmem_ok s" using 3 [of s M] 3 [of "s\<lparr>managers := M\<rparr>" "managers s"] by auto
qed

lemma free_set_object [simp]:
  "free_set (s\<lparr>headers := h\<rparr>) = free_set s" "free_set (s\<lparr>blocks := B\<rparr>) = free_set s" "free_set (s\<lparr>managers := M\<rparr>) = free_set s"
  "free_set (s\<lparr>sstatus := x\<rparr>) = free_set s" "free_set (s\<lparr>harts := H\<rparr>) = free_set s"
  by (simp_all add: free_set_def)

lemma page_frame_object:
  "page_frame s t \<Longrightarrow> headers t = headers s \<and> blocks t = blocks s \<and> managers t = managers s \<and>
     object_manager_lock t = object_manager_lock s \<and> object_manager_at t = object_manager_at s \<and>
     uni_managers t = uni_managers s \<and> list_node_object_manager t = list_node_object_manager s"
  by (auto simp: page_frame_def)

definition obj_size_ok :: "ulong \<Rightarrow> bool" where
  "obj_size_ok siz \<longleftrightarrow> 8 dvd unat siz \<and> unat siz + 24 < 2 ^ 22"

lemma create_block_correct:
  fixes s :: "'a object_state_scheme"
  assumes ok: "kmem_ok s" and rng: "obj_range (begin_ppn s) (npages s)" and d: "unat order < MAX_MEM_ORDER"
    and siz: "obj_size_ok siz" "siz = object_size (managers s mgr)"
  obtains (none) t where "kmem_object_create_block mgr order siz s = ret (0, t)" "kmem_ok t" "page_frame s t"
      "free_set t = free_set s" "\<And>k. \<not> pages (unat order) k \<subseteq> free_set s"
  | (block) k w h t where "kmem_object_create_block mgr order siz s = ret (blk_addr (begin_ppn s) (unat order) k, t)"
      "t = set_block (blk_addr (begin_ppn s) (unat order) k) (\<lambda>_. blocks t (blk_addr (begin_ppn s) (unat order) k)) (w\<lparr>headers := h\<rparr>)"
      "page_frame s w" "kmem_ok w" "free_set w = free_set s - pages (unat order) k" "pages (unat order) k \<subseteq> free_set s"
      "block_inv t mgr (unat order, k, slot_list (blk_addr (begin_ppn s) (unat order) k) (unit_of mgr s) (unat order), [])"
      "\<And>y. y \<notin> region (begin_ppn s) (pages (unat order) k) \<Longrightarrow> h y = headers s y"
proof (rule pa.alloc_total [OF ok d])
  fix t assume t: "kmem_alloc_pages order s = Inr (0, t)" "kmem_ok t" "page_frame s t" "free_set t = free_set s"
    "\<And>k. \<not> pages (unat order) k \<subseteq> free_set s"
  then have "kmem_object_create_block mgr order siz s = ret (0, t)" using d by (simp add: kmem_object_create_block_def)
  from none [OF this t(2-5)] show thesis .
next
  fix k w assume w: "kmem_alloc_pages order s = Inr (page_va (begin_ppn s) (k * 2 ^ unat order), w)" "kmem_ok w" "page_frame s w"
    "(k + 1) * 2 ^ unat order \<le> npages s" "pages (unat order) k \<subseteq> free_set s" "free_set w = free_set s - pages (unat order) k"
  let ?b = "begin_ppn s" and ?d = "unat order"
  let ?a = "blk_addr ?b ?d k" and ?u = "unit_of mgr s"
  let ?sl = "slot_list ?a ?u ?d"
  have top: "unat ?b + npages s < 2 ^ 26" using rng by simp
  have u: "0 < ?u" "?u < 2 ^ 22" "unat (sizeof_header + siz) = ?u"
    using siz by (simp_all add: unit_of_def obj_size_ok_def sizeof_header_def unat_word_ariths)
  have a96: "?a + 96 = slot_at ?a ?u 0" by (simp add: slot_at_def)
  have "unat (?a + 96) = unat ?a + 96" "unat ?a + 96 < 2 ^ 64 - 2 ^ 21" "8 dvd unat ?a"
    using unat_in_block(1,2) [OF top w(4), of 96] block_big [of ?d] rng block_first [OF w(4)] by simp_all
  then have r96: "BINARY_ROUND_UP (?a + 96) OBJECT_ALIGNMENT = ?a + 96" by (intro round_up_8) simp_all
  have rs: "BINARY_ROUND_UP siz OBJECT_ALIGNMENT = siz" using siz(1) by (intro round_up_8) (simp_all add: obj_size_ok_def)
  note sp = slot_list_props [OF top w(4) u(1)] and reg = block_headers_region [OF top w(4) u(1)]
  note wf = page_frame_object [OF w(3)] page_frame_fields [OF w(3)]
  define h where "h = (let h = headers w; h = h(free_slots ?a := (h (free_slots ?a))\<lparr>h_prv := 0, h_nxt := 0\<rparr>);
    h = h(allocated_slots ?a := (h (allocated_slots ?a))\<lparr>h_prv := 0, h_nxt := 0\<rparr>);
    h = h(allocated_slots ?a := (h (allocated_slots ?a))\<lparr>parent_block := ?a\<rparr>)
    in h(free_slots ?a := (h (free_slots ?a))\<lparr>parent_block := ?a\<rparr>))"
  define s1 where "s1 = set_block ?a (\<lambda>_. \<lparr>b_nxt = 0, b_used = 0, b_total = 0, b_object_size = siz,
    page_count = push_bit ?d 1, parent_manager = mgr\<rparr>) (w\<lparr>headers := h\<rparr>)"
  have s1: "headers s1 = h" "blocks s1 ?a = \<lparr>b_nxt = 0, b_used = 0, b_total = 0, b_object_size = siz,
    page_count = push_bit ?d 1, parent_manager = mgr\<rparr>" by (simp_all add: s1_def set_block_def)
  have h0: "h_nxt (h (free_slots ?a)) = 0" "h_nxt (h (allocated_slots ?a)) = 0"
    "\<And>y. y \<noteq> free_slots ?a \<Longrightarrow> y \<noteq> allocated_slots ?a \<Longrightarrow> h y = headers s y"
    using sp(5) wf(1) by (simp_all add: h_def Let_def)
  have fa: "free_slots ?a \<noteq> 0" by (simp add: free_slots_def)
  then have "hl.carries (headers s1) (free_slots ?a) (take 0 ?sl)" using h0(1) by (simp add: s1(1) dlist_def)
  from create_slots_correct [OF rng w(4) u(3,2,1) refl _ this]
  obtain g where g: "create_slots ?a (sizeof_header + siz) (?a + push_bit (?d + PAGE_SHIFT) 1) (free_slots ?a) (?a + 96) s1 =
      ret (s1\<lparr>headers := g, blocks := (blocks s1)(?a := (blocks s1 ?a)\<lparr>b_total := b_total (blocks s1 ?a) + word_of_nat (slot_count ?u ?d)\<rparr>)\<rparr>)"
    "hl.carries g (free_slots ?a) ?sl" "\<And>x. parent_block (g x) = (if x \<in> set ?sl then ?a else parent_block (h x))"
    "\<And>x. x \<notin> set (free_slots ?a # ?sl) \<Longrightarrow> g x = h x"
    unfolding s1(1) a96 by auto
  define t where "t = s1\<lparr>headers := g, blocks := (blocks s1)(?a := (blocks s1 ?a)\<lparr>b_total := b_total (blocks s1 ?a) + word_of_nat (slot_count ?u ?d)\<rparr>)\<rparr>"
  have run: "kmem_object_create_block mgr order siz s = ret (?a, t)"
  proof -
    have w': "kmem_alloc_pages order s = Inr (?a, w)" using w(1) by (simp add: blk_addr_def)
    have "kmem_object_create_block mgr order siz s =
        bindM (create_slots ?a (sizeof_header + b_object_size (blocks s1 ?a)) (?a + push_bit (?d + PAGE_SHIFT) 1) (free_slots ?a)
          (BINARY_ROUND_UP (?a + sizeof_block) OBJECT_ALIGNMENT) s1) (\<lambda>s. ret (?a, s))"
      unfolding kmem_object_create_block_def w' bindM_simps prod.case Let_def s1_def h_def rs using d by simp
    then show ?thesis using g(1) r96 s1(2) by (simp add: sizeof_block_def t_def)
  qed
  have al: "hl.carries g (allocated_slots ?a) []"
    using h0(2) sp(3,5,6) g(4) [of "allocated_slots ?a"] by (auto simp: dlist_def)
  have tf: "headers t = g" "begin_ppn t = ?b" "num_ppn t = num_ppn s" "managers t = managers s" "free_set t = free_set w"
    using wf by (simp_all add: t_def s1_def set_block_def)
  have tb: "blocks t ?a = \<lparr>b_nxt = 0, b_used = 0, b_total = word_of_nat (slot_count ?u ?d), b_object_size = siz,
    page_count = push_bit ?d 1, parent_manager = mgr\<rparr>" by (simp add: t_def s1(2))
  have "block_inv t mgr (?d, k, ?sl, [])"
    unfolding block_inv_simps tf(1-4) tb unit_of_def using d w(4) w(6) tf(5) g(2,3) al siz(2)
    by (auto simp: slot_list_def unit_of_def)
  moreover have "t = set_block ?a (\<lambda>_. blocks t ?a) (w\<lparr>headers := g\<rparr>)"
    by (simp add: t_def s1_def set_block_def)
  moreover have "g y = headers s y" if "y \<notin> region ?b (pages ?d k)" for y
  proof -
    have "y \<notin> set (free_slots ?a # ?sl)" "y \<noteq> allocated_slots ?a" using that reg by auto
    then show ?thesis using g(4) h0(3) by simp
  qed
  ultimately show thesis using block [OF run _ w(3,2,6,5)] by blast
qed

end
