(* ===== verification/Proc_Correct.thy ===== *)
theory Proc_Correct
  imports Sleeplock Trap Object_Correct
begin

text \<open>
  The process list against lists: the search, the wake-up and the links in terms of the list of processes the head
  carries, under the lock of the process manager.
\<close>

section \<open>The locked section\<close>

abbreviation plist :: "proc_heap \<Rightarrow> addr \<Rightarrow> addr list \<Rightarrow> bool" where
  "plist h \<equiv> dlist (\<lambda>a. prv_proc (h a)) (\<lambda>a. nxt_proc (h a))"

definition proc_ok :: "'a kernel_state_scheme \<Rightarrow> addr list \<Rightarrow> bool" where
  "proc_ok s ps \<longleftrightarrow> cpu_ok s \<and> locked (proc_manager_lock s) = 0 \<and> plist (procs s) (proc_list s) ps"

text \<open>What an operation on the list leaves alone: everything but the processes, the lock and the scratch field of the hart.\<close>

definition proc_frame :: "'a kernel_state_scheme \<Rightarrow> 'a kernel_state_scheme \<Rightarrow> bool" where
  "proc_frame s t \<longleftrightarrow> cpu_eq s t \<and> (\<exists>H h lk. t = s\<lparr>harts := H, procs := h, proc_manager_lock := lk\<rparr> \<and> locked lk = 0)"

lemma running_update: "running_proc c = running_proc (xs ! i) \<Longrightarrow> map running_proc (xs[i := c]) = map running_proc xs"
  by (cases "i < length xs", rule nth_equalityI) (auto simp: nth_list_update list_update_beyond)

lemma spinlock_acquire_running: "spinlock_acquire lk s = Inr (l, t) \<Longrightarrow> map running_proc (harts t) = map running_proc (harts s)"
  by (auto simp: spinlock_acquire_def pushoff_hart_def Let_def disable_interrupt_def rd_def split: if_splits intro!: running_update)

lemma procs_section:
  fixes s :: "'a kernel_state_scheme"
  assumes "cpu_ok s" "locked (proc_manager_lock s) = 0"
  obtains x H lk s1 where
    "acquire_procs s = Inr s1" "s1 = s\<lparr>sstatus := x, harts := H, proc_manager_lock := lk\<rparr>" "cpu_ok s1"
    "locked lk = 1" "lk_hart lk = Some (current_hart s)" "map running_proc H = map running_proc (harts s)"
    "\<And>h. \<exists>t. release_procs (s1\<lparr>procs := h\<rparr>) = Inr t \<and> procs t = h \<and> proc_frame s t"
proof -
  let ?l = "proc_manager_lock s"
  obtain x H H' where l:
    "spinlock_acquire ?l s = Inr (?l\<lparr>locked := 1, lk_hart := Some (current_hart s)\<rparr>, s\<lparr>sstatus := x, harts := H\<rparr>)"
    "cpu_ok (s\<lparr>sstatus := x, harts := H\<rparr>)"
    "\<And>t :: 'a kernel_state_scheme. cpu_eq (s\<lparr>sstatus := x, harts := H\<rparr>) t \<Longrightarrow>
       spinlock_release (?l\<lparr>locked := 1, lk_hart := Some (current_hart s)\<rparr>) t =
       Inr (?l\<lparr>locked := 0, lk_hart := None\<rparr>, t\<lparr>sstatus := sstatus s, harts := H'\<rparr>)"
    "\<And>t :: 'a kernel_state_scheme. tp t = tp s \<Longrightarrow> sstatus t = sstatus s \<Longrightarrow> harts t = H' \<Longrightarrow> cpu_eq s t"
    by (rule lock_roundtrip [OF assms]) blast
  define lk where "lk = ?l\<lparr>locked := 1, lk_hart := Some (current_hart s)\<rparr>"
  define lk' where "lk' = ?l\<lparr>locked := 0, lk_hart := None\<rparr>"
  define s1 where "s1 = s\<lparr>sstatus := x, harts := H, proc_manager_lock := lk\<rparr>"
  have "map running_proc H = map running_proc (harts s)" using spinlock_acquire_running [OF l(1)] by simp
  moreover have "\<exists>t. release_procs (s1\<lparr>procs := h\<rparr>) = Inr t \<and> procs t = h \<and> proc_frame s t" for h
  proof -
    have "cpu_eq (s\<lparr>sstatus := x, harts := H\<rparr>) (s1\<lparr>procs := h\<rparr>)" by (rule cpu_eq_same) (simp_all add: s1_def)
    from l(3) [OF this] have "release_procs (s1\<lparr>procs := h\<rparr>) =
      Inr (s\<lparr>harts := H', procs := h, proc_manager_lock := lk'\<rparr>)"
      by (simp add: release_procs_def s1_def lk_def lk'_def)
    moreover have "proc_frame s (s\<lparr>harts := H', procs := h, proc_manager_lock := lk'\<rparr>)"
      unfolding proc_frame_def
      by (intro conjI exI [of _ H'] exI [of _ h] exI [of _ lk']) (auto simp: lk'_def intro: l(4))
    ultimately show ?thesis by simp
  qed
  moreover have "cpu_ok s1" by (rule cpu_ok_cong [OF l(2)]) (simp_all add: s1_def)
  ultimately show thesis
    by (intro that [where ?s1.0 = s1 and x = x and H = H and lk = lk]) (simp_all add: s1_def lk_def acquire_procs_def l(1))
qed

lemma proc_frame_ok:
  assumes "proc_frame s t" "cpu_ok s" "plist (procs t) (proc_list s) ps"
  shows "proc_ok t ps"
  using assms cpu_eq_ok [of s t] by (auto simp: proc_frame_def proc_ok_def)

section \<open>Searching and waking\<close>

lemma find_in: "find Q xs = Some a \<Longrightarrow> a \<in> set xs \<and> Q a"
  by (metis find_Some_iff nth_mem)

lemma find_pid_list:
  "dll P (\<lambda>a. nxt_proc (h a)) b ps \<Longrightarrow> find_pid n (nxt_proc (h b)) h = ret (case find (\<lambda>a. pid (h a) = n) ps of None \<Rightarrow> 0 | Some a \<Rightarrow> a)"
proof (induction ps arbitrary: b)
  case Nil
  then show ?case by (subst find_pid.simps) simp
next
  case (Cons p ps)
  then show ?case by (subst find_pid.simps) auto
qed

definition wake :: "addr \<Rightarrow> addr set \<Rightarrow> proc_heap \<Rightarrow> proc_heap" where
  "wake chan A h = (\<lambda>a. if a \<in> A \<and> sleeping_chan (h a) = chan \<and> pstate (h a) = PROC_SLEEPING then (h a)\<lparr>pstate := PROC_RUNNABLE\<rparr> else h a)"

lemma wake_links [simp]: "prv_proc (wake chan A h a) = prv_proc (h a)" "nxt_proc (wake chan A h a) = nxt_proc (h a)"
  by (simp_all add: wake_def)

lemma wake_from_list:
  "dll P (\<lambda>a. nxt_proc (h a)) b ps \<Longrightarrow> distinct ps \<Longrightarrow> wake_from chan (nxt_proc (h b)) h = ret (wake chan (set ps) h)"
proof (induction ps arbitrary: b h)
  case Nil
  then show ?case by (subst wake_from.simps) (simp add: wake_def)
next
  case (Cons p ps)
  define g where "g = (if sleeping_chan (h p) = chan \<and> pstate (h p) = PROC_SLEEPING then h(p := (h p)\<lparr>pstate := PROC_RUNNABLE\<rparr>) else h)"
  have n: "nxt_proc (g a) = nxt_proc (h a)" for a by (simp add: g_def)
  have "dll P (\<lambda>a. nxt_proc (g a)) p ps" using Cons.prems by (simp add: n)
  from Cons.IH [OF this] Cons.prems have "wake_from chan (nxt_proc (g p)) g = ret (wake chan (set ps) g)" by simp
  moreover have "wake chan (set ps) g = wake chan (set (p # ps)) h"
    using Cons.prems by (auto simp: wake_def g_def fun_eq_iff)
  moreover have "wake_from chan p h = wake_from chan (nxt_proc (g p)) g"
    using Cons.prems(1) by (subst wake_from.simps) (simp only: g_def Let_def dll.simps if_False)
  ultimately show ?case using Cons.prems(1) by simp
qed

section \<open>The operations on the list\<close>

lemma wakeup_correct:
  assumes "proc_ok s ps"
  shows "\<exists>t. proc_wakeup chan s = ret t \<and> proc_ok t ps \<and> proc_frame s t \<and> procs t = wake chan (set ps) (procs s)"
proof -
  have ok: "cpu_ok s" "locked (proc_manager_lock s) = 0" "plist (procs s) (proc_list s) ps" using assms by (simp_all add: proc_ok_def)
  show ?thesis
  proof (rule procs_section [OF ok(1,2)])
    fix x H lk s1
    assume a: "acquire_procs s = Inr s1" "s1 = s\<lparr>sstatus := x, harts := H, proc_manager_lock := lk\<rparr>"
      and r: "\<And>h. \<exists>t. release_procs (s1\<lparr>procs := h\<rparr>) = Inr t \<and> procs t = h \<and> proc_frame s t"
    have s1: "procs s1 = procs s" "proc_list s1 = proc_list s" by (simp_all add: a(2))
    obtain t where t: "release_procs (s1\<lparr>procs := wake chan (set ps) (procs s)\<rparr>) = Inr t" "procs t = wake chan (set ps) (procs s)" "proc_frame s t"
      using r by blast
    have "wake_from chan (nxt_proc (procs s (proc_list s))) (procs s) = ret (wake chan (set ps) (procs s))"
      using ok(3) by (intro wake_from_list) (auto simp: dlist_def)
    then have "proc_wakeup chan s = ret t" by (simp add: proc_wakeup_def a(1) s1 t(1))
    moreover have "plist (procs t) (proc_list s) ps" using ok(3) by (simp add: t(2))
    ultimately show ?thesis using t proc_frame_ok [OF t(3) ok(1)] by blast
  qed
qed

text \<open>Any operation that changes, under the lock, the fields of one process of the list other than its links.\<close>

lemma update_correct:
  assumes ok: "proc_ok s ps" and links: "\<And>q. prv_proc (f q) = prv_proc q" "\<And>q. nxt_proc (f q) = nxt_proc q"
  obtains s1 where "proc_lock_and_find n s = (case find (\<lambda>a. pid (procs s a) = n) ps of
      None \<Rightarrow> bindM (Some (release_procs s1)) (\<lambda>s. ret (0, s)) | Some a \<Rightarrow> ret (a, s1))"
    "\<exists>t. release_procs s1 = Inr t \<and> procs t = procs s \<and> proc_ok t ps \<and> proc_frame s t"
    "\<And>p. \<exists>t. release_procs (set_proc p f s1) = Inr t \<and> procs t = (procs s)(p := f (procs s p)) \<and> proc_ok t ps \<and> proc_frame s t"
    "procs s1 = procs s"
proof -
  have o: "cpu_ok s" "locked (proc_manager_lock s) = 0" "plist (procs s) (proc_list s) ps" using ok by (simp_all add: proc_ok_def)
  show thesis
  proof (rule procs_section [OF o(1,2)])
    fix x H lk s1
    assume a: "acquire_procs s = Inr s1" "s1 = s\<lparr>sstatus := x, harts := H, proc_manager_lock := lk\<rparr>"
      and r: "\<And>h. \<exists>t. release_procs (s1\<lparr>procs := h\<rparr>) = Inr t \<and> procs t = h \<and> proc_frame s t"
    have s1: "procs s1 = procs s" "proc_list s1 = proc_list s" by (simp_all add: a(2))
    have e: "s1\<lparr>procs := procs s\<rparr> = s1" by (simp add: a(2))
    have nz: "0 \<notin> set ps" using dlist_nonzero [OF o(3)] by simp
    have "find_pid n (nxt_proc (procs s (proc_list s))) (procs s) = ret (case find (\<lambda>a. pid (procs s a) = n) ps of None \<Rightarrow> 0 | Some a \<Rightarrow> a)"
      using o(3) by (intro find_pid_list) (auto simp: dlist_def)
    moreover have "a \<noteq> 0" if "find (\<lambda>a. pid (procs s a) = n) ps = Some a" for a using find_in [OF that] nz by auto
    ultimately have run: "proc_lock_and_find n s = (case find (\<lambda>a. pid (procs s a) = n) ps of
      None \<Rightarrow> bindM (Some (release_procs s1)) (\<lambda>s. ret (0, s)) | Some a \<Rightarrow> ret (a, s1))"
      by (auto simp: proc_lock_and_find_def a(1) s1 split: option.splits)
    have plain: "\<exists>t. release_procs s1 = Inr t \<and> procs t = procs s \<and> proc_ok t ps \<and> proc_frame s t"
    proof -
      obtain t where t: "release_procs s1 = Inr t" "procs t = procs s" "proc_frame s t" using r [of "procs s"] unfolding e by blast
      then show ?thesis using proc_frame_ok [OF t(3) o(1), of ps] o(3) by auto
    qed
    have upd: "\<exists>t. release_procs (set_proc p f s1) = Inr t \<and> procs t = (procs s)(p := f (procs s p)) \<and> proc_ok t ps \<and> proc_frame s t" for p
    proof -
      obtain t where t: "release_procs (set_proc p f s1) = Inr t" "procs t = (procs s)(p := f (procs s p))" "proc_frame s t"
        using r [of "(procs s)(p := f (procs s p))"] by (auto simp: set_proc_def s1)
      have "plist (procs t) (proc_list s) ps" using o(3)
        by (rule dlist_frame) (simp_all add: t(2) links)
      then show ?thesis using t proc_frame_ok [OF t(3) o(1), of ps] by blast
    qed
    show thesis by (rule that [OF run plain upd s1(1)])
  qed
qed

lemma set_state_correct:
  assumes "proc_ok s ps"
  shows "\<exists>t. proc_set_state n st s = ret t \<and> proc_ok t ps \<and> proc_frame s t \<and>
    procs t = (case find (\<lambda>a. pid (procs s a) = n) ps of None \<Rightarrow> procs s | Some a \<Rightarrow> (procs s)(a := (procs s a)\<lparr>pstate := st\<rparr>))"
proof -
  have nz: "0 \<notin> set ps" using assms by (auto simp: proc_ok_def dest: dlist_nonzero)
  show ?thesis
    by (rule update_correct [OF assms, of "\<lambda>q. q\<lparr>pstate := st\<rparr>" n])
      (use nz in \<open>auto simp: proc_set_state_def dest: find_in split: option.splits\<close>)
qed

lemma kill_correct:
  assumes "proc_ok s ps"
  shows "\<exists>r t. proc_kill n s = ret (r, t) \<and> proc_ok t ps \<and> proc_frame s t \<and>
    (case find (\<lambda>a. pid (procs s a) = n) ps of None \<Rightarrow> r = - 1 \<and> procs t = procs s
     | Some a \<Rightarrow> r = 0 \<and> procs t = (procs s)(a := (procs s a)\<lparr>killed := 1,
         pstate := if pstate (procs s a) = PROC_SLEEPING then PROC_RUNNABLE else pstate (procs s a)\<rparr>))"
proof -
  let ?f = "\<lambda>q. q\<lparr>killed := 1, pstate := if pstate q = PROC_SLEEPING then PROC_RUNNABLE else pstate q\<rparr>"
  have nz: "0 \<notin> set ps" using assms by (auto simp: proc_ok_def dest: dlist_nonzero)
  have e: "(let s = set_proc p (\<lambda>q. q\<lparr>killed := 1\<rparr>) u in if pstate (procs s p) = PROC_SLEEPING then set_proc p (\<lambda>q. q\<lparr>pstate := PROC_RUNNABLE\<rparr>) s else s)
    = set_proc p ?f u" for p and u :: "'a kernel_state_scheme"
    by (simp add: set_proc_def Let_def)
  show ?thesis
  proof (rule update_correct [OF assms, of ?f n])
    fix s1
    assume f: "proc_lock_and_find n s = (case find (\<lambda>a. pid (procs s a) = n) ps of
        None \<Rightarrow> bindM (Some (release_procs s1)) (\<lambda>s. ret (0, s)) | Some a \<Rightarrow> ret (a, s1))"
      and r: "\<exists>t. release_procs s1 = Inr t \<and> procs t = procs s \<and> proc_ok t ps \<and> proc_frame s t"
      and u: "\<And>p. \<exists>t. release_procs (set_proc p ?f s1) = Inr t \<and> procs t = (procs s)(p := ?f (procs s p)) \<and> proc_ok t ps \<and> proc_frame s t"
    show ?thesis
    proof (cases "find (\<lambda>a. pid (procs s a) = n) ps")
      case None
      then show ?thesis using r by (auto simp: proc_kill_def f)
    next
      case (Some a)
      then have "a \<noteq> 0" using nz find_in by fastforce
      then have "proc_kill n s = bindM (Some (release_procs (set_proc a ?f s1))) (\<lambda>s. ret (0, s))"
        using e [of a s1] by (simp add: proc_kill_def f Some Let_def)
      then show ?thesis using u [of a] Some by auto
    qed
  qed simp_all
qed

lemma link_correct:
  assumes "proc_ok s ps" "p \<noteq> 0" "p \<notin> set (proc_list s # ps)"
  shows "\<exists>t. proc_link p s = Inr t \<and> proc_ok t (p # ps) \<and> proc_frame s t"
proof -
  have ok: "cpu_ok s" "locked (proc_manager_lock s) = 0" "plist (procs s) (proc_list s) ps" using assms by (simp_all add: proc_ok_def)
  show ?thesis
  proof (rule procs_section [OF ok(1,2)])
    fix x H lk s1
    assume a: "acquire_procs s = Inr s1" "s1 = s\<lparr>sstatus := x, harts := H, proc_manager_lock := lk\<rparr>"
      and r: "\<And>h. \<exists>t. release_procs (s1\<lparr>procs := h\<rparr>) = Inr t \<and> procs t = h \<and> proc_frame s t"
    obtain h where h: "proc_insert (proc_list s) p (procs s) = Inr h" "plist h (proc_list s) (p # ps)"
      by (rule pl.ins_carries [OF ok(3) assms(2,3)])
    obtain t where t: "release_procs (s1\<lparr>procs := h\<rparr>) = Inr t" "procs t = h" "proc_frame s t" using r by blast
    then show ?thesis using h proc_frame_ok [OF t(3) ok(1), of "p # ps"] a by (auto simp: proc_link_def)
  qed
qed

lemma unlink_correct:
  assumes "proc_ok s ps" "p \<in> set ps"
  shows "\<exists>t. proc_unlink p s = Inr t \<and> proc_ok t (remove1 p ps) \<and> proc_frame s t"
proof -
  have ok: "cpu_ok s" "locked (proc_manager_lock s) = 0" "plist (procs s) (proc_list s) ps" using assms by (simp_all add: proc_ok_def)
  show ?thesis
  proof (rule procs_section [OF ok(1,2)])
    fix x H lk s1
    assume a: "acquire_procs s = Inr s1" "s1 = s\<lparr>sstatus := x, harts := H, proc_manager_lock := lk\<rparr>"
      and r: "\<And>h. \<exists>t. release_procs (s1\<lparr>procs := h\<rparr>) = Inr t \<and> procs t = h \<and> proc_frame s t"
    obtain h where h: "proc_detach p (procs s) = Inr h" "plist h (proc_list s) (remove1 p ps)"
      by (rule pl.det_carries [OF ok(3) assms(2)])
    obtain t where t: "release_procs (s1\<lparr>procs := h\<rparr>) = Inr t" "procs t = h" "proc_frame s t" using r by blast
    then show ?thesis using h proc_frame_ok [OF t(3) ok(1), of "remove1 p ps"] a by (auto simp: proc_unlink_def)
  qed
qed

end
