(* ===== verification/Vmem_Table.thy ===== *)
theory Vmem_Table
  imports Vmem Object_Correct
begin

text \<open>
  Page tables as trees. \<open>tbl\<close> follows a path of indices from a root; the invariant \<open>pt_inv\<close> says that every
  table reached lies in a page of its own that the page allocator does not hold, so that a store to one
  entry changes the tree in one place only.
\<close>

section \<open>Entries\<close>

definition valid :: "uint64 \<Rightarrow> bool" where
  "valid e \<longleftrightarrow> e AND PTE_FLAG_V \<noteq> 0"

definition child :: "uint64 \<Rightarrow> addr" where
  "child e = PMA_PA2VA (PTE_PA e)"

definition pn :: "nat \<Rightarrow> ulong \<Rightarrow> nat" where
  "pn lv va = unat (VA_GET_PN lv va)"

definition slot :: "addr \<Rightarrow> nat \<Rightarrow> addr" where
  "slot t i = entry_at t (word_of_nat i)"

lemma pn_less: "pn lv va < 512"
proof -
  have "VA_GET_PN lv va = take_bit 9 (drop_bit (PN_WIDTH * lv + PAGE_OFFSET_WIDTH) va)"
    by (simp add: VA_GET_PN_def take_bit_eq_mask mask_eq_exp_minus_1)
  then have "pn lv va = unat (drop_bit (PN_WIDTH * lv + PAGE_OFFSET_WIDTH) va) mod 2 ^ 9" by (simp only: pn_def unat_take_bit)
  also have "\<dots> < 512" by simp
  finally show ?thesis .
qed

lemma entry_slot: "entry_at t (VA_GET_PN lv va) = slot t (pn lv va)"
  by (simp add: slot_def pn_def)

lemma valid_iff: "valid e \<longleftrightarrow> bit e 0"
  by (simp add: valid_def PTE_FLAG_V_def and_one_eq bit_0 odd_iff_mod_2_eq_one)

text \<open>An entry built from an address and flags leads back to the page of that address.\<close>

lemma PTE_PA_PA_PTE:
  assumes "drop_bit PTE_FLAGS_WIDTH f = 0"
  shows "PTE_PA (PA_PTE pa OR f) = push_bit 12 (drop_bit 12 pa)"
proof -
  have f: "\<not> bit f n" if "10 \<le> n" for n
    using arg_cong [OF assms, of "\<lambda>w. bit w (n - 10)"] that by (simp add: PTE_FLAGS_WIDTH_def bit_simps)
  show ?thesis
    by (rule bit_word_eqI)
      (auto simp: PTE_PA_def PA_PTE_def PTE_FLAGS_WIDTH_def PAGE_OFFSET_WIDTH_def bit_simps f dest: bit_imp_le_length)
qed

lemma page_va_window:
  assumes "range_ok b n" "p < n"
  shows "push_bit 12 (drop_bit 12 (PMA_VA2PA (page_va b p))) = PMA_VA2PA (page_va b p)" "PMA_PA2VA (PMA_VA2PA (page_va b p)) = page_va b p"
proof -
  have e: "PMA_VA2PA (page_va b p) = push_bit PAGE_SHIFT (word_of_nat p + b)"
    unfolding page_va_def using assms unat_page [OF assms] by (intro PMA_roundtrip) simp
  show "push_bit 12 (drop_bit 12 (PMA_VA2PA (page_va b p))) = PMA_VA2PA (page_va b p)"
    unfolding e by (rule bit_word_eqI) (auto simp: PAGE_SHIFT_def bit_simps)
  show "PMA_PA2VA (PMA_VA2PA (page_va b p)) = page_va b p" unfolding e by (simp add: page_va_def)
qed

lemma table_entry:
  assumes "range_ok b n" "p < n"
  shows "valid (PA_PTE (PMA_VA2PA (page_va b p)) OR PTE_FLAG_V)" "child (PA_PTE (PMA_VA2PA (page_va b p)) OR PTE_FLAG_V) = page_va b p"
proof -
  show "valid (PA_PTE (PMA_VA2PA (page_va b p)) OR PTE_FLAG_V)" by (simp add: valid_iff PTE_FLAG_V_def bit_simps)
  have "drop_bit PTE_FLAGS_WIDTH PTE_FLAG_V = 0" by (simp add: PTE_FLAGS_WIDTH_def PTE_FLAG_V_def)
  from PTE_PA_PA_PTE [OF this] show "child (PA_PTE (PMA_VA2PA (page_va b p)) OR PTE_FLAG_V) = page_va b p"
    by (simp add: child_def page_va_window [OF assms])
qed

section \<open>Pages in memory\<close>

definition page_addr :: "addr \<Rightarrow> bool" where
  "page_addr t \<longleftrightarrow> 4096 dvd unat t"

lemma page_va_page_addr:
  assumes "range_ok b n" "p < n"
  shows "page_addr (page_va b p)"
proof -
  have w: "window_base = 4096 * (2 ^ 52 - 2 ^ 26)" by simp
  show ?thesis unfolding page_addr_def unat_page_va [OF assms] w by (intro dvd_add) simp_all
qed

lemma unat_page_add:
  assumes "page_addr t" "i < 4096"
  shows "unat (t + word_of_nat i) = unat t + i"
proof -
  obtain q where q: "unat t = 4096 * q" using assms(1) unfolding page_addr_def by (rule dvdE)
  have "unat t < 2 ^ 64" by (rule unat64_less)
  then have "q < 2 ^ 52" using q by simp
  then have "unat t + i < 2 ^ 64" using q assms(2) by simp
  moreover have "unat (word_of_nat i :: addr) = i" using assms(2) by (intro unat_of_nat64) simp
  ultimately show ?thesis by (simp add: unat_word_ariths)
qed

lemma slot_eq: "slot t i = t + word_of_nat (8 * i)"
  by (simp add: slot_def entry_at_def)

lemma unat_slot_page: "page_addr t \<Longrightarrow> i < 512 \<Longrightarrow> unat (slot t i) = unat t + 8 * i"
  unfolding slot_eq by (rule unat_page_add) simp_all

lemma slot_aligned: "page_addr t \<Longrightarrow> i < 512 \<Longrightarrow> aligned8 (slot t i)"
proof -
  assume a: "page_addr t" "i < 512"
  have "8 dvd unat t" using a(1) unfolding page_addr_def by (rule dvd_trans [rotated]) simp
  then show ?thesis unfolding aligned8_def unat_slot_page [OF a] by simp
qed

lemma slot_inject:
  assumes "page_addr t" "page_addr u" "i < 512" "j < 512" "slot t i = slot u j"
  shows "t = u \<and> i = j"
proof -
  obtain q r where q: "unat t = 4096 * q" "unat u = 4096 * r" using assms(1,2) unfolding page_addr_def by (auto elim!: dvdE)
  have e: "4096 * q + 8 * i = 4096 * r + 8 * j" using assms unat_slot_page q by metis
  have "(4096 * q + 8 * i) div 4096 = q" "(4096 * r + 8 * j) div 4096 = r" using assms(3,4) by simp_all
  then have "q = r" using e by metis
  then show ?thesis using q e by (simp add: word_unat_eq_iff)
qed

lemma slot_nonzero: "t \<noteq> 0 \<Longrightarrow> page_addr t \<Longrightarrow> i < 512 \<Longrightarrow> slot t i \<noteq> 0"
proof
  assume a: "t \<noteq> 0" "page_addr t" "i < 512" "slot t i = 0"
  then have "unat t + 8 * i = 0" using unat_slot_page [OF a(2,3)] by simp
  then show False using a(1) by (simp add: unat_eq_0)
qed

text \<open>The offset of an address in a page.\<close>

definition in_page :: "addr \<Rightarrow> addr \<Rightarrow> bool" where
  "in_page t a \<longleftrightarrow> unat (a - t) < 4096"

lemma in_page_unat:
  assumes "page_addr t"
  shows "in_page t a \<longleftrightarrow> unat a div 4096 = unat t div 4096"
proof -
  obtain q where q: "unat t = 4096 * q" using assms unfolding page_addr_def by (rule dvdE)
  show ?thesis
  proof
    assume "in_page t a"
    then have lt: "unat (a - t) < 4096" by (simp add: in_page_def)
    have "unat (t + word_of_nat (unat (a - t))) = unat t + unat (a - t)" by (rule unat_page_add [OF assms lt])
    then have "unat a = 4096 * q + unat (a - t)" using q by simp
    then show "unat a div 4096 = unat t div 4096" using q lt by simp
  next
    assume e: "unat a div 4096 = unat t div 4096"
    have "unat a = unat a div 4096 * 4096 + unat a mod 4096" by simp
    also have "\<dots> = unat t + unat a mod 4096" using q e by simp
    finally have ua: "unat a = unat t + unat a mod 4096" .
    then have "t \<le> a" by (simp add: word_le_nat_alt)
    then have "unat (a - t) = unat a - unat t" by (rule unat_sub)
    then show "in_page t a" using ua by (simp add: in_page_def)
  qed
qed

lemma page_disjoint: "page_addr t \<Longrightarrow> page_addr u \<Longrightarrow> in_page t a \<Longrightarrow> in_page u a \<Longrightarrow> t = u"
proof -
  assume a: "page_addr t" "page_addr u" "in_page t a" "in_page u a"
  then have "unat t div 4096 = unat u div 4096" using in_page_unat by metis
  then have "4096 * (unat t div 4096) = 4096 * (unat u div 4096)" by simp
  then have "unat t = unat u" using a(1,2) unfolding page_addr_def by simp
  then show ?thesis by (rule word_unat_eq_iff [THEN iffD2])
qed

lemma slot_byte:
  assumes "page_addr t" "i < 512" "j < 8"
  shows "in_page t (slot t i + word_of_nat j)"
proof -
  have "slot t i + word_of_nat j = t + word_of_nat (8 * i + j)" by (simp add: slot_eq add.assoc)
  then have e: "slot t i + word_of_nat j - t = word_of_nat (8 * i + j)" by simp
  have u: "unat (word_of_nat (8 * i + j) :: addr) = 8 * i + j" by (rule unat_of_nat64) (use assms(2,3) in simp)
  show ?thesis unfolding in_page_def e u using assms(2,3) by simp
qed

lemma slot_mapped: "mapped m t 4096 \<Longrightarrow> i < 512 \<Longrightarrow> mapped m (slot t i) 8"
  unfolding mapped_def slot_eq
proof (intro allI impI)
  fix j :: nat assume a: "\<forall>i<4096. m (t + word_of_nat i) \<noteq> None" "i < 512" "j < 8"
  have "8 * i + j < 4096" using a(2,3) by simp
  then have "m (t + word_of_nat (8 * i + j)) \<noteq> None" using a(1) by blast
  then show "m (t + word_of_nat (8 * i) + word_of_nat j) \<noteq> None" by (simp add: add.assoc)
qed

text \<open>Clearing a page and storing an entry, seen through the entries of pages.\<close>

lemma w64_fill_page:
  assumes "page_addr x" "page_addr t" "i < 512"
  shows "w64 (fill m x 0 4096) (slot t i) = (if t = x then 0 else w64 m (slot t i))"
proof (cases "t = x")
  case True
  then show ?thesis using slot_byte [OF assms(2,3)] by (auto simp: in_page_def intro: w64_fill_in)
next
  case False
  have "\<not> in_page x (slot t i + word_of_nat j)" if "j < 8" for j
    using page_disjoint [OF assms(1,2) _ slot_byte [OF assms(2,3) that]] False by auto
  then show ?thesis using False by (auto simp: in_page_def intro!: w64_fill_out)
qed

lemma w64_put_slot:
  assumes "page_addr x" "j < 512" "page_addr t" "i < 512"
  shows "w64 (put64 m (slot x j) v) (slot t i) = (if t = x \<and> i = j then v else w64 m (slot t i))"
  using w64_put64 [OF slot_aligned [OF assms(1,2)] slot_aligned [OF assms(3,4)]] slot_inject [OF assms(3,1,4,2)] by auto

lemma put_slot_out: "page_addr t \<Longrightarrow> i < 512 \<Longrightarrow> \<not> in_page t a \<Longrightarrow> put64 m (slot t i) v a = m a"
proof -
  assume a: "page_addr t" "i < 512" "\<not> in_page t a"
  have "\<not> unat (a - slot t i) < 8"
  proof
    assume "unat (a - slot t i) < 8"
    from slot_byte [OF a(1,2) this] show False using a(3) by simp
  qed
  then show ?thesis by (simp add: put64_def)
qed

section \<open>The tree\<close>

primrec tbl :: "memory \<Rightarrow> nat list \<Rightarrow> addr \<Rightarrow> addr option" where
  "tbl m [] t = Some t"
| "tbl m (i # ix) t = (if valid (w64 m (slot t i)) then tbl m ix (child (w64 m (slot t i))) else None)"

definition next_tbl :: "memory \<Rightarrow> nat \<Rightarrow> addr \<Rightarrow> addr option" where
  "next_tbl m i t = (if valid (w64 m (slot t i)) then Some (child (w64 m (slot t i))) else None)"

lemma tbl_append: "tbl m (ix @ jx) t = Option.bind (tbl m ix t) (tbl m jx)"
  by (induction ix arbitrary: t) auto

lemma tbl_snoc: "tbl m (ix @ [i]) t = Option.bind (tbl m ix t) (next_tbl m i)"
proof -
  have "tbl m [i] = next_tbl m i" by (rule ext) (simp add: next_tbl_def)
  then show ?thesis by (simp add: tbl_append)
qed

text \<open>Paths to tables: at most two indices, each below 512.\<close>

definition paths :: "nat list set" where
  "paths = {ix. length ix \<le> 2 \<and> set ix \<subseteq> {..<512}}"

lemma paths_snoc: "ix @ [i] \<in> paths \<longleftrightarrow> ix \<in> paths \<and> length ix < 2 \<and> i < 512"
  by (auto simp: paths_def)

lemma paths_Nil [simp]: "[] \<in> paths"
  by (simp add: paths_def)

definition tables :: "memory \<Rightarrow> addr \<Rightarrow> addr set" where
  "tables m root = {t. \<exists>ix\<in>paths. tbl m ix root = Some t}"

definition used_page :: "'a kmem_node_scheme \<Rightarrow> addr \<Rightarrow> bool" where
  "used_page s t \<longleftrightarrow> (\<exists>p. p < npages s \<and> p \<notin> free_set s \<and> t = page_va (begin_ppn s) p)"

definition pt_inv :: "'a vm_state_scheme \<Rightarrow> addr \<Rightarrow> bool" where
  "pt_inv s root \<longleftrightarrow> (\<forall>t\<in>tables (ram s) root. used_page s t) \<and>
     (\<forall>ix\<in>paths. \<forall>jx\<in>paths. tbl (ram s) ix root \<noteq> None \<longrightarrow> tbl (ram s) ix root = tbl (ram s) jx root \<longrightarrow> ix = jx)"

definition ram_ok :: "'a vm_state_scheme \<Rightarrow> bool" where
  "ram_ok s \<longleftrightarrow> (\<forall>p<npages s. mapped (ram s) (page_va (begin_ppn s) p) 4096)"

text \<open>Entries that lead to tables carry none of the access flags.\<close>

definition pointer_flags :: "uint64 \<Rightarrow> bool" where
  "pointer_flags e \<longleftrightarrow> e AND (PTE_FLAG_R OR PTE_FLAG_W OR PTE_FLAG_X) = 0"

definition pointers_ok :: "memory \<Rightarrow> addr \<Rightarrow> bool" where
  "pointers_ok m root \<longleftrightarrow> (\<forall>ix i t. ix @ [i] \<in> paths \<longrightarrow> tbl m ix root = Some t \<longrightarrow>
     valid (w64 m (slot t i)) \<longrightarrow> pointer_flags (w64 m (slot t i)))"

definition vm_ok :: "'a vm_state_scheme \<Rightarrow> addr \<Rightarrow> bool" where
  "vm_ok s root \<longleftrightarrow> kmem_ok s \<and> ram_ok s \<and> pt_inv s root \<and> pointers_ok (ram s) root"

lemma pointer_entry: "pointer_flags (PA_PTE pa OR PTE_FLAG_V)"
proof -
  have "take_bit 4 (14 :: uint64) = 14" by simp
  then have "PA_PTE pa AND (14 :: uint64) = PA_PTE pa AND take_bit 4 14" by (rule arg_cong [OF sym])
  also have "\<dots> = 0" unfolding PA_PTE_def PTE_FLAGS_WIDTH_def by (rule bit_word_eqI) (auto simp only: bit_and_iff bit_take_bit_iff bit_push_bit_iff bit_0_eq bot_apply bot_bool_def)
  finally show ?thesis
    by (simp add: pointer_flags_def PTE_FLAG_V_def PTE_FLAG_R_def PTE_FLAG_W_def PTE_FLAG_X_def bit.conj_disj_distrib2)
qed

lemma tbl_tables: "ix \<in> paths \<Longrightarrow> tbl m ix root = Some t \<Longrightarrow> t \<in> tables m root"
  unfolding tables_def by blast

lemma pt_inv_inj: "pt_inv s root \<Longrightarrow> ix \<in> paths \<Longrightarrow> jx \<in> paths \<Longrightarrow> tbl (ram s) ix root = Some t \<Longrightarrow> tbl (ram s) jx root = Some t \<Longrightarrow> ix = jx"
  unfolding pt_inv_def by fastforce

lemma used_page_addr: "used_page s t \<Longrightarrow> kmem_ok s \<Longrightarrow> page_addr t \<and> t \<noteq> 0"
  using kmem_ok_range [of s] page_va_page_addr by (auto simp: used_page_def)

lemma table_page:
  assumes "vm_ok s root" "ix \<in> paths" "tbl (ram s) ix root = Some t"
  shows "used_page s t" "page_addr t" "t \<noteq> 0" "mapped (ram s) t 4096"
proof -
  show u: "used_page s t" using assms tbl_tables [OF assms(2,3)] by (auto simp: vm_ok_def pt_inv_def)
  show "page_addr t" "t \<noteq> 0" using used_page_addr [OF u] assms(1) by (simp_all add: vm_ok_def)
  show "mapped (ram s) t 4096" using u assms(1) by (auto simp: used_page_def vm_ok_def ram_ok_def)
qed

section \<open>The mapping\<close>

text \<open>The path of an address, and the last-level entry and the valid entry found there.\<close>

primrec path_from :: "nat \<Rightarrow> ulong \<Rightarrow> nat list" where
  "path_from 0 va = []"
| "path_from (Suc lv) va = pn (Suc lv) va # path_from lv va"

abbreviation path :: "ulong \<Rightarrow> nat list" where
  "path va \<equiv> path_from 2 va"

lemma length_path [simp]: "length (path_from lv va) = lv"
  by (induction lv) auto

lemma path_from_paths: "lv \<le> 2 \<Longrightarrow> path_from lv va \<in> paths"
proof -
  have "set (path_from lv va) \<subseteq> {..<512}" for lv using pn_less by (induction lv) auto
  then show "lv \<le> 2 \<Longrightarrow> path_from lv va \<in> paths" by (simp add: paths_def)
qed

lemma path_paths [simp]: "path va \<in> paths"
  by (rule path_from_paths) simp

definition leaf :: "memory \<Rightarrow> addr \<Rightarrow> ulong \<Rightarrow> uint64 option" where
  "leaf m root va = (case tbl m (path va) root of None \<Rightarrow> None | Some t \<Rightarrow> Some (w64 m (slot t (pn 0 va))))"

definition pmap :: "memory \<Rightarrow> addr \<Rightarrow> ulong \<Rightarrow> uint64 option" where
  "pmap m root va = (case leaf m root va of None \<Rightarrow> None | Some e \<Rightarrow> if valid e then Some e else None)"

definition same_page :: "ulong \<Rightarrow> ulong \<Rightarrow> bool" where
  "same_page va va' \<longleftrightarrow> path va = path va' \<and> pn 0 va = pn 0 va'"

section \<open>Growing the tree\<close>

text \<open>A cleared page linked into an entry that was not valid: one new table, and no valid entry more.\<close>

lemma grow_tbl:
  assumes inv: "pt_inv s root" and ok: "kmem_ok s" and x: "page_addr x" "x \<notin> tables (ram s) root"
    and ix: "ix \<in> paths" "length ix < 2" "i < 512" "tbl (ram s) ix root = Some t" "\<not> valid (w64 (ram s) (slot t i))"
    and e: "valid e" "child e = x" and m': "m' = put64 (fill (ram s) x 0 4096) (slot t i) e"
    and js: "jx \<in> paths"
  shows "tbl m' jx root = (if jx = ix @ [i] then Some x else tbl (ram s) jx root)"
  using js
proof (induction jx rule: rev_induct)
  case Nil
  then show ?case by simp
next
  case (snoc j jx)
  have j: "jx \<in> paths" "length jx < 2" "j < 512" using snoc.prems by (auto simp: paths_snoc)
  note IH = snoc.IH [OF j(1)]
  have pg: "page_addr u" "u \<noteq> x" if "kx \<in> paths" "tbl (ram s) kx root = Some u" for kx u
    using that inv used_page_addr [OF _ ok] tbl_tables [OF that] x(2) by (auto simp: pt_inv_def)
  note tp = pg [OF ix(1,4)]
  have ent: "w64 m' (slot u j) = (if u = t \<and> j = i then e else if u = x then 0 else w64 (ram s) (slot u j))" if "page_addr u" for u
    unfolding m' w64_put_slot [OF tp(1) ix(3) that j(3)] w64_fill_page [OF x(1) that j(3)] by simp
  have nv: "\<not> valid 0" by (simp add: valid_def)
  show ?case
  proof (cases "jx = ix @ [i]")
    case True
    have "tbl (ram s) jx root = None" unfolding True tbl_snoc using ix(4,5) by (simp add: next_tbl_def)
    moreover have "next_tbl m' j x = None" unfolding next_tbl_def ent [OF x(1)] using tp(2) nv by auto
    moreover have "jx @ [j] \<noteq> ix @ [i]" using True by auto
    ultimately show ?thesis unfolding tbl_snoc IH using True by simp
  next
    case False
    then have IH': "tbl m' jx root = tbl (ram s) jx root" using IH by simp
    show ?thesis
    proof (cases "tbl (ram s) jx root")
      case None
      then have "jx \<noteq> ix" using ix(4) by auto
      then show ?thesis unfolding tbl_snoc IH' None by simp
    next
      case (Some u)
      note up = pg [OF j(1) Some]
      have "u = t \<longleftrightarrow> jx = ix" using pt_inv_inj [OF inv j(1) ix(1) Some] ix(4) Some by auto
      then have "next_tbl m' j u = (if jx @ [j] = ix @ [i] then Some x else next_tbl (ram s) j u)"
        unfolding next_tbl_def ent [OF up(1)] using e up(2) ix(5) by auto
      then show ?thesis unfolding tbl_snoc IH' Some by simp
    qed
  qed
qed

text \<open>A store to a last-level entry changes no table.\<close>

lemma set_leaf_tbl:
  assumes inv: "pt_inv s root" and ok: "kmem_ok s" and ix: "ix \<in> paths" "length ix = 2" "i < 512" "tbl (ram s) ix root = Some t"
    and m': "m' = put64 (ram s) (slot t i) v" and js: "jx \<in> paths"
  shows "tbl m' jx root = tbl (ram s) jx root"
  using js
proof (induction jx rule: rev_induct)
  case (snoc j jx)
  have j: "jx \<in> paths" "length jx < 2" "j < 512" using snoc.prems by (auto simp: paths_snoc)
  have pg: "page_addr u" if "kx \<in> paths" "tbl (ram s) kx root = Some u" for kx u
    using that inv used_page_addr [OF _ ok] tbl_tables [OF that] by (auto simp: pt_inv_def)
  show ?case
  proof (cases "tbl (ram s) jx root")
    case (Some u)
    have "u \<noteq> t" using pt_inv_inj [OF inv j(1) ix(1) Some] ix(2,4) j(2) by auto
    then have "w64 m' (slot u j) = w64 (ram s) (slot u j)"
      unfolding m' by (simp add: w64_put_slot [OF pg [OF ix(1,4)] ix(3) pg [OF j(1) Some] j(3)])
    then have "next_tbl m' j u = next_tbl (ram s) j u" by (simp add: next_tbl_def)
    then show ?thesis unfolding tbl_snoc snoc.IH [OF j(1)] Some by simp
  qed (simp add: tbl_snoc snoc.IH [OF j(1)])
qed simp

lemma tables_cong: "(\<And>jx. jx \<in> paths \<Longrightarrow> tbl m' jx root = tbl m jx root) \<Longrightarrow> tables m' root = tables m root"
  unfolding tables_def by auto

lemma leaf_set:
  assumes inv: "pt_inv s root" and ok: "kmem_ok s" and va: "tbl (ram s) (path va) root = Some t"
    and m': "m' = put64 (ram s) (slot t (pn 0 va)) v"
  shows "leaf m' root va' = (if same_page va va' then Some v else leaf (ram s) root va')"
proof -
  have pg: "page_addr u" if "kx \<in> paths" "tbl (ram s) kx root = Some u" for kx u
    using that inv used_page_addr [OF _ ok] tbl_tables [OF that] by (auto simp: pt_inv_def)
  have st: "tbl m' (path va') root = tbl (ram s) (path va') root"
    by (rule set_leaf_tbl [OF inv ok path_paths _ pn_less va m']) simp_all
  show ?thesis
  proof (cases "tbl (ram s) (path va') root")
    case None
    then have "\<not> same_page va va'" using va by (auto simp: same_page_def)
    then show ?thesis by (simp add: leaf_def st None)
  next
    case (Some u)
    have "u = t \<longleftrightarrow> path va' = path va" using pt_inv_inj [OF inv path_paths path_paths Some, of va] va Some by auto
    then have "u = t \<and> pn 0 va' = pn 0 va \<longleftrightarrow> same_page va va'" by (auto simp: same_page_def)
    moreover have "w64 m' (slot u (pn 0 va')) = (if u = t \<and> pn 0 va' = pn 0 va then v else w64 (ram s) (slot u (pn 0 va')))"
      unfolding m' by (rule w64_put_slot [OF pg [OF path_paths va] pn_less pg [OF path_paths Some] pn_less])
    ultimately show ?thesis by (simp add: leaf_def st Some)
  qed
qed

end
