(* ===== verification/Vmem_Map.thy ===== *)
theory Vmem_Map
  imports Vmem_Table
begin

text \<open>
  What walking, mapping, translating and unmapping do to the map from virtual pages to entries that a
  page table stands for.
\<close>

section \<open>What a step may change\<close>

definition vm_frame :: "'a vm_state_scheme \<Rightarrow> 'a vm_state_scheme \<Rightarrow> bool" where
  "vm_frame s t \<longleftrightarrow> cpu_eq s t \<and> (\<exists>mp lk fas h x H m. t = s\<lparr>sstatus := x, harts := H, mem_map := mp,
     page_manager_lock := lk, free_areas := fas, list_mem := h, ram := m\<rparr>)"

definition tpages :: "'a vm_state_scheme \<Rightarrow> addr \<Rightarrow> nat set" where
  "tpages s root = {p. p < npages s \<and> page_va (begin_ppn s) p \<in> tables (ram s) root}"

text \<open>
  Tables are only added, memory changes only inside the tables, and every page that left the free set is a
  table now.
\<close>

definition vm_step :: "addr \<Rightarrow> 'a vm_state_scheme \<Rightarrow> 'a vm_state_scheme \<Rightarrow> bool" where
  "vm_step root s t \<longleftrightarrow> vm_frame s t \<and> tables (ram s) root \<subseteq> tables (ram t) root \<and>
     (\<forall>a. (\<forall>x\<in>tables (ram t) root. \<not> in_page x a) \<longrightarrow> ram t a = ram s a) \<and>
     tpages t root \<union> free_set t = tpages s root \<union> free_set s"

lemma vm_frame_fields: "vm_frame s t \<Longrightarrow> begin_ppn t = begin_ppn s \<and> num_ppn t = num_ppn s \<and> cpu_eq s t"
  by (auto simp: vm_frame_def)

lemma vm_frame_trans: "vm_frame s t \<Longrightarrow> vm_frame t u \<Longrightarrow> cpu_ok s \<Longrightarrow> vm_frame s u"
proof -
  assume a: "vm_frame s t" "vm_frame t u" "cpu_ok s"
  then have "cpu_eq s u" using cpu_eq_trans by (auto simp: vm_frame_def)
  moreover from a(1,2) obtain mp lk fas h x H m where "u = s\<lparr>sstatus := x, harts := H, mem_map := mp,
     page_manager_lock := lk, free_areas := fas, list_mem := h, ram := m\<rparr>" by (force simp: vm_frame_def)
  ultimately show ?thesis unfolding vm_frame_def by blast
qed

lemma vm_frame_ram: "vm_frame s (s\<lparr>ram := m\<rparr>)"
proof -
  have "s\<lparr>ram := m\<rparr> = s\<lparr>sstatus := sstatus s, harts := harts s, mem_map := mem_map s, page_manager_lock := page_manager_lock s,
    free_areas := free_areas s, list_mem := list_mem s, ram := m\<rparr>" by simp
  moreover have "cpu_eq s (s\<lparr>ram := m\<rparr>)" by (rule cpu_eq_same) simp_all
  ultimately show ?thesis unfolding vm_frame_def by blast
qed

lemma page_frame_vm_frame: "page_frame s w \<Longrightarrow> vm_frame s (w\<lparr>ram := m\<rparr>)"
proof -
  assume a: "page_frame s w"
  then obtain mp lk fas h x H where w: "w = s\<lparr>sstatus := x, harts := H, mem_map := mp, page_manager_lock := lk,
    free_areas := fas, list_mem := h\<rparr>" by (auto simp: page_frame_def)
  have "w\<lparr>ram := m\<rparr> = s\<lparr>sstatus := x, harts := H, mem_map := mp, page_manager_lock := lk, free_areas := fas, list_mem := h, ram := m\<rparr>"
    by (simp add: w)
  moreover have "cpu_eq s (w\<lparr>ram := m\<rparr>)" using a unfolding page_frame_def cpu_eq_def by simp
  ultimately show ?thesis unfolding vm_frame_def by blast
qed

lemma kmem_ok_ram [simp]: "kmem_ok (s\<lparr>ram := m\<rparr>) = kmem_ok s"
proof -
  have "kmem_ok s \<Longrightarrow> kmem_ok (s\<lparr>ram := m\<rparr>)" for s :: "'a vm_state_scheme" and m
    by (rule kmem_ok_cong [of s]) (auto dest: kmem_ok_lock intro: cpu_ok_cong)
  from this [of s m] this [of "s\<lparr>ram := m\<rparr>" "ram s"] show ?thesis by auto
qed

lemma free_set_ram [simp]: "free_set (s\<lparr>ram := m\<rparr>) = free_set s"
  by (simp add: free_set_def)

lemma vm_step_trans:
  assumes "vm_step root s t" "vm_step root t u" "cpu_ok s"
  shows "vm_step root s u"
  using assms vm_frame_trans [of s t u] unfolding vm_step_def by (metis (no_types, lifting) subset_trans subsetD)

lemma vm_step_refl: "vm_step root s s"
  using vm_frame_ram [of s "ram s"] by (simp add: vm_step_def)

lemma vm_ok_cpu: "vm_ok s root \<Longrightarrow> cpu_ok s"
  using kmem_ok_lock by (auto simp: vm_ok_def)

lemma ram_ok_put:
  assumes "ram_ok s" "begin_ppn t = begin_ppn s" "num_ppn t = num_ppn s" "\<And>a n. mapped (ram s) a n \<Longrightarrow> mapped (ram t) a n"
  shows "ram_ok t"
  using assms by (simp add: ram_ok_def)

section \<open>A new table\<close>

lemma free_not_table:
  assumes "vm_ok s root" "p \<in> free_set s"
  shows "page_va (begin_ppn s) p \<notin> tables (ram s) root"
proof
  assume "page_va (begin_ppn s) p \<in> tables (ram s) root"
  then obtain q where q: "q < npages s" "q \<notin> free_set s" "page_va (begin_ppn s) p = page_va (begin_ppn s) q"
    using assms(1) by (auto simp: vm_ok_def pt_inv_def used_page_def)
  have "p < npages s" using assms(2) by (simp add: free_set_def)
  from page_va_inj [OF kmem_ok_range this q(1,3)] q(2) assms show False by (auto simp: vm_ok_def)
qed

lemma grow_table:
  assumes ok: "vm_ok s root" and ix: "ix \<in> paths" "length ix < 2" "i < 512" "tbl (ram s) ix root = Some t"
      "\<not> valid (w64 (ram s) (slot t i))"
    and w: "kmem_ok w" "page_frame s w" "p \<in> free_set s" "free_set w = free_set s - {p}"
    and x: "x = page_va (begin_ppn s) p" and e: "valid e" "child e = x" "pointer_flags e"
    and s': "s' = w\<lparr>ram := put64 (fill (ram s) x 0 4096) (slot t i) e\<rparr>"
  shows "vm_ok s' root" "tbl (ram s') (ix @ [i]) root = Some x" "vm_step root s s'"
    "pmap (ram s') root va = pmap (ram s) root va"
proof -
  note tp = table_page [OF ok ix(1,4)]
  have k: "kmem_ok s" "pt_inv s root" "ram_ok s" "pointers_ok (ram s) root" using ok by (simp_all add: vm_ok_def)
  have pn: "p < npages s" using w(3) by (simp add: free_set_def)
  have xp: "page_addr x" unfolding x by (rule page_va_page_addr [OF kmem_ok_range [OF k(1)] pn])
  have xt: "x \<notin> tables (ram s) root" unfolding x by (rule free_not_table [OF ok w(3)])
  have m': "ram s' = put64 (fill (ram s) x 0 4096) (slot t i) e" by (simp add: s')
  note T = grow_tbl [OF k(2,1) xp xt ix e(1,2) m']
  have ixi: "ix @ [i] \<in> paths" using ix by (simp add: paths_snoc)
  show tx: "tbl (ram s') (ix @ [i]) root = Some x" using T [OF ixi] by simp
  have none: "tbl (ram s) (ix @ [i]) root = None" using ix(4,5) by (simp add: tbl_snoc next_tbl_def)
  have tab: "tables (ram s') root = insert x (tables (ram s) root)"
  proof (intro set_eqI iffI)
    fix u
    assume "u \<in> tables (ram s') root"
    then show "u \<in> insert x (tables (ram s) root)" using T by (auto simp: tables_def split: if_splits)
  next
    fix u
    assume "u \<in> insert x (tables (ram s) root)"
    then consider "u = x" | jx where "jx \<in> paths" "tbl (ram s) jx root = Some u" by (auto simp: tables_def)
    then show "u \<in> tables (ram s') root"
    proof cases
      case 1
      then show ?thesis using tbl_tables [OF ixi tx] by simp
    next
      case 2
      then have "tbl (ram s') jx root = Some u" using T [OF 2(1)] none by auto
      then show ?thesis by (rule tbl_tables [OF 2(1)])
    qed
  qed
  note f = page_frame_fields [OF w(2)]
  have f': "begin_ppn s' = begin_ppn s" "num_ppn s' = num_ppn s" "free_set s' = free_set s - {p}" using f w(4) by (simp_all add: s')
  have "used_page s' u" if "u \<in> tables (ram s') root" for u
  proof (cases "u = x")
    case True
    then show ?thesis using pn f' x by (auto simp: used_page_def)
  next
    case False
    then have "used_page s u" using that k(2) by (auto simp: tab pt_inv_def)
    then show ?thesis using f' by (auto simp: used_page_def)
  qed
  moreover have "ax = bx" if ab: "ax \<in> paths" "bx \<in> paths" "tbl (ram s') ax root \<noteq> None" "tbl (ram s') ax root = tbl (ram s') bx root" for ax bx
  proof -
    obtain u where u: "tbl (ram s') ax root = Some u" "tbl (ram s') bx root = Some u" using ab(3,4) by auto
    have ne: "tbl (ram s) cx root \<noteq> Some x" if "cx \<in> paths" for cx using xt tbl_tables [OF that] by blast
    show ?thesis using u T [OF ab(1)] T [OF ab(2)] ne [OF ab(1)] ne [OF ab(2)] pt_inv_inj [OF k(2) ab(1,2), of u]
      by (auto split: if_splits)
  qed
  ultimately have "pt_inv s' root" unfolding pt_inv_def by blast
  moreover have "ram_ok s'" by (rule ram_ok_put [OF k(3)]) (simp_all add: f' m' mapped_fill)
  moreover have "pointer_flags (w64 (ram s') (slot u j))"
    if j: "jx @ [j] \<in> paths" "tbl (ram s') jx root = Some u" "valid (w64 (ram s') (slot u j))" for jx j u
  proof -
    have l: "jx \<in> paths" "length jx < 2" "j < 512" using j(1) by (simp_all add: paths_snoc)
    show ?thesis
    proof (cases "jx = ix @ [i]")
      case True
      then have "u = x" using tx j(2) by simp
      then show ?thesis using j(3) xt tbl_tables [OF ix(1,4)]
        by (auto simp: m' w64_put_slot [OF tp(2) ix(3) xp l(3)] w64_fill_page [OF xp xp l(3)] valid_def)
    next
      case False
      then have o: "tbl (ram s) jx root = Some u" using T [OF l(1)] j(2) by simp
      have "u \<noteq> x" using xt tbl_tables [OF l(1) o] by auto
      then have "w64 (ram s') (slot u j) = (if u = t \<and> j = i then e else w64 (ram s) (slot u j))"
        unfolding m' w64_put_slot [OF tp(2) ix(3) table_page(2) [OF ok l(1) o] l(3)] w64_fill_page [OF xp table_page(2) [OF ok l(1) o] l(3)] by simp
      then show ?thesis using k(4) j(1,3) o e(3) by (auto simp: pointers_ok_def split: if_splits)
    qed
  qed
  ultimately show "vm_ok s' root" using w(1) by (simp add: vm_ok_def s' pointers_ok_def)
  have out: "ram s' a = ram s a" if "\<forall>u\<in>tables (ram s') root. \<not> in_page u a" for a
  proof -
    have "\<not> in_page x a" "\<not> in_page t a" using that tbl_tables [OF ix(1,4)] by (auto simp: tab)
    then show ?thesis using put_slot_out [OF tp(2) ix(3)] by (simp add: m' fill_def in_page_def)
  qed
  have "tpages s' root = insert p (tpages s root)"
    using page_va_inj [OF kmem_ok_range [OF k(1)]] pn by (auto simp: tpages_def tab f' x)
  then have "tpages s' root \<union> free_set s' = tpages s root \<union> free_set s" using w(3) f'(3) by auto
  moreover have "vm_frame s s'" unfolding s' by (rule page_frame_vm_frame [OF w(2)])
  ultimately show "vm_step root s s'" using out unfolding vm_step_def tab by blast
  show "pmap (ram s') root va = pmap (ram s) root va"
  proof (cases "path va = ix @ [i]")
    case True
    have "w64 (ram s') (slot x (pn 0 va)) = 0"
      unfolding m' w64_put_slot [OF tp(2) ix(3) xp pn_less] w64_fill_page [OF xp xp pn_less] using xt tbl_tables [OF ix(1,4)] by auto
    then show ?thesis using none tx by (simp add: pmap_def leaf_def True valid_def)
  next
    case False
    have l: "tbl (ram s') (path va) root = tbl (ram s) (path va) root" using T [OF path_paths, of va] False by simp
    show ?thesis
    proof (cases "tbl (ram s) (path va) root")
      case (Some u)
      note up = table_page [OF ok path_paths Some]
      have "length (path va) = 2" by simp
      then have "u \<noteq> t" using pt_inv_inj [OF k(2) path_paths ix(1) Some] ix(2,4) by auto
      moreover have "u \<noteq> x" using xt tbl_tables [OF path_paths Some] by auto
      ultimately have "w64 (ram s') (slot u (pn 0 va)) = w64 (ram s) (slot u (pn 0 va))"
        unfolding m' w64_put_slot [OF tp(2) ix(3) up(2) pn_less] w64_fill_page [OF xp up(2) pn_less] by simp
      then show ?thesis by (simp add: pmap_def leaf_def l Some)
    qed (simp add: pmap_def leaf_def l)
  qed
qed

section \<open>Walking\<close>

lemma walk_noalloc:
  assumes ok: "vm_ok s root"
  shows "ix \<in> paths \<Longrightarrow> length ix + lv = 2 \<Longrightarrow> tbl (ram s) ix root = Some t \<Longrightarrow>
    vm_walk_loop lv t va False s = Inr (case tbl (ram s) (path_from lv va) t of None \<Rightarrow> 0 | Some u \<Rightarrow> slot u (pn 0 va), s)"
proof (induction lv arbitrary: ix t)
  case 0
  then show ?case by (simp add: entry_slot)
next
  case (Suc lv)
  let ?i = "pn (Suc lv) va"
  note tp = table_page [OF ok Suc.prems(1,3)]
  have ld: "ld64 (ram s) (slot t ?i) = Inr (w64 (ram s) (slot t ?i))" by (rule ld64_mapped [OF slot_mapped [OF tp(4) pn_less]])
  show ?case
  proof (cases "valid (w64 (ram s) (slot t ?i))")
    case True
    have "ix @ [?i] \<in> paths" using Suc.prems(1,2) pn_less by (simp add: paths_snoc)
    moreover have "tbl (ram s) (ix @ [?i]) root = Some (child (w64 (ram s) (slot t ?i)))"
      using Suc.prems(3) True by (simp add: tbl_snoc next_tbl_def)
    ultimately have "vm_walk_loop lv (child (w64 (ram s) (slot t ?i))) va False s =
      Inr (case tbl (ram s) (path_from lv va) (child (w64 (ram s) (slot t ?i))) of None \<Rightarrow> 0 | Some u \<Rightarrow> slot u (pn 0 va), s)"
      using Suc.prems(2) by (intro Suc.IH) simp_all
    then show ?thesis using True ld by (simp add: entry_slot Let_def valid_def child_def)
  next
    case False
    then show ?thesis using ld by (simp add: entry_slot Let_def valid_def)
  qed
qed

lemma alloc_one:
  assumes "kmem_ok s"
  obtains (none) w where "kmem_alloc_pages 0 s = Inr (0, w)" "kmem_ok w" "page_frame s w" "free_set s = {}" "free_set w = {}"
  | (page) p w where "kmem_alloc_pages 0 s = Inr (page_va (begin_ppn s) p, w)" "kmem_ok w" "page_frame s w"
      "p \<in> free_set s" "free_set w = free_set s - {p}"
proof -
  have o: "unat (0 :: ulong) < MAX_MEM_ORDER" by (simp add: MAX_MEM_ORDER_def)
  have pg: "pages 0 k = {k}" for k by (auto simp: pages_range)
  show thesis
  proof (cases rule: pa.alloc_total [OF assms o, case_names block full])
    case (block k w)
    then show thesis using page [of k w] by (simp add: pg)
  next
    case (full w)
    have "free_set s = {}" using full(5) by (auto simp: pg)
    then show thesis using none [of w] full by simp
  qed
qed

lemma walk_alloc:
  assumes "vm_ok s root" "ix \<in> paths" "length ix + lv = 2" "ix @ path_from lv va = path va" "tbl (ram s) ix root = Some t"
  shows "\<exists>a s'. vm_walk_loop lv t va True s = Inr (a, s') \<and> vm_ok s' root \<and> vm_step root s s' \<and>
    (\<forall>va. pmap (ram s') root va = pmap (ram s) root va) \<and> card (free_set s) \<le> card (free_set s') + lv \<and>
    (if a = 0 then free_set s' = {} else \<exists>u. tbl (ram s') (path va) root = Some u \<and> a = slot u (pn 0 va))"
  using assms
proof (induction lv arbitrary: ix t s)
  case 0
  note tp = table_page [OF "0.prems"(1,2,5)]
  show ?case using 0 vm_step_refl slot_nonzero [OF tp(3,2) pn_less] by (auto simp: entry_slot)
next
  case (Suc lv)
  let ?i = "pn (Suc lv) va" and ?e = "w64 (ram s) (slot t (pn (Suc lv) va))"
  note tp = table_page [OF Suc.prems(1,2,5)]
  have mp: "mapped (ram s) (slot t ?i) 8" by (rule slot_mapped [OF tp(4) pn_less])
  have ld: "ld64 (ram s) (slot t ?i) = Inr ?e" by (rule ld64_mapped [OF mp])
  have ix: "ix @ [?i] \<in> paths" "length (ix @ [?i]) + lv = 2" "(ix @ [?i]) @ path_from lv va = path va" "length ix < 2"
    using Suc.prems(2-4) pn_less by (simp_all add: paths_snoc)
  have ko: "kmem_ok s" and ro: "ram_ok s" using Suc.prems(1) by (simp_all add: vm_ok_def)
  show ?case
  proof (cases "valid ?e")
    case True
    have "tbl (ram s) (ix @ [?i]) root = Some (child ?e)" using Suc.prems(5) True by (simp add: tbl_snoc next_tbl_def)
    from Suc.IH [OF Suc.prems(1) ix(1-3) this] show ?thesis using True ld
      by (simp add: entry_slot Let_def valid_def child_def) (metis le_SucI)
  next
    case False
    show ?thesis
    proof (cases rule: alloc_one [OF ko, case_names none page])
      case (none w)
      have "tables (ram w) root = tables (ram s) root" "ram w = ram s" using none(3) by (auto simp: page_frame_def)
      moreover have "vm_frame s w" using page_frame_vm_frame [OF none(3), of "ram w"] by simp
      moreover note f = page_frame_fields [OF none(3)]
      ultimately have "vm_step root s w" "vm_ok w root"
        using none(2,4,5) Suc.prems(1) by (auto simp: vm_step_def vm_ok_def ram_ok_def pt_inv_def used_page_def tpages_def)
      then show ?thesis using False ld none(1,4,5) \<open>ram w = ram s\<close> by (simp add: entry_slot Let_def valid_def)
    next
      case (page p w)
      let ?x = "page_va (begin_ppn s) p"
      have pn: "p < npages s" using page(4) by (simp add: free_set_def)
      note te = table_entry [OF kmem_ok_range [OF ko] pn]
      let ?v = "PA_PTE (PMA_VA2PA ?x) OR PTE_FLAG_V"
      define s1 where "s1 = w\<lparr>ram := put64 (fill (ram s) ?x 0 4096) (slot t ?i) ?v\<rparr>"
      note G = grow_table [OF Suc.prems(1,2) ix(4) pn_less Suc.prems(5) False page(2,3,4,5) refl te pointer_entry s1_def]
      have rw: "ram w = ram s" using page(3) by (auto simp: page_frame_def)
      have "mapped (ram s) ?x 4096" using ro pn by (simp add: ram_ok_def)
      then have "memset_ram ?x 0 PAGE_SIZE w = Inr (w\<lparr>ram := fill (ram s) ?x 0 4096\<rparr>)"
        using memset_loop_fill [of "ram s" ?x 4096 0] by (simp add: memset_ram_def memset_def PAGE_SIZE_def rw)
      moreover have "st_entry (slot t ?i) ?v (w\<lparr>ram := fill (ram s) ?x 0 4096\<rparr>) = Inr s1"
        using st64_mapped [OF mapped_fill [OF mp]] by (simp add: st_entry_def s1_def)
      ultimately have run: "vm_walk_loop (Suc lv) t va True s = vm_walk_loop lv ?x va True s1"
        using False ld page(1) by (simp add: entry_slot Let_def valid_def)
      from Suc.IH [OF G(1) ix(1-3) G(2)] obtain a s' where r: "vm_walk_loop lv ?x va True s1 = Inr (a, s')" "vm_ok s' root"
        "vm_step root s1 s'" "\<forall>va. pmap (ram s') root va = pmap (ram s1) root va"
        "card (free_set s1) \<le> card (free_set s') + lv"
        "if a = 0 then free_set s' = {} else \<exists>u. tbl (ram s') (path va) root = Some u \<and> a = slot u (pn 0 va)" by blast
      have "card (free_set s) = Suc (card (free_set s1))"
        using page(4,5) card_Suc_Diff1 [of "free_set s" p] by (simp add: s1_def free_set_def)
      then show ?thesis unfolding run using r vm_step_trans [OF G(3) r(3) vm_ok_cpu [OF Suc.prems(1)]] G(4) by auto
    qed
  qed
qed

end
