(* ===== verification/Vmem_Refine.thy ===== *)
theory Vmem_Refine
  imports Vmem_Map
begin

text \<open>
  The contract of \<^verbatim>\<open>vmem.c\<close>: a page table is a map from 27-bit page numbers to entries; mapping extends it,
  unmapping restricts it and translating looks an address up.
\<close>

section \<open>Page numbers\<close>

type_synonym vpn = "27 word"
type_synonym page_map = "vpn \<Rightarrow> uint64 option"

definition vpn :: "ulong \<Rightarrow> vpn" where
  "vpn va = word_of_nat (unat va div 4096)"

definition va_of :: "vpn \<Rightarrow> ulong" where
  "va_of v = word_of_nat (4096 * unat v)"

definition page_map :: "memory \<Rightarrow> addr \<Rightarrow> page_map" where
  "page_map m root v = pmap m root (va_of v)"

lemma unat_vpn: "unat (vpn va) = unat va div 4096 mod 2 ^ 27"
  by (simp add: vpn_def unat_of_nat)

lemma pn_digit:
  assumes "lv < 3"
  shows "pn lv va = unat (vpn va) div 512 ^ lv mod 512"
proof -
  let ?q = "unat va div 4096"
  have "VA_GET_PN lv va = take_bit 9 (drop_bit (9 * lv + 12) va)"
    by (simp add: VA_GET_PN_def PN_WIDTH_def PAGE_OFFSET_WIDTH_def take_bit_eq_mask mask_eq_exp_minus_1)
  then have "pn lv va = drop_bit (9 * lv + 12) (unat va) mod 2 ^ 9"
    by (simp only: pn_def unat_take_bit unat_drop_bit_eq)
  then have "pn lv va = unat va div 2 ^ (9 * lv + 12) mod 512" by (simp add: drop_bit_eq_div)
  also have "unat va div 2 ^ (9 * lv + 12) = ?q div 512 ^ lv"
  proof -
    have "(2 :: nat) ^ (9 * lv + 12) = 4096 * 512 ^ lv" by (simp add: power_add power_mult)
    then show ?thesis by (simp only: div_mult2_eq)
  qed
  finally have p: "pn lv va = ?q div 512 ^ lv mod 512" .
  consider "lv = 0" | "lv = 1" | "lv = 2" using assms by linarith
  then show ?thesis
  proof cases
    case 1
    then show ?thesis using p by (simp add: unat_vpn mod_mod_cancel)
  next
    case 2
    have "?q mod 2 ^ 27 = 512 * (?q div 512 mod 262144) + ?q mod 512" using mod_mult2_eq [of ?q 512 262144] by simp
    then have "?q mod 2 ^ 27 div 512 = ?q div 512 mod 262144" by simp
    then show ?thesis using 2 p by (simp add: unat_vpn mod_mod_cancel)
  next
    case 3
    have "?q mod 2 ^ 27 = 262144 * (?q div 262144 mod 512) + ?q mod 262144" using mod_mult2_eq [of ?q 262144 512] by simp
    then have "?q mod 2 ^ 27 div 262144 = ?q div 262144 mod 512" by simp
    then show ?thesis using 3 p by (simp add: unat_vpn)
  qed
qed

lemma same_page_iff: "same_page va va' \<longleftrightarrow> vpn va = vpn va'"
proof
  assume "same_page va va'"
  then have d: "pn 0 va = pn 0 va'" "pn 1 va = pn 1 va'" "pn 2 va = pn 2 va'" by (simp_all add: same_page_def numeral_2_eq_2)
  have n: "unat w = 262144 * (unat w div 512 ^ 2 mod 512) + 512 * (unat w div 512 ^ 1 mod 512) + unat w div 512 ^ 0 mod 512" for w :: vpn
  proof -
    let ?a = "unat w div 512"
    have l: "unat w < 2 ^ 27" using unsigned_less [of w] by simp
    then have b: "unat w div 262144 < 512" by simp
    have "unat w = 512 * ?a + unat w mod 512" by (rule mult_div_mod_eq [symmetric])
    also have "?a = 512 * (?a div 512) + ?a mod 512" by (rule mult_div_mod_eq [symmetric])
    also have "?a div 512 = unat w div 262144" by (simp add: div_mult2_eq [symmetric])
    finally have "unat w = 512 * (512 * (unat w div 262144) + ?a mod 512) + unat w mod 512" .
    then show ?thesis using b by simp
  qed
  have "unat (vpn va) = unat (vpn va')"
    by (subst (1 2) n) (use d pn_digit [of 0] pn_digit [of 1] pn_digit [of 2] in simp)
  then show "vpn va = vpn va'" by (rule word_unat_eq_iff [THEN iffD2])
next
  assume "vpn va = vpn va'"
  then show "same_page va va'" using pn_digit [of 0] pn_digit [of 1] pn_digit [of 2]
    by (simp add: same_page_def numeral_2_eq_2)
qed

lemma vpn_va_of [simp]: "vpn (va_of v) = v"
proof -
  have l: "unat v < 2 ^ 27" using unsigned_less [of v] by simp
  then have "unat (va_of v) = 4096 * unat v" unfolding va_of_def by (intro unat_of_nat64) simp
  then show ?thesis by (simp add: vpn_def)
qed

lemma vpn_next: "vpn (va + 4096) = vpn va + 1"
proof -
  have "unat (va + 4096) div 4096 mod 2 ^ 27 = (unat va div 4096 + 1) mod 2 ^ 27"
  proof (cases "unat va + 4096 < 2 ^ 64")
    case True
    then have "unat (va + 4096) = unat va + 4096" by (simp add: unat_word_ariths)
    moreover have "(unat va + 4096) div 4096 = unat va div 4096 + 1" by (rule div_add_self2) simp
    ultimately show ?thesis by (simp only:)
  next
    case False
    have "unat va < 2 ^ 64" by (rule unat64_less)
    then have e: "unat (va + 4096) = unat va + 4096 - 2 ^ 64" using False by (simp add: unat_word_ariths mod_if)
    have "unat va div 4096 + 1 = (unat va + 4096 - 2 ^ 64) div 4096 + 2 ^ 52" using False by simp
    also have "\<dots> mod 2 ^ 27 = (unat va + 4096 - 2 ^ 64) div 4096 mod 2 ^ 27"
      using mod_mult_self2 [of "(unat va + 4096 - 2 ^ 64) div 4096" "2 ^ 27" "2 ^ 25"] by simp
    finally show ?thesis by (simp add: e)
  qed
  then have "unat (vpn (va + 4096)) = unat (vpn va + 1)" by (simp add: unat_vpn unat_word_ariths mod_simps)
  then show ?thesis by (rule word_unat_eq_iff [THEN iffD2])
qed

lemma pmap_page: "pmap m root va = page_map m root (vpn va)"
proof -
  have "same_page va (va_of (vpn va))" by (simp add: same_page_iff)
  then have e: "path va = path (va_of (vpn va))" "pn 0 va = pn 0 (va_of (vpn va))" by (simp_all add: same_page_def)
  show ?thesis unfolding page_map_def pmap_def leaf_def e(1) by (simp only: e(2) [symmetric])
qed

section \<open>Storing an entry\<close>

lemma set_entry:
  assumes ok: "vm_ok s root" and t: "tbl (ram s) (path va) root = Some t"
    and s': "s' = s\<lparr>ram := put64 (ram s) (slot t (pn 0 va)) v\<rparr>"
  shows "vm_ok s' root" "vm_step root s s'" "tables (ram s') root = tables (ram s) root"
    "page_map (ram s') root = (page_map (ram s) root)(vpn va := if valid v then Some v else None)"
proof -
  have k: "kmem_ok s" "pt_inv s root" "ram_ok s" "pointers_ok (ram s) root" using ok by (simp_all add: vm_ok_def)
  note tp = table_page [OF ok path_paths t]
  have m': "ram s' = put64 (ram s) (slot t (pn 0 va)) v" by (simp add: s')
  have T: "tbl (ram s') jx root = tbl (ram s) jx root" if "jx \<in> paths" for jx
    by (rule set_leaf_tbl [OF k(2,1) path_paths _ pn_less t m' that]) simp
  then show tab: "tables (ram s') root = tables (ram s) root" by (rule tables_cong)
  have "pt_inv s' root" using k(2) T tab by (auto simp: pt_inv_def used_page_def s')
  moreover have "ram_ok s'" by (rule ram_ok_put [OF k(3)]) (simp_all add: s')
  moreover have "pointers_ok (ram s') root"
    unfolding pointers_ok_def
  proof (intro allI impI)
    fix ix i u assume a: "ix @ [i] \<in> paths" "tbl (ram s') ix root = Some u" "valid (w64 (ram s') (slot u i))"
    have l: "ix \<in> paths" "length ix < 2" "i < 512" using a(1) by (simp_all add: paths_snoc)
    have o: "tbl (ram s) ix root = Some u" using a(2) T [OF l(1)] by simp
    have "length (path va) = 2" by simp
    then have "u \<noteq> t" using pt_inv_inj [OF k(2) l(1) path_paths o, of va] t l(2) by auto
    then have "w64 (ram s') (slot u i) = w64 (ram s) (slot u i)"
      unfolding m' w64_put_slot [OF tp(2) pn_less table_page(2) [OF ok l(1) o] l(3)] by simp
    then show "pointer_flags (w64 (ram s') (slot u i))" using k(4) a(1,3) o by (simp add: pointers_ok_def)
  qed
  ultimately show "vm_ok s' root" using k(1) by (simp add: vm_ok_def s')
  have "ram s' a = ram s a" if "\<forall>u\<in>tables (ram s) root. \<not> in_page u a" for a
    unfolding m' by (rule put_slot_out [OF tp(2) pn_less]) (use that tbl_tables [OF path_paths t] in blast)
  moreover have "tpages s' root = tpages s root" using tab by (simp add: tpages_def s')
  moreover have "vm_frame s s'" unfolding s' by (rule vm_frame_ram)
  moreover have "free_set s' = free_set s" by (simp add: s')
  ultimately show "vm_step root s s'" unfolding vm_step_def tab by blast
  show "page_map (ram s') root = (page_map (ram s) root)(vpn va := if valid v then Some v else None)"
    using leaf_set [OF k(2,1) t m'] by (auto simp: page_map_def pmap_def same_page_iff fun_eq_iff)
qed

section \<open>Walking to an entry\<close>

lemma vm_walk_found:
  assumes "vm_ok s root"
  shows "vm_walk root va False s = Inr (case tbl (ram s) (path va) root of None \<Rightarrow> 0 | Some u \<Rightarrow> slot u (pn 0 va), s)"
  unfolding vm_walk_def using walk_noalloc [OF assms paths_Nil, of 2 root va] by (simp add: VA_N_VPN_def VMEM_SV39_N_VPN_def)

lemma vm_walk_create:
  assumes "vm_ok s root"
  obtains (found) u t where "vm_walk root va True s = Inr (slot t (pn 0 va), u)" "vm_ok u root" "vm_step root s u"
      "page_map (ram u) root = page_map (ram s) root" "card (free_set s) \<le> card (free_set u) + 2" "tbl (ram u) (path va) root = Some t" "slot t (pn 0 va) \<noteq> 0"
  | (full) u where "vm_walk root va True s = Inr (0, u)" "vm_ok u root" "vm_step root s u"
      "page_map (ram u) root = page_map (ram s) root" "card (free_set s) \<le> card (free_set u) + 2" "free_set u = {}"
proof -
  obtain a u where r: "vm_walk_loop 2 root va True s = Inr (a, u)" "vm_ok u root" "vm_step root s u"
      "\<forall>va. pmap (ram u) root va = pmap (ram s) root va" "card (free_set s) \<le> card (free_set u) + 2"
      "if a = 0 then free_set u = {} else \<exists>t. tbl (ram u) (path va) root = Some t \<and> a = slot t (pn 0 va)"
    using walk_alloc [OF assms paths_Nil, of 2 va root] by auto
  have w: "vm_walk root va True s = Inr (a, u)" using r(1) by (simp add: vm_walk_def VA_N_VPN_def VMEM_SV39_N_VPN_def)
  have p: "page_map (ram u) root = page_map (ram s) root" using r(4) by (simp add: page_map_def fun_eq_iff)
  show thesis
  proof (cases "a = 0")
    case True
    then show thesis using full [of u] w r p by simp
  next
    case False
    then obtain t where t: "tbl (ram u) (path va) root = Some t" "a = slot t (pn 0 va)" using r(6) by auto
    show thesis by (rule found [of t u]) (use w r p t False in simp_all)
  qed
qed

lemma leaf_load:
  assumes "vm_ok s root" "tbl (ram s) (path va) root = Some t"
  shows "ld64 (ram s) (slot t (pn 0 va)) = Inr (w64 (ram s) (slot t (pn 0 va)))"
    "st_entry (slot t (pn 0 va)) v s = Inr (s\<lparr>ram := put64 (ram s) (slot t (pn 0 va)) v\<rparr>)"
    "page_map (ram s) root (vpn va) = (if valid (w64 (ram s) (slot t (pn 0 va))) then Some (w64 (ram s) (slot t (pn 0 va))) else None)"
proof -
  have m: "mapped (ram s) (slot t (pn 0 va)) 8" by (rule slot_mapped [OF table_page(4) [OF assms(1) path_paths assms(2)] pn_less])
  show "ld64 (ram s) (slot t (pn 0 va)) = Inr (w64 (ram s) (slot t (pn 0 va)))" by (rule ld64_mapped [OF m])
  show "st_entry (slot t (pn 0 va)) v s = Inr (s\<lparr>ram := put64 (ram s) (slot t (pn 0 va)) v\<rparr>)"
    using st64_mapped [OF m] by (simp add: st_entry_def)
  show "page_map (ram s) root (vpn va) = (if valid (w64 (ram s) (slot t (pn 0 va))) then Some (w64 (ram s) (slot t (pn 0 va))) else None)"
    unfolding pmap_page [symmetric] by (simp add: pmap_def leaf_def assms(2))
qed

section \<open>Mapping\<close>

primrec map_spec :: "nat \<Rightarrow> vpn \<Rightarrow> ulong \<Rightarrow> ulong \<Rightarrow> page_map \<Rightarrow> page_map option" where
  "map_spec 0 v pa flags M = Some M"
| "map_spec (Suc n) v pa flags M = (if M v \<noteq> None then None
     else map_spec n (v + 1) (pa + 4096) flags (M(v \<mapsto> PA_PTE pa OR PTE_FLAG_V OR flags)))"

lemma valid_entry: "valid (x OR PTE_FLAG_V OR f)"
  by (simp add: valid_iff PTE_FLAG_V_def bit_simps)

lemma map_loop_refines:
  assumes "vm_ok s root"
  shows "case map_loop n root va pa flags s of
      Inl f \<Rightarrow> f = Panic ''vm_mappages - overlapped'' \<and> map_spec n (vpn va) pa flags (page_map (ram s) root) = None
    | Inr (r, s') \<Rightarrow> vm_ok s' root \<and> vm_step root s s' \<and> (\<exists>k\<le>n. map_spec k (vpn va) pa flags (page_map (ram s) root) = Some (page_map (ram s') root) \<and>
        (if r = 0 then k = n else r = - 1 \<and> k < n \<and> free_set s' = {} \<and> card (free_set s) \<le> 2 * n))"
  using assms
proof (induction n arbitrary: s va pa)
  case 0
  then show ?case by (simp add: vm_step_refl)
next
  case (Suc n)
  note c = vm_ok_cpu [OF Suc.prems]
  show ?case
  proof (cases rule: vm_walk_create [OF Suc.prems, of va, case_names found full])
    case (full u)
    then show ?thesis by (auto intro!: exI [of _ 0])
  next
    case (found u t)
    let ?w = "w64 (ram u) (slot t (pn 0 va))"
    note L = leaf_load [OF found(2,6)]
    show ?thesis
    proof (cases "valid ?w")
      case True
      then show ?thesis using found L by (simp add: valid_def)
    next
      case False
      let ?e = "PA_PTE pa OR PTE_FLAG_V OR flags"
      define u' where "u' = u\<lparr>ram := put64 (ram u) (slot t (pn 0 va)) ?e\<rparr>"
      note S = set_entry [OF found(2,6) u'_def]
      have "st_entry (slot t (pn 0 va)) ?e u = Inr u'" using L(2) by (simp add: u'_def)
      then have run: "map_loop (Suc n) root va pa flags s = map_loop n root (va + PAGE_SIZE) (pa + PAGE_SIZE) flags u'"
        using False found(1,7) L(1) by (simp add: valid_def)
      have pm: "page_map (ram u') root = (page_map (ram s) root)(vpn va \<mapsto> ?e)" using S(4) found(4) valid_entry by simp
      have none: "page_map (ram s) root (vpn va) = None" using L(3) False found(4) by simp
      have st: "vm_step root s u'" by (rule vm_step_trans [OF found(3) S(2) c])
      have fc: "card (free_set s) \<le> card (free_set u') + 2" using found(5) by (simp add: u'_def)
      have sp: "map_spec (Suc k) (vpn va) pa flags (page_map (ram s) root) =
        map_spec k (vpn (va + PAGE_SIZE)) (pa + PAGE_SIZE) flags (page_map (ram u') root)" for k
        by (simp add: none pm PAGE_SIZE_def vpn_next)
      show ?thesis
      proof (cases "map_loop n root (va + PAGE_SIZE) (pa + PAGE_SIZE) flags u'")
        case (Inl f)
        then show ?thesis unfolding run sp using Suc.IH [OF S(1), of "va + PAGE_SIZE" "pa + PAGE_SIZE"] by simp
      next
        case (Inr x)
        obtain r s' where x: "x = (r, s')" by (cases x)
        obtain k where k: "vm_ok s' root" "vm_step root u' s'" "k \<le> n"
          "map_spec k (vpn (va + PAGE_SIZE)) (pa + PAGE_SIZE) flags (page_map (ram u') root) = Some (page_map (ram s') root)"
          "if r = 0 then k = n else r = - 1 \<and> k < n \<and> free_set s' = {} \<and> card (free_set u') \<le> 2 * n"
          using Suc.IH [OF S(1), of "va + PAGE_SIZE" "pa + PAGE_SIZE"] Inr x by auto
        have "\<exists>k\<le>Suc n. map_spec k (vpn va) pa flags (page_map (ram s) root) = Some (page_map (ram s') root) \<and>
          (if r = 0 then k = Suc n else r = - 1 \<and> k < Suc n \<and> free_set s' = {} \<and> card (free_set s) \<le> 2 * Suc n)"
          using k sp [of k] fc by (intro exI [of _ "Suc k"]) (simp split: if_splits)
        then show ?thesis unfolding run using Inr x k(1) vm_step_trans [OF st k(2) c] by simp
      qed
    qed
  qed
qed

end
