(* ===== verification/Vmem_Ops.thy ===== *)
theory Vmem_Ops
  imports Vmem_Refine
begin

text \<open>
  Translating, making a table and unmapping, against the page map.
\<close>

section \<open>What mapping gives\<close>

lemma vpn_add_inj:
  assumes "v + word_of_nat i = v + (word_of_nat j :: vpn)" "i < 2 ^ 27" "j < 2 ^ 27"
  shows "i = j"
proof -
  have "word_of_nat i = (word_of_nat j :: vpn)" using assms(1) by simp
  then have "unat (word_of_nat i :: vpn) = unat (word_of_nat j :: vpn)" by simp
  then show ?thesis using assms(2,3) by (simp add: unat_of_nat)
qed

lemma map_spec_Some:
  assumes "map_spec n v pa flags M = Some M'"
  shows "(\<forall>i<n. M' (v + word_of_nat i) = Some (PA_PTE (pa + 4096 * word_of_nat i) OR PTE_FLAG_V OR flags)) \<and>
    (\<forall>w. (\<forall>i<n. w \<noteq> v + word_of_nat i) \<longrightarrow> M' w = M w) \<and> (\<forall>w. M w \<noteq> None \<longrightarrow> M' w = M w)"
  using assms
proof (induction n arbitrary: v pa M)
  case (Suc n)
  let ?e = "PA_PTE pa OR PTE_FLAG_V OR flags"
  have v: "M v = None" "map_spec n (v + 1) (pa + 4096) flags (M(v \<mapsto> ?e)) = Some M'"
    using Suc.prems by (simp_all split: if_splits)
  note IH = Suc.IH [OF v(2)]
  have "M' v = Some ?e" using IH [THEN conjunct2, THEN conjunct2] by simp
  moreover have "M' (v + word_of_nat (Suc i)) = Some (PA_PTE (pa + 4096 * word_of_nat (Suc i)) OR PTE_FLAG_V OR flags)" if "i < n" for i
    using IH that by (simp add: algebra_simps)
  ultimately have "\<forall>i<Suc n. M' (v + word_of_nat i) = Some (PA_PTE (pa + 4096 * word_of_nat i) OR PTE_FLAG_V OR flags)"
    by (auto simp: less_Suc_eq_0_disj)
  moreover have "M' w = M w" if ne: "\<forall>i<Suc n. w \<noteq> v + word_of_nat i" for w
  proof -
    have "w \<noteq> v" using ne by (auto dest: spec [of _ 0])
    moreover have "w \<noteq> v + 1 + word_of_nat i" if i: "i < n" for i
      using ne [THEN spec, of "Suc i"] i by (simp add: algebra_simps)
    ultimately show ?thesis using IH by simp
  qed
  moreover have "M' w = M w" if "M w \<noteq> None" for w
  proof -
    have "w \<noteq> v" using that v(1) by auto
    then show ?thesis using IH that by simp
  qed
  ultimately show ?case by blast
qed simp

lemma map_spec_None:
  assumes "n \<le> 2 ^ 27"
  shows "map_spec n v pa flags M = None \<longleftrightarrow> (\<exists>i<n. M (v + word_of_nat i) \<noteq> None)"
  using assms
proof (induction n arbitrary: v pa M)
  case (Suc n)
  have ne: "v + 1 + word_of_nat i \<noteq> v" if "i < n" for i
    using vpn_add_inj [of v "Suc i" 0] that Suc.prems by (auto simp: algebra_simps)
  show ?case
  proof (cases "M v")
    case None
    have "map_spec (Suc n) v pa flags M = None \<longleftrightarrow> (\<exists>i<n. M (v + 1 + word_of_nat i) \<noteq> None)"
      using Suc ne None by auto
    also have "\<dots> \<longleftrightarrow> (\<exists>i<Suc n. M (v + word_of_nat i) \<noteq> None)"
      using None by (simp add: Nat.Ex_less_Suc2 algebra_simps)
    finally show ?thesis .
  qed (auto intro: exI [of _ 0])
qed simp

section \<open>Translating\<close>

lemma vm_translate_leaf:
  assumes "vm_ok s root"
  shows "vm_translate root a s = Inr (case leaf (ram s) root a of None \<Rightarrow> 0
    | Some e \<Rightarrow> PMA_PA2VA (PTE_PA e OR (a AND (PAGE_SIZE - 1))), s)"
proof (cases "tbl (ram s) (path a) root")
  case None
  then show ?thesis by (simp add: vm_translate_def vm_walk_found [OF assms] leaf_def)
next
  case (Some t)
  note tp = table_page [OF assms path_paths Some]
  show ?thesis using slot_nonzero [OF tp(3,2) pn_less] leaf_load(1) [OF assms Some]
    by (simp add: vm_translate_def vm_walk_found [OF assms] leaf_def Some)
qed

lemma vm_translate_mapped:
  assumes "vm_ok s root" "page_map (ram s) root (vpn a) = Some e"
  shows "vm_translate root a s = Inr (PMA_PA2VA (PTE_PA e OR (a AND (PAGE_SIZE - 1))), s)"
  using assms(2) unfolding vm_translate_leaf [OF assms(1)] pmap_page [symmetric]
  by (auto simp: pmap_def split: option.splits if_splits)

text \<open>Addresses of one page differ in their low 12 bits only.\<close>

lemma page_offset:
  assumes "pa AND (PAGE_SIZE - 1) = 0" "unat off < 4096"
  shows "(pa + off) AND (PAGE_SIZE - 1) = off" "push_bit 12 (drop_bit 12 pa) OR off = pa + off"
proof -
  have msk: "PAGE_SIZE - 1 = (mask 12 :: ulong)" by (simp add: PAGE_SIZE_def mask_eq_exp_minus_1)
  have z: "take_bit 12 pa = 0" using assms(1) unfolding msk by (simp add: take_bit_eq_mask)
  have o: "take_bit 12 off = off" using assms(2) by (simp add: word_unat_eq_iff unat_take_bit)
  have p: "pa = push_bit 12 (drop_bit 12 pa)" using z bits_ident [of 12 pa] by simp
  have d: "pa AND off = 0"
    by (subst p, subst o [symmetric]) (rule bit_word_eqI, auto simp only: bit_and_iff bit_push_bit_iff bit_take_bit_iff bit_0_eq bot_apply bot_bool_def)
  have e: "pa + off = pa OR off" using d by (rule disjunctive_add_eq_or)
  show "push_bit 12 (drop_bit 12 pa) OR off = pa + off" using p e by simp
  have "take_bit 12 (pa OR off) = off" using z o by simp
  then show "(pa + off) AND (PAGE_SIZE - 1) = off" unfolding msk e by (simp add: take_bit_eq_mask)
qed

section \<open>A new table\<close>

lemma fresh_table:
  assumes "kmem_ok s" "ram_ok s" "p < npages s" "p \<notin> free_set s" and x: "x = page_va (begin_ppn s) p"
    and s': "s' = s\<lparr>ram := fill (ram s) x 0 4096\<rparr>"
  shows "vm_ok s' x" "page_map (ram s') x = Map.empty" "tables (ram s') x = {x}" "tpages s' x = {p}"
proof -
  have xp: "page_addr x" unfolding x by (rule page_va_page_addr [OF kmem_ok_range [OF assms(1)] assms(3)])
  have z: "\<not> valid (w64 (ram s') (slot x i))" if "i < 512" for i
    unfolding s' using w64_fill_page [OF xp xp that] by (simp add: valid_def)
  have T: "tbl (ram s') ix x = (if ix = [] then Some x else None)" if "ix \<in> paths" for ix
    using that z by (cases ix) (auto simp: paths_def)
  show tab: "tables (ram s') x = {x}" using T unfolding tables_def by (auto intro: bexI [of _ "[]"] split: if_splits)
  have "pt_inv s' x" unfolding pt_inv_def tab using T assms(3,4) by (auto simp: used_page_def s' x split: if_splits)
  moreover have "ram_ok s'" by (rule ram_ok_put [OF assms(2)]) (simp_all add: s' mapped_fill)
  moreover have "pointers_ok (ram s') x"
    unfolding pointers_ok_def using T z by (auto simp: paths_snoc split: if_splits)
  ultimately show "vm_ok s' x" using assms(1) by (simp add: vm_ok_def s')
  show "page_map (ram s') x = Map.empty"
  proof
    fix v
    have "path (va_of v) \<noteq> []" by (metis length_path list.size(3) zero_neq_numeral)
    then show "page_map (ram s') x v = None" using T [OF path_paths] by (simp add: page_map_def pmap_def leaf_def)
  qed
  show "tpages s' x = {p}" using page_va_inj [OF kmem_ok_range [OF assms(1)]] assms(3)
    unfolding tpages_def tab by (auto simp: s' x)
qed

section \<open>Unmapping\<close>

definition leaf_flags :: "uint64 \<Rightarrow> bool" where
  "leaf_flags e \<longleftrightarrow> e AND (push_bit PTE_FLAGS_WIDTH 1 - 1) \<noteq> PTE_FLAG_V"

definition frees :: "'a vm_state_scheme \<Rightarrow> addr \<Rightarrow> bool \<Rightarrow> uint64 \<Rightarrow> nat \<Rightarrow> bool" where
  "frees s root do_free e p \<longleftrightarrow> (do_free \<longrightarrow> child e = page_va (begin_ppn s) p \<and> p < npages s \<and> p \<notin> free_set s \<and> p \<notin> tpages s root)"

lemma free_frame:
  assumes ok: "vm_ok s root" and p: "p < npages s" "p \<notin> free_set s" "p \<notin> tpages s root"
  obtains w where "kmem_free_page (page_va (begin_ppn s) p) s = Inr w" "vm_ok w root" "free_set w = insert p (free_set s)"
    "vm_frame s w" "ram w = ram s"
proof -
  have k: "kmem_ok s" "pt_inv s root" "ram_ok s" using ok by (simp_all add: vm_ok_def)
  obtain w where w: "kmem_free_page (page_va (begin_ppn s) p) s = Inr w" "kmem_ok w" "free_set w = insert p (free_set s)" "page_frame s w"
    using free_page_correct [OF k(1) p(1,2)] by blast
  note f = page_frame_fields [OF w(4)]
  have r: "ram w = ram s" using w(4) by (auto simp: page_frame_def)
  have "used_page w t" if "t \<in> tables (ram s) root" for t
  proof -
    have "used_page s t" using k(2) that by (simp add: pt_inv_def)
    then obtain q where q: "q < npages s" "q \<notin> free_set s" "t = page_va (begin_ppn s) q" by (auto simp: used_page_def)
    have "q \<noteq> p" using p(3) q that by (auto simp: tpages_def)
    then show ?thesis using q f w(3) by (auto simp: used_page_def)
  qed
  then have "\<forall>t\<in>tables (ram s) root. used_page w t" by blast
  then have "pt_inv w root" using k(2) [unfolded pt_inv_def, THEN conjunct2] unfolding pt_inv_def r by (rule conjI)
  moreover have "ram_ok w" using k(3) f by (simp add: ram_ok_def r)
  ultimately have "vm_ok w root" using ok w(2) by (simp add: vm_ok_def r)
  moreover have "vm_frame s w" using page_frame_vm_frame [OF w(4), of "ram w"] by simp
  ultimately show thesis by (intro that [of w]) (use w r in simp_all)
qed

lemma unmap_loop_correct:
  assumes "vm_ok s root" "unat va + 4096 * n = unat bound" "n \<le> 2 ^ 27"
    "\<And>i. i < n \<Longrightarrow> \<exists>e. page_map (ram s) root (vpn va + word_of_nat i) = Some e \<and> leaf_flags e \<and> frees s root do_free e (f i)"
    "inj_on f {..<n}"
  shows "\<exists>t. unmap_loop root va bound do_free s = ret t \<and> vm_ok t root \<and> vm_frame s t \<and> tables (ram t) root = tables (ram s) root \<and>
    (\<forall>a. (\<forall>x\<in>tables (ram s) root. \<not> in_page x a) \<longrightarrow> ram t a = ram s a) \<and>
    page_map (ram t) root = (\<lambda>v. if \<exists>i<n. v = vpn va + word_of_nat i then None else page_map (ram s) root v) \<and>
    free_set t = free_set s \<union> (if do_free then f ` {..<n} else {})"
  using assms
proof (induction n arbitrary: s va f)
  case 0
  then have "\<not> va < bound" by (simp add: word_less_nat_alt)
  then show ?case using 0 vm_frame_ram [of s "ram s"] by (subst unmap_loop.simps) simp
next
  case (Suc n)
  have lt: "va < bound" using Suc.prems(2) by (simp add: word_less_nat_alt)
  obtain e where e: "page_map (ram s) root (vpn va) = Some e" "leaf_flags e" "frees s root do_free e (f 0)"
    using Suc.prems(4) [of 0] by auto
  then obtain t where t: "tbl (ram s) (path va) root = Some t" "w64 (ram s) (slot t (pn 0 va)) = e" "valid e"
    unfolding pmap_page [symmetric] by (auto simp: pmap_def leaf_def split: option.splits if_splits)
  note L = leaf_load [OF Suc.prems(1) t(1)]
  note tp = table_page [OF Suc.prems(1) path_paths t(1)]
  obtain w where w: "(if do_free then Some (kmem_free_page (child e) s) else ret s) = ret w" "vm_ok w root" "vm_frame s w" "ram w = ram s"
    "free_set w = free_set s \<union> (if do_free then {f 0} else {})"
  proof (cases do_free)
    case True
    then have fr: "child e = page_va (begin_ppn s) (f 0)" "f 0 < npages s" "f 0 \<notin> free_set s" "f 0 \<notin> tpages s root"
      using e(3) by (simp_all add: frees_def)
    show thesis by (rule free_frame [OF Suc.prems(1) fr(2-4)]) (rule that, use True fr(1) in simp_all)
  next
    case False
    show thesis by (rule that [of s]) (use False Suc.prems(1) vm_frame_ram [of s "ram s"] in simp_all)
  qed
  have tw: "tbl (ram w) (path va) root = Some t" using t(1) w(4) by simp
  define u where "u = w\<lparr>ram := put64 (ram w) (slot t (pn 0 va)) 0\<rparr>"
  note S = set_entry [OF w(2) tw u_def]
  have st: "st_entry (slot t (pn 0 va)) 0 w = Inr u" using leaf_load(2) [OF w(2) tw] by (simp add: u_def)
  have run: "unmap_loop root va bound do_free s = unmap_loop root (va + PAGE_SIZE) bound do_free u"
    by (subst unmap_loop.simps) (use lt slot_nonzero [OF tp(3,2) pn_less] L(1) t w(1) st e(2) in
      \<open>simp add: vm_walk_found [OF Suc.prems(1)] valid_def leaf_flags_def child_def split: if_splits\<close>)
  have c: "cpu_ok s" by (rule vm_ok_cpu [OF Suc.prems(1)])
  have fr: "vm_frame s u" using vm_frame_trans [OF w(3) _ c, of u] S(2) by (simp add: vm_step_def)
  have pm: "page_map (ram u) root = (page_map (ram s) root)(vpn va := None)" using S(4) w(4) by (simp add: valid_def)
  have ff: "free_set u = free_set s \<union> (if do_free then {f 0} else {})" using w(5) by (simp add: u_def)
  have fd: "begin_ppn u = begin_ppn s" "num_ppn u = num_ppn s" using vm_frame_fields [OF fr] by simp_all
  have tb: "tables (ram u) root = tables (ram s) root" using S(3) w(4) by simp
  have ua: "unat (va + PAGE_SIZE) + 4096 * n = unat bound"
  proof -
    have "unat bound < 2 ^ 64" by (rule unat64_less)
    then have "unat va + 4096 < 2 ^ 64" using Suc.prems(2) by simp
    then show ?thesis using Suc.prems(2) by (simp add: unat_word_ariths PAGE_SIZE_def)
  qed
  have nx: "vpn (va + PAGE_SIZE) + word_of_nat i = vpn va + word_of_nat (Suc i)" for i
    by (simp add: PAGE_SIZE_def vpn_next add.assoc)
  have pre: "\<exists>e. page_map (ram u) root (vpn (va + PAGE_SIZE) + word_of_nat i) = Some e \<and> leaf_flags e \<and> frees u root do_free e (f (Suc i))"
    if i: "i < n" for i
  proof -
    have f0: "f (Suc i) \<noteq> f 0" using Suc.prems(5) i by (auto dest: inj_onD)
    have "vpn va + word_of_nat (Suc i) \<noteq> vpn va" using vpn_add_inj [of "vpn va" "Suc i" 0] i Suc.prems(3) by auto
    then have "page_map (ram u) root (vpn va + word_of_nat (Suc i)) = page_map (ram s) root (vpn va + word_of_nat (Suc i))" by (simp only: pm fun_upd_other not_False_eq_True)
    moreover obtain e' where "page_map (ram s) root (vpn va + word_of_nat (Suc i)) = Some e'" "leaf_flags e'" "frees s root do_free e' (f (Suc i))"
      using Suc.prems(4) [of "Suc i"] i by auto
    moreover from this(3) have "frees u root do_free e' (f (Suc i))" using ff fd tb f0 by (simp add: frees_def tpages_def)
    ultimately show ?thesis unfolding nx by auto
  qed
  have inj: "inj_on (\<lambda>i. f (Suc i)) {..<n}" using Suc.prems(5) by (auto simp: inj_on_def)
  have le: "n \<le> 2 ^ 27" using Suc.prems(3) by simp
  have "\<exists>t. unmap_loop root (va + PAGE_SIZE) bound do_free u = ret t \<and> vm_ok t root \<and> vm_frame u t \<and> tables (ram t) root = tables (ram u) root \<and>
    (\<forall>a. (\<forall>x\<in>tables (ram u) root. \<not> in_page x a) \<longrightarrow> ram t a = ram u a) \<and>
    page_map (ram t) root = (\<lambda>v. if \<exists>i<n. v = vpn (va + PAGE_SIZE) + word_of_nat i then None else page_map (ram u) root v) \<and>
    free_set t = free_set u \<union> (if do_free then (\<lambda>i. f (Suc i)) ` {..<n} else {})"
    by (rule Suc.IH [OF S(1) ua le]) (rule pre inj, assumption?)+
  then obtain t' where t': "unmap_loop root (va + PAGE_SIZE) bound do_free u = ret t'" "vm_ok t' root" "vm_frame u t'"
    "tables (ram t') root = tables (ram u) root" "\<forall>a. (\<forall>x\<in>tables (ram u) root. \<not> in_page x a) \<longrightarrow> ram t' a = ram u a"
    "page_map (ram t') root = (\<lambda>v. if \<exists>i<n. v = vpn (va + PAGE_SIZE) + word_of_nat i then None else page_map (ram u) root v)"
    "free_set t' = free_set u \<union> (if do_free then (\<lambda>i. f (Suc i)) ` {..<n} else {})"
    by (elim exE conjE) (rule that; assumption)
  have "page_map (ram t') root = (\<lambda>v. if \<exists>i<Suc n. v = vpn va + word_of_nat i then None else page_map (ram s) root v)"
  proof
    fix v
    have e: "(\<exists>i<Suc n. v = vpn va + word_of_nat i) = (v = vpn va \<or> (\<exists>i<n. v = vpn va + word_of_nat (Suc i)))"
      by (simp only: Ex_less_Suc2) simp
    show "page_map (ram t') root v = (if \<exists>i<Suc n. v = vpn va + word_of_nat i then None else page_map (ram s) root v)"
      unfolding t'(6) pm nx e by (cases "\<exists>i<n. v = vpn va + word_of_nat (Suc i)") (simp_all only: if_True if_False fun_upd_apply simp_thms)
  qed
  moreover have "free_set t' = free_set s \<union> (if do_free then f ` {..<Suc n} else {})"
    unfolding t'(7) ff lessThan_Suc_eq_insert_0 by (simp add: image_image Un_assoc)
  moreover have out: "ram t' a = ram s a" if "\<forall>x\<in>tables (ram s) root. \<not> in_page x a" for a
    using that t'(5) S(2) tb w(4) by (auto simp: vm_step_def)
  ultimately show ?case unfolding run t'(1) using t'(2) t'(4)[unfolded tb] vm_frame_trans [OF fr t'(3) c]
    by (intro exI [of _ t'] conjI allI impI refl) blast+
qed

end
