(* ===== verification/Vmem_Reap.thy ===== *)
theory Vmem_Reap
  imports Vmem_Ops
begin

text \<open>
  Reaping a page table: the recursion ends, and the pages of all its tables are free again.
\<close>

section \<open>The tree below a table\<close>

text \<open>The tables that are left when the entries of \<open>t\<close> below \<open>i\<close> are done, and that they form a tree.\<close>

primrec rest :: "memory \<Rightarrow> nat \<Rightarrow> addr \<Rightarrow> nat \<Rightarrow> addr set" where
  "rest m 0 t i = {t}"
| "rest m (Suc h) t i = insert t (\<Union>j\<in>{j. i \<le> j \<and> j < 512 \<and> valid (w64 m (slot t j))}. rest m h (child (w64 m (slot t j))) 0)"

primrec tree :: "memory \<Rightarrow> nat \<Rightarrow> addr \<Rightarrow> nat \<Rightarrow> bool" where
  "tree m 0 t i \<longleftrightarrow> (\<forall>j. i \<le> j \<longrightarrow> j < 512 \<longrightarrow> \<not> valid (w64 m (slot t j)))"
| "tree m (Suc h) t i \<longleftrightarrow> (\<forall>j. i \<le> j \<longrightarrow> j < 512 \<longrightarrow> valid (w64 m (slot t j)) \<longrightarrow>
     pointer_flags (w64 m (slot t j)) \<and> tree m h (child (w64 m (slot t j))) 0 \<and> t \<notin> rest m h (child (w64 m (slot t j))) 0 \<and>
     (\<forall>k. j < k \<longrightarrow> k < 512 \<longrightarrow> valid (w64 m (slot t k)) \<longrightarrow>
       rest m h (child (w64 m (slot t j))) 0 \<inter> rest m h (child (w64 m (slot t k))) 0 = {}))"

lemma rest_self: "t \<in> rest m h t i"
  by (cases h) simp_all

lemma rest_end: "rest m h t 512 = {t}"
  by (cases h) auto

lemma rest_skip: "\<not> valid (w64 m (slot t i)) \<Longrightarrow> rest m h t i = rest m h t (Suc i)"
proof (cases h)
  case (Suc g)
  assume "\<not> valid (w64 m (slot t i))"
  then have "{j. i \<le> j \<and> j < 512 \<and> valid (w64 m (slot t j))} = {j. Suc i \<le> j \<and> j < 512 \<and> valid (w64 m (slot t j))}"
    by (metis Suc_leD Suc_leI le_less)
  then show ?thesis by (simp only: Suc rest.simps)
qed simp

lemma rest_take:
  "i < 512 \<Longrightarrow> valid (w64 m (slot t i)) \<Longrightarrow>
    rest m (Suc h) t i = rest m h (child (w64 m (slot t i))) 0 \<union> rest m (Suc h) t (Suc i)"
proof -
  assume a: "i < 512" "valid (w64 m (slot t i))"
  then have "{j. i \<le> j \<and> j < 512 \<and> valid (w64 m (slot t j))} = insert i {j. Suc i \<le> j \<and> j < 512 \<and> valid (w64 m (slot t j))}"
    using le_eq_less_or_eq by auto
  then show ?thesis by simp
qed

lemma tree_Suc: "tree m h t i \<Longrightarrow> tree m h t (Suc i)"
  by (cases h) simp_all

lemma rest_local:
  assumes "tree m h t i"
    "\<And>x j. x \<in> rest m h t i \<Longrightarrow> j < 512 \<Longrightarrow> (x = t \<Longrightarrow> i \<le> j) \<Longrightarrow> w64 m' (slot x j) = w64 m (slot x j)"
  shows "rest m' h t i = rest m h t i \<and> tree m' h t i"
  using assms
proof (induction h arbitrary: t i)
  case (Suc h)
  have e: "w64 m' (slot t j) = w64 m (slot t j)" if "i \<le> j" "j < 512" for j
    using Suc.prems(2) [OF rest_self that(2)] that(1) by blast
  have c: "rest m' h (child (w64 m (slot t j))) 0 = rest m h (child (w64 m (slot t j))) 0 \<and> tree m' h (child (w64 m (slot t j))) 0"
    if j: "i \<le> j" "j < 512" "valid (w64 m (slot t j))" for j
  proof (rule Suc.IH)
    show "tree m h (child (w64 m (slot t j))) 0" using Suc.prems(1) j by simp
    fix x and k :: nat assume x: "x \<in> rest m h (child (w64 m (slot t j))) 0" "k < 512"
    moreover have "t \<notin> rest m h (child (w64 m (slot t j))) 0" using Suc.prems(1) j by simp
    ultimately show "w64 m' (slot x k) = w64 m (slot x k)" using j by (intro Suc.prems(2)) auto
  qed
  have s: "{j. i \<le> j \<and> j < 512 \<and> valid (w64 m' (slot t j))} = {j. i \<le> j \<and> j < 512 \<and> valid (w64 m (slot t j))}" using e by auto
  have "rest m' (Suc h) t i = rest m (Suc h) t i" unfolding rest.simps s using e c by auto
  moreover have "tree m' (Suc h) t i"
    unfolding tree.simps
  proof (intro allI impI)
    fix j assume j: "i \<le> j" "j < 512" "valid (w64 m' (slot t j))"
    note ej = e [OF j(1,2)]
    have v: "valid (w64 m (slot t j))" using j(3) ej by simp
    note T = Suc.prems(1) [unfolded tree.simps, rule_format, OF j(1,2) v]
    have "rest m h (child (w64 m (slot t j))) 0 \<inter> rest m' h (child (w64 m' (slot t k))) 0 = {}"
      if k: "j < k" "k < 512" "valid (w64 m' (slot t k))" for k
    proof -
      have ek: "w64 m' (slot t k) = w64 m (slot t k)" "i \<le> k" using e [of k] k j(1) by simp_all
      then have "valid (w64 m (slot t k))" using k(3) by simp
      then show ?thesis using T k c [OF ek(2) k(2)] ek(1) by simp
    qed
    then show "pointer_flags (w64 m' (slot t j)) \<and> tree m' h (child (w64 m' (slot t j))) 0 \<and>
      t \<notin> rest m' h (child (w64 m' (slot t j))) 0 \<and> (\<forall>k. j < k \<longrightarrow> k < 512 \<longrightarrow> valid (w64 m' (slot t k)) \<longrightarrow>
       rest m' h (child (w64 m' (slot t j))) 0 \<inter> rest m' h (child (w64 m' (slot t k))) 0 = {})"
      unfolding ej c [OF j(1,2) v, THEN conjunct1] using T c [OF j(1,2) v] by blast
  qed
  ultimately show ?case by blast
qed simp

section \<open>Reaping it\<close>

definition pset :: "'a vm_state_scheme \<Rightarrow> addr set \<Rightarrow> nat set" where
  "pset s X = {p. p < npages s \<and> page_va (begin_ppn s) p \<in> X}"

lemma pset_Un: "pset s (X \<union> Y) = pset s X \<union> pset s Y"
  by (auto simp: pset_def)

lemma free_table:
  assumes k: "kmem_ok s" "ram_ok s" "used_page s t"
  obtains w where "kmem_free_page t s = Inr w" "kmem_ok w" "ram_ok w" "vm_frame s w" "ram w = ram s" "free_set w = free_set s \<union> pset s {t}"
proof -
  obtain p where p: "p < npages s" "p \<notin> free_set s" "t = page_va (begin_ppn s) p" using k(3) by (auto simp: used_page_def)
  obtain w where w: "kmem_free_page t s = Inr w" "kmem_ok w" "free_set w = insert p (free_set s)" "page_frame s w"
    using free_page_correct [OF k(1) p(1,2)] p(3) by blast
  have r: "ram w = ram s" using w(4) by (auto simp: page_frame_def)
  have "pset s {t} = {p}" using p(1,3) page_va_inj [OF kmem_ok_range [OF k(1)]] by (auto simp: pset_def)
  moreover have "ram_ok w" using k(2) page_frame_fields [OF w(4)] by (simp add: ram_ok_def r)
  moreover have "vm_frame s w" using page_frame_vm_frame [OF w(4), of "ram w"] by simp
  ultimately show thesis by (intro that [of w]) (use w r in simp_all)
qed

lemma w64_outside:
  assumes "page_addr x" "j < 512" "\<And>a. in_page x a \<Longrightarrow> m' a = m a"
  shows "w64 m' (slot x j) = w64 m (slot x j)"
  by (rule w64_cong) (use slot_byte [OF assms(1,2)] assms(3) in blast)

lemma outside_pages:
  assumes "kmem_ok s" "\<And>x. x \<in> X \<Longrightarrow> used_page s x" "used_page s y" "y \<notin> X" "in_page y a"
  shows "\<forall>x\<in>X. \<not> in_page x a"
  using assms page_disjoint used_page_addr by metis

definition reaped :: "addr set \<Rightarrow> 'a vm_state_scheme \<Rightarrow> 'a vm_state_scheme \<Rightarrow> bool" where
  "reaped X s s' \<longleftrightarrow> kmem_ok s' \<and> ram_ok s' \<and> vm_frame s s' \<and> (\<forall>a. (\<forall>x\<in>X. \<not> in_page x a) \<longrightarrow> ram s' a = ram s a) \<and>
     free_set s' = free_set s \<union> pset s X"

lemma reaped_trans:
  assumes "reaped X s t" "reaped Y t u" "cpu_ok s"
  shows "reaped (X \<union> Y) s u"
proof -
  have "pset t Y = pset s Y" using assms(1) vm_frame_fields by (fastforce simp: reaped_def pset_def)
  then show ?thesis using assms vm_frame_trans [of s t u] unfolding reaped_def pset_Un by auto
qed

lemma reaped_used:
  assumes "reaped X s t" "used_page s y" "y \<notin> X"
  shows "used_page t y"
  using assms vm_frame_fields [of s t] by (auto simp: reaped_def used_page_def pset_def)

text \<open>One entry that leads to a table: what is known of the rest after that table is gone and the entry cleared.\<close>

lemma reap_entry:
  assumes k: "kmem_ok s" "ram_ok s" "tree (ram s) (Suc h) t i" "i < 512" "valid (w64 (ram s) (slot t i))"
    and u: "\<And>x. x \<in> rest (ram s) (Suc h) t i \<Longrightarrow> used_page s x"
    and r1: "reaped (rest (ram s) h (child (w64 (ram s) (slot t i))) 0) s s1"
    and s2: "s2 = s1\<lparr>ram := put64 (ram s1) (slot t i) 0\<rparr>"
  shows "st_entry (slot t i) 0 s1 = Inr s2" "kmem_ok s2" "ram_ok s2" "tree (ram s2) (Suc h) t (Suc i)"
    "rest (ram s2) (Suc h) t (Suc i) = rest (ram s) (Suc h) t (Suc i)"
    "\<And>x. x \<in> rest (ram s) (Suc h) t (Suc i) \<Longrightarrow> used_page s2 x"
    "reaped (rest (ram s) (Suc h) t (Suc i)) s2 s' \<Longrightarrow> reaped (rest (ram s) (Suc h) t i) s s'"
proof -
  define C where "C = rest (ram s) h (child (w64 (ram s) (slot t i))) 0"
  define R where "R = rest (ram s) (Suc h) t (Suc i)"
  have CR: "rest (ram s) (Suc h) t i = C \<union> R" unfolding C_def R_def by (rule rest_take [OF k(4,5)])
  have tR: "t \<in> R" unfolding R_def by (rule rest_self)
  note T = k(3) [unfolded tree.simps, rule_format, OF order_refl k(4,5)]
  have dis: "x \<notin> C" if "x \<in> R" for x using that T unfolding C_def R_def rest.simps by (fastforce simp: Suc_le_eq)
  have used: "used_page s x" if "x \<in> C \<union> R" for x by (rule u) (use that in \<open>simp only: CR\<close>)
  have pa: "page_addr x" if "x \<in> C \<union> R" for x using used_page_addr [OF used [OF that] k(1)] by simp
  have r: "kmem_ok s1" "ram_ok s1" "vm_frame s s1" "\<And>a. \<forall>x\<in>C. \<not> in_page x a \<Longrightarrow> ram s1 a = ram s a"
    "free_set s1 = free_set s \<union> pset s C" using r1 unfolding reaped_def C_def by blast+
  have us: "used_page s1 x" if "x \<in> R" for x
    by (rule reaped_used [OF r1]) (use that used dis in \<open>auto simp: C_def\<close>)
  have "mapped (ram s1) t 4096" using us [OF tR] r(2) by (auto simp: used_page_def ram_ok_def)
  then have "mapped (ram s1) (slot t i) 8" by (rule slot_mapped [OF _ k(4)])
  then show "st_entry (slot t i) 0 s1 = Inr s2" by (simp add: st_entry_def st64_mapped s2)
  show "kmem_ok s2" using r(1) by (simp add: s2)
  show "ram_ok s2" by (rule ram_ok_put [OF r(2)]) (simp_all add: s2)
  show "used_page s2 x" if "x \<in> rest (ram s) (Suc h) t (Suc i)" for x
    using us that by (simp add: R_def used_page_def s2)
  have w1: "w64 (ram s1) (slot x j) = w64 (ram s) (slot x j)" if x: "x \<in> R" "j < 512" for x j
    by (rule w64_outside) (use x pa in simp, use x in simp, rule r(4), rule outside_pages [OF k(1), of C x],
      use x used dis in auto)
  have "w64 (ram s2) (slot x j) = w64 (ram s) (slot x j)" if x: "x \<in> R" "j < 512" "x = t \<Longrightarrow> Suc i \<le> j" for x j
  proof -
    have "page_addr t" "page_addr x" using pa tR x by auto
    from w64_put_slot [OF this(1) k(4) this(2) x(2), of "ram s1" 0] show ?thesis using w1 [OF x(1,2)] x(3) by (auto simp: s2)
  qed
  then have "rest (ram s2) (Suc h) t (Suc i) = rest (ram s) (Suc h) t (Suc i) \<and> tree (ram s2) (Suc h) t (Suc i)"
    unfolding R_def by (intro rest_local tree_Suc [OF k(3)]) auto
  then show "rest (ram s2) (Suc h) t (Suc i) = rest (ram s) (Suc h) t (Suc i)" "tree (ram s2) (Suc h) t (Suc i)" by blast+
  assume "reaped (rest (ram s) (Suc h) t (Suc i)) s2 s'"
  then have q: "kmem_ok s'" "ram_ok s'" "vm_frame s2 s'" "\<And>a. \<forall>x\<in>R. \<not> in_page x a \<Longrightarrow> ram s' a = ram s2 a"
    "free_set s' = free_set s2 \<union> pset s2 R" unfolding reaped_def R_def by blast+
  have c: "cpu_ok s" using kmem_ok_lock [OF k(1)] by simp
  have f2: "vm_frame s s2" unfolding s2 by (rule vm_frame_trans [OF r(3) vm_frame_ram c])
  have "pset s2 R = pset s R" using vm_frame_fields [OF f2] by (simp add: pset_def)
  then have "free_set s' = free_set s \<union> pset s (C \<union> R)" using q(5) r(5) by (auto simp: pset_Un s2)
  moreover have "ram s' a = ram s a" if "\<forall>x\<in>C \<union> R. \<not> in_page x a" for a
  proof -
    have "\<not> in_page t a" using that tR by blast
    then have "ram s2 a = ram s1 a" using put_slot_out [OF _ k(4)] pa tR by (simp add: s2)
    then show ?thesis using q(4) r(4) that by simp
  qed
  ultimately show "reaped (rest (ram s) (Suc h) t i) s s'"
    unfolding reaped_def CR using q(1,2) vm_frame_trans [OF f2 q(3) c] by blast
qed

lemma reap_correct:
  assumes "kmem_ok s" "ram_ok s" "tree (ram s) h t i" "i \<le> 512" "\<And>x. x \<in> rest (ram s) h t i \<Longrightarrow> used_page s x"
  shows "\<exists>s'. reap_from t i s = ret s' \<and> reaped (rest (ram s) h t i) s s'"
  using assms
proof (induction "(h, 512 - i)" arbitrary: h i t s rule: wf_induct_rule [OF wf_lex_prod [OF wf_less_than wf_less_than]])
  case (1 h i t s)
  show ?case
  proof (cases "i < 512")
    case False
    then have i: "i = 512" using "1.prems"(4) by simp
    have u: "used_page s t" using "1.prems"(5) rest_self by blast
    obtain w where w: "kmem_free_page t s = Inr w" "kmem_ok w" "ram_ok w" "vm_frame s w" "ram w = ram s" "free_set w = free_set s \<union> pset s {t}"
      using free_table [OF "1.prems"(1,2) u] by blast
    then show ?thesis by (subst reap_from.simps) (simp add: i PN_WIDTH_def rest_end reaped_def)
  next
    case True
    have u: "used_page s t" using "1.prems"(5) rest_self by blast
    then have "mapped (ram s) t 4096" using "1.prems"(2) by (auto simp: used_page_def ram_ok_def)
    then have ld: "ld64 (ram s) (slot t i) = Inr (w64 (ram s) (slot t i))" using ld64_mapped slot_mapped True by blast
    let ?e = "w64 (ram s) (slot t i)"
    show ?thesis
    proof (cases "valid ?e")
      case False
      have "reap_from t i s = reap_from t (Suc i) s"
        by (subst reap_from.simps) (use True ld False in \<open>simp add: PN_WIDTH_def slot_def [symmetric] valid_def\<close>)
      moreover have "\<exists>s'. reap_from t (Suc i) s = ret s' \<and> reaped (rest (ram s) h t (Suc i)) s s'"
        by (rule "1.hyps") (use True "1.prems" tree_Suc rest_skip [OF False, of h] in auto)
      ultimately show ?thesis using rest_skip [OF False, of h] by simp
    next
      case V: True
      then obtain g where h: "h = Suc g" using "1.prems"(3) True by (cases h) auto
      have T: "pointer_flags ?e" "tree (ram s) g (child ?e) 0" using "1.prems"(3) True V by (auto simp: h)
      have R: "rest (ram s) h t i = rest (ram s) g (child ?e) 0 \<union> rest (ram s) h t (Suc i)" unfolding h by (rule rest_take [OF True V])
      have uc: "used_page s x" if "x \<in> rest (ram s) g (child ?e) 0" for x by (rule "1.prems"(5)) (use that R in blast)
      have "\<exists>s1. reap_from (child ?e) 0 s = ret s1 \<and> reaped (rest (ram s) g (child ?e) 0) s s1"
        by (rule "1.hyps") (use h T "1.prems"(1,2) uc in simp_all)
      then obtain s1 where s1: "reap_from (child ?e) 0 s = ret s1" "reaped (rest (ram s) g (child ?e) 0) s s1" by blast
      define s2 where "s2 = s1\<lparr>ram := put64 (ram s1) (slot t i) 0\<rparr>"
      note E = reap_entry [OF "1.prems"(1,2) "1.prems"(3) [unfolded h] True V "1.prems"(5) [unfolded h] s1(2) s2_def, folded h]
      have run: "reap_from t i s = reap_from t (Suc i) s2"
        by (subst reap_from.simps) (use True ld V T(1) s1(1) E(1) in
          \<open>simp add: PN_WIDTH_def slot_def [symmetric] valid_def pointer_flags_def child_def\<close>)
      have "\<exists>s'. reap_from t (Suc i) s2 = ret s' \<and> reaped (rest (ram s2) h t (Suc i)) s2 s'"
        by (rule "1.hyps") (use True E(2-6) in simp_all)
      then show ?thesis unfolding run using E(5,7) by auto
    qed
  qed
qed

section \<open>The tree of a page table\<close>

lemma va_exists:
  assumes "a < 512" "b < 512" "c < 512"
  shows "\<exists>va. path va = [a, b] \<and> pn 0 va = c"
proof -
  define v :: vpn where "v = word_of_nat (262144 * a + 512 * b + c)"
  have "262144 * a + 512 * b + c < 2 ^ 27" using assms by simp
  then have u: "unat v = 262144 * a + 512 * b + c" unfolding v_def by (subst unat_of_nat) simp
  have e: "unat v = 512 * (512 * a + b) + c" using u by simp
  have d: "unat v div 512 = 512 * a + b" "unat v mod 512 = c"
    unfolding e div_mult_self4 [of 512, OF numeral_neq_zero] mod_mult_self4 using assms(3) by simp_all
  have "unat v div 262144 = unat v div 512 div 512" by (simp add: div_mult2_eq [symmetric])
  then have "unat v div 262144 = a" using d(1) assms(2) by simp
  with d have "pn 2 (va_of v) = a" "pn 1 (va_of v) = b" "pn 0 (va_of v) = c"
    using pn_digit [of 2 "va_of v"] pn_digit [of 1 "va_of v"] pn_digit [of 0 "va_of v"] assms by simp_all
  then show ?thesis by (intro exI [of _ "va_of v"]) (simp add: numeral_2_eq_2)
qed

lemma no_leaf:
  assumes "page_map m root = Map.empty" "ix \<in> paths" "length ix = 2" "tbl m ix root = Some t" "i < 512"
  shows "\<not> valid (w64 m (slot t i))"
proof -
  obtain a b where ix: "ix = [a, b]" using assms(3) by (cases ix; cases "tl ix") auto
  then obtain va where va: "path va = ix" "pn 0 va = i" using va_exists [of a b i] assms(2,5) by (auto simp: paths_def)
  have "pmap m root va = None" using assms(1) by (simp add: pmap_page)
  then show ?thesis using assms(4) va by (auto simp: pmap_def leaf_def split: if_splits)
qed

lemma paths_append: "ix @ jx \<in> paths \<longleftrightarrow> length (ix @ jx) \<le> 2 \<and> set ix \<subseteq> {..<512} \<and> set jx \<subseteq> {..<512}"
  by (auto simp: paths_def)

lemma rest_paths:
  assumes "ix \<in> paths" "length ix + h = 2"
  shows "rest m h t 0 = {u. \<exists>jx. ix @ jx \<in> paths \<and> tbl m jx t = Some u}"
  using assms
proof (induction h arbitrary: ix t)
  case 0
  have "ix @ jx \<in> paths \<longleftrightarrow> jx = []" for jx using 0 by (auto simp: paths_append paths_def)
  then show ?case by auto
next
  case (Suc h)
  have IH: "rest m h c 0 = {u. \<exists>jx. ix @ j # jx \<in> paths \<and> tbl m jx c = Some u}" if "j < 512" for j c
    using Suc.IH [of "ix @ [j]" c] Suc.prems that by (simp add: paths_snoc)
  show ?case
  proof (intro set_eqI iffI)
    fix u assume "u \<in> rest m (Suc h) t 0"
    then consider "u = t" | j where "j < 512" "valid (w64 m (slot t j))" "u \<in> rest m h (child (w64 m (slot t j))) 0" by auto
    then show "u \<in> {u. \<exists>jx. ix @ jx \<in> paths \<and> tbl m jx t = Some u}"
    proof cases
      case 1
      then show ?thesis using Suc.prems(1) by (auto intro: exI [of _ "[]"])
    next
      case 2
      then obtain jx where "ix @ j # jx \<in> paths" "tbl m jx (child (w64 m (slot t j))) = Some u" using IH by auto
      then show ?thesis using 2(2) by (auto intro!: exI [of _ "j # jx"])
    qed
  next
    fix u assume "u \<in> {u. \<exists>jx. ix @ jx \<in> paths \<and> tbl m jx t = Some u}"
    then obtain jx where jx: "ix @ jx \<in> paths" "tbl m jx t = Some u" by blast
    show "u \<in> rest m (Suc h) t 0"
    proof (cases jx)
      case Nil
      then show ?thesis using jx(2) by simp
    next
      case (Cons j kx)
      then have "j < 512" using jx(1) by (simp add: paths_append)
      moreover have v: "valid (w64 m (slot t j))" "tbl m kx (child (w64 m (slot t j))) = Some u" using jx(2) Cons by (auto split: if_splits)
      moreover have "u \<in> rest m h (child (w64 m (slot t j))) 0" unfolding IH [OF \<open>j < 512\<close>] using jx(1) Cons v(2) by auto
      ultimately show ?thesis by auto
    qed
  qed
qed

lemma tree_paths:
  assumes ok: "vm_ok s root" "page_map (ram s) root = Map.empty"
  shows "ix \<in> paths \<Longrightarrow> length ix + h = 2 \<Longrightarrow> tbl (ram s) ix root = Some t \<Longrightarrow> tree (ram s) h t 0"
proof (induction h arbitrary: ix t)
  case 0
  then show ?case using no_leaf [OF ok(2)] by simp
next
  case (Suc h)
  let ?e = "\<lambda>j. w64 (ram s) (slot t j)"
  have inv: "pt_inv s root" using ok(1) by (simp add: vm_ok_def)
  have sub: "ix @ [j] \<in> paths" "tbl (ram s) (ix @ [j]) root = Some (child (?e j))" if "j < 512" "valid (?e j)" for j
    using Suc.prems that by (simp_all add: paths_snoc tbl_snoc next_tbl_def)
  have below: "\<exists>jx. ix @ j # jx \<in> paths \<and> tbl (ram s) (ix @ j # jx) root = Some u"
    if j: "j < 512" "valid (?e j)" "u \<in> rest (ram s) h (child (?e j)) 0" for j u
  proof -
    have "length (ix @ [j]) + h = 2" using Suc.prems(2) by simp
    from rest_paths [OF sub(1) [OF j(1,2)] this, of "ram s" "child (?e j)"] j(3)
    obtain jx where "ix @ j # jx \<in> paths" "tbl (ram s) jx (child (?e j)) = Some u" by auto
    then show ?thesis using sub(2) [OF j(1,2)] tbl_append [of "ram s" "ix @ [j]" jx root] by auto
  qed
  show ?case
    unfolding tree.simps
  proof (intro allI impI conjI)
    fix j assume j: "j < 512" "valid (?e j)"
    show "pointer_flags (?e j)" using ok(1) sub(1) [OF j] j(2) Suc.prems(3) by (auto simp: vm_ok_def pointers_ok_def)
    show "tree (ram s) h (child (?e j)) 0" by (rule Suc.IH [OF sub(1) [OF j] _ sub(2) [OF j]]) (use Suc.prems(2) in simp)
    show "t \<notin> rest (ram s) h (child (?e j)) 0"
      using below [OF j, of t] pt_inv_inj [OF inv Suc.prems(1) _ Suc.prems(3)] by fastforce
    fix k assume k: "j < k" "k < 512" "valid (?e k)"
    show "rest (ram s) h (child (?e j)) 0 \<inter> rest (ram s) h (child (?e k)) 0 = {}"
      using below [OF j] below [OF k(2,3)] pt_inv_inj [OF inv] k(1) by fastforce
  qed
qed

lemma tree_tables:
  assumes "vm_ok s root" "page_map (ram s) root = Map.empty"
  shows "tree (ram s) 2 root 0" "rest (ram s) 2 root 0 = tables (ram s) root"
  using tree_paths [OF assms paths_Nil, of 2 root] rest_paths [OF paths_Nil, of 2 "ram s" root] by (auto simp: tables_def)

end
