(* ===== verification/Vmem_User.thy ===== *)
theory Vmem_User
  imports Vmem_Reap
begin

text \<open>
  The life of a user's page table: it is made with the handler's pages mapped, they are unmapped, and reaping gives
  every page of it back.
\<close>

section \<open>Mapping within one table\<close>

lemma walk_existing:
  assumes ok: "vm_ok s root"
  shows "ix \<in> paths \<Longrightarrow> length ix + lv = 2 \<Longrightarrow> tbl (ram s) ix root = Some t \<Longrightarrow> tbl (ram s) (path_from lv va) t = Some u \<Longrightarrow>
    vm_walk_loop lv t va True s = Inr (slot u (pn 0 va), s)"
proof (induction lv arbitrary: ix t)
  case 0
  then show ?case by (simp add: entry_slot)
next
  case (Suc lv)
  let ?i = "pn (Suc lv) va" and ?e = "w64 (ram s) (slot t (pn (Suc lv) va))"
  note tp = table_page [OF ok Suc.prems(1,3)]
  have ld: "ld64 (ram s) (slot t ?i) = Inr ?e" by (rule ld64_mapped [OF slot_mapped [OF tp(4) pn_less]])
  have v: "valid ?e" "tbl (ram s) (path_from lv va) (child ?e) = Some u" using Suc.prems(4) by (auto split: if_splits)
  have "ix @ [?i] \<in> paths" using Suc.prems(1,2) pn_less by (simp add: paths_snoc)
  moreover have "tbl (ram s) (ix @ [?i]) root = Some (child ?e)" using Suc.prems(3) v(1) by (simp add: tbl_snoc next_tbl_def)
  ultimately have "vm_walk_loop lv (child ?e) va True s = Inr (slot u (pn 0 va), s)"
    using Suc.prems(2) v(2) by (intro Suc.IH) simp_all
  then show ?case using v(1) ld by (simp add: entry_slot Let_def valid_def child_def)
qed

lemma vm_walk_existing:
  assumes "vm_ok s root" "tbl (ram s) (path va) root = Some t"
  shows "vm_walk root va True s = Inr (slot t (pn 0 va), s)"
  unfolding vm_walk_def using walk_existing [OF assms(1) paths_Nil, of 2 root va t] assms(2)
  by (simp add: VA_N_VPN_def VMEM_SV39_N_VPN_def)

text \<open>Once the table is there, no page is needed for the other entries in it.\<close>

lemma map_in_table:
  assumes "vm_ok s root" "tbl (ram s) (path va) root = Some t" "\<And>i. i < n \<Longrightarrow> path (va + 4096 * word_of_nat i) = path va"
    "map_loop n root va pa flags s = Inr (r, s')"
  shows "r = 0 \<and> free_set s' = free_set s"
  using assms
proof (induction n arbitrary: s va pa)
  case (Suc n)
  let ?e = "PA_PTE pa OR PTE_FLAG_V OR flags"
  define u where "u = s\<lparr>ram := put64 (ram s) (slot t (pn 0 va)) ?e\<rparr>"
  note L = leaf_load [OF Suc.prems(1,2)] and S = set_entry [OF Suc.prems(1,2) u_def]
  note tp = table_page [OF Suc.prems(1) path_paths Suc.prems(2)]
  have k: "kmem_ok s" "pt_inv s root" using Suc.prems(1) by (simp_all add: vm_ok_def)
  have run: "map_loop n root (va + PAGE_SIZE) (pa + PAGE_SIZE) flags u = Inr (r, s')"
    using Suc.prems(4) L slot_nonzero [OF tp(3,2) pn_less]
    by (auto simp: vm_walk_existing [OF Suc.prems(1,2)] u_def valid_def split: if_splits)
  show ?case
  proof (cases n)
    case 0
    then show ?thesis using run by (auto simp: u_def)
  next
    case n: (Suc m)
    have p: "path (va + PAGE_SIZE) = path va" using Suc.prems(3) [of 1] n by (simp add: PAGE_SIZE_def)
    have "tbl (ram u) (path va) root = tbl (ram s) (path va) root"
      by (rule set_leaf_tbl [OF k(2,1) path_paths _ pn_less Suc.prems(2) _ path_paths, where v = ?e]) (simp_all add: u_def)
    then have tu: "tbl (ram u) (path (va + PAGE_SIZE)) root = Some t" using Suc.prems(2) by (simp only: p)
    have "path (va + PAGE_SIZE + 4096 * word_of_nat i) = path (va + PAGE_SIZE)" if "i < n" for i
      using Suc.prems(3) [of "Suc i"] that p by (simp add: PAGE_SIZE_def algebra_simps)
    from Suc.IH [OF S(1) tu this run] show ?thesis by (simp add: u_def)
  qed
qed simp

lemma map_one_table:
  assumes ok: "vm_ok s root" and same: "\<And>i. i < n \<Longrightarrow> path (va + 4096 * word_of_nat i) = path va" and f: "2 < card (free_set s)"
    and r: "map_loop n root va pa flags s = Inr (r, s')"
  shows "r = 0 \<and> card (free_set s) \<le> card (free_set s') + 2"
proof (cases n)
  case (Suc m)
  show ?thesis
  proof (cases rule: vm_walk_create [OF ok, of va, case_names found full])
    case (full u)
    then show ?thesis using f by simp
  next
    case (found u t)
    then have "map_loop n root va pa flags u = map_loop n root va pa flags s"
      by (simp add: Suc vm_walk_existing [OF found(2,6)])
    from map_in_table [OF found(2,6) same, of n pa flags r s'] this r found(5) show ?thesis by simp
  qed
qed (use r in simp)

section \<open>The life of a table\<close>

lemma reap_tables:
  assumes "vm_ok s root" "page_map (ram s) root = Map.empty"
  shows "\<exists>s'. vm_reap_pagetable root s = ret s' \<and> kmem_ok s' \<and> ram_ok s' \<and> vm_frame s s' \<and>
    free_set s' = free_set s \<union> tpages s root"
proof -
  note T = tree_tables [OF assms]
  have k: "kmem_ok s" "ram_ok s" using assms(1) by (simp_all add: vm_ok_def)
  have u: "used_page s x" if "x \<in> rest (ram s) 2 root 0" for x using that assms(1) by (simp only: T vm_ok_def pt_inv_def)
  have "tpages s root = pset s (rest (ram s) 2 root 0)" unfolding T tpages_def pset_def ..
  then show ?thesis using reap_correct [OF k T(1) le0 u] by (simp add: vm_reap_pagetable_def reaped_def) blast
qed

lemma handler_span: "page_span VA_USER_USER_HANDLER_BEGIN VA_USER_USER_HANDLER_SIZE = 8"
  "PAGE_ROUND_DOWN VA_USER_USER_HANDLER_BEGIN = VA_USER_USER_HANDLER_BEGIN"
  "unat VA_USER_USER_HANDLER_BEGIN + 4096 * 8 = unat (VA_USER_USER_HANDLER_BEGIN + PAGE_SIZE * drop_bit PAGE_SHIFT VA_USER_USER_HANDLER_SIZE)"
  "VA_USER_USER_HANDLER_BEGIN AND (push_bit PN_WIDTH 1 - 1) = 0"
  by (simp_all add: page_span_def VA_USER_USER_HANDLER_BEGIN_def VA_USER_USER_HANDLER_SIZE_def PAGE_ROUND_DOWN_def
      PAGE_ROUND_UP_def PAGE_SHIFT_def PAGE_SIZE_def PN_WIDTH_def drop_bit_eq_div)

lemma handler_flags: "leaf_flags (PA_PTE pa OR PTE_FLAG_V OR (PTE_FLAG_R OR PTE_FLAG_X))"
proof -
  have "bit (PA_PTE pa OR PTE_FLAG_V OR (PTE_FLAG_R OR PTE_FLAG_X)) 1"
    by (simp add: PTE_FLAG_R_def bit_simps bit_1_iff)
  then have "bit ((PA_PTE pa OR PTE_FLAG_V OR (PTE_FLAG_R OR PTE_FLAG_X)) AND (push_bit PTE_FLAGS_WIDTH 1 - 1)) 1"
    by (simp add: bit_and_iff PTE_FLAGS_WIDTH_def bit_simps)
  moreover have "\<not> bit PTE_FLAG_V 1" by (simp add: PTE_FLAG_V_def bit_1_iff)
  ultimately show ?thesis unfolding leaf_flags_def by metis
qed

lemma handler_table:
  assumes "i < 8"
  shows "path (VA_USER_USER_HANDLER_BEGIN + 4096 * word_of_nat i) = path VA_USER_USER_HANDLER_BEGIN"
proof -
  have digit: "pn lv (VA_USER_USER_HANDLER_BEGIN + 4096 * word_of_nat j) = (67108848 + j) div 512 ^ lv mod 512" if j: "j < 8" "lv < 3" for j lv
  proof -
    have w: "VA_USER_USER_HANDLER_BEGIN + 4096 * word_of_nat j = word_of_nat (4096 * (67108848 + j))"
      by (simp add: VA_USER_USER_HANDLER_BEGIN_def)
    have "unat (word_of_nat (4096 * (67108848 + j)) :: ulong) = 4096 * (67108848 + j)" by (rule unat_of_nat64) (use j in simp)
    then have "unat (vpn (VA_USER_USER_HANDLER_BEGIN + 4096 * word_of_nat j)) = 67108848 + j" unfolding unat_vpn w using j(1) by simp
    then show ?thesis using pn_digit [OF j(2)] by simp
  qed
  have d: "(67108848 + j) div 512 = 131071" if "j < 8" for j :: nat using that by simp
  have "(67108848 + j) div 512 div 512 = (255 :: nat)" if "j < 8" for j :: nat unfolding d [OF that] by simp
  then have e: "(67108848 + j) div 262144 = (255 :: nat)" if "j < 8" for j :: nat using that by (simp add: div_mult2_eq [symmetric])
  have "pn 1 (VA_USER_USER_HANDLER_BEGIN + 4096 * word_of_nat j) = 511" "pn 2 (VA_USER_USER_HANDLER_BEGIN + 4096 * word_of_nat j) = 255" if "j < 8" for j
    using digit [OF that, of 1] digit [OF that, of 2] d [OF that] e [OF that] by simp_all
  from this [OF assms] this [of 0] show ?thesis by (simp add: numeral_2_eq_2)
qed

abbreviation handler_map :: "'a vm_state_scheme \<Rightarrow> addr \<Rightarrow> 'a vm_state_scheme \<Rightarrow> (int \<times> 'a vm_state_scheme) res" where
  "handler_map s x \<equiv> map_loop 8 x VA_USER_USER_HANDLER_BEGIN (KERNEL_USER_HANDLER_PA_BEGIN s) (PTE_FLAG_R OR PTE_FLAG_X)"

lemma make_start:
  assumes k: "kmem_ok s" "ram_ok s" "free_set s \<noteq> {}"
  obtains x p u where "vm_user_make_pagetable s = bindR (handler_map s x u) (\<lambda>(_, t). Inr (x, t))" "vm_ok u x" "page_map (ram u) x = Map.empty"
    "vm_frame s u" "p \<in> free_set s" "free_set u = free_set s - {p}" "tpages u x = {p}"
proof (cases rule: alloc_one [OF k(1), case_names none page])
  case (none w)
  then show thesis using k(3) by simp
next
  case (page p w)
  note f = page_frame_fields [OF page(3)]
  have rw: "ram w = ram s" "KERNEL_USER_HANDLER_PA_BEGIN w = KERNEL_USER_HANDLER_PA_BEGIN s" using page(3) by (auto simp: page_frame_def)
  have pn: "p < npages w" "p \<notin> free_set w" using page(4,5) f by (auto simp: free_set_def)
  have rk: "ram_ok w" using k(2) f by (simp add: ram_ok_def rw)
  let ?x = "page_va (begin_ppn s) p"
  have xw: "?x = page_va (begin_ppn w) p" using f by simp
  define u where "u = w\<lparr>ram := fill (ram w) ?x 0 4096\<rparr>"
  note F = fresh_table [OF page(2) rk pn xw u_def]
  have nz: "?x \<noteq> 0" using table_page(3) [OF F(1) paths_Nil, of ?x] by simp
  have ku: "KERNEL_USER_HANDLER_PA_BEGIN u = KERNEL_USER_HANDLER_PA_BEGIN s" using rw(2) by (simp add: u_def)
  have "mapped (ram w) ?x 4096" using rk pn(1) xw by (simp add: ram_ok_def)
  then have ms: "memset_ram ?x 0 PAGE_SIZE w = Inr u"
    using memset_loop_fill [of "ram w" ?x 4096 0] by (simp add: memset_ram_def memset_def PAGE_SIZE_def u_def)
  have sz: "VA_USER_USER_HANDLER_SIZE \<noteq> 0" by (simp add: VA_USER_USER_HANDLER_SIZE_def)
  have "vm_mappages ?x VA_USER_USER_HANDLER_BEGIN (KERNEL_USER_HANDLER_PA_BEGIN u) VA_USER_USER_HANDLER_SIZE (PTE_FLAG_R OR PTE_FLAG_X) u
    = handler_map s ?x u" unfolding vm_mappages_def handler_span if_not_P [OF sz] ku ..
  then have "vm_user_make_pagetable s = bindR (bindR (handler_map s ?x u) (\<lambda>(_, s). Inr s)) (\<lambda>s. Inr (?x, s))"
    using page(1) ms nz by (simp add: vm_user_make_pagetable_def vm_map_user_handler_def)
  also have "\<dots> = bindR (handler_map s ?x u) (\<lambda>(_, t). Inr (?x, t))" by (cases "handler_map s ?x u") auto
  finally show thesis
    by (rule that [where p = p]) (use F page(4,5) page_frame_vm_frame [OF page(3)] in \<open>simp_all add: u_def\<close>)
qed

lemma handler_fits: "map_spec 8 v pa flags Map.empty \<noteq> None"
  using map_spec_None [of 8 v pa flags Map.empty] by simp

text \<open>With four free pages a table is made: it holds the handler's pages and nothing else.\<close>

lemma make_pagetable:
  assumes k: "kmem_ok s" "ram_ok s" "3 < card (free_set s)"
  obtains x t where "vm_user_make_pagetable s = Inr (x, t)" "vm_ok t x" "vm_frame s t" "tpages t x \<union> free_set t = free_set s"
    "tpages t x \<inter> free_set t = {}"
    "map_spec 8 (vpn VA_USER_USER_HANDLER_BEGIN) (KERNEL_USER_HANDLER_PA_BEGIN s) (PTE_FLAG_R OR PTE_FLAG_X) Map.empty = Some (page_map (ram t) x)"
    "card (free_set s) \<le> card (free_set t) + 3"
proof -
  have ne: "free_set s \<noteq> {}" using k(3) by auto
  show thesis
  proof (rule make_start [OF k(1,2) ne])
    fix x p u
    assume u: "vm_user_make_pagetable s = bindR (handler_map s x u) (\<lambda>(_, t). Inr (x, t))" "vm_ok u x" "page_map (ram u) x = Map.empty"
      "vm_frame s u" "p \<in> free_set s" "free_set u = free_set s - {p}" "tpages u x = {p}"
    have cu: "card (free_set s) = Suc (card (free_set u))" using u(5,6) k(3) card_Suc_Diff1 [of "free_set s" p] by (simp add: card_ge_0_finite)
    note R = map_loop_refines [OF u(2), of 8 VA_USER_USER_HANDLER_BEGIN "KERNEL_USER_HANDLER_PA_BEGIN s" "PTE_FLAG_R OR PTE_FLAG_X", unfolded u(3)]
    show thesis
    proof (cases "handler_map s x u")
      case (Inl e)
      then show thesis using R handler_fits by simp
    next
      case (Inr y)
      obtain r t where y: "y = (r, t)" by (cases y)
      note M = map_one_table [OF u(2) handler_table _ Inr [unfolded y]]
      have r: "r = 0" "card (free_set u) \<le> card (free_set t) + 2" using M cu k(3) by simp_all
      have st: "vm_step x u t" "vm_ok t x" using R Inr y by auto
      have c: "cpu_ok s" using kmem_ok_lock [OF k(1)] by simp
      have "tpages t x \<inter> free_set t = {}"
      proof -
        have "page_va (begin_ppn t) q \<notin> tables (ram t) x" if "q \<in> free_set t" for q by (rule free_not_table [OF st(2) that])
        then show ?thesis by (auto simp: tpages_def)
      qed
      moreover have "vm_frame s t" using vm_frame_trans [OF u(4) _ c] st(1) by (simp add: vm_step_def)
      moreover have "tpages t x \<union> free_set t = free_set s" using st(1) u(5-7) by (auto simp: vm_step_def)
      moreover have "map_spec 8 (vpn VA_USER_USER_HANDLER_BEGIN) (KERNEL_USER_HANDLER_PA_BEGIN s) (PTE_FLAG_R OR PTE_FLAG_X) Map.empty
        = Some (page_map (ram t) x)" using R Inr y r(1) by auto
      ultimately show thesis using that [of x t] u(1) Inr y st(2) r(2) cu by simp
    qed
  qed
qed

lemma unmap_handler:
  assumes ok: "vm_ok t x"
    and m: "map_spec 8 (vpn VA_USER_USER_HANDLER_BEGIN) pa (PTE_FLAG_R OR PTE_FLAG_X) Map.empty = Some (page_map (ram t) x)"
  obtains u where "vm_unmap_user_handler x t = ret u" "vm_ok u x" "vm_frame t u" "page_map (ram u) x = Map.empty"
    "free_set u = free_set t" "tpages u x = tpages t x"
proof -
  note M = map_spec_Some [OF m]
  have pre: "\<exists>e. page_map (ram t) x (vpn VA_USER_USER_HANDLER_BEGIN + word_of_nat i) = Some e \<and> leaf_flags e \<and> frees t x False e i" if "i < 8" for i
    using M that handler_flags by (simp add: frees_def)
  obtain u where u: "unmap_loop x VA_USER_USER_HANDLER_BEGIN (VA_USER_USER_HANDLER_BEGIN + PAGE_SIZE * drop_bit PAGE_SHIFT VA_USER_USER_HANDLER_SIZE) False t = ret u"
    "vm_ok u x" "vm_frame t u" "tables (ram u) x = tables (ram t) x"
    "page_map (ram u) x = (\<lambda>v. if \<exists>i<8. v = vpn VA_USER_USER_HANDLER_BEGIN + word_of_nat i then None else page_map (ram t) x v)"
    "free_set u = free_set t"
    using unmap_loop_correct [OF ok handler_span(3), of False "\<lambda>i. i"] pre by auto
  show thesis
  proof (rule that [of u])
    show "vm_unmap_user_handler x t = ret u"
      unfolding vm_unmap_user_handler_def vm_unmappages_def handler_span(4) using u(1) by simp
    show "page_map (ram u) x = Map.empty" unfolding u(5) using M by auto
    show "tpages u x = tpages t x" using u(4) vm_frame_fields [OF u(3)] by (simp add: tpages_def)
  qed (use u in simp_all)
qed

end
