(* ===== verification/Vmem_Copy.thy ===== *)
theory Vmem_Copy
  imports Vmem_Ops
begin

text \<open>
  Copying between a kernel buffer and a user's address space. Both loops translate one address, move one byte and go on;
  they are instances of one lemma on moving bytes outside the tables.
\<close>

section \<open>Stores outside the tables\<close>

lemma tbl_outside:
  assumes ok: "vm_ok s root" and m: "\<forall>x\<in>tables (ram s) root. \<forall>a. in_page x a \<longrightarrow> m a = ram s a"
  shows "ix \<in> paths \<Longrightarrow> tbl m ix root = tbl (ram s) ix root"
proof (induction ix rule: rev_induct)
  case (snoc i ix)
  have ix: "ix \<in> paths" "i < 512" using snoc.prems by (simp_all add: paths_snoc)
  show ?case
  proof (cases "tbl (ram s) ix root")
    case None
    then show ?thesis using snoc.IH [OF ix(1)] by (simp add: tbl_snoc)
  next
    case (Some t)
    have "w64 m (slot t i) = w64 (ram s) (slot t i)"
      by (rule w64_cong) (rule m [rule_format, OF tbl_tables [OF ix(1) Some] slot_byte [OF table_page(2) [OF ok ix(1) Some] ix(2)]])
    then show ?thesis using snoc.IH [OF ix(1)] Some by (simp add: tbl_snoc next_tbl_def)
  qed
qed simp

lemma write_outside:
  assumes ok: "vm_ok s root" and m: "\<forall>x\<in>tables (ram s) root. \<forall>a. in_page x a \<longrightarrow> m a = ram s a"
    and dom: "\<forall>a. ram s a \<noteq> None \<longrightarrow> m a \<noteq> None"
  shows "vm_ok (s\<lparr>ram := m\<rparr>) root" "tables m root = tables (ram s) root" "leaf m root va = leaf (ram s) root va"
proof -
  note T = tbl_outside [OF ok m]
  have w: "w64 m (slot t i) = w64 (ram s) (slot t i)" if "ix \<in> paths" "tbl (ram s) ix root = Some t" "i < 512" for ix t i
    by (rule w64_cong) (rule m [rule_format, OF tbl_tables [OF that(1,2)] slot_byte [OF table_page(2) [OF ok that(1,2)] that(3)]])
  show tab: "tables m root = tables (ram s) root" by (rule tables_cong) (rule T)
  show "leaf m root va = leaf (ram s) root va"
    using T [OF path_paths, of va] w [OF path_paths _ pn_less] by (auto simp: leaf_def split: option.splits)
  have "pt_inv (s\<lparr>ram := m\<rparr>) root" using ok T tab by (auto simp: vm_ok_def pt_inv_def used_page_def)
  moreover have "pointers_ok m root"
    unfolding pointers_ok_def
  proof (intro allI impI)
    fix ix i t assume a: "ix @ [i] \<in> paths" "tbl m ix root = Some t" "valid (w64 m (slot t i))"
    have l: "ix \<in> paths" "i < 512" using a(1) by (simp_all add: paths_snoc)
    have o: "tbl (ram s) ix root = Some t" using a(2) T [OF l(1)] by simp
    show "pointer_flags (w64 m (slot t i))" using ok a(1,3) o w [OF l(1) o l(2)] by (simp add: vm_ok_def pointers_ok_def)
  qed
  moreover have "ram_ok (s\<lparr>ram := m\<rparr>)" using ok dom by (auto simp: vm_ok_def ram_ok_def mapped_def)
  ultimately show "vm_ok (s\<lparr>ram := m\<rparr>) root" using ok by (simp add: vm_ok_def)
qed

section \<open>The address behind an address\<close>

definition user_addr :: "memory \<Rightarrow> addr \<Rightarrow> addr \<Rightarrow> addr option" where
  "user_addr m root a = map_option (\<lambda>e. PMA_PA2VA (PTE_PA e OR (a AND (PAGE_SIZE - 1)))) (leaf m root a)"

lemma vm_translate_user:
  assumes "vm_ok s root"
  shows "vm_translate root a s = Inr (case user_addr (ram s) root a of None \<Rightarrow> 0 | Some p \<Rightarrow> p, s)"
  unfolding vm_translate_leaf [OF assms] user_addr_def by (auto split: option.splits)

lemma user_addr_nonzero: "user_addr m root a = Some p \<Longrightarrow> p \<noteq> 0"
  using PMA_PA2VA_nonzero by (auto simp: user_addr_def)

text \<open>What moving \<open>n\<close> bytes \<open>b i\<close> to the places \<open>g i\<close> does.\<close>

definition copied :: "nat \<Rightarrow> (nat \<Rightarrow> addr) \<Rightarrow> (nat \<Rightarrow> uint8) \<Rightarrow> 'a vm_state_scheme \<Rightarrow> 'a vm_state_scheme \<Rightarrow> bool" where
  "copied n g b s t \<longleftrightarrow> t = s\<lparr>ram := ram t\<rparr> \<and> (\<forall>i<n. ram t (g i) = Some (b i)) \<and> (\<forall>a. (\<forall>i<n. a \<noteq> g i) \<longrightarrow> ram t a = ram s a)"

definition safe_place :: "'a vm_state_scheme \<Rightarrow> addr \<Rightarrow> addr \<Rightarrow> bool" where
  "safe_place s root a \<longleftrightarrow> ram s a \<noteq> None \<and> (\<forall>x\<in>tables (ram s) root. \<not> in_page x a)"

lemma one_write:
  assumes "vm_ok s root" "safe_place s root a" and t: "t = s\<lparr>ram := (ram s)(a \<mapsto> v)\<rparr>"
  shows "stb (ram s) a v = Inr (ram t)" "vm_ok t root" "user_addr (ram t) root = user_addr (ram s) root"
    "safe_place t root = safe_place s root"
proof -
  have a: "ram s a \<noteq> None" "\<And>x. x \<in> tables (ram s) root \<Longrightarrow> \<not> in_page x a" using assms(2) by (simp_all add: safe_place_def)
  have o: "\<forall>x\<in>tables (ram s) root. \<forall>c. in_page x c \<longrightarrow> ((ram s)(a \<mapsto> v)) c = ram s c" using a(2) by auto
  have d: "\<forall>c. ram s c \<noteq> None \<longrightarrow> ((ram s)(a \<mapsto> v)) c \<noteq> None" by simp
  note W = write_outside [OF assms(1) o d]
  show "stb (ram s) a v = Inr (ram t)" using a(1) by (auto simp: stb_def t)
  show "vm_ok t root" unfolding t by (rule W(1))
  show "user_addr (ram t) root = user_addr (ram s) root" by (rule ext) (simp add: user_addr_def t W(3))
  show "safe_place t root = safe_place s root" using a(1) by (auto simp: safe_place_def t fun_eq_iff W(2))
qed

lemma copied_Suc:
  assumes t: "t = s\<lparr>ram := (ram s)(g 0 \<mapsto> b 0)\<rparr>" and c: "copied n (\<lambda>i. g (Suc i)) (\<lambda>i. b (Suc i)) t u"
    and g: "\<And>i. i < n \<Longrightarrow> g (Suc i) \<noteq> g 0"
  shows "copied (Suc n) g b s u"
proof -
  have "\<forall>i<n. g 0 \<noteq> g (Suc i)" using g by metis
  then have "ram u (g 0) = Some (b 0)" using c by (simp add: copied_def t)
  then have "\<forall>i<Suc n. ram u (g i) = Some (b i)" using c by (auto simp: copied_def less_Suc_eq_0_disj)
  moreover have "ram u a = ram s a" if a: "\<forall>i<Suc n. a \<noteq> g i" for a
  proof -
    have "\<forall>i<n. a \<noteq> g (Suc i)" "a \<noteq> g 0" using a by (auto dest: spec [of _ 0])
    then show ?thesis using c by (simp add: copied_def t)
  qed
  moreover have "u = s\<lparr>ram := ram u\<rparr>" using c t by (auto simp: copied_def)
  ultimately show ?thesis by (simp add: copied_def)
qed

section \<open>The two loops\<close>

text \<open>
  Both loops copy up to the first address without a table; \<open>k\<close> is how far they get.
\<close>

lemma memcpyin_correct:
  assumes "vm_ok s root" "k \<le> n" "k < n \<Longrightarrow> user_addr (ram s) root (vsrc + word_of_nat k) = None"
    "\<And>i. i < k \<Longrightarrow> user_addr (ram s) root (vsrc + word_of_nat i) = Some (f i) \<and> ram s (f i) = Some (b i)"
    "\<And>i. i < k \<Longrightarrow> safe_place s root (dst + word_of_nat i)"
    "\<And>i j. i < k \<Longrightarrow> j < k \<Longrightarrow> f i \<noteq> dst + word_of_nat j" "inj_on (\<lambda>i. dst + word_of_nat i) {..<k}"
  shows "\<exists>t. memcpyin_loop n root dst vsrc s = Inr (if k = n then 0 else - 1, t) \<and> vm_ok t root \<and>
    copied k (\<lambda>i. dst + word_of_nat i) b s t"
  using assms
proof (induction n arbitrary: k s dst vsrc f b)
  case 0
  then show ?case by (simp add: copied_def)
next
  case (Suc n)
  note tr = vm_translate_user [OF Suc.prems(1)]
  show ?case
  proof (cases k)
    case 0
    then show ?thesis using Suc.prems(1,3) tr [of vsrc] by (simp add: copied_def)
  next
    case (Suc j)
    note S = Suc.prems
    define t where "t = s\<lparr>ram := (ram s)(dst \<mapsto> b 0)\<rparr>"
    have p0: "safe_place s root dst" and f0: "user_addr (ram s) root vsrc = Some (f 0)" "ram s (f 0) = Some (b 0)"
      using S(4,5) [of 0] Suc by simp_all
    note W = one_write [OF S(1) p0 t_def]
    have run: "memcpyin_loop (Suc n) root dst vsrc s = memcpyin_loop n root (dst + 1) (vsrc + 1) t"
      using f0 W(1) user_addr_nonzero [OF f0(1)] tr [of vsrc] by (simp add: ldb_def t_def)
    have sh: "a + 1 + word_of_nat i = a + word_of_nat (Suc i)" for a :: addr and i by (simp add: add.assoc)
    have ft: "ram t (f (Suc i)) = Some (b (Suc i))" if "i < j" for i
      using S(4) [of "Suc i"] S(6) [of "Suc i" 0] that Suc by (simp add: t_def)
    have IH: "\<exists>u. memcpyin_loop n root (dst + 1) (vsrc + 1) t = Inr (if j = n then 0 else - 1, u) \<and> vm_ok u root \<and>
      copied j (\<lambda>i. dst + 1 + word_of_nat i) (\<lambda>i. b (Suc i)) t u"
    proof (rule Suc.IH [OF W(2), where f = "\<lambda>i. f (Suc i)"], goal_cases)
      case 1
      then show ?case using S(2) Suc by simp
    next
      case 2
      then show ?case unfolding W(3) sh using S(3) Suc by simp
    next
      case (3 i)
      then show ?case unfolding W(3) sh using ft S(4) [of "Suc i"] Suc by simp
    next
      case (4 i)
      then show ?case unfolding W(4) sh using S(5) [of "Suc i"] Suc by simp
    next
      case (5 i i')
      then show ?case unfolding sh using S(6) [of "Suc i" "Suc i'"] Suc by simp
    next
      case 6
      show ?case unfolding sh using S(7) by (auto simp: Suc inj_on_def simp del: of_nat_Suc)
    qed
    then obtain u where u: "memcpyin_loop n root (dst + 1) (vsrc + 1) t = Inr (if j = n then 0 else - 1, u)" "vm_ok u root"
      "copied j (\<lambda>i. dst + word_of_nat (Suc i)) (\<lambda>i. b (Suc i)) t u" unfolding sh by blast
    have ne: "dst + word_of_nat (Suc i) \<noteq> dst + word_of_nat 0" if "i < j" for i
      using inj_onD [OF S(7), of "Suc i" 0] that Suc by auto
    have "copied (Suc j) (\<lambda>i. dst + word_of_nat i) b s u"
      by (rule copied_Suc [OF _ u(3) ne]) (simp_all add: t_def)
    then show ?thesis unfolding run using u(1,2) Suc by simp
  qed
qed

lemma memcpyout_correct:
  assumes "vm_ok s root" "k \<le> n" "k < n \<Longrightarrow> user_addr (ram s) root (vdst + word_of_nat k) = None"
    "\<And>i. i < k \<Longrightarrow> user_addr (ram s) root (vdst + word_of_nat i) = Some (g i) \<and> safe_place s root (g i)"
    "\<And>i. i < k \<Longrightarrow> ram s (src + word_of_nat i) = Some (b i)"
    "\<And>i j. i < k \<Longrightarrow> j < k \<Longrightarrow> g i \<noteq> src + word_of_nat j" "inj_on g {..<k}"
  shows "\<exists>t. memcpyout_loop n root vdst src s = Inr (if k = n then 0 else - 1, t) \<and> vm_ok t root \<and> copied k g b s t"
  using assms
proof (induction n arbitrary: k s vdst src g b)
  case 0
  then show ?case by (simp add: copied_def)
next
  case (Suc n)
  note tr = vm_translate_user [OF Suc.prems(1)]
  show ?case
  proof (cases k)
    case 0
    then show ?thesis using Suc.prems(1,3) tr [of vdst] by (simp add: copied_def)
  next
    case (Suc j)
    note S = Suc.prems
    define t where "t = s\<lparr>ram := (ram s)(g 0 \<mapsto> b 0)\<rparr>"
    have g0: "user_addr (ram s) root vdst = Some (g 0)" "safe_place s root (g 0)" and b0: "ram s src = Some (b 0)"
      using S(4,5) [of 0] Suc by simp_all
    note W = one_write [OF S(1) g0(2) t_def]
    have run: "memcpyout_loop (Suc n) root vdst src s = memcpyout_loop n root (vdst + 1) (src + 1) t"
      using g0(1) b0 W(1) user_addr_nonzero [OF g0(1)] tr [of vdst] by (simp add: ldb_def t_def)
    have sh: "a + 1 + word_of_nat i = a + word_of_nat (Suc i)" for a :: addr and i by (simp add: add.assoc)
    have bt: "ram t (src + word_of_nat (Suc i)) = Some (b (Suc i))" if "i < j" for i
      using S(5) [of "Suc i"] S(6) [of 0 "Suc i"] that Suc by (auto simp: t_def simp del: of_nat_Suc)
    have "\<exists>u. memcpyout_loop n root (vdst + 1) (src + 1) t = Inr (if j = n then 0 else - 1, u) \<and> vm_ok u root \<and>
      copied j (\<lambda>i. g (Suc i)) (\<lambda>i. b (Suc i)) t u"
    proof (rule Suc.IH [OF W(2)], goal_cases)
      case 1
      then show ?case using S(2) Suc by simp
    next
      case 2
      then show ?case unfolding W(3) sh using S(3) Suc by simp
    next
      case (3 i)
      then show ?case unfolding W(3,4) sh using S(4) [of "Suc i"] Suc by simp
    next
      case (4 i)
      then show ?case unfolding sh using bt by blast
    next
      case (5 i i')
      then show ?case unfolding sh using S(6) [of "Suc i" "Suc i'"] Suc by simp
    next
      case 6
      show ?case using S(7) by (auto simp: Suc inj_on_def)
    qed
    then obtain u where u: "memcpyout_loop n root (vdst + 1) (src + 1) t = Inr (if j = n then 0 else - 1, u)" "vm_ok u root"
      "copied j (\<lambda>i. g (Suc i)) (\<lambda>i. b (Suc i)) t u" by blast
    have "g (Suc i) \<noteq> g 0" if "i < j" for i using inj_onD [OF S(7), of "Suc i" 0] that Suc by auto
    then have "copied (Suc j) g b s u" by (rule copied_Suc [OF t_def u(3)])
    then show ?thesis unfolding run using u(1,2) Suc by simp
  qed
qed

section \<open>Both ways\<close>

lemma copied_keeps:
  assumes "vm_ok s root" "copied k g b s t" "\<And>i. i < k \<Longrightarrow> safe_place s root (g i)"
  shows "user_addr (ram t) root = user_addr (ram s) root" "safe_place t root = safe_place s root"
proof -
  have t: "t = s\<lparr>ram := ram t\<rparr>" "\<And>i. i < k \<Longrightarrow> ram t (g i) = Some (b i)" "\<And>a. \<forall>i<k. a \<noteq> g i \<Longrightarrow> ram t a = ram s a"
    using assms(2) by (simp_all add: copied_def)
  have o: "\<forall>x\<in>tables (ram s) root. \<forall>c. in_page x c \<longrightarrow> ram t c = ram s c"
  proof (intro ballI allI impI)
    fix x c assume "x \<in> tables (ram s) root" "in_page x c"
    then have "\<forall>i<k. c \<noteq> g i" using assms(3) by (auto simp: safe_place_def)
    then show "ram t c = ram s c" by (rule t(3))
  qed
  have d: "\<forall>c. ram s c \<noteq> None \<longrightarrow> ram t c \<noteq> None" using t(2,3) by (metis option.distinct(1))
  note W = write_outside [OF assms(1) o d]
  show "user_addr (ram t) root = user_addr (ram s) root" by (rule ext) (simp add: user_addr_def W(3))
  have "ram t a \<noteq> None \<longleftrightarrow> ram s a \<noteq> None" for a
  proof (cases "\<forall>i<k. a \<noteq> g i")
    case False
    then obtain i where "i < k" "a = g i" by auto
    then show ?thesis using t(2) assms(3) by (simp add: safe_place_def)
  qed (simp add: t(3))
  then show "safe_place t root = safe_place s root" by (simp add: safe_place_def fun_eq_iff W(2))
qed

lemma word_add_inj: "inj_on (\<lambda>i. a + word_of_nat i :: addr) {..<n}" if "n \<le> 2 ^ 64" for a
proof (rule inj_onI)
  fix i j assume a: "i \<in> {..<n}" "j \<in> {..<n}" "a + word_of_nat i = a + (word_of_nat j :: addr)"
  then have "unat (word_of_nat i :: addr) = unat (word_of_nat j :: addr)" by simp
  then show "i = j" using a(1,2) that by (simp add: unat_of_nat)
qed

end
