(* ===== verification/Object_Inv.thy ===== *)
theory Object_Inv
  imports Object_Correct
begin

text \<open>
  The invariant of all managers together, and what \<^verbatim>\<open>kmem_object_alloc\<close> and \<^verbatim>\<open>kmem_object_free\<close> do to
  it. The ghost map \<open>W\<close> lists, for every manager, its blocks in the order of their links.
\<close>

section \<open>Managers\<close>

primrec chain :: "(addr \<Rightarrow> addr) \<Rightarrow> addr \<Rightarrow> addr list \<Rightarrow> bool" where
  "chain N a [] \<longleftrightarrow> a = 0"
| "chain N a (x # xs) \<longleftrightarrow> a = x \<and> x \<noteq> 0 \<and> chain N (N x) xs"

lemma chain_cong: "(\<And>x. x \<in> set xs \<Longrightarrow> N' x = N x) \<Longrightarrow> chain N' a xs = chain N a xs"
  by (induction xs arbitrary: a) auto

type_synonym world = "addr \<rightharpoonup> obj_block list"

definition disjoint_blocks :: "world \<Rightarrow> bool" where
  "disjoint_blocks W \<longleftrightarrow> (\<forall>m bl i m' bl' i'. W m = Some bl \<longrightarrow> i < length bl \<longrightarrow> W m' = Some bl' \<longrightarrow> i' < length bl' \<longrightarrow>
     (m, i) \<noteq> (m', i') \<longrightarrow> block_pages_of (bl ! i) \<inter> block_pages_of (bl' ! i') = {})"

definition manager_inv :: "'a object_state_scheme \<Rightarrow> addr \<Rightarrow> obj_block list \<Rightarrow> bool" where
  "manager_inv s mgr bl \<longleftrightarrow> mgr \<noteq> 0 \<and> obj_size_ok (object_size (managers s mgr)) \<and>
     chain (\<lambda>a. b_nxt (blocks s a)) (mgr_blocks (managers s mgr)) (map (addr_of_block s) bl) \<and>
     (\<forall>g\<in>set bl. block_inv s mgr g)"

definition obj_heap :: "'a object_state_scheme \<Rightarrow> world \<Rightarrow> bool" where
  "obj_heap s W \<longleftrightarrow> obj_range (begin_ppn s) (npages s) \<and>
     (\<forall>mgr bl. W mgr = Some bl \<longrightarrow> manager_inv s mgr bl) \<and> disjoint_blocks W"

definition obj_inv :: "'a object_state_scheme \<Rightarrow> world \<Rightarrow> bool" where
  "obj_inv s W \<longleftrightarrow> kmem_ok s \<and> obj_heap s W \<and> (\<forall>mgr\<in>dom W. locked (mgr_lock (managers s mgr)) = 0)"

lemma block_inv_bound: "block_inv s mgr g \<Longrightarrow> block_pages_of g \<subseteq> {..<npages s} \<and> block_pages_of g \<inter> free_set s = {}"
  using pages_subset by (cases g) (auto simp: block_inv_simps block_pages_of_def)

lemma block_addr_region:
  assumes "block_inv s mgr g" "obj_range (begin_ppn s) (npages s)"
  shows "addr_of_block s g \<in> region (begin_ppn s) (block_pages_of g)"
proof -
  obtain d k fl al where g: "g = (d, k, fl, al)" by (cases g)
  have "(k + 1) * 2 ^ d \<le> npages s" using assms(1) by (simp add: g block_inv_simps)
  from in_block_region [OF _ this, of "begin_ppn s" 0] show ?thesis using assms(2)
    by (simp add: g addr_of_block_def block_pages_of_def)
qed

lemma zero_not_region: "range_ok b n \<Longrightarrow> S \<subseteq> {..<n} \<Longrightarrow> 0 \<notin> region b S"
proof
  assume a: "range_ok b n" "S \<subseteq> {..<n}" "0 \<in> region b S"
  then obtain p where p: "p < n" "0 = unat (page_va b p) div 4096" unfolding region_def by auto
  then show False using unat_page_va [OF a(1) p(1)] by simp
qed

text \<open>The heap part reads the page numbers, the free set, the headers, the blocks and two fields of a manager.\<close>

lemma obj_heap_cong:
  assumes "obj_heap s W" "begin_ppn t = begin_ppn s" "num_ppn t = num_ppn s" "free_set t = free_set s"
    "headers t = headers s" "blocks t = blocks s"
    "\<And>m. object_size (managers t m) = object_size (managers s m)" "\<And>m. mgr_blocks (managers t m) = mgr_blocks (managers s m)"
  shows "obj_heap t W"
proof -
  have "addr_of_block t = addr_of_block s" using assms(2) by (simp add: addr_of_block_def fun_eq_iff)
  moreover have "block_inv t m g = block_inv s m g" for m g using assms(2-) by (cases g) (simp add: block_inv_simps unit_of_def)
  ultimately show ?thesis using assms unfolding obj_heap_def manager_inv_def by simp
qed

text \<open>Everything about another block survives a change inside one block's pages.\<close>

lemma other_block:
  assumes g: "block_inv s m g" and S: "S \<subseteq> {..<npages s}" "block_pages_of g \<inter> S = {}" and rng: "obj_range (begin_ppn s) (npages s)"
    and eq: "begin_ppn t = begin_ppn s" "num_ppn t = num_ppn s" "object_size (managers t m) = object_size (managers s m)"
    and fs: "free_set t \<subseteq> free_set s"
    and hd: "\<And>y. y \<notin> region (begin_ppn s) S \<Longrightarrow> y \<noteq> 0 \<Longrightarrow> headers t y = headers s y"
    and bl: "\<And>y. y \<notin> region (begin_ppn s) S \<Longrightarrow> blocks t y = blocks s y"
  shows "block_inv t m g" "addr_of_block t g = addr_of_block s g" "blocks t (addr_of_block s g) = blocks s (addr_of_block s g)"
proof -
  obtain d k fl al where gg: "g = (d, k, fl, al)" by (cases g)
  note b = block_inv_bound [OF g]
  have r: "range_ok (begin_ppn s) (npages s)" using rng by simp
  have dis: "region (begin_ppn s) (block_pages_of g) \<inter> region (begin_ppn s) S = {}"
    by (rule region_disjoint [OF r _ S(1,2)]) (use b in simp)
  have z: "0 \<notin> region (begin_ppn s) (block_pages_of g)" by (rule zero_not_region [OF r]) (use b in simp)
  show ab: "addr_of_block t g = addr_of_block s g" using eq(1) by (simp add: addr_of_block_def)
  show be: "blocks t (addr_of_block s g) = blocks s (addr_of_block s g)"
    by (rule bl) (use block_addr_region [OF g rng] dis in auto)
  show "block_inv t m g" unfolding gg
  proof (rule block_inv_frame [OF g [unfolded gg] _ eq])
    show "unat (begin_ppn s) + npages s < 2 ^ 26" using rng by simp
    show "pages d k \<inter> free_set t = {}" using b fs by (auto simp: gg block_pages_of_def)
    show "headers t x = headers s x" if "x \<in> region (begin_ppn s) (pages d k)" for x
      by (rule hd) (use that dis z in \<open>auto simp: gg block_pages_of_def\<close>)
    show "\<exists>v. blocks t (blk_addr (begin_ppn s) d k) = (blocks s (blk_addr (begin_ppn s) d k))\<lparr>b_nxt := v\<rparr>"
      using be by (intro exI [of _ "b_nxt (blocks s (blk_addr (begin_ppn s) d k))"]) (simp add: gg addr_of_block_def)
  qed
qed

lemma disjoint_blocks_update:
  assumes "disjoint_blocks W" "W m = Some bl" "i < length bl" "block_pages_of g = block_pages_of (bl ! i)"
  shows "disjoint_blocks (W(m \<mapsto> bl[i := g]))"
proof -
  have *: "\<exists>b0. W m' = Some b0 \<and> length b0 = length b \<and> (\<forall>j<length b. block_pages_of (b ! j) = block_pages_of (b0 ! j))"
    if "(W(m \<mapsto> bl[i := g])) m' = Some b" for m' b
    using that assms(2-) by (cases "m' = m") (auto simp: nth_list_update split: if_splits)
  show ?thesis unfolding disjoint_blocks_def
  proof (intro allI impI)
    fix m1 b1 i1 m2 b2 i2
    assume a: "(W(m \<mapsto> bl[i := g])) m1 = Some b1" "i1 < length b1" "(W(m \<mapsto> bl[i := g])) m2 = Some b2" "i2 < length b2"
      "(m1, i1) \<noteq> (m2, i2)"
    from * [OF a(1)] * [OF a(3)] obtain c1 c2 where c: "W m1 = Some c1" "length c1 = length b1"
      "block_pages_of (b1 ! i1) = block_pages_of (c1 ! i1)" "W m2 = Some c2" "length c2 = length b2"
      "block_pages_of (b2 ! i2) = block_pages_of (c2 ! i2)" using a(2,4) by metis
    then show "block_pages_of (b1 ! i1) \<inter> block_pages_of (b2 ! i2) = {}"
      using assms(1) a(2,4,5) unfolding disjoint_blocks_def by simp
  qed
qed

text \<open>A change of one block in place.\<close>

lemma heap_update:
  assumes hp: "obj_heap s W" and W: "W m = Some bl" "i < length bl" "bl ! i = (d, k, fl, al)"
    and eq: "begin_ppn t = begin_ppn s" "num_ppn t = num_ppn s" "free_set t = free_set s"
      "\<And>m. object_size (managers t m) = object_size (managers s m)" "\<And>m. mgr_blocks (managers t m) = mgr_blocks (managers s m)"
    and hd: "\<And>y. y \<notin> region (begin_ppn s) (pages d k) \<Longrightarrow> y \<noteq> 0 \<Longrightarrow> headers t y = headers s y"
    and bk: "\<And>y. y \<noteq> blk_addr (begin_ppn s) d k \<Longrightarrow> blocks t y = blocks s y" "\<And>y. b_nxt (blocks t y) = b_nxt (blocks s y)"
    and new: "block_inv t m (d, k, fl', al')"
  shows "obj_heap t (W(m \<mapsto> bl[i := (d, k, fl', al')]))"
proof -
  let ?g = "(d, k, fl', al')" and ?W = "W(m \<mapsto> bl[i := (d, k, fl', al')])"
  have rng: "obj_range (begin_ppn s) (npages s)" and mi: "\<And>m bl. W m = Some bl \<Longrightarrow> manager_inv s m bl"
    and dj: "disjoint_blocks W" using hp by (auto simp: obj_heap_def)
  have old: "block_inv s m (d, k, fl, al)" using mi [OF W(1)] W(2,3) nth_mem by (fastforce simp: manager_inv_def)
  have S: "pages d k \<subseteq> {..<npages s}" using block_inv_bound [OF old] by (simp add: block_pages_of_def)
  have reg: "blk_addr (begin_ppn s) d k \<in> region (begin_ppn s) (pages d k)"
    using block_addr_region [OF old rng] by (simp add: addr_of_block_def block_pages_of_def)
  have ad: "addr_of_block t = addr_of_block s" using eq(1) by (simp add: addr_of_block_def fun_eq_iff)
  have oth: "block_inv t m' (b ! j)" if "W m' = Some b" "j < length b" "(m', j) \<noteq> (m, i)" for m' b j
  proof (rule other_block(1) [OF _ S _ rng eq(1,2,4)])
    show "block_inv s m' (b ! j)" using mi [OF that(1)] that(2) by (simp add: manager_inv_def)
    show "block_pages_of (b ! j) \<inter> pages d k = {}"
      using dj that W unfolding disjoint_blocks_def block_pages_of_def by fastforce
    show "blocks t y = blocks s y" if "y \<notin> region (begin_ppn s) (pages d k)" for y
      by (rule bk(1)) (use that reg in auto)
  qed (use eq hd in auto)
  have mm: "manager_inv t m' b" if a: "?W m' = Some b" for m' b
  proof -
    obtain b0 where b0: "W m' = Some b0" "length b = length b0" "map (addr_of_block s) b = map (addr_of_block s) b0"
      "\<And>j. j < length b0 \<Longrightarrow> b ! j = (if (m', j) = (m, i) then ?g else b0 ! j)"
    proof (cases "m' = m")
      case True
      have "map (addr_of_block s) (bl[i := ?g]) = map (addr_of_block s) bl"
        using W(2,3) by (intro nth_equalityI) (auto simp: nth_list_update addr_of_block_def)
      with that [of bl] True a W show thesis by (auto simp: nth_list_update)
    qed (use that [of b] a in auto)
    have "block_inv t m' g" if gb: "g \<in> set b" for g
    proof -
      obtain j where j: "j < length b0" "g = b ! j" using gb b0(2) by (auto simp: in_set_conv_nth)
      show ?thesis using b0(4) [OF j(1)] new oth [OF b0(1) j(1)] by (auto simp: j(2))
    qed
    moreover have "chain (\<lambda>a. b_nxt (blocks t a)) (mgr_blocks (managers t m')) (map (addr_of_block t) b)"
      using mi [OF b0(1)] b0(3) by (simp add: manager_inv_def ad eq bk(2))
    ultimately show ?thesis using mi [OF b0(1)] by (simp add: manager_inv_def eq)
  qed
  have "disjoint_blocks ?W" by (rule disjoint_blocks_update [OF dj W(1,2)]) (simp add: W(3) block_pages_of_def)
  then show ?thesis using mm rng unfolding obj_heap_def eq(1,2) by blast
qed

text \<open>A new block in front of a manager's list, on pages that were free.\<close>

lemma heap_add:
  assumes hp: "obj_heap s W" and W: "W m = Some bl" and pg: "pages d k \<subseteq> free_set s"
    and eq: "begin_ppn t = begin_ppn s" "num_ppn t = num_ppn s" "free_set t = free_set s - pages d k"
      "\<And>m. object_size (managers t m) = object_size (managers s m)"
      "\<And>m'. m' \<noteq> m \<Longrightarrow> mgr_blocks (managers t m') = mgr_blocks (managers s m')"
      "mgr_blocks (managers t m) = blk_addr (begin_ppn s) d k"
      "b_nxt (blocks t (blk_addr (begin_ppn s) d k)) = mgr_blocks (managers s m)"
    and hd: "\<And>y. y \<notin> region (begin_ppn s) (pages d k) \<Longrightarrow> y \<noteq> 0 \<Longrightarrow> headers t y = headers s y"
    and bk: "\<And>y. y \<noteq> blk_addr (begin_ppn s) d k \<Longrightarrow> blocks t y = blocks s y"
    and new: "block_inv t m (d, k, fl, al)"
  shows "obj_heap t (W(m \<mapsto> (d, k, fl, al) # bl))"
proof -
  let ?g = "(d, k, fl, al)" and ?W = "W(m \<mapsto> (d, k, fl, al) # bl)" and ?a = "blk_addr (begin_ppn s) d k"
  have rng: "obj_range (begin_ppn s) (npages s)" and mi: "\<And>m bl. W m = Some bl \<Longrightarrow> manager_inv s m bl"
    and dj: "disjoint_blocks W" using hp by (auto simp: obj_heap_def)
  have S: "pages d k \<subseteq> {..<npages s}" using pg by (auto simp: free_set_def)
  have ba: "?a \<in> region (begin_ppn s) (pages d k)"
    using block_addr_region [OF new] rng eq(1,2) by (simp add: addr_of_block_def block_pages_of_def)
  have off: "block_pages_of g \<inter> pages d k = {}" if "W m' = Some b" "g \<in> set b" for m' b g
    using mi [OF that(1)] that(2) block_inv_bound [of s m' g] pg by (auto simp: manager_inv_def)
  have oth: "block_inv t m' g" "addr_of_block t g = addr_of_block s g" "blocks t (addr_of_block s g) = blocks s (addr_of_block s g)"
    if "W m' = Some b" "g \<in> set b" for m' b g
  proof -
    have g: "block_inv s m' g" using mi [OF that(1)] that(2) by (simp add: manager_inv_def)
    have fs: "free_set t \<subseteq> free_set s" using eq(3) by auto
    have bl: "blocks t y = blocks s y" if "y \<notin> region (begin_ppn s) (pages d k)" for y
      by (rule bk) (use that ba in auto)
    note * = other_block [OF g S off [OF that] rng eq(1,2,4) fs hd bl]
    show "block_inv t m' g" "addr_of_block t g = addr_of_block s g" "blocks t (addr_of_block s g) = blocks s (addr_of_block s g)"
      by (rule *; assumption)+
  qed
  have old: "chain (\<lambda>a. b_nxt (blocks t a)) (mgr_blocks (managers s m')) (map (addr_of_block t) b)" if "W m' = Some b" for m' b
  proof -
    have e: "map (addr_of_block t) b = map (addr_of_block s) b" using oth(2) [OF that] by simp
    have "chain (\<lambda>a. b_nxt (blocks t a)) (mgr_blocks (managers s m')) (map (addr_of_block s) b) =
        chain (\<lambda>a. b_nxt (blocks s a)) (mgr_blocks (managers s m')) (map (addr_of_block s) b)"
      by (rule chain_cong) (use oth(3) [OF that] in auto)
    then show ?thesis unfolding e using mi [OF that] by (simp add: manager_inv_def)
  qed
  have "addr_of_block t ?g = ?a" by (simp add: addr_of_block_def eq(1))
  then have "manager_inv t m (?g # bl)"
    using old [OF W] oth(1) [OF W] mi [OF W] new eq(4,6,7) by (auto simp: manager_inv_def)
  moreover have "manager_inv t m' b" if "W m' = Some b" "m' \<noteq> m" for m' b
    using old [OF that(1)] oth(1) [OF that(1)] mi [OF that(1)] eq(4,5) that(2) by (auto simp: manager_inv_def)
  moreover have "disjoint_blocks ?W" unfolding disjoint_blocks_def
  proof (intro allI impI)
    fix m1 b1 i1 m2 b2 i2
    assume a: "?W m1 = Some b1" "i1 < length b1" "?W m2 = Some b2" "i2 < length b2" "(m1, i1) \<noteq> (m2, i2)"
    have cs: "(m' = m \<and> j = 0 \<and> b ! j = ?g) \<or> (\<exists>b0 j0. W m' = Some b0 \<and> j0 < length b0 \<and> b ! j = b0 ! j0 \<and>
        (if m' = m then j = Suc j0 else j = j0))" if "?W m' = Some b" "j < length b" for m' b j
      using that W by (cases "m' = m"; cases j) auto
    have gp: "block_pages_of ?g = pages d k" by (simp add: block_pages_of_def)
    from cs [OF a(1,2)] cs [OF a(3,4)] show "block_pages_of (b1 ! i1) \<inter> block_pages_of (b2 ! i2) = {}"
    proof (elim disjE exE conjE)
      fix c1 j1 c2 j2 assume c: "W m1 = Some c1" "j1 < length c1" "b1 ! i1 = c1 ! j1" "if m1 = m then i1 = Suc j1 else i1 = j1"
        "W m2 = Some c2" "j2 < length c2" "b2 ! i2 = c2 ! j2" "if m2 = m then i2 = Suc j2 else i2 = j2"
      then have "(m1, j1) \<noteq> (m2, j2)" using a(5) by (auto split: if_splits)
      then show ?thesis using dj c unfolding disjoint_blocks_def by simp
    next
      fix c1 j1 assume "m2 = m" "i2 = 0" "b2 ! i2 = ?g" "W m1 = Some c1" "j1 < length c1" "b1 ! i1 = c1 ! j1"
      then show ?thesis using off [of m1 c1 "c1 ! j1"] gp by simp
    next
      fix c1 j1 assume "m1 = m" "i1 = 0" "b1 ! i1 = ?g" "W m2 = Some c1" "j1 < length c1" "b2 ! i2 = c1 ! j1"
      then show ?thesis using off [of m2 c1 "c1 ! j1"] gp by (simp add: Int_commute)
    qed (use a(5) in auto)
  qed
  ultimately show ?thesis using rng unfolding obj_heap_def eq(1,2) by (auto split: if_splits)
qed

section \<open>Live objects\<close>

definition live_of :: "obj_block \<Rightarrow> addr set" where
  "live_of = (\<lambda>(d, k, fl, al). (\<lambda>x. x + 24) ` set al)"

definition live_in :: "world \<Rightarrow> addr \<Rightarrow> addr set" where
  "live_in W m = (case W m of None \<Rightarrow> {} | Some bl \<Rightarrow> \<Union>g\<in>set bl. live_of g)"

definition slots_of :: "obj_block \<Rightarrow> addr set" where
  "slots_of = (\<lambda>(d, k, fl, al). set fl \<union> set al)"

lemma live_in_nth: "W m = Some bl \<Longrightarrow> live_in W m = (\<Union>i<length bl. live_of (bl ! i))"
proof -
  assume "W m = Some bl"
  moreover have "set bl = (\<lambda>i. bl ! i) ` {..<length bl}" by (auto simp: set_conv_nth)
  ultimately show ?thesis by (simp add: live_in_def)
qed

lemma slots_region:
  assumes "obj_range (begin_ppn s) (npages s)" "block_inv s m g"
  shows "slots_of g \<subseteq> region (begin_ppn s) (block_pages_of g)"
proof -
  obtain d k fl al where g: "g = (d, k, fl, al)" by (cases g)
  have "(k + 1) * 2 ^ d \<le> npages s" "slots_of g = set (slot_list (blk_addr (begin_ppn s) d k) (unit_of m s) d)"
    using assms(2) by (simp_all add: g block_inv_simps slots_of_def)
  then show ?thesis using block_headers_region(1) [of "begin_ppn s" "npages s" k d "unit_of m s"] assms(1)
    by (simp add: g block_pages_of_def unit_of_def)
qed

text \<open>A slot belongs to one block only.\<close>

lemma slot_owner:
  assumes hp: "obj_heap s W" and W: "W m = Some bl" "i < length bl" "W m' = Some bl'" "i' < length bl'"
    and x: "x \<in> slots_of (bl ! i)" "x \<in> slots_of (bl' ! i')"
  shows "m = m' \<and> i = i'"
proof (rule ccontr)
  assume "\<not> (m = m' \<and> i = i')"
  then have "(m, i) \<noteq> (m', i')" by simp
  then have dis: "block_pages_of (bl ! i) \<inter> block_pages_of (bl' ! i') = {}"
    using hp W unfolding obj_heap_def disjoint_blocks_def by blast
  have rng: "obj_range (begin_ppn s) (npages s)" using hp by (simp add: obj_heap_def)
  have g: "block_inv s m (bl ! i)" "block_inv s m' (bl' ! i')" using hp W by (auto simp: obj_heap_def manager_inv_def)
  have "range_ok (begin_ppn s) (npages s)" using rng by simp
  from region_disjoint [OF this _ _ dis] block_inv_bound [OF g(1)] block_inv_bound [OF g(2)]
  have "region (begin_ppn s) (block_pages_of (bl ! i)) \<inter> region (begin_ppn s) (block_pages_of (bl' ! i')) = {}" by blast
  then show False using slots_region [OF rng g(1)] slots_region [OF rng g(2)] x by blast
qed

lemma live_slot: "x + 24 \<in> live_of g \<longleftrightarrow> x \<in> set (snd (snd (snd g)))"
  by (cases g) (auto simp: live_of_def)

lemma live_slots_of: "x + 24 \<in> live_of g \<Longrightarrow> x \<in> slots_of g"
  by (cases g) (auto simp: live_of_def slots_of_def)

lemma live_in_update:
  assumes "W m = Some bl" "i < length bl"
  shows "live_in (W(m \<mapsto> bl[i := g])) m' =
    (if m' = m then live_of g \<union> (\<Union>j\<in>{..<length bl} - {i}. live_of (bl ! j)) else live_in W m')"
proof (cases "m' = m")
  case True
  have "live_in (W(m \<mapsto> bl[i := g])) m = (\<Union>j<length bl. live_of (bl[i := g] ! j))" by (subst live_in_nth) auto
  also have "\<dots> = live_of g \<union> (\<Union>j\<in>{..<length bl} - {i}. live_of (bl ! j))"
    using assms(2) by (auto simp: nth_list_update split: if_splits)
  finally show ?thesis using True by simp
qed (simp add: live_in_def)

lemma live_in_split:
  assumes "W m = Some bl" "i < length bl"
  shows "live_in W m = live_of (bl ! i) \<union> (\<Union>j\<in>{..<length bl} - {i}. live_of (bl ! j))"
  using assms(2) by (subst live_in_nth [of W m bl, OF assms(1)]) auto

lemma live_of_move: "live_of (d, k, fl, x # al) = insert (x + 24) (live_of (d, k, x # fl, al))"
  "distinct al \<Longrightarrow> live_of (d, k, x # fl, remove1 x al) = live_of (d, k, fl, al) - {x + 24}"
  by (auto simp: live_of_def)

section \<open>Taking a slot\<close>

lemma alloc_in_heap:
  assumes hp: "obj_heap s W" and W: "W m = Some bl" "i < length bl" "bl ! i = (d, k, x # fl, al)"
  obtains h B t where "t = s\<lparr>headers := h, blocks := B\<rparr>"
    "kmem_object_alloc_from_block (addr_of_block s (bl ! i)) s = Inr (x + 24, t)"
    "obj_heap t (W(m \<mapsto> bl[i := (d, k, fl, x # al)]))"
proof -
  have rng: "obj_range (begin_ppn s) (npages s)" and mi: "manager_inv s m bl" using hp W(1) by (auto simp: obj_heap_def)
  have inv: "block_inv s m (d, k, x # fl, al)" using mi W(2,3) nth_mem by (fastforce simp: manager_inv_def)
  have top: "unat (begin_ppn s) + npages s < 2 ^ 26" using rng by simp
  let ?a = "blk_addr (begin_ppn s) d k"
  obtain h where h: "kmem_object_alloc_from_block ?a s = Inr (x + 24, set_block ?a (\<lambda>b. b\<lparr>b_used := b_used b + 1\<rparr>) (s\<lparr>headers := h\<rparr>))"
    "block_inv (set_block ?a (\<lambda>b. b\<lparr>b_used := b_used b + 1\<rparr>) (s\<lparr>headers := h\<rparr>)) m (d, k, fl, x # al)"
    "\<And>y. y \<notin> region (begin_ppn s) (pages d k) \<Longrightarrow> y \<noteq> 0 \<Longrightarrow> h y = headers s y"
    by (rule take_slot [OF inv top]) (rule that)
  let ?t = "set_block ?a (\<lambda>b. b\<lparr>b_used := b_used b + 1\<rparr>) (s\<lparr>headers := h\<rparr>)"
  have hp': "obj_heap ?t (W(m \<mapsto> bl[i := (d, k, fl, x # al)]))"
    by (rule heap_update [OF hp W _ _ _ _ _ _ _ _ h(2)]) (auto simp: set_block_def h(3))
  have "?t = s\<lparr>headers := h, blocks := blocks ?t\<rparr>" by (simp add: set_block_def)
  from that [OF this _ hp'] show thesis using h(1) by (simp add: W(3) addr_of_block_def)
qed

definition has_slot :: "obj_block \<Rightarrow> bool" where
  "has_slot = (\<lambda>(d, k, fl, al). fl \<noteq> [])"

lemma addr_of_block_nonzero [simp]: "addr_of_block s g \<noteq> 0"
  by (cases g) (simp add: addr_of_block_def)

lemma find_block_correct:
  assumes "\<forall>g\<in>set bl. block_inv s m g" "chain (\<lambda>a. b_nxt (blocks s a)) a (map (addr_of_block s) bl)"
  shows "(\<exists>i acc'. i < length bl \<and> has_slot (bl ! i) \<and> find_block u a acc s = ret (addr_of_block s (bl ! i), acc')) \<or>
    (\<exists>acc'. find_block u a acc s = ret (0, acc') \<and> (\<forall>g\<in>set bl. \<not> has_slot g))"
  using assms
proof (induction bl arbitrary: a acc)
  case Nil
  then show ?case by (auto simp: find_block.simps)
next
  case (Cons g bl)
  obtain d k fl al where g: "g = (d, k, fl, al)" by (cases g)
  have a: "a = addr_of_block s g" "a = blk_addr (begin_ppn s) d k" using Cons.prems(2) by (auto simp: g addr_of_block_def)
  have "hl.carries (headers s) (free_slots a) fl" using Cons.prems(1) a(2) by (simp add: g block_inv_simps)
  from dlist_first [OF this] dlist_nonzero [OF this]
  have nx: "h_nxt (headers s (free_slots a)) \<noteq> 0 \<longleftrightarrow> has_slot g" by (cases fl) (auto simp: g has_slot_def)
  show ?case
  proof (cases "has_slot g")
    case True
    then have "find_block u a acc s = ret (addr_of_block s g, acc)" using nx a(1) by (subst find_block.simps) simp
    then show ?thesis using True by auto
  next
    case False
    have f: "find_block u a acc s = find_block u (b_nxt (blocks s a)) (acc + b_used (blocks s a) * u) s"
      using nx a(1) False by (subst find_block.simps) simp
    have "chain (\<lambda>a. b_nxt (blocks s a)) (b_nxt (blocks s a)) (map (addr_of_block s) bl)" using Cons.prems(2) by simp
    from Cons.IH [OF _ this, of "acc + b_used (blocks s a) * u"] Cons.prems(1) show ?thesis
      unfolding f using False by (auto intro: exI [of _ "Suc _"])
  qed
qed

text \<open>The object handed out was not live before, and is the only new one.\<close>

lemma taken_slot_live:
  assumes hp: "obj_heap s W" and W: "W m = Some bl" "i < length bl" "bl ! i = (d, k, x # fl, al)"
  shows "live_in (W(m \<mapsto> bl[i := (d, k, fl, x # al)])) m' = (if m' = m then insert (x + 24) (live_in W m) else live_in W m')"
    "x + 24 \<notin> live_in W m'"
proof -
  show "live_in (W(m \<mapsto> bl[i := (d, k, fl, x # al)])) m' = (if m' = m then insert (x + 24) (live_in W m) else live_in W m')"
    unfolding live_in_update [of W m bl i, OF W(1,2)] live_in_split [of W m bl i, OF W(1,2)] W(3) live_of_move by simp
  have inv: "block_inv s m (d, k, x # fl, al)"
    using hp W nth_mem by (fastforce simp: obj_heap_def manager_inv_def)
  have nal: "x \<notin> set al" using inv by (auto simp: block_inv_simps)
  have xs: "x \<in> slots_of (bl ! i)" by (simp add: W(3) slots_of_def)
  show "x + 24 \<notin> live_in W m'"
  proof (cases "W m'")
    case (Some bl')
    have "x + 24 \<notin> live_of (bl' ! j)" if "j < length bl'" for j
    proof
      assume "x + 24 \<in> live_of (bl' ! j)"
      moreover from slot_owner [of s W m bl i m' bl' j, OF hp W(1,2) Some that xs live_slots_of [OF this]] have "m = m'" "i = j" by simp_all
      ultimately show False using Some W nal by (auto simp: live_of_def)
    qed
    then show ?thesis using live_in_nth [of W m' bl', OF Some] by simp
  qed (simp add: live_in_def)
qed

end
