(* ===== verification/Object_Alloc.thy ===== *)
theory Object_Alloc
  imports Object_Inv
begin

text \<open>
  What \<^verbatim>\<open>kmem_object_alloc\<close> and \<^verbatim>\<open>kmem_object_free\<close> promise, lock and new blocks included.
\<close>

section \<open>New blocks for a manager\<close>

definition fresh_block :: "'a object_state_scheme \<Rightarrow> addr \<Rightarrow> nat \<Rightarrow> nat \<Rightarrow> 'a object_state_scheme \<Rightarrow> bool" where
  "fresh_block s mgr d k t \<longleftrightarrow> (\<exists>w h b. let a = blk_addr (begin_ppn s) d k in
     page_frame s w \<and> kmem_ok w \<and> t = set_block a (\<lambda>_. b) (w\<lparr>headers := h\<rparr>) \<and>
     free_set w = free_set s - pages d k \<and> pages d k \<subseteq> free_set s \<and>
     block_inv t mgr (d, k, slot_list a (unit_of mgr s) d, []) \<and>
     (\<forall>y. y \<notin> region (begin_ppn s) (pages d k) \<longrightarrow> h y = headers s y))"

lemma fresh_block_trans:
  assumes "page_frame s s'" "free_set s' = free_set s" "cpu_ok s" "fresh_block s' mgr d k t"
  shows "fresh_block s mgr d k t"
proof -
  have e: "begin_ppn s' = begin_ppn s" "headers s' = headers s" "unit_of mgr s' = unit_of mgr s"
    using page_frame_fields [OF assms(1)] page_frame_object [OF assms(1)] by (simp_all add: unit_of_def)
  show ?thesis using assms(4) page_frame_trans [OF assms(1) _ assms(3)]
    unfolding fresh_block_def Let_def e assms(2) by blast
qed

lemma block_capacity_eq:
  assumes "d < MAX_MEM_ORDER"
  shows "unat (block_capacity d) = 2 ^ (d + 12) - 96"
proof -
  have "d < 11" using assms by (simp add: MAX_MEM_ORDER_def)
  then have "d = 0 \<or> d = 1 \<or> d = 2 \<or> d = 3 \<or> d = 4 \<or> d = 5 \<or> d = 6 \<or> d = 7 \<or> d = 8 \<or> d = 9 \<or> d = 10" by presburger
  then show ?thesis
    by (auto simp: block_capacity_def BINARY_ROUND_DOWN_def sizeof_block_def OBJECT_ALIGNMENT_def PAGE_SHIFT_def)
qed

lemma unit_size_eq:
  assumes "obj_size_ok (object_size (managers s mgr))"
  shows "unat (object_size (managers s mgr) + sizeof_header) = unit_of mgr s"
  using assms by (simp add: obj_size_ok_def unit_of_def sizeof_header_def unat_word_ariths)

lemma capacity_slots:
  assumes "d < MAX_MEM_ORDER" "block_capacity d \<ge> usz" "unat usz = u" "0 < u"
  shows "slot_list a u d \<noteq> []"
proof -
  have "u \<le> 2 ^ (d + 12) - 96" using assms(2,3) block_capacity_eq [OF assms(1)] by (simp add: word_le_nat_alt)
  then have "0 < slot_count u d" using assms(4) by (simp add: slot_count_def div_greater_zero_iff)
  then show ?thesis by (simp add: slot_list_def)
qed

lemma capacity_mono: "d < MAX_MEM_ORDER \<Longrightarrow> block_capacity 0 \<le> block_capacity d"
proof -
  assume d: "d < MAX_MEM_ORDER"
  have "(2 :: nat) ^ 12 \<le> 2 ^ (d + 12)" by (rule power_increasing) simp_all
  then have "(2 :: nat) ^ (0 + 12) - 96 \<le> 2 ^ (d + 12) - 96" by simp
  moreover have "0 < MAX_MEM_ORDER" by (simp add: MAX_MEM_ORDER_def)
  ultimately show ?thesis unfolding word_le_nat_alt using block_capacity_eq [OF d] block_capacity_eq [of 0] by presburger
qed

lemma create_block_fresh:
  assumes "kmem_ok s" "obj_range (begin_ppn s) (npages s)" "d < MAX_MEM_ORDER" "obj_size_ok (object_size (managers s mgr))"
  obtains (none) t where "kmem_object_create_block mgr (word_of_nat d) (object_size (managers s mgr)) s = ret (0, t)"
      "kmem_ok t" "page_frame s t" "free_set t = free_set s" "\<And>k. \<not> pages d k \<subseteq> free_set s"
  | (block) k t where "kmem_object_create_block mgr (word_of_nat d) (object_size (managers s mgr)) s =
      ret (blk_addr (begin_ppn s) d k, t)" "fresh_block s mgr d k t"
proof -
  have d: "unat (word_of_nat d :: ulong) = d" using assms(3) by (intro unat_of_nat64) (simp add: MAX_MEM_ORDER_def)
  have lt: "unat (word_of_nat d :: ulong) < MAX_MEM_ORDER" using d assms(3) by simp
  show thesis
  proof (cases rule: create_block_correct [OF assms(1,2) lt assms(4) refl, unfolded d, case_names none block])
    case (none t)
    then show thesis by (rule that(1))
  next
    case (block k w h t)
    have "fresh_block s mgr d k t" unfolding fresh_block_def Let_def using block(2-) by blast
    with block(1) show thesis by (rule that(2))
  qed
qed

lemma try_blocks_correct:
  assumes "kmem_ok s" "obj_range (begin_ppn s) (npages s)" "n < MAX_MEM_ORDER" "obj_size_ok (object_size (managers s mgr))"
    "usz = object_size (managers s mgr) + sizeof_header"
  shows "(\<exists>t. try_blocks n mgr usz s = ret (0, t) \<and> kmem_ok t \<and> page_frame s t \<and> free_set t = free_set s \<and>
      (block_capacity 0 \<ge> usz \<longrightarrow> free_set s = {})) \<or>
    (\<exists>d k t. try_blocks n mgr usz s = ret (blk_addr (begin_ppn s) d k, t) \<and> fresh_block s mgr d k t \<and>
      slot_list (blk_addr (begin_ppn s) d k) (unit_of mgr s) d \<noteq> [])"
  using assms
proof (induction n arbitrary: s)
  case 0
  note u = unit_size_eq [OF "0.prems"(4)]
  have pos: "0 < unit_of mgr s" by (simp add: unit_of_def)
  show ?case
  proof (cases "block_capacity 0 \<ge> usz")
    case False
    then show ?thesis using 0 pa.same_refl [of s] by auto
  next
    case True
    have sl: "slot_list a (unit_of mgr s) 0 \<noteq> []" for a
      by (rule capacity_slots [OF "0.prems"(3) True]) (use u "0.prems"(5) pos in simp_all)
    show ?thesis
    proof (rule create_block_fresh [OF "0.prems"(1-4)])
      fix t assume t: "kmem_object_create_block mgr (word_of_nat 0) (object_size (managers s mgr)) s = ret (0, t)"
        "kmem_ok t" "page_frame s t" "free_set t = free_set s" "\<And>k. \<not> pages 0 k \<subseteq> free_set s"
      have "pages 0 p \<subseteq> free_set s" if "p \<in> free_set s" for p using that by (auto simp: pages_range le_less_Suc_eq)
      then have "free_set s = {}" using t(5) by blast
      then show ?thesis using t True by simp
    next
      fix k t assume "kmem_object_create_block mgr (word_of_nat 0) (object_size (managers s mgr)) s = ret (blk_addr (begin_ppn s) 0 k, t)"
        "fresh_block s mgr 0 k t"
      then show ?thesis using True sl by (intro disjI2) auto
    qed
  qed
next
  case (Suc n)
  note u = unit_size_eq [OF Suc.prems(4)]
  have pos: "0 < unit_of mgr s" by (simp add: unit_of_def)
  show ?case
  proof (cases "block_capacity (Suc n) \<ge> usz")
    case False
    then have "\<not> block_capacity 0 \<ge> usz" using capacity_mono [OF Suc.prems(3)] by (meson order_trans)
    then show ?thesis using False Suc.prems(1) pa.same_refl [of s] by auto
  next
    case True
    have sl: "slot_list a (unit_of mgr s) (Suc n) \<noteq> []" for a
      by (rule capacity_slots [OF Suc.prems(3) True]) (use u Suc.prems(5) pos in simp_all)
    show ?thesis
    proof (rule create_block_fresh [OF Suc.prems(1-4)])
      fix t assume t: "kmem_object_create_block mgr (word_of_nat (Suc n)) (object_size (managers s mgr)) s = ret (0, t)"
        "kmem_ok t" "page_frame s t" "free_set t = free_set s"
      have r: "try_blocks (Suc n) mgr usz s = try_blocks n mgr usz t" using True t(1) by simp
      have e: "begin_ppn t = begin_ppn s" "num_ppn t = num_ppn s" "managers t = managers s" "unit_of mgr t = unit_of mgr s"
        using page_frame_fields [OF t(3)] page_frame_object [OF t(3)] by (simp_all add: unit_of_def)
      have c: "cpu_ok s" using kmem_ok_lock [OF Suc.prems(1)] by simp
      from Suc.IH [of t] t(2) Suc.prems e show ?thesis
        unfolding r using page_frame_trans [OF t(3) _ c] fresh_block_trans [OF t(3,4) c] t(4) by auto
    next
      fix k t assume "kmem_object_create_block mgr (word_of_nat (Suc n)) (object_size (managers s mgr)) s =
          ret (blk_addr (begin_ppn s) (Suc n) k, t)" "fresh_block s mgr (Suc n) k t"
      then show ?thesis using True sl by (intro disjI2) auto
    qed
  qed
qed

lemma raise_order_less: "n < MAX_MEM_ORDER \<Longrightarrow> raise_order a n < MAX_MEM_ORDER"
proof (induction a n rule: raise_order.induct)
  case (1 a n)
  then show ?case by (subst raise_order.simps) auto
qed

section \<open>The manager's lock\<close>

lemma manager_section:
  fixes s :: "'a object_state_scheme"
  assumes "cpu_ok s" "locked (mgr_lock (managers s mgr)) = 0"
  obtains x H lk lk' H' where
    "acquire_manager mgr s = Inr (set_manager mgr (mgr_lock_update (\<lambda>_. lk)) (s\<lparr>sstatus := x, harts := H\<rparr>))"
    "cpu_ok (s\<lparr>sstatus := x, harts := H\<rparr>)" "locked lk' = 0"
    "\<And>t :: 'a object_state_scheme. cpu_eq (s\<lparr>sstatus := x, harts := H\<rparr>) t \<Longrightarrow> mgr_lock (managers t mgr) = lk \<Longrightarrow>
       release_manager mgr t = Inr (set_manager mgr (mgr_lock_update (\<lambda>_. lk')) (t\<lparr>sstatus := sstatus s, harts := H'\<rparr>))"
    "\<And>t :: 'a object_state_scheme. tp t = tp s \<Longrightarrow> sstatus t = sstatus s \<Longrightarrow> harts t = H' \<Longrightarrow> cpu_eq s t"
proof -
  let ?lk = "mgr_lock (managers s mgr)"
  obtain x H H' where l:
    "spinlock_acquire ?lk s = Inr (?lk\<lparr>locked := 1, lk_hart := Some (current_hart s)\<rparr>, s\<lparr>sstatus := x, harts := H\<rparr>)"
    "cpu_ok (s\<lparr>sstatus := x, harts := H\<rparr>)"
    "\<And>t :: 'a object_state_scheme. cpu_eq (s\<lparr>sstatus := x, harts := H\<rparr>) t \<Longrightarrow>
       spinlock_release (?lk\<lparr>locked := 1, lk_hart := Some (current_hart s)\<rparr>) t =
       Inr (?lk\<lparr>locked := 0, lk_hart := None\<rparr>, t\<lparr>sstatus := sstatus s, harts := H'\<rparr>)"
    "\<And>t :: 'a object_state_scheme. tp t = tp s \<Longrightarrow> sstatus t = sstatus s \<Longrightarrow> harts t = H' \<Longrightarrow> cpu_eq s t"
    by (rule lock_roundtrip [OF assms]) blast
  show thesis
    by (rule that [where x = x and H = H and lk = "?lk\<lparr>locked := 1, lk_hart := Some (current_hart s)\<rparr>"
      and lk' = "?lk\<lparr>locked := 0, lk_hart := None\<rparr>" and H' = H'])
      (auto simp: acquire_manager_def release_manager_def l)
qed

text \<open>What an operation on objects leaves alone.\<close>

definition obj_frame :: "'a object_state_scheme \<Rightarrow> 'a object_state_scheme \<Rightarrow> bool" where
  "obj_frame s t \<longleftrightarrow> cpu_eq s t \<and> begin_ppn t = begin_ppn s \<and> num_ppn t = num_ppn s \<and>
     (\<forall>m. object_size (managers t m) = object_size (managers s m))"

lemma object_section:
  fixes s :: "'a object_state_scheme"
  assumes inv: "obj_inv s W" and m: "W mgr = Some bl"
  obtains s1 where "acquire_manager mgr s = Inr s1" "kmem_ok s1" "obj_heap s1 W" "headers s1 = headers s" "blocks s1 = blocks s"
    "begin_ppn s1 = begin_ppn s" "num_ppn s1 = num_ppn s" "free_set s1 = free_set s"
    "\<And>m. object_size (managers s1 m) = object_size (managers s m)"
    "\<And>t W'. kmem_ok t \<Longrightarrow> obj_heap t W' \<Longrightarrow> dom W' = dom W \<Longrightarrow> cpu_eq s1 t \<Longrightarrow> begin_ppn t = begin_ppn s \<Longrightarrow> num_ppn t = num_ppn s \<Longrightarrow>
       (\<And>m. mgr_lock (managers t m) = mgr_lock (managers s1 m)) \<Longrightarrow> (\<And>m. object_size (managers t m) = object_size (managers s m)) \<Longrightarrow>
       \<exists>u. release_manager mgr t = Inr u \<and> obj_inv u W' \<and> obj_frame s u"
proof -
  have ok: "kmem_ok s" and hp: "obj_heap s W" and lk: "\<And>m. m \<in> dom W \<Longrightarrow> locked (mgr_lock (managers s m)) = 0"
    using inv by (auto simp: obj_inv_def)
  have c: "cpu_ok s" using kmem_ok_lock [OF ok] by simp
  have ml: "locked (mgr_lock (managers s mgr)) = 0" using lk m by blast
  obtain x H l l' H' where L:
    "acquire_manager mgr s = Inr (set_manager mgr (mgr_lock_update (\<lambda>_. l)) (s\<lparr>sstatus := x, harts := H\<rparr>))"
    "cpu_ok (s\<lparr>sstatus := x, harts := H\<rparr>)" "locked l' = 0"
    "\<And>t :: 'a object_state_scheme. cpu_eq (s\<lparr>sstatus := x, harts := H\<rparr>) t \<Longrightarrow> mgr_lock (managers t mgr) = l \<Longrightarrow>
       release_manager mgr t = Inr (set_manager mgr (mgr_lock_update (\<lambda>_. l')) (t\<lparr>sstatus := sstatus s, harts := H'\<rparr>))"
    "\<And>t :: 'a object_state_scheme. tp t = tp s \<Longrightarrow> sstatus t = sstatus s \<Longrightarrow> harts t = H' \<Longrightarrow> cpu_eq s t"
    by (rule manager_section [OF c ml]) blast
  define s1 where "s1 = set_manager mgr (mgr_lock_update (\<lambda>_. l)) (s\<lparr>sstatus := x, harts := H\<rparr>)"
  have c1: "cpu_ok s1" by (rule cpu_ok_cong [OF L(2)]) (simp_all add: s1_def set_manager_def)
  have ok1: "kmem_ok s1" by (rule kmem_ok_cong [OF ok]) (use c1 kmem_ok_lock [OF ok] in \<open>simp_all add: s1_def set_manager_def\<close>)
  have hp1: "obj_heap s1 W" by (rule obj_heap_cong [OF hp]) (simp_all add: s1_def set_manager_def free_set_def)
  have fin: "\<exists>u. release_manager mgr t = Inr u \<and> obj_inv u W' \<and> obj_frame s u"
    if t: "kmem_ok t" "obj_heap t W'" "dom W' = dom W" "cpu_eq s1 t" "begin_ppn t = begin_ppn s" "num_ppn t = num_ppn s"
      "\<And>m. mgr_lock (managers t m) = mgr_lock (managers s1 m)" "\<And>m. object_size (managers t m) = object_size (managers s m)" for t W'
  proof -
    let ?u = "set_manager mgr (mgr_lock_update (\<lambda>_. l')) (t\<lparr>sstatus := sstatus s, harts := H'\<rparr>)"
    have ch: "current_hart s1 = current_hart (s\<lparr>sstatus := x, harts := H\<rparr>)"
      by (rule current_hart_cong) (simp add: s1_def set_manager_def)
    have "cpu_eq (s\<lparr>sstatus := x, harts := H\<rparr>) t"
      using t(4) unfolding cpu_eq_def ch by (simp add: s1_def set_manager_def)
    moreover have "mgr_lock (managers t mgr) = l" by (simp add: t(7) s1_def set_manager_def)
    ultimately have r: "release_manager mgr t = Inr ?u" by (rule L(4))
    have tps: "tp t = tp s" using t(4) by (simp add: cpu_eq_def s1_def set_manager_def)
    have ce: "cpu_eq s ?u" by (rule L(5)) (simp_all add: set_manager_def tps)
    have "kmem_ok ?u"
      by (rule kmem_ok_cong [OF t(1)]) (use cpu_eq_ok [OF ce c] kmem_ok_lock [OF t(1)] in \<open>simp_all add: set_manager_def\<close>)
    moreover have "obj_heap ?u W'" by (rule obj_heap_cong [OF t(2)]) (simp_all add: set_manager_def free_set_def)
    moreover have "locked (mgr_lock (managers ?u m)) = 0" if "m \<in> dom W'" for m
      using lk [of m] that t(3) L(3) by (simp add: set_manager_def t(7) s1_def)
    ultimately have "obj_inv ?u W'" by (simp add: obj_inv_def)
    moreover have "obj_frame s ?u" using ce t(5,6,8) by (simp add: obj_frame_def set_manager_def)
    ultimately show ?thesis using r by blast
  qed
  show thesis
    by (rule that [OF L(1) [folded s1_def] ok1 hp1 _ _ _ _ _ _ fin]) (simp_all add: s1_def set_manager_def free_set_def)
qed

section \<open>Allocation\<close>

lemma fresh_heap:
  assumes hp: "obj_heap s W" and W: "W m = Some bl" and fr: "fresh_block s m d k t" and ok: "kmem_ok s"
    and t2: "t2 = set_manager m (mgr_blocks_update (\<lambda>_. blk_addr (begin_ppn s) d k))
      (set_block (blk_addr (begin_ppn s) d k) (b_nxt_update (\<lambda>_. mgr_blocks (managers t m))) t)"
  shows "obj_heap t2 (W(m \<mapsto> (d, k, slot_list (blk_addr (begin_ppn s) d k) (unit_of m s) d, []) # bl))" "kmem_ok t2" "cpu_eq s t2"
    "begin_ppn t2 = begin_ppn s" "num_ppn t2 = num_ppn s" "\<And>m'. mgr_lock (managers t2 m') = mgr_lock (managers s m')"
    "\<And>m'. object_size (managers t2 m') = object_size (managers s m')" "managers t m = managers s m"
proof -
  let ?a = "blk_addr (begin_ppn s) d k"
  let ?g = "(d, k, slot_list ?a (unit_of m s) d, [])"
  obtain w h b where w: "page_frame s w" "kmem_ok w" "t = set_block ?a (\<lambda>_. b) (w\<lparr>headers := h\<rparr>)"
    "free_set w = free_set s - pages d k" "pages d k \<subseteq> free_set s" "block_inv t m ?g"
    "\<And>y. y \<notin> region (begin_ppn s) (pages d k) \<Longrightarrow> h y = headers s y"
    using fr unfolding fresh_block_def Let_def by blast
  note wf = page_frame_object [OF w(1)] page_frame_fields [OF w(1)]
  have rng: "obj_range (begin_ppn s) (npages s)" using hp by (simp add: obj_heap_def)
  have tf: "begin_ppn t = begin_ppn s" "num_ppn t = num_ppn s" "managers t = managers s" "headers t = h" "free_set t = free_set s - pages d k"
    "\<And>y. y \<noteq> ?a \<Longrightarrow> blocks t y = blocks s y"
    using wf w(4) by (simp_all add: w(3) set_block_def)
  show mt: "managers t m = managers s m" by (simp add: tf(3))
  show f: "begin_ppn t2 = begin_ppn s" "num_ppn t2 = num_ppn s" "\<And>m'. mgr_lock (managers t2 m') = mgr_lock (managers s m')"
    "\<And>m'. object_size (managers t2 m') = object_size (managers s m')"
    by (simp_all add: t2 set_manager_def set_block_def tf)
  have fs: "free_set t2 = free_set s - pages d k" using tf(5) by (simp add: t2 set_manager_def set_block_def)
  have "block_inv t2 m ?g"
    by (rule block_inv_frame [OF w(6)])
      (use rng f tf fs in \<open>auto simp: t2 set_manager_def set_block_def\<close>)
  then show "obj_heap t2 (W(m \<mapsto> ?g # bl))"
    by (rule heap_add [OF hp W w(5) f(1,2) fs f(4), rotated -1])
      (auto simp: t2 set_manager_def set_block_def tf w(7))
  have "kmem_ok t" using w(2) by (simp add: w(3) set_block_def)
  then show "kmem_ok t2" by (simp add: t2 set_manager_def set_block_def)
  have "cpu_eq w t2" by (rule cpu_eq_same) (simp_all add: t2 w(3) set_manager_def set_block_def)
  then show "cpu_eq s t2" using cpu_eq_trans [OF wf(4)] kmem_ok_lock [OF ok] by blast
qed

lemma live_in_add: "W m = Some bl \<Longrightarrow> live_in (W(m \<mapsto> (d, k, fl, []) # bl)) m' = live_in W m'"
  by (simp add: live_in_def live_of_def)

lemma object_alloc_correct:
  fixes s :: "'a object_state_scheme"
  assumes inv: "obj_inv s W" and W: "W mgr = Some bl"
  obtains (none) t where "kmem_object_alloc mgr s = ret (0, t)" "obj_inv t W" "obj_frame s t"
      "\<forall>g\<in>set bl. \<not> has_slot g" "block_capacity 0 \<ge> object_size (managers s mgr) + sizeof_header \<Longrightarrow> free_set s = {}"
  | (some) x t W' where "kmem_object_alloc mgr s = ret (x + 24, t)" "obj_inv t W'" "obj_frame s t" "dom W' = dom W"
      "\<And>m. live_in W' m = (if m = mgr then insert (x + 24) (live_in W mgr) else live_in W m)" "\<And>m. x + 24 \<notin> live_in W m"
proof -
  obtain s1 where s1: "acquire_manager mgr s = Inr s1" "kmem_ok s1" "obj_heap s1 W" "headers s1 = headers s" "blocks s1 = blocks s"
    "begin_ppn s1 = begin_ppn s" "num_ppn s1 = num_ppn s" "free_set s1 = free_set s"
    "\<And>m. object_size (managers s1 m) = object_size (managers s m)"
    and fin: "\<And>t W'. kmem_ok t \<Longrightarrow> obj_heap t W' \<Longrightarrow> dom W' = dom W \<Longrightarrow> cpu_eq s1 t \<Longrightarrow> begin_ppn t = begin_ppn s \<Longrightarrow> num_ppn t = num_ppn s \<Longrightarrow>
       (\<And>m. mgr_lock (managers t m) = mgr_lock (managers s1 m)) \<Longrightarrow> (\<And>m. object_size (managers t m) = object_size (managers s m)) \<Longrightarrow>
       \<exists>u. release_manager mgr t = Inr u \<and> obj_inv u W' \<and> obj_frame s u"
    by (rule object_section [OF inv W]) blast
  let ?u = "object_size (managers s mgr) + sizeof_header"
  have mi: "manager_inv s1 mgr bl" and rng: "obj_range (begin_ppn s1) (npages s1)" using s1(3) W by (auto simp: obj_heap_def)
  have m0: "mgr \<noteq> 0" using mi by (simp add: manager_inv_def)
  have take: thesis if t: "obj_heap t V" "kmem_ok t" "cpu_eq s1 t" "begin_ppn t = begin_ppn s" "num_ppn t = num_ppn s"
      "\<And>m. mgr_lock (managers t m) = mgr_lock (managers s1 m)" "\<And>m. object_size (managers t m) = object_size (managers s m)"
      and V: "V mgr = Some bl'" "i < length bl'" "has_slot (bl' ! i)" "dom V = dom W" "\<And>m. live_in V m = live_in W m"
      and run: "kmem_object_alloc mgr s = bindM (Some (kmem_object_alloc_from_block (addr_of_block t (bl' ! i)) t)) (\<lambda>(a, s).
        bindM (Some (release_manager mgr s)) (\<lambda>s. ret (a, s)))" for t V bl' i
  proof -
    obtain d k x fl al where g: "bl' ! i = (d, k, x # fl, al)" using V(3)
      by (cases "bl' ! i") (auto simp: has_slot_def neq_Nil_conv)
    obtain h B v where v: "v = t\<lparr>headers := h, blocks := B\<rparr>"
      "kmem_object_alloc_from_block (addr_of_block t (bl' ! i)) t = Inr (x + 24, v)"
      "obj_heap v (V(mgr \<mapsto> bl'[i := (d, k, fl, x # al)]))"
      by (rule alloc_in_heap [OF t(1) V(1,2) g]) (rule that)
    have "cpu_eq t v" by (rule cpu_eq_same) (simp_all add: v(1))
    then have ce: "cpu_eq s1 v" using cpu_eq_trans [OF t(3)] kmem_ok_lock [OF s1(2)] by blast
    have "kmem_ok v" using t(2) by (simp add: v(1))
    from fin [OF this v(3) _ ce] obtain u where u: "release_manager mgr v = Inr u"
      "obj_inv u (V(mgr \<mapsto> bl'[i := (d, k, fl, x # al)]))" "obj_frame s u"
      using t(4-7) V(1,4) insert_absorb [of mgr "dom W"] W by (auto simp: v(1))
    note lv = taken_slot_live [OF t(1) V(1,2) g]
    show thesis
      by (rule some [OF _ u(2,3)]) (use run v(2) u(1) V lv in auto)
  qed
  have ch: "chain (\<lambda>a. b_nxt (blocks s1 a)) (mgr_blocks (managers s1 mgr)) (map (addr_of_block s1) bl)"
    and bi: "\<forall>g\<in>set bl. block_inv s1 mgr g" using mi by (simp_all add: manager_inv_def)
  have c1: "cpu_eq s1 s1" by (rule cpu_eq_refl)
  from find_block_correct [OF bi ch, of ?u 0] show thesis
  proof (elim disjE exE conjE)
    fix i acc assume f: "i < length bl" "has_slot (bl ! i)"
      "find_block ?u (mgr_blocks (managers s1 mgr)) 0 s1 = ret (addr_of_block s1 (bl ! i), acc)"
    show thesis
      by (rule take [OF s1(3,2) c1 s1(6,7) _ s1(9) W f(1,2)])
        (use f(3) s1(1) m0 in \<open>auto simp: kmem_object_alloc_def Let_def\<close>)
  next
    fix acc assume f: "find_block ?u (mgr_blocks (managers s1 mgr)) 0 s1 = ret (0, acc)" "\<forall>g\<in>set bl. \<not> has_slot g"
    define n where "n = raise_order (if acc < ?u * 4 then ?u * 4 else acc) 0"
    have n: "n < MAX_MEM_ORDER" unfolding n_def by (rule raise_order_less) (simp add: MAX_MEM_ORDER_def)
    have os: "obj_size_ok (object_size (managers s1 mgr))" using mi by (simp add: manager_inv_def)
    have us: "?u = object_size (managers s1 mgr) + sizeof_header" by (simp add: s1(9))
    have run: "kmem_object_alloc mgr s = bindM (try_blocks n mgr ?u s1) (\<lambda>(b, s).
        bindM (if b = 0 then ret (0, s) else Some (kmem_object_alloc_from_block b
          (set_manager mgr (mgr_blocks_update (\<lambda>_. b)) (set_block b (b_nxt_update (\<lambda>_. mgr_blocks (managers s mgr))) s)))) (\<lambda>(a, s).
        bindM (Some (release_manager mgr s)) (\<lambda>s. ret (a, s))))"
      unfolding kmem_object_alloc_def Let_def n_def using s1(1) m0 f(1) by (simp add: bindM_assoc case_prod_unfold)
    from try_blocks_correct [OF s1(2) rng n os us] show thesis
    proof (elim disjE exE conjE)
      fix t assume t: "try_blocks n mgr ?u s1 = ret (0, t)" "kmem_ok t" "page_frame s1 t" "free_set t = free_set s1"
        "block_capacity 0 \<ge> ?u \<longrightarrow> free_set s1 = {}"
      note tf = page_frame_object [OF t(3)] page_frame_fields [OF t(3)]
      have "obj_heap t W" by (rule obj_heap_cong [OF s1(3)]) (use tf t(4) in simp_all)
      from fin [OF t(2) this refl tf(4)] obtain u where "release_manager mgr t = Inr u" "obj_inv u W" "obj_frame s u"
        using tf s1(6,7,9) by auto
      then show thesis using none run t(1,5) f(2) s1(8) by simp
    next
      fix d k t assume t: "try_blocks n mgr ?u s1 = ret (blk_addr (begin_ppn s1) d k, t)" "fresh_block s1 mgr d k t"
        "slot_list (blk_addr (begin_ppn s1) d k) (unit_of mgr s1) d \<noteq> []"
      let ?a = "blk_addr (begin_ppn s1) d k"
      let ?g = "(d, k, slot_list ?a (unit_of mgr s1) d, [])"
      define t2 where "t2 = set_manager mgr (mgr_blocks_update (\<lambda>_. ?a)) (set_block ?a (b_nxt_update (\<lambda>_. mgr_blocks (managers t mgr))) t)"
      note T = fresh_heap [OF s1(3) W t(2) s1(2) t2_def]
      have ad: "addr_of_block t2 ?g = ?a" by (simp add: addr_of_block_def T(4))
      have "kmem_object_alloc mgr s = bindM (Some (kmem_object_alloc_from_block (addr_of_block t2 ((?g # bl) ! 0)) t2)) (\<lambda>(a, s).
          bindM (Some (release_manager mgr s)) (\<lambda>s. ret (a, s)))"
        unfolding run t(1) nth_Cons_0 ad by (simp add: t2_def)
      then show thesis
        by (intro take [OF T(1-3) _ _ T(6), of "?g # bl" 0])
          (use T(4,5,7) s1(6,7,9) t(3) W live_in_add [of W mgr bl, OF W] in \<open>auto simp: has_slot_def\<close>)
    qed
  qed
qed

section \<open>Release\<close>

lemma object_free_correct:
  fixes s :: "'a object_state_scheme"
  assumes inv: "obj_inv s W" and a: "a \<in> live_in W mgr"
  obtains t W' where "kmem_object_free a s = Inr t" "obj_inv t W'" "obj_frame s t" "dom W' = dom W"
    "\<And>m. live_in W' m = (if m = mgr then live_in W mgr - {a} else live_in W m)"
proof -
  have hp0: "obj_heap s W" using inv by (simp add: obj_inv_def)
  obtain bl where W: "W mgr = Some bl" using a by (auto simp: live_in_def split: option.splits)
  obtain i where i: "i < length bl" "a \<in> live_of (bl ! i)" using a by (auto simp: live_in_nth [of W mgr bl, OF W])
  obtain d k fl al where g: "bl ! i = (d, k, fl, al)" by (cases "bl ! i")
  obtain x where x: "x \<in> set al" "a = x + 24" using i(2) by (auto simp: g live_of_def)
  obtain s1 where s1: "acquire_manager mgr s = Inr s1" "kmem_ok s1" "obj_heap s1 W" "headers s1 = headers s" "blocks s1 = blocks s"
    "begin_ppn s1 = begin_ppn s" "num_ppn s1 = num_ppn s" "free_set s1 = free_set s"
    "\<And>m. object_size (managers s1 m) = object_size (managers s m)"
    and fin: "\<And>t W'. kmem_ok t \<Longrightarrow> obj_heap t W' \<Longrightarrow> dom W' = dom W \<Longrightarrow> cpu_eq s1 t \<Longrightarrow> begin_ppn t = begin_ppn s \<Longrightarrow> num_ppn t = num_ppn s \<Longrightarrow>
       (\<And>m. mgr_lock (managers t m) = mgr_lock (managers s1 m)) \<Longrightarrow> (\<And>m. object_size (managers t m) = object_size (managers s m)) \<Longrightarrow>
       \<exists>u. release_manager mgr t = Inr u \<and> obj_inv u W' \<and> obj_frame s u"
    by (rule object_section [OF inv W]) blast
  have rng: "unat (begin_ppn s1) + npages s1 < 2 ^ 26" and bi: "block_inv s1 mgr (d, k, fl, al)"
    using s1(3) W i(1) g nth_mem by (fastforce simp: obj_heap_def manager_inv_def)+
  let ?b = "blk_addr (begin_ppn s1) d k"
  obtain h1 h where h: "kmem_object_header_detach x (headers s1) = Inr h1" "parent_block (h1 x) = ?b"
    "kmem_object_header_insert (free_slots ?b) x h1 = Inr h" "parent_block (headers s1 x) = ?b" "parent_block (h x) = ?b"
    "block_inv (set_block ?b (\<lambda>b. b\<lparr>b_used := b_used b - 1\<rparr>) (s1\<lparr>headers := h\<rparr>)) mgr (d, k, x # fl, remove1 x al)"
    "\<And>y. y \<notin> region (begin_ppn s1) (pages d k) \<Longrightarrow> y \<noteq> 0 \<Longrightarrow> h y = headers s1 y"
    by (rule put_slot [OF bi rng x(1)]) (rule that)
  let ?t = "set_block ?b (\<lambda>b. b\<lparr>b_used := b_used b - 1\<rparr>) (s1\<lparr>headers := h\<rparr>)"
  let ?W = "W(mgr \<mapsto> bl[i := (d, k, x # fl, remove1 x al)])"
  have pm: "parent_manager (blocks s1 ?b) = mgr" using bi by (simp add: block_inv_simps)
  have hp: "obj_heap ?t ?W"
    by (rule heap_update [OF s1(3) W i(1) g _ _ _ _ _ _ _ _ h(6)]) (auto simp: set_block_def h(7))
  have "kmem_ok ?t" using s1(2) by (simp add: set_block_def)
  moreover have "cpu_eq s1 ?t" by (rule cpu_eq_same) (simp_all add: set_block_def)
  moreover have dom: "dom ?W = dom W" using W by auto
  ultimately obtain u where u: "release_manager mgr ?t = Inr u" "obj_inv u ?W" "obj_frame s u"
    using fin [of ?t ?W] hp s1(6,7,9) by (auto simp: set_block_def)
  have nz: "x \<noteq> 0" "?b \<noteq> 0"
    using h(1,3) by (auto simp: kmem_object_header_detach_def kmem_object_header_insert_def free_slots_def split: if_splits)
  have m0: "mgr \<noteq> 0" using s1(3) W by (auto simp: obj_heap_def manager_inv_def)
  have "kmem_object_free a s = Inr u"
    using s1(1) h(1-5) u(1) pm nz m0 by (simp add: kmem_object_free_def Let_def x(2) sizeof_header_def s1(4,5))
  moreover have "live_in ?W m = (if m = mgr then live_in W mgr - {a} else live_in W m)" for m
  proof -
    have d: "distinct al" using bi by (simp add: block_inv_simps dlist_def)
    have xs: "x \<in> slots_of (bl ! i)" using x(1) by (simp add: g slots_of_def)
    have "a \<notin> live_of (bl ! j)" if "j < length bl" "j \<noteq> i" for j
    proof
      assume "a \<in> live_of (bl ! j)"
      then have "x \<in> slots_of (bl ! j)" unfolding x(2) by (rule live_slots_of)
      from slot_owner [of s W mgr bl i mgr bl j, OF hp0 W i(1) W that(1) xs this] that(2) show False by simp
    qed
    then show ?thesis unfolding live_in_update [of W mgr bl i, OF W i(1)] live_in_split [of W mgr bl i, OF W i(1)] g
        live_of_move(2) [OF d] x(2) by auto
  qed
  ultimately show thesis using that u(2,3) dom by blast
qed

end
