(* ===== verification/Object_Props.thy ===== *)
theory Object_Props
  imports Object_Alloc
begin

text \<open>
  What the object allocator promises to its callers: objects that are live at the same time never share
  a byte, in any history of allocations and releases.
\<close>

section \<open>The bytes of an object\<close>

definition obj_bytes :: "'a object_state_scheme \<Rightarrow> addr \<Rightarrow> addr \<Rightarrow> nat set" where
  "obj_bytes s mgr a = {unat a..<unat a + unat (object_size (managers s mgr))}"

definition page_bytes :: "'a kmem_node_scheme \<Rightarrow> nat set \<Rightarrow> nat set" where
  "page_bytes s S = (\<Union>p\<in>S. {unat (page_va (begin_ppn s) p)..<unat (page_va (begin_ppn s) p) + 4096})"

text \<open>Where a live object lies: slot \<open>j\<close> of its block.\<close>

lemma live_place:
  assumes hp: "obj_heap s W" and W: "W m = Some bl" "i < length bl" "a \<in> live_of (bl ! i)" "bl ! i = (d, k, fl, al)"
  obtains j where "j < slot_count (unit_of m s) d" "a = slot_at (blk_addr (begin_ppn s) d k) (unit_of m s) j + 24"
    "obj_bytes s m a = {unat (blk_addr (begin_ppn s) d k) + 96 + j * unit_of m s + 24..<
       unat (blk_addr (begin_ppn s) d k) + 96 + (j + 1) * unit_of m s}"
    "(j + 1) * unit_of m s + 96 \<le> 2 ^ (d + 12)"
proof -
  let ?b = "blk_addr (begin_ppn s) d k" and ?u = "unit_of m s"
  have rng: "unat (begin_ppn s) + npages s < 2 ^ 26" using hp by (simp add: obj_heap_def)
  have inv: "block_inv s m (d, k, fl, al)" using hp W nth_mem by (fastforce simp: obj_heap_def manager_inv_def)
  then have k: "(k + 1) * 2 ^ d \<le> npages s" and sl: "set al \<subseteq> set (slot_list ?b ?u d)" by (auto simp: block_inv_simps)
  obtain x where x: "x \<in> set al" "a = x + 24" using W(3) by (auto simp: W(4) live_of_def)
  then obtain j where j: "j < slot_count ?u d" "x = slot_at ?b ?u j" using sl by (auto simp: slot_list_def)
  have e: "96 + j * ?u + ?u \<le> 2 ^ (d + 12)" by (rule slot_end [OF j(1)])
  then have "96 + j * ?u + 24 \<le> 2 ^ (d + 12)" by (simp add: unit_of_def)
  from unat_in_block(1) [OF rng k this] have "unat a = unat ?b + (96 + j * ?u + 24)"
    by (simp add: x(2) j(2) slot_at_def algebra_simps)
  then have "obj_bytes s m a = {unat ?b + 96 + j * ?u + 24..<unat ?b + 96 + (j + 1) * ?u}"
    by (simp add: obj_bytes_def unit_of_def algebra_simps)
  then show thesis using that [OF j(1)] x(2) j(2) e by (simp add: algebra_simps)
qed

lemma block_span:
  assumes "obj_range (begin_ppn s) (npages s)" "(k + 1) * 2 ^ d \<le> npages s" "unat (blk_addr (begin_ppn s) d k) \<le> n"
    "n < unat (blk_addr (begin_ppn s) d k) + 2 ^ (d + 12)"
  shows "n \<in> page_bytes s (pages d k)"
proof -
  let ?b = "unat (blk_addr (begin_ppn s) d k)"
  define q where "q = (n - ?b) div 4096"
  have n: "n = ?b + q * 4096 + (n - ?b) mod 4096" using assms(3) by (simp add: q_def)
  have "(2 :: nat) ^ (d + 12) = 2 ^ d * 4096" by (simp add: power_add)
  then have "n - ?b < 2 ^ d * 4096" using assms(3,4) by simp
  then have q: "q < 2 ^ d" unfolding q_def by (rule less_mult_imp_div_less)
  then have p: "k * 2 ^ d + q \<in> pages d k" by (simp add: pages_range)
  then have pn: "k * 2 ^ d + q < npages s" using pages_subset [OF assms(2)] by auto
  have r: "range_ok (begin_ppn s) (npages s)" and top: "unat (begin_ppn s) + npages s < 2 ^ 26" using assms(1) by simp_all
  have "unat (page_va (begin_ppn s) (k * 2 ^ d + q)) = ?b + q * 4096"
    using unat_page_va [OF r pn] unat_in_block(2) [OF top assms(2), of 0] by simp
  moreover have "(n - ?b) mod 4096 < 4096" by simp
  ultimately show ?thesis unfolding page_bytes_def using p n
    by (intro UN_I [of "k * 2 ^ d + q"]) (simp_all only: atLeastLessThan_iff, linarith)
qed

lemma page_index_less:
  fixes p q :: nat
  assumes "n < c + (p + b) * 4096 + 4096" "c + (q + b) * 4096 \<le> n"
  shows "\<not> p < q"
proof
  assume "p < q"
  then have "(Suc p + b) * 4096 \<le> (q + b) * 4096" by (intro mult_le_mono1) simp
  then show False using assms by simp
qed

lemma page_index_unique:
  fixes p q :: nat
  assumes "c + (p + b) * 4096 \<le> n" "n < c + (p + b) * 4096 + 4096" "c + (q + b) * 4096 \<le> n" "n < c + (q + b) * 4096 + 4096"
  shows "p = q"
  using page_index_less [OF assms(2,3)] page_index_less [OF assms(4,1)] by simp

lemma page_bytes_disjoint:
  assumes "range_ok (begin_ppn s) (npages s)" "S \<subseteq> {..<npages s}" "T \<subseteq> {..<npages s}" "S \<inter> T = {}"
  shows "page_bytes s S \<inter> page_bytes s T = {}"
proof -
  have "p = q" if "p \<in> S" "q \<in> T" "unat (page_va (begin_ppn s) p) \<le> n" "n < unat (page_va (begin_ppn s) p) + 4096"
    "unat (page_va (begin_ppn s) q) \<le> n" "n < unat (page_va (begin_ppn s) q) + 4096" for p q n
  proof -
    have "p < npages s" "q < npages s" using that(1,2) assms(2,3) by auto
    note u = unat_page_va [OF assms(1) this(1)] unat_page_va [OF assms(1) this(2)]
    show ?thesis by (rule page_index_unique [OF that(3-6) [unfolded u]])
  qed
  then show ?thesis using assms(4) unfolding page_bytes_def by (auto simp: disjoint_iff)
qed

lemma live_in_pages:
  assumes hp: "obj_heap s W" and W: "W m = Some bl" "i < length bl" "a \<in> live_of (bl ! i)"
  shows "obj_bytes s m a \<subseteq> page_bytes s (block_pages_of (bl ! i))"
proof -
  obtain d k fl al where g: "bl ! i = (d, k, fl, al)" by (cases "bl ! i")
  have rng: "obj_range (begin_ppn s) (npages s)" and inv: "block_inv s m (d, k, fl, al)"
    using hp W g nth_mem by (fastforce simp: obj_heap_def manager_inv_def)+
  have k: "(k + 1) * 2 ^ d \<le> npages s" using inv by (simp add: block_inv_simps)
  obtain j where j: "obj_bytes s m a = {unat (blk_addr (begin_ppn s) d k) + 96 + j * unit_of m s + 24..<
       unat (blk_addr (begin_ppn s) d k) + 96 + (j + 1) * unit_of m s}" "(j + 1) * unit_of m s + 96 \<le> 2 ^ (d + 12)"
    by (rule live_place [OF hp W g]) (rule that)
  show ?thesis unfolding j(1) g block_pages_of_def prod.case
    by (rule subsetI, rule block_span [OF rng k]) (use j(2) in auto)
qed

lemma live_disjoint:
  assumes hp: "obj_heap s W" and a: "a \<in> live_in W m" "a' \<in> live_in W m'" "(m, a) \<noteq> (m', a')"
  shows "obj_bytes s m a \<inter> obj_bytes s m' a' = {}"
proof -
  obtain bl bl' where W: "W m = Some bl" "W m' = Some bl'" using a by (auto simp: live_in_def split: option.splits)
  obtain i i' where i: "i < length bl" "a \<in> live_of (bl ! i)" "i' < length bl'" "a' \<in> live_of (bl' ! i')"
    using a live_in_nth [of W m bl, OF W(1)] live_in_nth [of W m' bl', OF W(2)] by auto
  have rng: "range_ok (begin_ppn s) (npages s)" using hp by (simp add: obj_heap_def)
  have bi: "block_inv s m (bl ! i)" "block_inv s m' (bl' ! i')" using hp W i by (auto simp: obj_heap_def manager_inv_def)
  show ?thesis
  proof (cases "(m, i) = (m', i')")
    case False
    then have "block_pages_of (bl ! i) \<inter> block_pages_of (bl' ! i') = {}"
      using hp W i unfolding obj_heap_def disjoint_blocks_def by blast
    from page_bytes_disjoint [OF rng _ _ this] block_inv_bound [OF bi(1)] block_inv_bound [OF bi(2)]
    have "page_bytes s (block_pages_of (bl ! i)) \<inter> page_bytes s (block_pages_of (bl' ! i')) = {}" by blast
    then show ?thesis using live_in_pages [OF hp W(1) i(1,2)] live_in_pages [OF hp W(2) i(3,4)] by blast
  next
    case True
    then have eq: "m' = m" "bl' = bl" "i' = i" using W by auto
    obtain d k fl al where g: "bl ! i = (d, k, fl, al)" by (cases "bl ! i")
    let ?u = "unit_of m s" and ?b = "blk_addr (begin_ppn s) d k"
    obtain j where j: "a = slot_at ?b ?u j + 24" "obj_bytes s m a = {unat ?b + 96 + j * ?u + 24..<unat ?b + 96 + (j + 1) * ?u}"
      by (rule live_place [OF hp W(1) i(1,2) g]) (rule that)
    obtain j' where j': "a' = slot_at ?b ?u j' + 24" "obj_bytes s m a' = {unat ?b + 96 + j' * ?u + 24..<unat ?b + 96 + (j' + 1) * ?u}"
      by (rule live_place [OF hp W(1) i(1) i(4) [unfolded eq] g]) (rule that)
    have "j \<noteq> j'" using a(3) j(1) j'(1) eq(1) by auto
    then have "(j + 1) * ?u \<le> j' * ?u \<or> (j' + 1) * ?u \<le> j * ?u" by (metis Suc_eq_plus1 Suc_leI linorder_neqE_nat mult_le_mono1)
    then show ?thesis unfolding eq(1) j(2) j'(2) by auto
  qed
qed

lemma live_used_pages:
  assumes hp: "obj_heap s W" and a: "a \<in> live_in W m"
  shows "obj_bytes s m a \<inter> page_bytes s (free_set s) = {}"
proof -
  obtain bl where W: "W m = Some bl" using a by (auto simp: live_in_def split: option.splits)
  obtain i where i: "i < length bl" "a \<in> live_of (bl ! i)" using a live_in_nth [of W m bl, OF W] by auto
  have rng: "range_ok (begin_ppn s) (npages s)" using hp by (simp add: obj_heap_def)
  have bi: "block_inv s m (bl ! i)" using hp W i by (auto simp: obj_heap_def manager_inv_def)
  have "free_set s \<subseteq> {..<npages s}" by (auto simp: free_set_def)
  from page_bytes_disjoint [OF rng _ this] block_inv_bound [OF bi]
  have "page_bytes s (block_pages_of (bl ! i)) \<inter> page_bytes s (free_set s) = {}" by blast
  then show ?thesis using live_in_pages [OF hp W i] by blast
qed

section \<open>Histories\<close>

text \<open>
  A client of the managers \<open>M\<close> holds a set of objects with their managers. It allocates, is told that
  there is no memory, or frees an object it holds.
\<close>

inductive obj_step :: "addr set \<Rightarrow> 'a object_state_scheme \<times> (addr \<times> addr) set \<Rightarrow> 'a object_state_scheme \<times> (addr \<times> addr) set \<Rightarrow> bool"
  for M where
  obj_alloc: "mgr \<in> M \<Longrightarrow> kmem_object_alloc mgr s = ret (a, t) \<Longrightarrow> a \<noteq> 0 \<Longrightarrow> obj_step M (s, L) (t, insert (mgr, a) L)"
| obj_full: "mgr \<in> M \<Longrightarrow> kmem_object_alloc mgr s = ret (0, t) \<Longrightarrow> obj_step M (s, L) (t, L)"
| obj_free: "(mgr, a) \<in> L \<Longrightarrow> kmem_object_free a s = Inr t \<Longrightarrow> obj_step M (s, L) (t, L - {(mgr, a)})"

definition client_world :: "addr set \<Rightarrow> 'a object_state_scheme \<times> (addr \<times> addr) set \<Rightarrow> bool" where
  "client_world M = (\<lambda>(s, L). \<exists>W. obj_inv s W \<and> dom W = M \<and> (\<forall>m. live_in W m = {a. (m, a) \<in> L}))"

lemma live_nonzero:
  assumes "obj_heap s W" "a \<in> live_in W m" shows "a \<noteq> 0"
proof
  assume a0: "a = 0"
  obtain bl where W: "W m = Some bl" using assms(2) by (auto simp: live_in_def split: option.splits)
  obtain i where i: "i < length bl" "a \<in> live_of (bl ! i)" using assms(2) live_in_nth [of W m bl, OF W] by auto
  obtain d k fl al where g: "bl ! i = (d, k, fl, al)" by (cases "bl ! i")
  have rng: "unat (begin_ppn s) + npages s < 2 ^ 26" and k: "(k + 1) * 2 ^ d \<le> npages s"
    using assms(1) W i(1) g nth_mem by (fastforce simp: obj_heap_def manager_inv_def block_inv_simps)+
  obtain j where j: "j < slot_count (unit_of m s) d" "a = slot_at (blk_addr (begin_ppn s) d k) (unit_of m s) j + 24"
    by (rule live_place [OF assms(1) W i g]) (rule that)
  have "96 + j * unit_of m s + 24 \<le> 2 ^ (d + 12)" using slot_end [OF j(1)] by (simp add: unit_of_def)
  from unat_in_block(1) [OF rng k this] have "unat a = unat (blk_addr (begin_ppn s) d k) + (96 + j * unit_of m s + 24)"
    by (simp add: j(2) slot_at_def algebra_simps)
  then show False by (simp add: a0)
qed

lemma client_world_step:
  assumes "obj_step M x y" "client_world M x"
  shows "client_world M y"
  using assms
proof (induction rule: obj_step.induct)
  case (obj_alloc mgr s a t L)
  then obtain W where W: "obj_inv s W" "dom W = M" "\<And>m. live_in W m = {a. (m, a) \<in> L}" by (auto simp: client_world_def)
  obtain bl where bl: "W mgr = Some bl" using W(2) obj_alloc(1) by blast
  show ?case
  proof (cases rule: object_alloc_correct [OF W(1) bl, case_names none some])
    case (some x u W')
    then have "a = x + 24" "u = t" using obj_alloc(2) by auto
    moreover have "live_in W' m = {b. (m, b) \<in> insert (mgr, a) L}" for m
      using some(5) [of m] W(3) calculation(1) by auto
    ultimately show ?thesis using some(2,4) W(2) unfolding client_world_def by auto
  qed (use obj_alloc in auto)
next
  case (obj_full mgr s t L)
  then obtain W where W: "obj_inv s W" "dom W = M" "\<And>m. live_in W m = {a. (m, a) \<in> L}" by (auto simp: client_world_def)
  obtain bl where bl: "W mgr = Some bl" using W(2) obj_full(1) by blast
  show ?case
  proof (cases rule: object_alloc_correct [OF W(1) bl, case_names none some])
    case (none u)
    then have "u = t" using obj_full(2) by auto
    then show ?thesis using none(2) W(2,3) unfolding client_world_def by auto
  next
    case (some x u W')
    have "x + 24 \<in> live_in W' mgr" using some(5) by simp
    moreover have "obj_heap u W'" using some(2) by (simp add: obj_inv_def)
    ultimately have "x + 24 \<noteq> 0" by (rule live_nonzero [rotated])
    then show ?thesis using some(1) obj_full(2) by auto
  qed
next
  case (obj_free mgr a L s t)
  then obtain W where W: "obj_inv s W" "dom W = M" "\<And>m. live_in W m = {a. (m, a) \<in> L}" by (auto simp: client_world_def)
  have a: "a \<in> live_in W mgr" using obj_free(1) W(3) by simp
  show ?case
  proof (rule object_free_correct [OF W(1) a])
    fix u W' assume u: "kmem_object_free a s = Inr u" "obj_inv u W'" "dom W' = dom W"
      "\<And>m. live_in W' m = (if m = mgr then live_in W mgr - {a} else live_in W m)"
    then have "u = t" using obj_free(2) by simp
    moreover have "live_in W' m = {b. (m, b) \<in> L - {(mgr, a)}}" for m using u(4) [of m] W(3) by auto
    ultimately show ?thesis using u(2,3) W(2) unfolding client_world_def by auto
  qed
qed

section \<open>A machine with one manager\<close>

definition sample_managers :: "addr \<Rightarrow> object_manager" where
  "sample_managers = (\<lambda>_. \<lparr>block_name = ''umgr-32'', object_size = 32, mgr_lock = spinlock_init '''', mgr_blocks = 0, mgr_nxt = 0\<rparr>)"

lemma sample_objects:
  "\<exists>s :: object_state. obj_inv s [0x1000 \<mapsto> []] \<and> free_set s = {..<8} \<and> managers s = sample_managers"
proof -
  obtain n :: kmem_node where n: "kmem_ok n" "free_set n = {..<8}" "begin_ppn n = 0x80000" "npages n = 8"
    using sample_free by blast
  define s :: object_state where "s = kmem_node.extend n \<lparr>headers = (\<lambda>_. \<lparr>parent_block = 0, h_prv = 0, h_nxt = 0\<rparr>),
    blocks = (\<lambda>_. \<lparr>b_nxt = 0, b_used = 0, b_total = 0, b_object_size = 0, page_count = 0, parent_manager = 0\<rparr>),
    managers = sample_managers, object_manager_lock = spinlock_init '''', object_manager_at = 0x2000, uni_managers = 0x3000,
    list_node_object_manager = 0\<rparr>"
  have f: "begin_ppn s = begin_ppn n" "num_ppn s = num_ppn n" "mem_map s = mem_map n" "free_areas s = free_areas n"
    "list_mem s = list_mem n" "page_manager_lock s = page_manager_lock n" "tp s = tp n" "sstatus s = sstatus n" "harts s = harts n"
    "managers s = sample_managers"
    by (simp_all add: s_def kmem_node.defs)
  have "cpu_ok s" by (rule cpu_ok_cong [of n]) (use kmem_ok_lock [OF n(1)] f in simp_all)
  then have "kmem_ok s" by (intro kmem_ok_cong [OF n(1)]) (use f kmem_ok_lock [OF n(1)] in simp_all)
  moreover have "obj_heap s [0x1000 \<mapsto> []]"
    using n(3,4) f(1,2,10) by (auto simp: obj_heap_def manager_inv_def disjoint_blocks_def sample_managers_def obj_size_ok_def split: if_splits)
  moreover have "locked (mgr_lock (managers s m)) = 0" for m by (simp add: f(10) sample_managers_def spinlock_init_def)
  ultimately have "obj_inv s [0x1000 \<mapsto> []]" by (simp add: obj_inv_def)
  moreover have "free_set s = {..<8}" using n(2) f(2,3) by (simp add: free_set_def)
  ultimately show ?thesis using f(10) by blast
qed

lemma sample_fits: "block_capacity 0 \<ge> object_size (sample_managers m) + sizeof_header" "{..<8 :: nat} \<noteq> {}"
proof -
  show "block_capacity 0 \<ge> object_size (sample_managers m) + sizeof_header"
    by (simp add: sample_managers_def block_capacity_def sizeof_header_def sizeof_block_def BINARY_ROUND_DOWN_def
        OBJECT_ALIGNMENT_def PAGE_SHIFT_def)
  have "0 \<in> {..<8 :: nat}" by simp
  then show "{..<8 :: nat} \<noteq> {}" by blast
qed

lemma sample_alloc:
  "\<exists>(s :: object_state) a t W. obj_inv s [0x1000 \<mapsto> []] \<and> kmem_object_alloc 0x1000 s = ret (a, t) \<and> obj_inv t W \<and>
     live_in W 0x1000 = {a} \<and> a \<noteq> 0"
proof -
  obtain s :: object_state where s: "obj_inv s [0x1000 \<mapsto> []]" "free_set s = {..<8}" "managers s = sample_managers"
    using sample_objects by blast
  have W: "[0x1000 \<mapsto> []] 0x1000 = Some []" by simp
  show ?thesis
  proof (cases rule: object_alloc_correct [OF s(1) W, case_names none some])
    case (some x t W')
    then have l: "live_in W' 0x1000 = {x + 24}" "obj_heap t W'" by (simp_all add: live_in_def obj_inv_def)
    then show ?thesis using s(1) some(1,2) live_nonzero [OF l(2)] by blast
  qed (use sample_fits s(2,3) in simp)
qed

section \<open>Properties\<close>

text \<open>C4. On every state with the allocator's invariant, \<^verbatim>\<open>kmem_object_alloc\<close> returns and keeps the invariant. It
  returns \<^verbatim>\<open>NULL\<close> and changes no object, or a new object of the manager: one that was not live before, in
  this or any other manager, and is the only change to the live objects. If a slot fits a page and a page
  is free, or the manager has a free slot, the result is not \<^verbatim>\<open>NULL\<close>.\<close>

theorem kmem_object_alloc_spec:
  assumes "obj_inv s W" "W mgr = Some bl"
  shows "\<exists>a t W'. kmem_object_alloc mgr s = ret (a, t) \<and> obj_inv t W' \<and> obj_frame s t \<and> dom W' = dom W \<and>
    (if a = 0 then W' = W else (\<forall>m. a \<notin> live_in W m) \<and> live_in W' = (live_in W)(mgr := insert a (live_in W mgr))) \<and>
    ((block_capacity 0 \<ge> object_size (managers s mgr) + sizeof_header \<and> free_set s \<noteq> {}) \<or> (\<exists>g\<in>set bl. has_slot g) \<longrightarrow> a \<noteq> 0)"
proof (cases rule: object_alloc_correct [OF assms, case_names none some])
  case (none t)
  then show ?thesis by (intro exI [of _ 0] exI [of _ t] exI [of _ W]) auto
next
  case (some x t W')
  have "x + 24 \<in> live_in W' mgr" using some(5) by simp
  moreover have "obj_heap t W'" using some(2) by (simp add: obj_inv_def)
  ultimately have "x + 24 \<noteq> 0" by (rule live_nonzero [rotated])
  moreover have "live_in W' = (live_in W)(mgr := insert (x + 24) (live_in W mgr))" using some(5) by (auto simp: fun_eq_iff)
  ultimately show ?thesis using some by (intro exI [of _ "x + 24"] exI [of _ t] exI [of _ W']) simp
qed

theorem kmem_object_alloc_spec_witness:
  "\<exists>(s :: object_state) a t W'. obj_inv s [0x1000 \<mapsto> []] \<and> kmem_object_alloc 0x1000 s = ret (a, t) \<and> a \<noteq> 0 \<and>
     obj_inv t W' \<and> live_in W' 0x1000 = {a}"
proof -
  obtain s :: object_state where s: "obj_inv s [0x1000 \<mapsto> []]" "free_set s = {..<8}" "managers s = sample_managers"
    using sample_objects by blast
  have u: "block_capacity 0 \<ge> object_size (managers s 0x1000) + sizeof_header \<and> free_set s \<noteq> {}"
    unfolding s(2,3) using sample_fits by blast
  obtain a t W' where t: "kmem_object_alloc 0x1000 s = ret (a, t)" "obj_inv t W'"
    "if a = 0 then W' = [0x1000 \<mapsto> []] else (\<forall>m. a \<notin> live_in [0x1000 \<mapsto> []] m) \<and>
       live_in W' = (live_in [0x1000 \<mapsto> []])(0x1000 := insert a (live_in [0x1000 \<mapsto> []] 0x1000))"
    "block_capacity 0 \<ge> object_size (managers s 0x1000) + sizeof_header \<and> free_set s \<noteq> {} \<longrightarrow> a \<noteq> 0"
    using kmem_object_alloc_spec [OF s(1), of "0x1000" "[]"] by auto
  have "a \<noteq> 0" using t(4) u by blast
  moreover have "live_in W' 0x1000 = {a}" using t(3) calculation by (simp add: live_in_def)
  ultimately show ?thesis using s(1) t(1,2) by blast
qed

text \<open>C6. Freeing a live object succeeds, keeps the invariant and removes that object, and only it, from the
  live ones: after an allocation it gives back the live objects of before.\<close>

theorem kmem_object_free_spec:
  assumes "obj_inv s W" "a \<in> live_in W mgr"
  shows "\<exists>t W'. kmem_object_free a s = Inr t \<and> obj_inv t W' \<and> obj_frame s t \<and> dom W' = dom W \<and>
    live_in W' = (live_in W)(mgr := live_in W mgr - {a})"
proof (rule object_free_correct [OF assms])
  fix t W' assume t: "kmem_object_free a s = Inr t" "obj_inv t W'" "obj_frame s t" "dom W' = dom W"
    "\<And>m. live_in W' m = (if m = mgr then live_in W mgr - {a} else live_in W m)"
  then have "live_in W' = (live_in W)(mgr := live_in W mgr - {a})" by (auto simp: fun_eq_iff)
  with t(1-4) show ?thesis by blast
qed

theorem kmem_object_free_spec_witness:
  "\<exists>(s :: object_state) a t u W'. kmem_object_alloc 0x1000 s = ret (a, t) \<and> kmem_object_free a t = Inr u \<and>
     obj_inv u W' \<and> live_in W' 0x1000 = {}"
proof -
  obtain s :: object_state and a t W where t: "kmem_object_alloc 0x1000 s = ret (a, t)" "obj_inv t W" "live_in W 0x1000 = {a}"
    using sample_alloc by blast
  from kmem_object_free_spec [OF t(2), of a "0x1000"] t(1,3) show ?thesis by fastforce
qed

text \<open>C5. In every history of allocations and releases from a state with no live objects, two different live objects
  never share a byte, and no live object reaches into a page that the page allocator holds as free.\<close>

theorem object_histories_safe:
  assumes "obj_inv s W" "\<forall>m. live_in W m = {}" "(obj_step (dom W))\<^sup>*\<^sup>* (s, {}) (t, L)"
  shows "(\<forall>(m, a)\<in>L. \<forall>(m', a')\<in>L. (m, a) \<noteq> (m', a') \<longrightarrow> obj_bytes t m a \<inter> obj_bytes t m' a' = {}) \<and>
    (\<forall>(m, a)\<in>L. obj_bytes t m a \<inter> page_bytes t (free_set t) = {})"
proof -
  have "client_world (dom W) (s, {})" using assms(1,2) by (auto simp: client_world_def)
  with assms(3) have "client_world (dom W) (t, L)"
    by (induction rule: rtranclp_induct) (auto intro: client_world_step)
  then obtain V where V: "obj_heap t V" "\<And>m. live_in V m = {a. (m, a) \<in> L}" by (auto simp: client_world_def obj_inv_def)
  have "obj_bytes t m a \<inter> obj_bytes t m' a' = {}" if "(m, a) \<in> L" "(m', a') \<in> L" "(m, a) \<noteq> (m', a')" for m a m' a'
    using live_disjoint [OF V(1)] that by (simp add: V(2))
  moreover have "obj_bytes t m a \<inter> page_bytes t (free_set t) = {}" if "(m, a) \<in> L" for m a
    using live_used_pages [OF V(1)] that by (simp add: V(2))
  ultimately show ?thesis by blast
qed

theorem object_histories_safe_witness:
  "\<exists>(s :: object_state) a t. (obj_step {0x1000})\<^sup>*\<^sup>* (s, {}) (t, {(0x1000, a)}) \<and>
     obj_bytes t 0x1000 a \<inter> page_bytes t (free_set t) = {}"
proof -
  obtain s :: object_state and a t where s: "obj_inv s [0x1000 \<mapsto> []]" "kmem_object_alloc 0x1000 s = ret (a, t)" "a \<noteq> 0"
    using sample_alloc by blast
  have d: "dom [0x1000 \<mapsto> []] = {0x1000}" by simp
  have "(obj_step {0x1000})\<^sup>*\<^sup>* (s, {}) (t, {(0x1000, a)})" using obj_alloc [of "0x1000" "{0x1000}" s a t "{}"] s by auto
  moreover have "\<forall>m. live_in [0x1000 \<mapsto> []] m = {}" by (simp add: live_in_def)
  ultimately show ?thesis using object_histories_safe [OF s(1), unfolded d, of t "{(0x1000, a)}"] by blast
qed

end
