(* ===== verification/Vmem_Props.thy ===== *)
theory Vmem_Props
  imports Vmem_User Vmem_Copy Object_Props
begin

text \<open>
  The properties of the virtual memory: mapping refines the extension of a page map, translation reads it,
  unmapping and reaping give the pages back, and copies reach exactly the bytes behind the user's addresses.
\<close>

section \<open>Ranges of pages\<close>

lemma vpn_round_down: "vpn (PAGE_ROUND_DOWN va) = vpn va"
proof -
  have "unat (PAGE_ROUND_DOWN va) div 4096 = unat va div 4096" by (simp add: unat_PAGE_ROUND_DOWN)
  then show ?thesis by (simp add: vpn_def)
qed

lemma aligned_dvd: "x AND (PAGE_SIZE - 1) = 0 \<longleftrightarrow> 4096 dvd unat x"
proof -
  have "PAGE_SIZE - 1 = (mask 12 :: ulong)" by (simp add: PAGE_SIZE_def mask_eq_exp_minus_1)
  then have "x AND (PAGE_SIZE - 1) = 0 \<longleftrightarrow> unat (take_bit 12 x) = 0" by (simp add: take_bit_eq_mask unat_eq_0)
  then show ?thesis by (simp add: unat_take_bit dvd_eq_mod_eq_0)
qed

lemma page_span_aligned:
  assumes "va AND (PAGE_SIZE - 1) = 0" "unat va + unat siz + 4095 < 2 ^ 64"
  shows "page_span va siz = (unat siz + 4095) div 4096"
proof -
  obtain q where q: "unat va = 4096 * q" using assms(1) unfolding aligned_dvd by (rule dvdE)
  have u: "unat (va + siz) = unat va + unat siz" using assms(2) by (simp add: unat_word_ariths)
  have d: "unat (PAGE_ROUND_DOWN va) = unat va" using q by (simp add: unat_PAGE_ROUND_DOWN)
  have up: "unat (PAGE_ROUND_UP (va + siz)) = 4096 * (q + (unat siz + 4095) div 4096)"
  proof -
    have "unat (PAGE_ROUND_UP (va + siz)) = 4096 * ((unat siz + 4095 + q * 4096) div 4096)"
      using unat_PAGE_ROUND_UP [of "va + siz"] assms(2) u q by (simp add: add_ac mult.commute)
    also have "(unat siz + 4095 + q * 4096) div 4096 = q + (unat siz + 4095) div 4096" by (rule div_mult_self1) simp
    finally show ?thesis .
  qed
  have "unat (PAGE_ROUND_UP (va + siz) - PAGE_ROUND_DOWN va) = 4096 * ((unat siz + 4095) div 4096)"
    using up d q by (simp add: unat_sub_if')
  then show ?thesis unfolding page_span_def unat_drop_bit_eq PAGE_SHIFT_def by (simp add: drop_bit_eq_div)
qed

lemma vpn_offset:
  assumes "va AND (PAGE_SIZE - 1) = 0" "unat va + j < 2 ^ 64"
  shows "vpn (va + word_of_nat j) = vpn va + word_of_nat (j div 4096)" "(va + word_of_nat j) AND (PAGE_SIZE - 1) = word_of_nat (j mod 4096)"
proof -
  obtain q where q: "unat va = 4096 * q" using assms(1) unfolding aligned_dvd by (rule dvdE)
  have u: "unat (va + word_of_nat j) = 4096 * q + j"
    using assms(2) q by (simp add: unat_word_ariths unat_of_nat64)
  show "vpn (va + word_of_nat j) = vpn va + word_of_nat (j div 4096)" unfolding vpn_def u q by simp
  have "take_bit 12 (va + word_of_nat j) = word_of_nat (unat (take_bit 12 (va + word_of_nat j)))" by simp
  also have "unat (take_bit 12 (va + word_of_nat j)) = j mod 4096" by (simp only: unat_take_bit u) simp
  finally show "(va + word_of_nat j) AND (PAGE_SIZE - 1) = word_of_nat (j mod 4096)"
    by (simp add: PAGE_SIZE_def take_bit_eq_mask mask_eq_exp_minus_1)
qed

lemma translate_entry:
  assumes "vm_ok s root" "page_map (ram s) root (vpn a) = Some (PA_PTE pa OR PTE_FLAG_V OR flags)"
    "pa AND (PAGE_SIZE - 1) = 0" "drop_bit PTE_FLAGS_WIDTH flags = 0"
  shows "user_addr (ram s) root a = Some (PMA_PA2VA (pa + (a AND (PAGE_SIZE - 1))))"
proof -
  let ?o = "a AND (PAGE_SIZE - 1)"
  have "drop_bit PTE_FLAGS_WIDTH (PTE_FLAG_V OR flags) = 0" using assms(4) by (simp add: PTE_FLAGS_WIDTH_def PTE_FLAG_V_def)
  from PTE_PA_PA_PTE [OF this, of pa] have p: "PTE_PA (PA_PTE pa OR PTE_FLAG_V OR flags) = push_bit 12 (drop_bit 12 pa)"
    by (simp add: or.assoc)
  have "unat ?o = unat (take_bit 12 a)" by (simp add: PAGE_SIZE_def take_bit_eq_mask mask_eq_exp_minus_1)
  then have "unat ?o < 4096" by (simp add: unat_take_bit)
  from page_offset(2) [OF assms(3) this] show ?thesis
    using assms(2) unfolding pmap_page [symmetric] by (auto simp: user_addr_def pmap_def p split: option.splits if_splits)
qed

lemma mappages_loop:
  assumes "siz \<noteq> 0"
  shows "vm_mappages root va pa siz flags s = map_loop (page_span va siz) root (PAGE_ROUND_DOWN va) pa flags s"
  using assms by (simp add: vm_mappages_def)

lemma mapped_bytes:
  assumes ok: "vm_ok s root" and t: "vm_mappages root va pa siz flags s = Inr (0, t)"
    and al: "va AND (PAGE_SIZE - 1) = 0" "pa AND (PAGE_SIZE - 1) = 0" "drop_bit PTE_FLAGS_WIDTH flags = 0"
    and b: "unat va + unat siz + 4095 < 2 ^ 64" "j < unat siz"
  shows "vm_ok t root" "user_addr (ram t) root (va + word_of_nat j) = Some (PMA_PA2VA (pa + word_of_nat j))"
proof -
  have sz: "siz \<noteq> 0" using b(2) by auto
  note R = map_loop_refines [OF ok, of "page_span va siz" "PAGE_ROUND_DOWN va" pa flags, folded mappages_loop [OF sz],
      unfolded t vpn_round_down]
  show ok': "vm_ok t root" using R by simp
  have m: "map_spec (page_span va siz) (vpn va) pa flags (page_map (ram s) root) = Some (page_map (ram t) root)" using R by auto
  define i where "i = j div 4096"
  have "(j + 4096) div 4096 \<le> (unat siz + 4095) div 4096" using b(2) by (intro div_le_mono) simp
  then have "i < page_span va siz" unfolding page_span_aligned [OF al(1) b(1)] i_def by simp
  then have e: "page_map (ram t) root (vpn va + word_of_nat i) = Some (PA_PTE (pa + 4096 * word_of_nat i) OR PTE_FLAG_V OR flags)"
    using map_spec_Some [OF m] by blast
  have lt: "unat va + j < 2 ^ 64" using b by simp
  note v = vpn_offset [OF al(1) lt, folded i_def]
  have "4096 dvd unat (pa + 4096 * word_of_nat i)"
  proof -
    have "(pa + 4096 * word_of_nat i) = pa + word_of_nat (4096 * i)" by simp
    then have "unat (pa + 4096 * word_of_nat i) = (unat pa + 4096 * i) mod 2 ^ 64" by (simp add: unat_word_ariths unat_of_nat mod_simps)
    moreover have "4096 dvd unat pa" using al(2) by (simp add: aligned_dvd)
    then have "4096 dvd unat pa + 4096 * i" by simp
    then have "4096 dvd (unat pa + 4096 * i) mod 2 ^ 64" by (rule dvd_mod) simp
    ultimately show ?thesis by simp
  qed
  then have pal: "(pa + 4096 * word_of_nat i) AND (PAGE_SIZE - 1) = 0" by (simp add: aligned_dvd)
  have "user_addr (ram t) root (va + word_of_nat j) = Some (PMA_PA2VA (pa + 4096 * word_of_nat i + word_of_nat (j mod 4096)))"
    using translate_entry [OF ok' _ pal al(3), of "va + word_of_nat j"] e v by simp
  moreover have "pa + 4096 * word_of_nat i + word_of_nat (j mod 4096) = pa + word_of_nat (4096 * i + j mod 4096)" by simp
  moreover have "4096 * i + j mod 4096 = j" by (simp add: i_def)
  ultimately show "user_addr (ram t) root (va + word_of_nat j) = Some (PMA_PA2VA (pa + word_of_nat j))" by (simp only:)
qed

section \<open>A sample state\<close>

lemma sample_vm:
  "\<exists>s :: vm_state. kmem_ok s \<and> ram_ok s \<and> free_set s = {..<8} \<and> begin_ppn s = 0x80000 \<and> npages s = 8 \<and> ram s = (\<lambda>_. Some 0)"
proof -
  obtain n :: kmem_node where n: "kmem_ok n" "free_set n = {..<8}" "begin_ppn n = 0x80000" "npages n = 8"
    using sample_free by blast
  define o1 :: object_state where "o1 = kmem_node.extend n \<lparr>headers = (\<lambda>_. \<lparr>parent_block = 0, h_prv = 0, h_nxt = 0\<rparr>),
    blocks = (\<lambda>_. \<lparr>b_nxt = 0, b_used = 0, b_total = 0, b_object_size = 0, page_count = 0, parent_manager = 0\<rparr>),
    managers = sample_managers, object_manager_lock = spinlock_init '''', object_manager_at = 0x2000, uni_managers = 0x3000,
    list_node_object_manager = 0\<rparr>"
  define s :: vm_state where "s = object_state.extend o1 \<lparr>ram = (\<lambda>_. Some 0), kernel_pagetable = 0, pkernel_pgtbl = [],
    satp = 0, KERNEL_USER_HANDLER_PA_BEGIN = 0x80200000\<rparr>"
  have f: "begin_ppn s = begin_ppn n" "num_ppn s = num_ppn n" "mem_map s = mem_map n" "free_areas s = free_areas n"
    "list_mem s = list_mem n" "page_manager_lock s = page_manager_lock n" "tp s = tp n" "sstatus s = sstatus n" "harts s = harts n"
    "ram s = (\<lambda>_. Some 0)"
    by (simp_all add: s_def o1_def kmem_node.defs object_state.defs)
  have "cpu_ok s" by (rule cpu_ok_cong [of n]) (use kmem_ok_lock [OF n(1)] f in simp_all)
  then have "kmem_ok s" by (intro kmem_ok_cong [OF n(1)]) (use f kmem_ok_lock [OF n(1)] in simp_all)
  moreover have "ram_ok s" using f(10) by (simp add: ram_ok_def mapped_def)
  moreover have "free_set s = {..<8}" using n(2) f(2,3) by (simp add: free_set_def)
  ultimately show ?thesis using f n(3,4) by (intro exI [of _ s]) simp
qed

lemma sample_table:
  "\<exists>(s :: vm_state) x. vm_ok s x \<and> page_map (ram s) x = Map.empty \<and> card (free_set s) = 7 \<and> begin_ppn s = 0x80000 \<and> npages s = 8 \<and>
    (\<forall>a. ram s a \<noteq> None)"
proof -
  obtain s :: vm_state where s: "kmem_ok s" "ram_ok s" "free_set s = {..<8}" "begin_ppn s = 0x80000" "npages s = 8" "ram s = (\<lambda>_. Some 0)"
    using sample_vm by blast
  show ?thesis
  proof (cases rule: alloc_one [OF s(1), case_names none page])
    case (none w)
    have "0 \<in> {..<8 :: nat}" by simp
    then show ?thesis using none(4) s(3) by (metis empty_iff)
  next
    case (page p w)
    note f = page_frame_fields [OF page(3)]
    have rw: "ram w = ram s" using page(3) by (auto simp: page_frame_def)
    have pn: "p < npages w" "p \<notin> free_set w" using page(4,5) f by (auto simp: free_set_def)
    have rk: "ram_ok w" using s(2) f by (simp add: ram_ok_def rw)
    define u where "u = w\<lparr>ram := fill (ram w) (page_va (begin_ppn w) p) 0 4096\<rparr>"
    note F = fresh_table [OF page(2) rk pn refl u_def]
    have "card (free_set u) = 7" using page(4,5) s(3) by (simp add: u_def)
    moreover have "begin_ppn u = 0x80000" "npages u = 8" using f s(4,5) by (simp_all add: u_def)
    moreover have "\<forall>a. ram u a \<noteq> None" by (simp add: u_def rw s(6) fill_def)
    ultimately show ?thesis using F(1,2) by (intro exI [of _ u] exI [of _ "page_va (begin_ppn w) p"]) simp
  qed
qed

lemma table_range:
  assumes "vm_ok s root" "x \<in> tables (ram s) root"
  obtains p where "p < npages s" "unat x = window_base + (p + unat (begin_ppn s)) * 4096" "page_addr x"
proof -
  have k: "kmem_ok s" using assms(1) by (simp add: vm_ok_def)
  obtain p where p: "p < npages s" "x = page_va (begin_ppn s) p" using assms by (auto simp: vm_ok_def pt_inv_def used_page_def)
  show thesis by (rule that [OF p(1)])
    (unfold p(2), rule unat_page_va [OF kmem_ok_range [OF k] p(1)], rule page_va_page_addr [OF kmem_ok_range [OF k] p(1)])
qed

lemma table_below:
  assumes "vm_ok s root" "unat a < window_base + unat (begin_ppn s) * 4096"
  shows "\<forall>x\<in>tables (ram s) root. \<not> in_page x a"
proof
  fix x assume x: "x \<in> tables (ram s) root"
  show "\<not> in_page x a"
  proof
    assume ip: "in_page x a"
    obtain p where p: "unat x = window_base + (p + unat (begin_ppn s)) * 4096" "page_addr x"
      by (rule table_range [OF assms(1) x])
    have w: "window_base = 4096 * (2 ^ 52 - 2 ^ 26)" by simp
    have "unat a div 4096 = unat x div 4096" using ip in_page_unat [OF p(2)] by simp
    moreover have "unat x div 4096 = (2 ^ 52 - 2 ^ 26) + (p + unat (begin_ppn s))"
      unfolding p(1) w by (simp add: div_mult_self4 mult.commute [of 4096])
    moreover have "unat a div 4096 < (2 ^ 52 - 2 ^ 26) + unat (begin_ppn s)"
      using assms(2) unfolding w by (simp add: div_less_iff_less_mult algebra_simps)
    ultimately show False by simp
  qed
qed

lemma safe_below:
  assumes "vm_ok s root" "ram s a \<noteq> None" "unat a < window_base + unat (begin_ppn s) * 4096"
  shows "safe_place s root a"
  using table_below [OF assms(1,3)] assms(2) by (simp add: safe_place_def)

lemma unat_window: "unat pa < 2 ^ 38 \<Longrightarrow> unat (PMA_PA2VA pa) = window_base + unat pa"
proof -
  assume a: "unat pa < 2 ^ 38"
  have "unat VA_KERNEL_BEGIN = window_base" by (simp add: VA_KERNEL_BEGIN_def)
  then show ?thesis unfolding PMA_PA2VA_add [OF a] using a by (simp add: unat_word_ariths)
qed

lemma sample_user_mapped:
  "\<exists>(s :: vm_state) x t. vm_ok s x \<and> vm_mappages x 0x1000 0x3000 0x1000 PTE_FLAG_R s = Inr (0, t) \<and> vm_ok t x \<and>
     page_map (ram t) x = [1 \<mapsto> PA_PTE 0x3000 OR PTE_FLAG_V OR PTE_FLAG_R] \<and> begin_ppn t = 0x80000 \<and> (\<forall>a. ram s a \<noteq> None) \<and>
     begin_ppn s = 0x80000 \<and> page_map (ram s) x = Map.empty \<and> 2 < card (free_set s)"
proof -
  obtain s :: vm_state and x where s: "vm_ok s x" "page_map (ram s) x = Map.empty" "card (free_set s) = 7" "begin_ppn s = 0x80000" "\<forall>a. ram s a \<noteq> None"
    using sample_table by blast
  have sp: "page_span 0x1000 0x1000 = 1" using page_span_aligned [of "0x1000" "0x1000"] by (simp add: PAGE_SIZE_def)
  have v: "vpn 0x1000 = 1" by (simp add: vpn_def)
  have ml: "vm_mappages x 0x1000 0x3000 0x1000 PTE_FLAG_R s = map_loop 1 x (PAGE_ROUND_DOWN 0x1000) 0x3000 PTE_FLAG_R s"
    by (subst mappages_loop) (simp_all only: sp, simp)
  note R = map_loop_refines [OF s(1), of 1 "PAGE_ROUND_DOWN 0x1000" "0x3000" PTE_FLAG_R, folded ml, unfolded vpn_round_down v s(2,3)]
  show ?thesis
  proof (cases "vm_mappages x 0x1000 0x3000 0x1000 PTE_FLAG_R s")
    case (Inl e)
    then show ?thesis using R by simp
  next
    case (Inr y)
    obtain r t where y: "y = (r, t)" by (cases y)
    have t: "r = 0" "vm_ok t x" "vm_step x s t" "map_spec 1 1 0x3000 PTE_FLAG_R Map.empty = Some (page_map (ram t) x)"
      using R Inr y by (auto split: if_splits)
    have "begin_ppn t = 0x80000" using t(3) vm_frame_fields [of s t] s(4) by (simp add: vm_step_def)
    then show ?thesis using s Inr y t by (intro exI [of _ s] exI [of _ x] exI [of _ t]) auto
  qed
qed

lemma sample_copy:
  "\<exists>(s :: vm_state) x b. vm_ok s x \<and> user_addr (ram s) x 0x1005 = Some (PMA_PA2VA 0x3005) \<and> safe_place s x (PMA_PA2VA 0x3005) \<and>
     ram s 0x5000 = Some b \<and> PMA_PA2VA 0x3005 \<noteq> 0x5000 \<and> PMA_PA2VA 0x3005 \<noteq> 0x6000 \<and> safe_place s x 0x6000"
proof -
  obtain s :: vm_state and x t where s: "vm_ok s x" "vm_mappages x 0x1000 0x3000 0x1000 PTE_FLAG_R s = Inr (0, t)" "vm_ok t x"
    "begin_ppn t = 0x80000" "\<forall>a. ram s a \<noteq> None" "page_map (ram s) x = Map.empty" "2 < card (free_set s)" using sample_user_mapped by blast
  have "user_addr (ram t) x (0x1000 + word_of_nat 5) = Some (PMA_PA2VA (0x3000 + word_of_nat 5))"
    by (rule mapped_bytes(2) [OF s(1,2)]) (simp_all add: PAGE_SIZE_def PTE_FLAGS_WIDTH_def PTE_FLAG_R_def)
  then have u: "user_addr (ram t) x 0x1005 = Some (PMA_PA2VA 0x3005)" by simp
  have w: "unat (PMA_PA2VA 0x3005) = window_base + 0x3005" using unat_window [of "0x3005"] by simp
  then have ne: "PMA_PA2VA 0x3005 \<noteq> 0x5000" "PMA_PA2VA 0x3005 \<noteq> 0x6000" by auto
  have rt: "ram t a \<noteq> None" if a: "unat a < window_base + 0x80000 * 4096" for a
  proof -
    have st: "vm_step x s t" using map_loop_refines [OF s(1), of "page_span 0x1000 0x1000" "PAGE_ROUND_DOWN 0x1000" "0x3000" PTE_FLAG_R]
      s(2) mappages_loop [of "0x1000" x "0x1000" "0x3000" PTE_FLAG_R s] by simp
    have "\<forall>y\<in>tables (ram t) x. \<not> in_page y a" using table_below [OF s(3), of a] a s(4) by simp
    then show ?thesis using st s(5) by (simp add: vm_step_def)
  qed
  have sp: "safe_place t x (PMA_PA2VA 0x3005)" "safe_place t x 0x6000"
    by (rule safe_below [OF s(3) rt]; use w s(4) in simp)+
  obtain b where "ram t 0x5000 = Some b" using rt [of "0x5000"] by auto
  then show ?thesis using s(3) u sp ne by blast
qed

section \<open>Properties\<close>

text \<open>C7. Mapping refines the extension of the page map. On every state whose page table is well formed,
  \<^verbatim>\<open>vm_mappages\<close> either panics, and then some page of the range has an entry already; or returns 0 and the map is extended
  by exactly the pages of the range with the given addresses and flags; or returns -1 with the first pages of the
  range mapped, no page left, and at most two pages per page of the range free before. The table stays well formed, memory
  changes only in its tables, and the pages taken from the allocator are tables.\<close>

theorem vm_mappages_refines:
  assumes "vm_ok s root" "siz \<noteq> 0"
  shows "case vm_mappages root va pa siz flags s of
      Inl f \<Rightarrow> f = Panic ''vm_mappages - overlapped'' \<and> map_spec (page_span va siz) (vpn va) pa flags (page_map (ram s) root) = None
    | Inr (r, t) \<Rightarrow> vm_ok t root \<and> vm_step root s t \<and>
        (\<exists>k\<le>page_span va siz. map_spec k (vpn va) pa flags (page_map (ram s) root) = Some (page_map (ram t) root) \<and>
          (if r = 0 then k = page_span va siz
           else r = - 1 \<and> k < page_span va siz \<and> free_set t = {} \<and> card (free_set s) \<le> 2 * page_span va siz))"
  using map_loop_refines [OF assms(1), of "page_span va siz" "PAGE_ROUND_DOWN va" pa flags]
  unfolding mappages_loop [OF assms(2)] vpn_round_down .

theorem vm_mappages_refines_witness:
  "\<exists>(s :: vm_state) x t. vm_mappages x 0x1000 0x3000 0x1000 PTE_FLAG_R s = Inr (0, t) \<and> vm_ok t x \<and> vm_step x s t \<and>
     page_map (ram t) x = [1 \<mapsto> PA_PTE 0x3000 OR PTE_FLAG_V OR PTE_FLAG_R]"
proof -
  obtain s :: vm_state and x t where s: "vm_ok s x" "vm_mappages x 0x1000 0x3000 0x1000 PTE_FLAG_R s = Inr (0, t)"
    "page_map (ram t) x = [1 \<mapsto> PA_PTE 0x3000 OR PTE_FLAG_V OR PTE_FLAG_R]" using sample_user_mapped by blast
  have "(0x1000 :: ulong) \<noteq> 0" by simp
  from vm_mappages_refines [OF s(1) this, of "0x1000" "0x3000" PTE_FLAG_R] show ?thesis unfolding s(2) using s(2,3) by auto
qed

text \<open>C9. Mapping and translating are inverse: after \<^verbatim>\<open>vm_mappages\<close> returned 0 for a page-aligned range and address,
  \<^verbatim>\<open>vm_translate\<close> takes the byte \<open>j\<close> of the range to the kernel's address of the byte \<open>j\<close> behind the physical address.\<close>

theorem vm_map_translate:
  assumes "vm_ok s root" "vm_mappages root va pa siz flags s = Inr (0, t)"
    "va AND (PAGE_SIZE - 1) = 0" "pa AND (PAGE_SIZE - 1) = 0" "drop_bit PTE_FLAGS_WIDTH flags = 0"
    "unat va + unat siz + 4095 < 2 ^ 64" "j < unat siz"
  shows "vm_translate root (va + word_of_nat j) t = Inr (PMA_PA2VA (pa + word_of_nat j), t)"
  using vm_translate_user [OF mapped_bytes(1) [OF assms]] mapped_bytes(2) [OF assms] by simp

theorem vm_map_translate_witness:
  "\<exists>(s :: vm_state) x t. vm_mappages x 0x1000 0x3000 0x1000 PTE_FLAG_R s = Inr (0, t) \<and>
     vm_translate x 0x1005 t = Inr (PMA_PA2VA 0x3005, t)"
proof -
  obtain s :: vm_state and x t where s: "vm_ok s x" "vm_mappages x 0x1000 0x3000 0x1000 PTE_FLAG_R s = Inr (0, t)"
    using sample_user_mapped by blast
  have "vm_translate x (0x1000 + word_of_nat 5) t = Inr (PMA_PA2VA (0x3000 + word_of_nat 5), t)"
    by (rule vm_map_translate [OF s]) (simp_all add: PAGE_SIZE_def PTE_FLAGS_WIDTH_def PTE_FLAG_R_def)
  then show ?thesis using s(2) by auto
qed

text \<open>C10. Unmapping: when every page of the range has an entry with access flags and, if the pages are to be freed, the entries lead to
  different used pages that are no tables, \<^verbatim>\<open>vm_unmappages\<close> returns. The map loses exactly the range, the same tables
  remain, memory changes only in them, and exactly the pages behind the entries become free, or none without
  \<^verbatim>\<open>do_free\<close>.\<close>

theorem vm_unmappages_spec:
  assumes "vm_ok s root" "va AND (push_bit PN_WIDTH 1 - 1) = 0" "unat va + 4096 * n < 2 ^ 64" "n \<le> 2 ^ 27"
    "\<forall>i<n. \<exists>e. page_map (ram s) root (vpn va + word_of_nat i) = Some e \<and> leaf_flags e \<and> frees s root do_free e (f i)"
    "inj_on f {..<n}"
  shows "\<exists>t. vm_unmappages root va (word_of_nat n) do_free s = ret t \<and> vm_ok t root \<and> vm_frame s t \<and>
    tables (ram t) root = tables (ram s) root \<and> (\<forall>a. (\<forall>x\<in>tables (ram s) root. \<not> in_page x a) \<longrightarrow> ram t a = ram s a) \<and>
    page_map (ram t) root = (\<lambda>v. if \<exists>i<n. v = vpn va + word_of_nat i then None else page_map (ram s) root v) \<and>
    free_set t = free_set s \<union> (if do_free then f ` {..<n} else {})"
proof -
  have "PAGE_SIZE * word_of_nat n = (word_of_nat (4096 * n) :: ulong)" by (simp add: PAGE_SIZE_def)
  then have "unat va + 4096 * n = unat (va + PAGE_SIZE * word_of_nat n)"
    using assms(3) by (simp add: unat_word_ariths unat_of_nat64)
  from unmap_loop_correct [OF assms(1) this assms(4) _ assms(6), of do_free] assms(5) show ?thesis
    unfolding vm_unmappages_def assms(2) by simp
qed

theorem vm_unmappages_spec_witness:
  "\<exists>(s :: vm_state) x t. page_map (ram s) x \<noteq> Map.empty \<and> vm_unmappages x 0x1000 1 False s = ret t \<and> vm_ok t x \<and>
     page_map (ram t) x = Map.empty"
proof -
  obtain s :: vm_state and x where s: "vm_ok s x" "page_map (ram s) x = [1 \<mapsto> PA_PTE 0x3000 OR PTE_FLAG_V OR PTE_FLAG_R]"
    using sample_user_mapped by blast
  have v: "vpn 0x1000 = 1" by (simp add: vpn_def)
  have lf: "leaf_flags (PA_PTE 0x3000 OR PTE_FLAG_V OR PTE_FLAG_R)"
    by (simp add: leaf_flags_def PA_PTE_def PTE_FLAG_V_def PTE_FLAG_R_def PTE_FLAGS_WIDTH_def PAGE_OFFSET_WIDTH_def drop_bit_eq_div)
  have "\<exists>t. vm_unmappages x 0x1000 (word_of_nat 1) False s = ret t \<and> vm_ok t x \<and> vm_frame s t \<and>
    tables (ram t) x = tables (ram s) x \<and> (\<forall>a. (\<forall>y\<in>tables (ram s) x. \<not> in_page y a) \<longrightarrow> ram t a = ram s a) \<and>
    page_map (ram t) x = (\<lambda>v. if \<exists>i<1. v = vpn 0x1000 + word_of_nat i then None else page_map (ram s) x v) \<and>
    free_set t = free_set s \<union> (if False then (\<lambda>i. i) ` {..<1} else {})"
    by (rule vm_unmappages_spec [OF s(1)]) (use s(2) v lf in \<open>simp_all add: PN_WIDTH_def frees_def\<close>)
  then obtain t where t: "vm_unmappages x 0x1000 1 False s = ret t" "vm_ok t x"
    "page_map (ram t) x = (\<lambda>v. if \<exists>i<1. v = vpn 0x1000 + word_of_nat i then None else page_map (ram s) x v)" by auto
  have "page_map (ram t) x = Map.empty" unfolding t(3) s(2) v by (auto simp: fun_eq_iff)
  then show ?thesis using t s(2) by (intro exI [of _ s] exI [of _ x] exI [of _ t]) simp
qed

text \<open>C8. The life of a user's page table. With four free pages \<^verbatim>\<open>vm_user_make_pagetable\<close> gives a table that holds the pages of
  the user handler and nothing else; every page it took is a table of it. Taking the handler out and reaping the table both
  return, and then exactly the pages of before are free again.\<close>

theorem user_pagetable_roundtrip:
  assumes "kmem_ok s" "ram_ok s" "3 < card (free_set s)"
  shows "\<exists>x t u v. vm_user_make_pagetable s = Inr (x, t) \<and> vm_ok t x \<and> tpages t x = free_set s - free_set t \<and>
    (\<forall>i<8. page_map (ram t) x (vpn VA_USER_USER_HANDLER_BEGIN + word_of_nat i) =
       Some (PA_PTE (KERNEL_USER_HANDLER_PA_BEGIN s + 4096 * word_of_nat i) OR PTE_FLAG_V OR (PTE_FLAG_R OR PTE_FLAG_X))) \<and>
    (\<forall>w. (\<forall>i<8. w \<noteq> vpn VA_USER_USER_HANDLER_BEGIN + word_of_nat i) \<longrightarrow> page_map (ram t) x w = None) \<and>
    vm_unmap_user_handler x t = ret u \<and> vm_reap_pagetable x u = ret v \<and> kmem_ok v \<and> free_set v = free_set s"
proof (rule make_pagetable [OF assms])
  fix x t
  assume t: "vm_user_make_pagetable s = Inr (x, t)" "vm_ok t x" "tpages t x \<union> free_set t = free_set s" "tpages t x \<inter> free_set t = {}"
    "map_spec 8 (vpn VA_USER_USER_HANDLER_BEGIN) (KERNEL_USER_HANDLER_PA_BEGIN s) (PTE_FLAG_R OR PTE_FLAG_X) Map.empty = Some (page_map (ram t) x)"
  note M = map_spec_Some [OF t(5)]
  obtain u where u: "vm_unmap_user_handler x t = ret u" "vm_ok u x" "page_map (ram u) x = Map.empty" "free_set u = free_set t"
    "tpages u x = tpages t x" by (rule unmap_handler [OF t(2,5)])
  obtain v where v: "vm_reap_pagetable x u = ret v" "kmem_ok v" "free_set v = free_set u \<union> tpages u x"
    using reap_tables [OF u(2,3)] by blast
  have f: "free_set v = free_set s" "tpages t x = free_set s - free_set t" using v(3) u(4,5) t(3,4) by auto
  show ?thesis using t(1,2) M u(1) v(1,2) f by (intro exI [of _ x] exI [of _ t] exI [of _ u] exI [of _ v] conjI) auto
qed

theorem user_pagetable_roundtrip_witness:
  "\<exists>(s :: vm_state) x t u v. vm_user_make_pagetable s = Inr (x, t) \<and> free_set s = {..<8} \<and> free_set t \<noteq> {..<8} \<and>
     vm_unmap_user_handler x t = ret u \<and> vm_reap_pagetable x u = ret v \<and> free_set v = {..<8}"
proof -
  obtain s :: vm_state where s: "kmem_ok s" "ram_ok s" "free_set s = {..<8}" using sample_vm by blast
  have "3 < card (free_set s)" using s(3) by simp
  from user_pagetable_roundtrip [OF s(1,2) this] obtain x t u v where t: "vm_user_make_pagetable s = Inr (x, t)" "vm_ok t x"
    "tpages t x = free_set s - free_set t" "vm_unmap_user_handler x t = ret u" "vm_reap_pagetable x u = ret v" "free_set v = free_set s" by blast
  have "tpages t x \<noteq> {}"
  proof -
    have "x \<in> tables (ram t) x" using tbl_tables [OF paths_Nil, of "ram t" x x] by simp
    then obtain p where "p < npages t" "x = page_va (begin_ppn t) p" using t(2) by (auto simp: vm_ok_def pt_inv_def used_page_def)
    then have "p \<in> tpages t x" using \<open>x \<in> tables (ram t) x\<close> by (simp add: tpages_def)
    then show ?thesis by blast
  qed
  then have "free_set t \<noteq> {..<8}" using t(3) s(3) by auto
  then show ?thesis using t s(3) by (intro exI [of _ s] exI [of _ x] exI [of _ t] exI [of _ u] exI [of _ v]) simp
qed

text \<open>C31. What \<^verbatim>\<open>vm_translate\<close> answers on a well-formed table: the address behind a valid entry, \<^verbatim>\<open>NULL\<close> where
  a table on the way is missing. An empty entry in a table that exists is not refused: it leads to the offset in physical page 0.\<close>

theorem vm_translate_spec:
  assumes "vm_ok s root"
  shows "(\<forall>e. page_map (ram s) root (vpn a) = Some e \<longrightarrow>
      vm_translate root a s = Inr (PMA_PA2VA (PTE_PA e OR (a AND (PAGE_SIZE - 1))), s)) \<and>
    (tbl (ram s) (path a) root = None \<longrightarrow> vm_translate root a s = Inr (0, s)) \<and>
    (leaf (ram s) root a = Some 0 \<longrightarrow> vm_translate root a s = Inr (PMA_PA2VA (a AND (PAGE_SIZE - 1)), s) \<and> page_map (ram s) root (vpn a) = None)"
proof -
  have "PTE_PA 0 = 0" by (simp add: PTE_PA_def)
  then show ?thesis using vm_translate_mapped [OF assms] vm_translate_leaf [OF assms, of a]
    by (auto simp: leaf_def pmap_page [symmetric] pmap_def valid_def)
qed

theorem vm_translate_spec_witness:
  "\<exists>(s :: vm_state) x. vm_translate x 0x1005 s = Inr (PMA_PA2VA 0x3005, s)"
proof -
  obtain s :: vm_state and x where s: "vm_ok s x" "page_map (ram s) x = [1 \<mapsto> PA_PTE 0x3000 OR PTE_FLAG_V OR PTE_FLAG_R]"
    using sample_user_mapped by blast
  have v: "vpn 0x1005 = 1" by (simp add: vpn_def)
  have "PMA_PA2VA (PTE_PA (PA_PTE 0x3000 OR PTE_FLAG_V OR PTE_FLAG_R) OR (0x1005 AND (PAGE_SIZE - 1))) = PMA_PA2VA 0x3005"
    by (simp add: PA_PTE_def PTE_PA_def PTE_FLAG_V_def PTE_FLAG_R_def PTE_FLAGS_WIDTH_def PAGE_OFFSET_WIDTH_def PAGE_SIZE_def drop_bit_eq_div)
  then show ?thesis using vm_translate_spec [OF s(1), of "0x1005"] s(2) v by auto
qed

text \<open>C29. Copying out to a user's address space, when the addresses it leads to are different, hold no table and do not meet the
  buffer: the copy goes up to the first address without a table. If there is none it returns 0, otherwise -1. The bytes before that address arrive behind the user's addresses, nothing else in memory changes,
  and the page table stays well formed.\<close>

theorem vm_memcpyout_spec:
  assumes "vm_ok s root" "k \<le> unat siz" "k < unat siz \<longrightarrow> user_addr (ram s) root (vdst + word_of_nat k) = None"
    "\<forall>i<k. user_addr (ram s) root (vdst + word_of_nat i) = Some (g i) \<and> safe_place s root (g i)"
    "\<forall>i<k. ram s (src + word_of_nat i) = Some (b i)" "\<forall>i<k. \<forall>j<k. g i \<noteq> src + word_of_nat j" "inj_on g {..<k}"
  shows "\<exists>t. vm_memcpyout root vdst src siz s = Inr (if k = unat siz then 0 else - 1, t) \<and> vm_ok t root \<and> copied k g b s t"
  unfolding vm_memcpyout_def by (rule memcpyout_correct) (use assms in blast)+

theorem vm_memcpyout_spec_witness:
  "\<exists>(s :: vm_state) x t b. vm_memcpyout x 0x1005 0x5000 1 s = Inr (0, t) \<and> ram s 0x5000 = Some b \<and> ram t (PMA_PA2VA 0x3005) = Some b"
proof -
  obtain s :: vm_state and x b where s: "vm_ok s x" "user_addr (ram s) x 0x1005 = Some (PMA_PA2VA 0x3005)" "safe_place s x (PMA_PA2VA 0x3005)"
    "ram s 0x5000 = Some b" "PMA_PA2VA 0x3005 \<noteq> 0x5000"
    using sample_copy by blast
  have "\<exists>t. vm_memcpyout x 0x1005 0x5000 1 s = Inr (if 1 = unat (1 :: ulong) then 0 else - 1, t) \<and> vm_ok t x \<and>
    copied 1 (\<lambda>_. PMA_PA2VA 0x3005) (\<lambda>_. b) s t"
    by (rule vm_memcpyout_spec [OF s(1)]) (use s in \<open>simp_all add: inj_on_def\<close>)
  then show ?thesis using s(4) by (auto simp: copied_def)
qed

text \<open>C30. Copying a buffer out to user memory and in again to another buffer gives the same bytes, when every address of
  the range has a table, the pages behind are no tables, and the three ranges do not meet.\<close>

theorem vm_copy_roundtrip:
  assumes "vm_ok s root" "\<forall>i<unat siz. user_addr (ram s) root (u + word_of_nat i) = Some (g i) \<and> safe_place s root (g i)"
    "inj_on g {..<unat siz}" "\<forall>i<unat siz. ram s (src + word_of_nat i) = Some (b i) \<and> safe_place s root (dst + word_of_nat i)"
    "\<forall>i<unat siz. \<forall>j<unat siz. g i \<noteq> src + word_of_nat j \<and> g i \<noteq> dst + word_of_nat j"
  shows "\<exists>t v. vm_memcpyout root u src siz s = Inr (0, t) \<and> vm_memcpyin root dst u siz t = Inr (0, v) \<and> vm_ok v root \<and>
    (\<forall>i<unat siz. ram v (dst + word_of_nat i) = Some (b i))"
proof -
  have "\<exists>t. memcpyout_loop (unat siz) root u src s = Inr (if unat siz = unat siz then 0 else - 1, t) \<and> vm_ok t root \<and> copied (unat siz) g b s t"
    by (rule memcpyout_correct) (use assms in blast)+
  then obtain t where t: "memcpyout_loop (unat siz) root u src s = Inr (0, t)" "vm_ok t root" "copied (unat siz) g b s t" by auto
  have K: "user_addr (ram t) root = user_addr (ram s) root" "safe_place t root = safe_place s root"
    by (rule copied_keeps [OF assms(1) t(3)], use assms(2) in blast)+
  have gb: "ram t (g i) = Some (b i)" if "i < unat siz" for i using t(3) that by (simp add: copied_def)
  have "unat siz \<le> 2 ^ 64" using unat64_less [of siz] by simp
  from word_add_inj [OF this] have inj: "inj_on (\<lambda>i. dst + word_of_nat i) {..<unat siz}" .
  have "\<exists>v. memcpyin_loop (unat siz) root dst u t = Inr (if unat siz = unat siz then 0 else - 1, v) \<and> vm_ok v root \<and>
    copied (unat siz) (\<lambda>i. dst + word_of_nat i) b t v"
    by (rule memcpyin_correct [where f = g], unfold K) (use assms(2,4,5) gb t(2) inj in simp_all)
  then obtain v where "memcpyin_loop (unat siz) root dst u t = Inr (0, v)" "vm_ok v root"
    "copied (unat siz) (\<lambda>i. dst + word_of_nat i) b t v" by auto
  then show ?thesis using t(1) by (auto simp: vm_memcpyin_def vm_memcpyout_def copied_def)
qed

theorem vm_copy_roundtrip_witness:
  "\<exists>(s :: vm_state) x t v b. vm_memcpyout x 0x1005 0x5000 1 s = Inr (0, t) \<and> vm_memcpyin x 0x6000 0x1005 1 t = Inr (0, v) \<and>
     ram s 0x5000 = Some b \<and> ram v 0x6000 = Some b"
proof -
  obtain s :: vm_state and x b where s: "vm_ok s x" "user_addr (ram s) x 0x1005 = Some (PMA_PA2VA 0x3005)" "safe_place s x (PMA_PA2VA 0x3005)"
    "ram s 0x5000 = Some b" "PMA_PA2VA 0x3005 \<noteq> 0x5000" "PMA_PA2VA 0x3005 \<noteq> 0x6000" "safe_place s x 0x6000"
    using sample_copy by blast
  have "\<exists>t v. vm_memcpyout x 0x1005 0x5000 1 s = Inr (0, t) \<and> vm_memcpyin x 0x6000 0x1005 1 t = Inr (0, v) \<and> vm_ok v x \<and>
    (\<forall>i<unat (1 :: ulong). ram v (0x6000 + word_of_nat i) = Some b)"
    by (rule vm_copy_roundtrip [OF s(1), where g = "\<lambda>_. PMA_PA2VA 0x3005"]) (use s in \<open>simp_all add: inj_on_def\<close>)
  then obtain t v where "vm_memcpyout x 0x1005 0x5000 1 s = Inr (0, t)" "vm_memcpyin x 0x6000 0x1005 1 t = Inr (0, v)" "ram v 0x6000 = Some b"
    by auto
  then show ?thesis using s(4) by blast
qed

end
