(* ===== verification/Proc_Props.thy ===== *)
theory Proc_Props
  imports Proc_Correct Vmem_Props
begin

text \<open>
  The properties of the processes: what waking does, that every operation keeps the list well formed, and three ways in which the code
  fails: an exit with children, a yield that another hart overtakes, and a large \<^verbatim>\<open>sbrk\<close>.
\<close>

section \<open>Running processes and the lock\<close>

lemma cpu_eq_running: "cpu_eq s t \<Longrightarrow> map running_proc (harts t) = map running_proc (harts s)"
  by (auto simp: cpu_eq_def intro!: running_update)

lemma running_nth: "map running_proc H = map running_proc K \<Longrightarrow> i < length K \<Longrightarrow> i < length H \<and> running_proc (H ! i) = running_proc (K ! i)"
  by (metis length_map nth_map)

lemma current_proc_running: "current_hart s < length (harts s) \<Longrightarrow> current_proc s = Inr (running_proc (harts s ! current_hart s))"
  by (simp add: current_proc_def rd_def)

lemma current_proc_cong:
  assumes "tp t = tp s" "map running_proc (harts t) = map running_proc (harts s)" "current_hart s < length (harts s)"
  shows "current_proc t = current_proc s"
proof -
  have c: "current_hart t = current_hart s" by (rule current_hart_cong [OF assms(1)])
  have "current_hart s < length (harts t)" "running_proc (harts t ! current_hart s) = running_proc (harts s ! current_hart s)"
    using running_nth [OF assms(2,3)] by simp_all
  then show ?thesis using assms(3) by (simp add: current_proc_running c)
qed

lemma procs_reacquire_panics:
  assumes "cpu_ok s" "locked (proc_manager_lock s) \<noteq> 0" "lk_hart (proc_manager_lock s) = Some (current_hart s)"
  shows "acquire_procs s = Inl (Panic ''spinlock_acquire - spinlock held;'')"
  using assms by (simp add: acquire_procs_def spinlock_acquire_def pushoff_hart_def Let_def disable_interrupt_def
      is_holding_spinlock_def cpu_ok_def current_hart_def current_hart_id_def)

section \<open>Exit with children\<close>

lemma adopt_panics:
  assumes "cpu_ok s" "locked (proc_manager_lock s) \<noteq> 0" "lk_hart (proc_manager_lock s) = Some (current_hart s)"
  shows "dll P (\<lambda>a. nxt_proc (procs s a)) b ps \<Longrightarrow> \<exists>c\<in>set ps. parent (procs s c) = p \<Longrightarrow>
    adopt_from p (nxt_proc (procs s b)) s = Some (Inl (Panic ''spinlock_acquire - spinlock held;''))"
proof (induction ps arbitrary: b)
  case (Cons e ps)
  show ?case
  proof (cases "parent (procs s e) = p")
    case True
    let ?t = "set_proc e (\<lambda>q. q\<lparr>parent := root_proc s\<rparr>) s"
    have "cpu_ok ?t" by (rule cpu_ok_cong [OF assms(1)]) (simp_all add: set_proc_def)
    moreover have "current_hart ?t = current_hart s" by (rule current_hart_cong) (simp add: set_proc_def)
    ultimately have "acquire_procs ?t = Inl (Panic ''spinlock_acquire - spinlock held;'')"
      using assms(2,3) by (intro procs_reacquire_panics) (simp_all add: set_proc_def)
    then show ?thesis using Cons.prems(1) True by (subst adopt_from.simps) (simp add: Let_def proc_wakeup_def)
  next
    case False
    then show ?thesis using Cons by (subst adopt_from.simps) auto
  qed
qed simp

section \<open>The order of an \<open>sbrk\<close>\<close>

lemma sbrk_bound:
  assumes "unat heap < 2 ^ 40" "i \<le> 48"
  shows "unat (heap + push_bit i PAGE_SIZE) = unat heap + 4096 * 2 ^ i"
proof -
  have "(2 :: nat) ^ i \<le> 2 ^ 48" using assms(2) by (intro power_increasing) simp_all
  then have b: "4096 * 2 ^ i < (2 :: nat) ^ 61" by simp
  have "push_bit i PAGE_SIZE = (word_of_nat (4096 * 2 ^ i) :: ulong)" by (simp add: PAGE_SIZE_def push_bit_eq_mult)
  then have "unat (push_bit i PAGE_SIZE) = 4096 * 2 ^ i" using unat_of_nat64 [of "4096 * 2 ^ i"] b by simp
  then show ?thesis using b assms(1) by (simp add: unat_word_ariths)
qed

lemma sbrk_order_least:
  assumes "unat heap < 2 ^ 40" "k \<le> 48" "unat nb \<le> unat heap + 4096 * 2 ^ k" "\<And>i. i < k \<Longrightarrow> unat heap + 4096 * 2 ^ i < unat nb"
  shows "n \<le> k \<Longrightarrow> sbrk_order nb heap n = ret k"
proof (induction "k - n" arbitrary: n)
  case (0 n)
  have "n = k" using 0 by simp
  then show ?case using sbrk_bound [OF assms(1,2)] assms(2,3) by (subst sbrk_order.simps) (simp add: word_less_nat_alt)
next
  case (Suc d n)
  have nk: "n < k" using Suc.hyps(2) by simp
  have "nb > heap + push_bit n PAGE_SIZE" using sbrk_bound [OF assms(1), of n] assms(2) assms(4) [OF nk] nk by (simp add: word_less_nat_alt)
  moreover have "sbrk_order nb heap (n + 1) = ret k" using Suc nk by simp
  ultimately show ?case using nk assms(2) by (subst sbrk_order.simps) simp
qed

lemma sbrk_order_large:
  assumes "unat heap < 2 ^ 40" "unat heap + 4096 * 2 ^ 10 < unat nb" "unat nb < 2 ^ 60"
  shows "\<exists>k. 11 \<le> k \<and> k \<le> 48 \<and> sbrk_order nb heap 0 = ret k"
proof -
  let ?Q = "\<lambda>i. unat nb \<le> unat heap + 4096 * 2 ^ i"
  define k where "k = (LEAST i. ?Q i)"
  have q: "?Q 48" using assms(3) by simp
  then have k: "?Q k" "k \<le> 48" unfolding k_def by (rule LeastI, intro Least_le)
  have low: "\<not> ?Q i" if "i < k" for i using that unfolding k_def by (rule not_less_Least)
  have "11 \<le> k"
  proof (rule ccontr)
    assume "\<not> 11 \<le> k"
    then have "(2 :: nat) ^ k \<le> 2 ^ 10" by (intro power_increasing) simp_all
    then show False using k(1) assms(2) by simp
  qed
  moreover have "sbrk_order nb heap 0 = ret k" by (rule sbrk_order_least [OF assms(1) k(2,1)]) (use low in \<open>auto simp: not_le\<close>)
  ultimately show ?thesis using k(2) by blast
qed

section \<open>Leaving and entering a process\<close>

text \<open>The switch of a yield: what follows it depends on the state it comes back with alone.\<close>

lemma switch_leaves:
  assumes "current_proc s = Inr p" "p \<noteq> 0" "current_hart s < length (harts s)"
  shows "\<exists>k. \<forall>sw. scheduler_switch sw s = bindM (sw s) k"
  using assms by (intro exI [of _ "\<lambda>t. bindM (Some (rd (harts t) (current_hart t))) (\<lambda>c. ret (t\<lparr>harts := (harts t)[current_hart t :=
      c\<lparr>trap_enabled := trap_enabled (harts s ! current_hart s)\<rparr>]\<rparr>))"]) (simp add: scheduler_switch_def rd_def)

lemma yield_leaves:
  fixes s :: "'a kernel_state_scheme"
  assumes "proc_ok s ps" "current_proc s = Inr p" "p \<noteq> 0"
  shows "\<exists>t k. (\<forall>sw. scheduler_yield sw s = bindM (sw t) k) \<and> proc_ok t ps \<and> proc_frame s t \<and>
    procs t = (procs s)(p := (procs s p)\<lparr>pstate := PROC_RUNNABLE\<rparr>)"
proof -
  have ok: "cpu_ok s" "locked (proc_manager_lock s) = 0" "plist (procs s) (proc_list s) ps" using assms(1) by (simp_all add: proc_ok_def)
  show ?thesis
  proof (rule procs_section [OF ok(1,2)])
    fix x H lk and s1 :: "'a kernel_state_scheme"
    assume a: "acquire_procs s = Inr s1" "s1 = s\<lparr>sstatus := x, harts := H, proc_manager_lock := lk\<rparr>"
      "\<And>h. \<exists>t. release_procs (s1\<lparr>procs := h\<rparr>) = Inr t \<and> procs t = h \<and> proc_frame s t"
    let ?h = "(procs s)(p := (procs s p)\<lparr>pstate := PROC_RUNNABLE\<rparr>)"
    obtain t where t: "release_procs (s1\<lparr>procs := ?h\<rparr>) = Inr t" "procs t = ?h" "proc_frame s t" using a(3) by blast
    have set: "upd_proc p (\<lambda>q. q\<lparr>pstate := PROC_RUNNABLE\<rparr>) s1 = Inr (s1\<lparr>procs := ?h\<rparr>)"
      using assms(3) by (simp add: upd_proc_def set_proc_def a(2))
    have "(\<lambda>a. prv_proc (?h a)) = (\<lambda>a. prv_proc (procs s a))" "(\<lambda>a. nxt_proc (?h a)) = (\<lambda>a. nxt_proc (procs s a))" by auto
    then have "plist (procs t) (proc_list s) ps" using ok(3) by (simp only: t(2))
    then have tok: "proc_ok t ps" by (rule proc_frame_ok [OF t(3) ok(1)])
    have eq: "cpu_eq s t" using t(3) by (simp add: proc_frame_def)
    have "current_proc t = Inr p"
      using current_proc_cong [OF _ cpu_eq_running [OF eq]] eq ok(1) assms(2) by (simp add: cpu_eq_def cpu_ok_def)
    then obtain k where k: "\<forall>sw. scheduler_switch sw t = bindM (sw t) k"
      using switch_leaves [of t p] assms(3) tok by (auto simp: proc_ok_def cpu_ok_def)
    have "\<forall>sw. scheduler_yield sw s = bindM (sw t) k" using k by (simp add: scheduler_yield_def assms(2) a(1) set t(1))
    then show ?thesis using tok t by blast
  qed
qed

text \<open>A round of the scheduler enters the first process of the list when it is runnable.\<close>

lemma round_enters:
  fixes s :: "'a kernel_state_scheme"
  assumes "proc_ok (enable_interrupt s) (p # ps)" "pstate (procs s p) = PROC_RUNNABLE"
  shows "\<exists>t k. (\<forall>sw. scheduler_round sw (current_hart s) s = bindM (sw t) (k sw)) \<and>
    procs t = (procs s)(p := (procs s p)\<lparr>pstate := PROC_RUNNING\<rparr>) \<and>
    map running_proc (harts t) = (map running_proc (harts s))[current_hart s := p]"
proof -
  let ?s = "enable_interrupt s"
  have ok: "cpu_ok ?s" "locked (proc_manager_lock ?s) = 0" "plist (procs ?s) (proc_list ?s) (p # ps)" using assms(1) by (simp_all add: proc_ok_def)
  have e: "procs ?s = procs s" "proc_list ?s = proc_list s" "harts ?s = harts s" "current_hart ?s = current_hart s"
    by (simp_all add: enable_interrupt_def current_hart_def current_hart_id_def)
  have p: "nxt_proc (procs s (proc_list s)) = p" "p \<noteq> 0" using ok(3) by (auto simp: dlist_def e)
  show ?thesis
  proof (rule procs_section [OF ok(1,2)])
    fix x H lk and s1 :: "'a kernel_state_scheme"
    assume a: "acquire_procs ?s = Inr s1" "s1 = ?s\<lparr>sstatus := x, harts := H, proc_manager_lock := lk\<rparr>"
      "\<And>h. \<exists>t. release_procs (s1\<lparr>procs := h\<rparr>) = Inr t \<and> procs t = h \<and> proc_frame ?s t"
    let ?h = "(procs s)(p := (procs s p)\<lparr>pstate := PROC_RUNNING\<rparr>)"
    obtain t where t: "release_procs (s1\<lparr>procs := ?h\<rparr>) = Inr t" "procs t = ?h" "proc_frame ?s t" using a(3) by blast
    have set: "set_proc p (\<lambda>q. q\<lparr>pstate := PROC_RUNNING\<rparr>) s1 = s1\<lparr>procs := ?h\<rparr>" by (simp add: set_proc_def a(2) e)
    have run: "map running_proc (harts t) = map running_proc (harts s)"
      using cpu_eq_running [of ?s t] t(3) by (simp add: proc_frame_def e)
    have "length (harts t) = length (harts s)" using run by (rule map_eq_imp_length_eq)
    then have lt: "current_hart s < length (harts t)" using ok(1) by (simp add: cpu_ok_def e)
    let ?c = "harts t ! current_hart s"
    let ?t = "t\<lparr>harts := (harts t)[current_hart s := ?c\<lparr>running_proc := p\<rparr>]\<rparr>"
    have r: "set_running (current_hart s) p t = Inr ?t" using lt by (simp add: set_running_def rd_def wr_def)
    have s1: "procs s1 = procs s" "proc_list s1 = proc_list s" by (simp_all add: a(2) e)
    let ?k = "\<lambda>sw u. bindM (bindM (Some (set_running (current_hart s) 0 u)) (\<lambda>s'. bindM (Some (acquire_procs s')) (\<lambda>s'.
        scheduler_pass sw (current_hart s) (nxt_proc (procs s' p)) s'))) (\<lambda>s'. Some (release_procs s'))"
    have "scheduler_round sw (current_hart s) s = bindM (sw ?t) (?k sw)" for sw
      unfolding scheduler_round_def a(1)
      by (simp add: s1 p(1)) (subst scheduler_pass.simps, simp add: s1 p assms(2) set t(1) r bindM_assoc)
    moreover have "map running_proc (harts ?t) = (map running_proc (harts s))[current_hart s := p]" using run by (simp add: map_update)
    ultimately show ?thesis using t(2) by (intro exI [of _ ?t] exI [of _ ?k]) simp
  qed
qed

section \<open>A sample state\<close>

definition sample_procs :: proc_heap where
  "sample_procs = (\<lambda>a. \<lparr>pid = if a = 0x200 then 7 else 0, pstate = if a = 0x200 then PROC_SLEEPING else PROC_ALLOCATED, killed = 0, exit_state = 0,
     prv_proc = if a = 0x200 then 0x100 else 0, nxt_proc = if a = 0x100 then 0x200 else 0,
     sleeping_chan = if a = 0x200 then 0x900 else 0, parent = if a = 0x200 then 0x300 else 0, kstack_vaddr = 0, stack_vaddr = 0,
     heap_vaddr = 0x200000, program_break = 0x200000, pgtbl = 0, trapframe = 0x8000, proc_context = zero_context\<rparr>)"

definition sample_hart :: "addr \<Rightarrow> hart_struct" where
  "sample_hart p = \<lparr>enabled = True, running_proc = p, hart_context = zero_context, trap_pushoff_dep = 0, trap_enabled = 0\<rparr>"

lemma sample_kernel:
  "\<exists>s :: kernel_state. proc_ok s [0x200] \<and> procs s = sample_procs \<and> proc_list s = 0x100 \<and> tp s = 0 \<and> harts s = [sample_hart p, sample_hart 0] \<and>
     ram s = put64 (\<lambda>_. Some 0) (0x8000 + tf_offset ''a0'') v"
proof -
  obtain w :: vm_state where "kmem_ok w" "ram w = (\<lambda>_. Some 0)" using sample_vm by blast
  define s :: kernel_state where "s = vm_state.extend (w\<lparr>tp := 0, sstatus := 2, harts := [sample_hart p, sample_hart 0],
      ram := put64 (\<lambda>_. Some 0) (0x8000 + tf_offset ''a0'') v\<rparr>) \<lparr>procs = sample_procs,
    proc_manager_lock = spinlock_init '''', pid_counter = 7, proc_list = 0x100, root_proc = 0, proc_object_manager = 0,
    sleeplocks = (\<lambda>_. \<lparr>sl_locked = 0, sl_lk = spinlock_init '''', sl_description = '''', sl_pid = 0\<rparr>), spinlocks = (\<lambda>_. spinlock_init ''''), tick_lock = spinlock_init '''', tick = 0,
    tick_at = 0x900, stvec = 0, sepc = 0, scause = 0, stval = 0, sip = 0, time = 0, utrap_return_at = 0, utrap_handler_at = 0,
    kernel_handler_at = 0, KERNEL_USER_HANDLER_VA = 0, KERNEL_USER_RETURN_VA = 0\<rparr>"
  have f: "procs s = sample_procs" "proc_list s = 0x100" "tp s = 0" "harts s = [sample_hart p, sample_hart 0]" "locked (proc_manager_lock s) = 0"
    "ram s = put64 (\<lambda>_. Some 0) (0x8000 + tf_offset ''a0'') v"
    by (simp_all add: s_def vm_state.defs spinlock_init_def)
  have "cpu_ok s" by (simp add: cpu_ok_def current_hart_def current_hart_id_def f sample_hart_def)
  moreover have "plist sample_procs 0x100 [0x200]" by (simp add: dlist_def sample_procs_def)
  ultimately have "proc_ok s [0x200]" by (simp add: proc_ok_def f)
  then show ?thesis using f by blast
qed

section \<open>Properties\<close>

text \<open>C32. Waking: on every state with a well-formed list and the lock free, \<^verbatim>\<open>proc_wakeup\<close> returns, and exactly the processes of the list
  that sleep on the channel become runnable. Nothing else changes.\<close>

theorem proc_wakeup_spec:
  assumes "proc_ok s ps"
  shows "\<exists>t. proc_wakeup chan s = ret t \<and> proc_ok t ps \<and> proc_frame s t \<and>
    procs t = (\<lambda>a. if a \<in> set ps \<and> sleeping_chan (procs s a) = chan \<and> pstate (procs s a) = PROC_SLEEPING
                   then (procs s a)\<lparr>pstate := PROC_RUNNABLE\<rparr> else procs s a)"
  using wakeup_correct [OF assms, of chan] by (simp add: wake_def)

theorem proc_wakeup_spec_witness:
  "\<exists>s t :: kernel_state. pstate (procs s 0x200) = PROC_SLEEPING \<and> proc_wakeup 0x900 s = ret t \<and> pstate (procs t 0x200) = PROC_RUNNABLE"
proof -
  obtain s :: kernel_state where s: "proc_ok s [0x200]" "procs s = sample_procs" using sample_kernel by blast
  from proc_wakeup_spec [OF s(1), of "0x900"] obtain t where t: "proc_wakeup 0x900 s = ret t"
    "procs t = (\<lambda>a. if a \<in> set [0x200] \<and> sleeping_chan (procs s a) = 0x900 \<and> pstate (procs s a) = PROC_SLEEPING
       then (procs s a)\<lparr>pstate := PROC_RUNNABLE\<rparr> else procs s a)" by blast
  then show ?thesis using s(2) by (intro exI [of _ s] exI [of _ t]) (simp add: sample_procs_def)
qed

text \<open>C33. The list of processes is a well-formed doubly linked list with the lock free after linking, unlinking, waking,
  killing and setting a state: linking puts a new process in front, unlinking takes a process out, and waking, killing and setting a state keep the list. All of them return, and
  \<^verbatim>\<open>proc_kill\<close> answers -1 exactly when no process has the number.\<close>

theorem proc_list_well_formed:
  assumes "proc_ok s ps"
  shows "(\<forall>p. p \<noteq> 0 \<and> p \<notin> set (proc_list s # ps) \<longrightarrow> (\<exists>t. proc_link p s = Inr t \<and> proc_ok t (p # ps))) \<and>
    (\<forall>p\<in>set ps. \<exists>t. proc_unlink p s = Inr t \<and> proc_ok t (remove1 p ps)) \<and>
    (\<exists>t. proc_wakeup chan s = ret t \<and> proc_ok t ps) \<and> (\<exists>t. proc_set_state n st s = ret t \<and> proc_ok t ps) \<and>
    (\<exists>r t. proc_kill n s = ret (r, t) \<and> proc_ok t ps \<and> (r = - 1 \<longleftrightarrow> (\<forall>a\<in>set ps. pid (procs s a) \<noteq> n)))"
proof -
  have "\<exists>r t. proc_kill n s = ret (r, t) \<and> proc_ok t ps \<and> (r = - 1 \<longleftrightarrow> (\<forall>a\<in>set ps. pid (procs s a) \<noteq> n))"
  proof (cases "find (\<lambda>a. pid (procs s a) = n) ps")
    case None
    then show ?thesis using kill_correct [OF assms, of n] None by (simp add: find_None_iff) blast
  next
    case (Some a)
    obtain r t where "proc_kill n s = ret (r, t)" "proc_ok t ps" "r = 0" using kill_correct [OF assms, of n] Some by auto
    then show ?thesis using find_in [OF Some] by fastforce
  qed
  then show ?thesis using link_correct [OF assms] unlink_correct [OF assms] wakeup_correct [OF assms, of chan] set_state_correct [OF assms, of n st]
    by blast
qed

theorem proc_list_well_formed_witness:
  "\<exists>s t u :: kernel_state. proc_link 0x400 s = Inr t \<and> proc_ok t [0x400, 0x200] \<and> proc_kill 9 s = ret (- 1, u)"
proof -
  obtain s :: kernel_state where s: "proc_ok s [0x200]" "procs s = sample_procs" "proc_list s = 0x100" using sample_kernel by blast
  note P = proc_list_well_formed [OF s(1), of 0 9 PROC_STOPPED]
  have "(0x400 :: addr) \<noteq> 0 \<and> 0x400 \<notin> set (proc_list s # [0x200])" using s(3) by simp
  then obtain t where t: "proc_link 0x400 s = Inr t" "proc_ok t [0x400, 0x200]" using P by blast
  obtain r u where u: "proc_kill 9 s = ret (r, u)" "r = - 1 \<longleftrightarrow> (\<forall>a\<in>set [0x200]. pid (procs s a) \<noteq> 9)" using P by blast
  then have "r = - 1" by (simp add: s(2) sample_procs_def)
  then show ?thesis using t u(1) by blast
qed

text \<open>C35. A process that has a child cannot exit: \<^verbatim>\<open>proc_exit\<close> calls \<^verbatim>\<open>proc_wakeup\<close> with the lock of the process manager
  held, and the kernel panics.\<close>

theorem proc_exit_with_child_panics:
  assumes "proc_ok s ps" "current_proc s = Inr p" "c \<in> set ps" "parent (procs s c) = p"
  shows "proc_exit sw code s = Some (Inl (Panic ''spinlock_acquire - spinlock held;''))"
proof -
  have ok: "cpu_ok s" "locked (proc_manager_lock s) = 0" "plist (procs s) (proc_list s) ps" using assms(1) by (simp_all add: proc_ok_def)
  show ?thesis
  proof (rule procs_section [OF ok(1,2)])
    fix x H lk s1
    assume a: "acquire_procs s = Inr s1" "s1 = s\<lparr>sstatus := x, harts := H, proc_manager_lock := lk\<rparr>" "cpu_ok s1"
      "locked lk = 1" "lk_hart lk = Some (current_hart s)" "map running_proc H = map running_proc (harts s)"
    have c1: "current_hart s1 = current_hart s" by (rule current_hart_cong) (simp add: a(2))
    have cp: "current_proc s1 = Inr p" using current_proc_cong [of s1 s] a(2,6) ok(1) assms(2) by (simp add: cpu_ok_def)
    have "adopt_from p (nxt_proc (procs s1 (proc_list s1))) s1 = Some (Inl (Panic ''spinlock_acquire - spinlock held;''))"
      by (rule adopt_panics [of s1 "\<lambda>a. prv_proc (procs s a)" _ ps])
        (use a c1 ok(3) assms(3,4) in \<open>auto simp: dlist_def\<close>)
    then show ?thesis by (simp add: proc_exit_def a(1) cp)
  qed
qed

theorem proc_exit_with_child_panics_witness:
  "\<exists>s :: kernel_state. proc_exit (\<lambda>_. None) 0 s = Some (Inl (Panic ''spinlock_acquire - spinlock held;''))"
proof -
  obtain s :: kernel_state where s: "proc_ok s [0x200]" "procs s = sample_procs" "tp s = 0" "harts s = [sample_hart 0x300, sample_hart 0]"
    using sample_kernel by blast
  have "current_proc s = Inr 0x300" by (simp add: current_proc_def rd_def current_hart_def current_hart_id_def s sample_hart_def)
  from proc_exit_with_child_panics [OF s(1) this, of "0x200" "\<lambda>_. None" 0] show ?thesis by (auto simp: s(2) sample_procs_def)
qed

text \<open>C36. A user program can stop the kernel: \<^verbatim>\<open>sbrk\<close> past the end of the heap by more than 4 MiB asks the page allocator for
  an order it panics on (for a heap below \<open>2 ^ 40\<close> and a new break below \<open>2 ^ 60\<close>).\<close>

theorem syscall_sbrk_panics:
  assumes "cpu_ok s" "locked (proc_manager_lock s) = 0" "current_proc s = Inr p" "ld_tf p ''a0'' s = Inr delta" "0 < sint delta"
    "unat (heap_vaddr (procs s p)) < 2 ^ 40" "unat (heap_vaddr (procs s p)) + 4096 * 2 ^ 10 < unat (program_break (procs s p) + delta)"
    "unat (program_break (procs s p) + delta) < 2 ^ 60"
  shows "syscall_sbrk sw s = Some (Inl (Panic ''kmem_alloc_pages - too large''))"
proof (rule procs_section [OF assms(1,2)])
  fix x H lk s1
  assume a: "acquire_procs s = Inr s1" "s1 = s\<lparr>sstatus := x, harts := H, proc_manager_lock := lk\<rparr>"
  obtain k where k: "11 \<le> k" "k \<le> 48" "sbrk_order (program_break (procs s p) + delta) (heap_vaddr (procs s p)) 0 = ret k"
    using sbrk_order_large [OF assms(6-8)] by blast
  have ps: "procs s1 = procs s" by (simp add: a(2))
  have nd: "delta \<noteq> push_bit 63 1" using assms(5) by auto
  have gt: "program_break (procs s p) + delta > heap_vaddr (procs s p)" using assms(7) by (simp add: word_less_nat_alt)
  have "unat (word_of_nat k :: ulong) = k" by (rule unat_of_nat64) (use k(2) in simp)
  then have "kmem_alloc_pages (word_of_nat k) s1 = Inl (Panic ''kmem_alloc_pages - too large'')"
    using k(1) by (simp add: kmem_alloc_pages_def MAX_MEM_ORDER_def)
  then show ?thesis using a(1) assms(3,4,5) ps nd gt k(3) by (simp add: syscall_sbrk_def Let_def)
qed

theorem syscall_sbrk_panics_witness:
  "\<exists>s :: kernel_state. syscall_sbrk (\<lambda>_. None) s = Some (Inl (Panic ''kmem_alloc_pages - too large''))"
proof -
  obtain s :: kernel_state where s: "proc_ok s [0x200]" "procs s = sample_procs" "tp s = 0" "harts s = [sample_hart 0x200, sample_hart 0]"
    "ram s = put64 (\<lambda>_. Some 0) (0x8000 + tf_offset ''a0'') 0x1000000" using sample_kernel [of "0x200" "0x1000000"] by blast
  have c: "current_proc s = Inr 0x200" by (simp add: current_proc_def rd_def current_hart_def current_hart_id_def s sample_hart_def)
  have "mapped (ram s) (0x8000 + tf_offset ''a0'') 8" by (simp add: s(5) mapped_def)
  then have l: "ld_tf 0x200 ''a0'' s = Inr 0x1000000"
    using ld64_mapped [of "ram s"] by (simp add: ld_tf_def proc_at_def s(2) sample_procs_def s(5) w64_put64_same)
  have "cpu_ok s" "locked (proc_manager_lock s) = 0" using s(1) by (simp_all add: proc_ok_def)
  from syscall_sbrk_panics [OF this c l, of "\<lambda>_. None"] show ?thesis by (auto simp: s(2) sample_procs_def)
qed

text \<open>C34. A yield can be overtaken: \<^verbatim>\<open>scheduler_yield\<close> makes its process runnable and gives the lock back before
  \<^verbatim>\<open>proc_switch\<close> has saved the registers. When the process is the first in the list and another hart, in no critical section, begins a round of
  \<^verbatim>\<open>scheduler\<close> at that point, it enters the same process with the registers of the last time it was left, and the two harts run one process on one kernel stack.\<close>

theorem scheduler_yield_overtaken:
  fixes s :: "'a kernel_state_scheme"
  assumes "proc_ok s (p # ps)" "current_proc s = Inr p" "j = current_hart (s\<lparr>tp := hid\<rparr>)" "j \<noteq> current_hart s" "j < length (harts s)"
    "trap_pushoff_dep (harts s ! j) = 0"
  shows "\<exists>s1 k1 s2 k2. (\<forall>sw. scheduler_yield sw s = bindM (sw s1) k1) \<and>
    (\<forall>sw. scheduler_round sw j (s1\<lparr>tp := hid, sstatus := x\<rparr>) = bindM (sw s2) (k2 sw)) \<and>
    running_proc (harts s2 ! current_hart s) = p \<and> running_proc (harts s2 ! j) = p \<and> proc_context (procs s2 p) = proc_context (procs s p)"
proof -
  have pl: "plist (procs s) (proc_list s) (p # ps)" "current_hart s < length (harts s)" using assms(1) by (simp_all add: proc_ok_def cpu_ok_def)
  have "p \<noteq> 0" using dlist_nonzero [OF pl(1)] by auto
  from yield_leaves [OF assms(1,2) this] obtain s1 k1 where y: "\<forall>sw. scheduler_yield sw s = bindM (sw s1) k1" "proc_ok s1 (p # ps)"
    "proc_frame s s1" "procs s1 = (procs s)(p := (procs s p)\<lparr>pstate := PROC_RUNNABLE\<rparr>)" by blast
  let ?u = "s1\<lparr>tp := hid, sstatus := x\<rparr>"
  have eq: "cpu_eq s s1" using y(3) by (simp add: proc_frame_def)
  have run: "map running_proc (harts s1) = map running_proc (harts s)" by (rule cpu_eq_running [OF eq])
  have len: "length (harts s1) = length (harts s)" using run by (rule map_eq_imp_length_eq)
  have h: "harts s1 ! j = harts s ! j" using eq assms(4) by (auto simp: cpu_eq_def)
  have j: "current_hart ?u = j" "current_hart (enable_interrupt ?u) = j"
    by (simp_all add: assms(3) current_hart_def current_hart_id_def enable_interrupt_def)
  have "cpu_ok (enable_interrupt ?u)"
    unfolding cpu_ok_def j(2) using len h assms(5,6) by (simp add: enable_interrupt_def)
  then have "proc_ok (enable_interrupt ?u) (p # ps)" using y(2) by (simp add: proc_ok_def enable_interrupt_def)
  from round_enters [OF this] obtain s2 k2 where r: "\<forall>sw. scheduler_round sw j ?u = bindM (sw s2) (k2 sw)"
    "procs s2 = (procs s1)(p := (procs s1 p)\<lparr>pstate := PROC_RUNNING\<rparr>)" "map running_proc (harts s2) = (map running_proc (harts s1))[j := p]"
    by (auto simp: y(4) j(1))
  have len2: "length (harts s2) = length (harts s)" using arg_cong [OF r(3), of length] len by simp
  have "running_proc (harts s2 ! i) = (map running_proc (harts s))[j := p] ! i" if "i < length (harts s)" for i
    using r(3) run len2 that by (metis nth_map)
  then have "running_proc (harts s2 ! current_hart s) = p" "running_proc (harts s2 ! j) = p"
    using pl(2) assms(2,4,5) by (simp_all add: current_proc_running)
  then show ?thesis using y(1,4) r(1,2) by (intro exI [of _ s1] exI [of _ k1] exI [of _ s2] exI [of _ k2]) simp
qed

theorem scheduler_yield_overtaken_witness:
  "\<exists>(s :: kernel_state) s1 k1 s2 k2. current_proc s = Inr 0x200 \<and> (\<forall>sw. scheduler_yield sw s = bindM (sw s1) k1) \<and>
    (\<forall>sw. scheduler_round sw 1 (s1\<lparr>tp := 1, sstatus := 0\<rparr>) = bindM (sw s2) (k2 sw)) \<and>
    running_proc (harts s2 ! 0) = 0x200 \<and> running_proc (harts s2 ! 1) = 0x200 \<and> proc_context (procs s2 0x200) = zero_context"
proof -
  obtain s :: kernel_state where s: "proc_ok s [0x200]" "procs s = sample_procs" "tp s = 0" "harts s = [sample_hart 0x200, sample_hart 0]"
    using sample_kernel by blast
  have c: "current_hart s = 0" "current_hart (s\<lparr>tp := 1\<rparr>) = 1" by (simp_all add: current_hart_def current_hart_id_def s(3))
  have p: "current_proc s = Inr 0x200" by (simp add: current_proc_def rd_def c s(4) sample_hart_def)
  have "trap_pushoff_dep (harts s ! 1) = 0" by (simp add: s(4) sample_hart_def)
  from scheduler_yield_overtaken [OF s(1) p c(2) [symmetric] _ _ this, of 0] show ?thesis
    using p by (auto simp: c(1) s(2,4) sample_procs_def)
qed

end
