(* ===== verification/Device.thy ===== *)
theory Device
  imports Device_Memory Hal_Trap
begin

text \<open>
  The devices of \<^verbatim>\<open>kernel/include/device.h\<close> and the state of their drivers. The hardware behind the registers of a device
  is a parameter \<open>hw\<close>: what a load and a store of a byte or a word at an address do to the state. A driver's static data is held
  by the address of its structure.
\<close>

record 's mmio =
  mmio_ld8 :: "addr \<Rightarrow> 's \<Rightarrow> uint8 \<times> 's"
  mmio_st8 :: "addr \<Rightarrow> uint8 \<Rightarrow> 's \<Rightarrow> 's"
  mmio_ld32 :: "addr \<Rightarrow> 's \<Rightarrow> uint32 \<times> 's"
  mmio_st32 :: "addr \<Rightarrow> uint32 \<Rightarrow> 's \<Rightarrow> 's"

datatype driver_id = No_Driver | Plic_Driver | Ns16550a_Driver | Virtio_Driver

record device_struct =
  dev_name :: string
  fdt_node_offset :: int
  dev_devId :: uint32
  dev_driver :: driver_id
  driver_internal :: addr
  dev_parent :: addr
  dev_children :: addr
  dev_next :: addr

definition sizeof_device_struct :: ulong where "sizeof_device_struct = 56"

record plic_internal_struct =
  plic_devId :: uint32
  plic_reg_base :: uint64
  plic_reg_size :: uint64

record ns16550a_internal_struct =
  u_devId :: uint32
  u_interrupt_src_id :: uint32
  u_clock_freq :: uint32
  u_reg_base :: uint64
  u_reg_size :: uint64
  tx_buffer :: "uint8 list"
  rx_buffer :: "uint8 list"
  tx_buffer_head :: ulong
  tx_buffer_tail :: ulong
  rx_buffer_head :: ulong
  rx_buffer_tail :: ulong

record driver_state = memory_state +
  devices :: "addr \<Rightarrow> device_struct"
  plics :: "addr \<Rightarrow> plic_internal_struct"
  uarts :: "addr \<Rightarrow> ns16550a_internal_struct"
  device_counter :: uint32
  fdt_chosen_node_offset :: int
  root_children :: addr

definition ld32 :: "memory \<Rightarrow> addr \<Rightarrow> uint32 res" where
  "ld32 m p = bindR (ldn 4 m p) (\<lambda>w. Inr (ucast w))"

text \<open>\<^verbatim>\<open>prop->len\<close> and the data of a property, as the drivers read them.\<close>

definition prop_len :: "addr \<Rightarrow> memory \<Rightarrow> uint32 res" where
  "prop_len prop m = bindR (ld32 m (prop + 4)) (\<lambda>w. Inr (fdt32_to_cpu w))"

definition prop_u32 :: "addr \<Rightarrow> memory \<Rightarrow> uint32 res" where
  "prop_u32 prop m = bindR (ld32 m (prop + 12)) (\<lambda>w. Inr (fdt32_to_cpu w))"

definition prop_u64 :: "addr \<Rightarrow> ulong \<Rightarrow> memory \<Rightarrow> uint64 res" where
  "prop_u64 prop i m = bindR (ld64 m (prop + 12 + 8 * i)) (\<lambda>w. Inr (fdt64_to_cpu w))"

type_synonym 's hal = "'s hal_trap_manager \<times> 's hal_uart_manager"

end
