(* ===== verification/Ns16550a.thy ===== *)
theory Ns16550a
  imports Device
begin

text \<open>
  \<^verbatim>\<open>kernel/device/drivers/ns16550a/ns16550a.c\<close>: the driver of the serial port, with its ring buffers for output and input.
  The locks and the wait channels are addresses inside the driver's structure.
\<close>

section \<open>Registers and layout\<close>

definition UART_REG :: "uint64 \<Rightarrow> ulong \<Rightarrow> addr" where
  "UART_REG base reg_id = PMA_PA2VA (base + reg_id)"

definition UART_RHR :: ulong where "UART_RHR = 0"
definition UART_THR :: ulong where "UART_THR = 0"
definition UART_IER :: ulong where "UART_IER = 1"
definition UART_IER_RX_ENABLE :: uint8 where "UART_IER_RX_ENABLE = push_bit 0 1"
definition UART_IER_TX_ENABLE :: uint8 where "UART_IER_TX_ENABLE = push_bit 1 1"
definition UART_FCR :: ulong where "UART_FCR = 2"
definition UART_FCR_FIFO_ENABLE :: uint8 where "UART_FCR_FIFO_ENABLE = push_bit 0 1"
definition UART_FCR_FIFO_CLEAR :: uint8 where "UART_FCR_FIFO_CLEAR = push_bit 1 3"
definition UART_LCR :: ulong where "UART_LCR = 3"
definition UART_LCR_EIGHT_BITS :: uint8 where "UART_LCR_EIGHT_BITS = push_bit 0 3"
definition UART_LCR_BAUD_LATCH :: uint8 where "UART_LCR_BAUD_LATCH = push_bit 7 1"
definition UART_LSR :: ulong where "UART_LSR = 5"
definition UART_LSR_TX_IDLE :: uint8 where "UART_LSR_TX_IDLE = push_bit 5 1"
definition TX_BUFFER_SIZE :: ulong where "TX_BUFFER_SIZE = 256"
definition RX_BUFFER_SIZE :: ulong where "RX_BUFFER_SIZE = 256"

definition sizeof_ns16550a :: ulong where "sizeof_ns16550a = 624"
definition tx_lock_at :: "addr \<Rightarrow> addr" where "tx_lock_at u = u + 32"
definition rx_lock_at :: "addr \<Rightarrow> addr" where "rx_lock_at u = u + 56"
definition tx_head_at :: "addr \<Rightarrow> addr" where "tx_head_at u = u + 592"
definition rx_head_at :: "addr \<Rightarrow> addr" where "rx_head_at u = u + 608"

definition set_uart ::
  "addr \<Rightarrow> (ns16550a_internal_struct \<Rightarrow> ns16550a_internal_struct) \<Rightarrow> 'a driver_state_scheme \<Rightarrow> 'a driver_state_scheme" where
  "set_uart u f s = s\<lparr>uarts := (uarts s)(u := f (uarts s u))\<rparr>"

section \<open>Output\<close>

text \<open>The loop of \<^verbatim>\<open>ns16550a_driver_flush\<close>; \<open>u\<close> is \<^verbatim>\<open>dev->driver_internal\<close>.\<close>

partial_function (option) flush_loop ::
  "'a driver_state_scheme mmio \<Rightarrow> addr \<Rightarrow> 'a driver_state_scheme \<Rightarrow> 'a driver_state_scheme run" where
  "flush_loop hw u s =
     (if tx_buffer_head (uarts s u) \<noteq> tx_buffer_tail (uarts s u) then
        let (lsr, s) = mmio_ld8 hw (UART_REG (u_reg_base (uarts s u)) UART_LSR) s
        in if lsr AND UART_LSR_TX_IDLE \<noteq> 0 then
             bindM (Some (rd (tx_buffer (uarts s u)) (unat (tx_buffer_head (uarts s u) mod TX_BUFFER_SIZE)))) (\<lambda>c.
             let s = set_uart u (\<lambda>w. w\<lparr>tx_buffer_head := tx_buffer_head w + 1\<rparr>) s;
                 s = mmio_st8 hw (UART_REG (u_reg_base (uarts s u)) UART_THR) c s
             in bindM (proc_wakeup (tx_head_at u) s) (\<lambda>s. flush_loop hw u s))
           else ret s
      else ret s)"

definition ns16550a_driver_flush ::
  "'a driver_state_scheme mmio \<Rightarrow> addr \<Rightarrow> 'a driver_state_scheme \<Rightarrow> 'a driver_state_scheme run" where
  "ns16550a_driver_flush hw dev s = flush_loop hw (driver_internal (devices s dev)) s"

text \<open>Waiting for room in the output buffer.\<close>

partial_function (option) tx_wait ::
  "('a driver_state_scheme \<Rightarrow> 'a driver_state_scheme run) \<Rightarrow> addr \<Rightarrow> 'a driver_state_scheme \<Rightarrow> 'a driver_state_scheme run" where
  "tx_wait sw u s =
     (if tx_buffer_head (uarts s u) + TX_BUFFER_SIZE = tx_buffer_tail (uarts s u)
      then bindM (proc_sleep sw (tx_head_at u) (Lock_At (tx_lock_at u)) s) (\<lambda>s. tx_wait sw u s)
      else ret s)"

definition ns16550a_driver_putc_async ::
  "'a driver_state_scheme mmio \<Rightarrow> ('a driver_state_scheme \<Rightarrow> 'a driver_state_scheme run) \<Rightarrow> addr \<Rightarrow> uint8 \<Rightarrow>
   'a driver_state_scheme \<Rightarrow> 'a driver_state_scheme run" where
  "ns16550a_driver_putc_async hw sw dev c s =
     (let u = driver_internal (devices s dev)
      in bindM (Some (acquire_ref (Lock_At (tx_lock_at u)) s)) (\<lambda>s.
         bindM (tx_wait sw u s) (\<lambda>s.
         bindM (Some (wr (tx_buffer (uarts s u)) (unat (tx_buffer_tail (uarts s u) mod TX_BUFFER_SIZE)) c)) (\<lambda>buf.
         let s = set_uart u (\<lambda>w. w\<lparr>tx_buffer := buf, tx_buffer_tail := tx_buffer_tail w + 1\<rparr>) s
         in bindM (ns16550a_driver_flush hw dev s) (\<lambda>s.
            Some (release_ref (Lock_At (tx_lock_at u)) s))))))"

partial_function (option) idle_wait ::
  "'a driver_state_scheme mmio \<Rightarrow> addr \<Rightarrow> 'a driver_state_scheme \<Rightarrow> 'a driver_state_scheme run" where
  "idle_wait hw reg s =
     (let (lsr, s) = mmio_ld8 hw reg s in if lsr AND UART_LSR_TX_IDLE = 0 then idle_wait hw reg s else ret s)"

definition ns16550a_driver_putc_sync ::
  "'a driver_state_scheme mmio \<Rightarrow> addr \<Rightarrow> uint8 \<Rightarrow> 'a driver_state_scheme \<Rightarrow> 'a driver_state_scheme run" where
  "ns16550a_driver_putc_sync hw dev c s =
     (let base = u_reg_base (uarts s (driver_internal (devices s dev)))
      in bindM (Some (pushoff_hart s)) (\<lambda>s.
         bindM (idle_wait hw (UART_REG base UART_LSR) s) (\<lambda>s.
         Some (popoff_hart (mmio_st8 hw (UART_REG base UART_THR) c s)))))"

section \<open>Input\<close>

text \<open>-1 when no character has arrived.\<close>

definition ns16550a_driver_getc :: "'a driver_state_scheme mmio \<Rightarrow> addr \<Rightarrow> 'a driver_state_scheme \<Rightarrow> int \<times> 'a driver_state_scheme" where
  "ns16550a_driver_getc hw dev s =
     (let base = u_reg_base (uarts s (driver_internal (devices s dev)));
          (lsr, s) = mmio_ld8 hw (UART_REG base UART_LSR) s
      in if lsr AND 0x01 \<noteq> 0 then let (c, s) = mmio_ld8 hw (UART_REG base UART_RHR) s in (uint c, s) else (- 1, s))"

partial_function (option) rx_wait ::
  "('a driver_state_scheme \<Rightarrow> 'a driver_state_scheme run) \<Rightarrow> addr \<Rightarrow> 'a driver_state_scheme \<Rightarrow> 'a driver_state_scheme run" where
  "rx_wait sw u s =
     (if rx_buffer_head (uarts s u) = rx_buffer_tail (uarts s u)
      then bindM (proc_sleep sw (rx_head_at u) (Lock_At (rx_lock_at u)) s) (\<lambda>s. rx_wait sw u s)
      else ret s)"

definition ns16550a_driver_readc ::
  "('a driver_state_scheme \<Rightarrow> 'a driver_state_scheme run) \<Rightarrow> addr \<Rightarrow> 'a driver_state_scheme \<Rightarrow> (uint8 \<times> 'a driver_state_scheme) run" where
  "ns16550a_driver_readc sw dev s =
     (let u = driver_internal (devices s dev)
      in bindM (Some (acquire_ref (Lock_At (rx_lock_at u)) s)) (\<lambda>s.
         bindM (rx_wait sw u s) (\<lambda>s.
         bindM (Some (rd (rx_buffer (uarts s u)) (unat (rx_buffer_head (uarts s u) mod RX_BUFFER_SIZE)))) (\<lambda>c.
         let s = set_uart u (\<lambda>w. w\<lparr>rx_buffer_head := rx_buffer_head w + 1\<rparr>) s
         in bindM (Some (release_ref (Lock_At (rx_lock_at u)) s)) (\<lambda>s. ret (c, s))))))"

text \<open>The loop of the interrupt handler, entered with the character \<open>rec_c\<close> just read; it takes no lock.\<close>

partial_function (option) receive_loop ::
  "'a driver_state_scheme mmio \<Rightarrow> addr \<Rightarrow> int \<Rightarrow> 'a driver_state_scheme \<Rightarrow> 'a driver_state_scheme run" where
  "receive_loop hw dev rec_c s =
     (if rec_c \<noteq> - 1 then
        let u = driver_internal (devices s dev)
        in bindM (Some (wr (rx_buffer (uarts s u)) (unat (rx_buffer_tail (uarts s u) mod RX_BUFFER_SIZE)) (word_of_int rec_c))) (\<lambda>buf.
           bindM (proc_wakeup (rx_head_at u) (set_uart u (\<lambda>w. w\<lparr>rx_buffer := buf, rx_buffer_tail := rx_buffer_tail w + 1\<rparr>) s)) (\<lambda>s.
           let (c, s) = ns16550a_driver_getc hw dev s in receive_loop hw dev c s))
      else ret s)"

definition ns16550a_driver_interrupt_handler ::
  "'a driver_state_scheme mmio \<Rightarrow> addr \<Rightarrow> 'a driver_state_scheme \<Rightarrow> (int \<times> 'a driver_state_scheme) run" where
  "ns16550a_driver_interrupt_handler hw dev s =
     (let u = driver_internal (devices s dev); (c, s) = ns16550a_driver_getc hw dev s
      in bindM (receive_loop hw dev c s) (\<lambda>s.
         bindM (Some (acquire_ref (Lock_At (tx_lock_at u)) s)) (\<lambda>s.
         bindM (ns16550a_driver_flush hw dev s) (\<lambda>s.
         bindM (Some (release_ref (Lock_At (tx_lock_at u)) s)) (\<lambda>s. ret (0, s))))))"

section \<open>Recognition and setup\<close>

definition ns16550a_driver_recognize_device :: "literals \<Rightarrow> addr \<Rightarrow> int \<Rightarrow> memory \<Rightarrow> bool run" where
  "ns16550a_driver_recognize_device lit fdt node_offset m =
     bindM (fdt_get_name fdt node_offset m) (\<lambda>(name, _).
     bindM (fdt_get_property fdt node_offset (lit ''compatible'') m) (\<lambda>(p, _).
     if p = 0 \<or> name = 0 then ret False
     else
       bindM (Some (strncmp name (lit ''uart@'') 5 m)) (\<lambda>r.
       if r \<noteq> 0 then ret False else bindM (strcmp (p + 12) (lit ''ns16550a'') m) (\<lambda>r. ret (r = 0)))))"

definition set_device :: "addr \<Rightarrow> device_struct \<Rightarrow> 'a driver_state_scheme \<Rightarrow> 'a driver_state_scheme" where
  "set_device a d s = s\<lparr>devices := (devices s)(a := d)\<rparr>"

text \<open>The three properties of the node, read into the driver's structure; \<open>False\<close> is the jump to the cleanup.\<close>

definition uart_read_fdt :: "literals \<Rightarrow> addr \<Rightarrow> int \<Rightarrow> addr \<Rightarrow> 'a driver_state_scheme \<Rightarrow> (bool \<times> 'a driver_state_scheme) run" where
  "uart_read_fdt lit fdt node_offset u s =
     bindM (fdt_get_property fdt node_offset (lit ''interrupts'') (ram s)) (\<lambda>(prop, _).
     if prop = 0 then ret (False, s) else bindM (Some (prop_len prop (ram s))) (\<lambda>len.
     if len \<noteq> 4 then ret (False, s) else bindM (Some (prop_u32 prop (ram s))) (\<lambda>src.
     let s = set_uart u (\<lambda>w. w\<lparr>u_interrupt_src_id := src\<rparr>) s
     in bindM (fdt_get_property fdt node_offset (lit ''clock-frequency'') (ram s)) (\<lambda>(prop, _).
        if prop = 0 then ret (False, s) else bindM (Some (prop_len prop (ram s))) (\<lambda>len.
        if len \<noteq> 4 then ret (False, s) else bindM (Some (prop_u32 prop (ram s))) (\<lambda>freq.
        let s = set_uart u (\<lambda>w. w\<lparr>u_clock_freq := freq\<rparr>) s
        in bindM (fdt_get_property fdt node_offset (lit ''reg'') (ram s)) (\<lambda>(prop, _).
           if prop = 0 then ret (False, s) else bindM (Some (prop_len prop (ram s))) (\<lambda>len.
           if len \<noteq> 16 then ret (False, s) else bindM (Some (prop_u64 prop 0 (ram s))) (\<lambda>base.
           bindM (Some (prop_u64 prop 1 (ram s))) (\<lambda>siz.
           ret (True, set_uart u (\<lambda>w. w\<lparr>u_reg_base := base, u_reg_size := siz\<rparr>) s)))))))))))"

text \<open>The registers of the port.\<close>

definition uart_setup :: "'a driver_state_scheme mmio \<Rightarrow> uint64 \<Rightarrow> 'a driver_state_scheme \<Rightarrow> 'a driver_state_scheme" where
  "uart_setup hw base s =
     fold (\<lambda>(reg, v). mmio_st8 hw (UART_REG base reg) v)
       [(UART_IER, 0), (UART_LCR, UART_LCR_BAUD_LATCH), (0, 0x03), (1, 0x00), (UART_LCR, UART_LCR_EIGHT_BITS),
        (UART_FCR, UART_FCR_FIFO_ENABLE OR UART_FCR_FIFO_CLEAR), (UART_IER, UART_IER_TX_ENABLE OR UART_IER_RX_ENABLE)] s"

definition uart_error_cleanup ::
  "'a driver_state_scheme hal \<Rightarrow> addr \<Rightarrow> addr \<Rightarrow> addr \<Rightarrow> 'a driver_state_scheme \<Rightarrow> (addr \<times> 'a driver_state_scheme hal \<times> 'a driver_state_scheme) run" where
  "uart_error_cleanup hal u dev hal_u s =
     bindM (Some (kmem_free u s)) (\<lambda>s. bindM (Some (kmem_free dev s)) (\<lambda>s. bindM (Some (kmem_free hal_u s)) (\<lambda>s. ret (0, hal, s))))"

text \<open>After the four allocations; only \<^verbatim>\<open>hal_u\<close> may still be null here, since the check after it looks at \<^verbatim>\<open>u_irq\<close> again.\<close>

definition uart_register ::
  "'a driver_state_scheme mmio \<Rightarrow> ('a driver_state_scheme \<Rightarrow> 'a driver_state_scheme run) \<Rightarrow> literals \<Rightarrow> uint32 \<Rightarrow> addr \<Rightarrow> int \<Rightarrow> addr \<Rightarrow> addr \<Rightarrow> addr \<Rightarrow> addr \<Rightarrow>
   'a driver_state_scheme hal \<Rightarrow> 'a driver_state_scheme \<Rightarrow> (addr \<times> 'a driver_state_scheme hal \<times> 'a driver_state_scheme) run" where
  "uart_register hw sw lit devId fdt node_offset u dev u_irq hal_u hal s =
     (let s = set_uart u (\<lambda>w. w\<lparr>u_devId := devId\<rparr>) s
      in bindM (uart_read_fdt lit fdt node_offset u s) (\<lambda>(ok, s).
         if \<not> ok then uart_error_cleanup hal u dev hal_u s
         else
           let s = set_device dev \<lparr>dev_name = ''NS16550A Compatible UART Device'', fdt_node_offset = node_offset, dev_devId = devId,
                     dev_driver = Ns16550a_Driver, driver_internal = u, dev_parent = 0, dev_children = 0, dev_next = 0\<rparr> s;
               hm = (fst hal)\<lparr>irqs := (irqs (fst hal))(u_irq := (irqs (fst hal) u_irq)\<lparr>
                       irq_handler := Some (ns16550a_driver_interrupt_handler hw), interrupt_src_id := sint (u_interrupt_src_id (uarts s u)),
                       irq_dev := dev\<rparr>)\<rparr>;
               (r, hm) = hal_trap_register_irq u_irq hm
           in if r \<noteq> 0 then
                bindM (Some (kmem_free u_irq s)) (uart_error_cleanup (hm, snd hal) u dev hal_u)
              else
                let s = s\<lparr>spinlocks := (spinlocks s)(tx_lock_at u := spinlock_init ''ns16550a_tx_lock'',
                            rx_lock_at u := spinlock_init ''ns16550a_rx_lock'')\<rparr>;
                    s = uart_setup hw (u_reg_base (uarts s u)) s
                in if hal_u = 0 then Some (Inl Undefined)
                   else
                     let um = (snd hal)\<lparr>udevs := (udevs (snd hal))(hal_u := (udevs (snd hal) hal_u)\<lparr>u_dev := dev,
                                u_write := ns16550a_driver_putc_async hw sw, u_read := ns16550a_driver_readc sw\<rparr>)\<rparr>
                     in ret (dev, (hm, snd (hal_uart_register_device hal_u um)), s)))"

definition ns16550a_driver_init ::
  "'a driver_state_scheme mmio \<Rightarrow> ('a driver_state_scheme \<Rightarrow> 'a driver_state_scheme run) \<Rightarrow> literals \<Rightarrow> uint32 \<Rightarrow> addr \<Rightarrow> int \<Rightarrow>
   'a driver_state_scheme hal \<Rightarrow> 'a driver_state_scheme \<Rightarrow> (addr \<times> 'a driver_state_scheme hal \<times> 'a driver_state_scheme) run" where
  "ns16550a_driver_init hw sw lit devId fdt node_offset hal s =
     bindM (kmem_alloc sizeof_ns16550a s) (\<lambda>(u, s).
     if u = 0 then ret (0, hal, s)
     else bindM (kmem_alloc sizeof_device_struct s) (\<lambda>(dev, s).
       if dev = 0 then bindM (Some (kmem_free u s)) (\<lambda>s. ret (0, hal, s))
       else bindM (kmem_alloc 32 s) (\<lambda>(u_irq, s).
         if u_irq = 0 then bindM (Some (kmem_free u s)) (\<lambda>s. bindM (Some (kmem_free dev s)) (\<lambda>s. ret (0, hal, s)))
         else bindM (kmem_alloc 32 s) (\<lambda>(hal_u, s). uart_register hw sw lit devId fdt node_offset u dev u_irq hal_u hal s))))"

end
