(* ===== verification/Uart_Props.thy ===== *)
theory Uart_Props
  imports Ns16550a Proc_Correct
begin

text \<open>
  The output buffer of the serial driver is a queue: whatever the port does, the characters handed to it and those still in the
  buffer are, in order, the characters that were put in.
\<close>

section \<open>The queue\<close>

definition tx_size :: "ns16550a_internal_struct \<Rightarrow> nat" where
  "tx_size w = unat (tx_buffer_tail w - tx_buffer_head w)"

definition tx_queue :: "ns16550a_internal_struct \<Rightarrow> uint8 list" where
  "tx_queue w = map (\<lambda>i. tx_buffer w ! ((unat (tx_buffer_head w) + i) mod 256)) [0..<tx_size w]"

definition uart_ok :: "ns16550a_internal_struct \<Rightarrow> bool" where
  "uart_ok w \<longleftrightarrow> length (tx_buffer w) = 256 \<and> tx_size w \<le> 256"

lemma unat_mod_256: "unat (x + word_of_nat i :: ulong) mod 256 = (unat x + i) mod 256"
proof -
  have d: "(256 :: nat) dvd 2 ^ 64" by simp
  have "unat (x + word_of_nat i) = (unat x + i mod 2 ^ 64) mod 2 ^ 64" by (simp add: unat_word_ariths unat_of_nat)
  then have "unat (x + word_of_nat i) mod 256 = (unat x + i mod 2 ^ 64) mod 256" by (simp only: mod_mod_cancel [OF d])
  also have "\<dots> = (unat x + i) mod 256" by (metis mod_add_right_eq mod_mod_cancel [OF d])
  finally show ?thesis .
qed

lemma tx_size_zero: "tx_size w = 0 \<longleftrightarrow> tx_buffer_head w = tx_buffer_tail w"
  by (auto simp: tx_size_def unat_eq_zero)

lemma tx_pop:
  assumes "uart_ok w" "tx_buffer_head w \<noteq> tx_buffer_tail w"
  defines "v \<equiv> w\<lparr>tx_buffer_head := tx_buffer_head w + 1\<rparr>"
  shows "tx_size v + 1 = tx_size w" "uart_ok v" "tx_queue w = tx_buffer w ! (unat (tx_buffer_head w) mod 256) # tx_queue v"
proof -
  let ?d = "tx_buffer_tail w - tx_buffer_head w"
  have "?d \<noteq> 0" using assms(2) by auto
  then have "unat (?d - 1) = unat ?d - 1" "0 < unat ?d" by (simp_all add: unat_minus_one unat_gt_0)
  moreover have e: "tx_buffer_tail w - (tx_buffer_head w + 1) = ?d - 1" by simp
  ultimately show s: "tx_size v + 1 = tx_size w" by (simp add: tx_size_def v_def e del: diff_diff_add)
  then show "uart_ok v" using assms(1) by (simp add: uart_ok_def v_def)
  have h: "(unat (tx_buffer_head w + 1) + i) mod 256 = (unat (tx_buffer_head w) + Suc i) mod 256" for i
    using unat_mod_256 [of "tx_buffer_head w + 1" i] unat_mod_256 [of "tx_buffer_head w" "Suc i"] by (simp add: add.assoc)
  have "[0..<tx_size w] = 0 # map Suc [0..<tx_size v]" using s by (metis Suc_eq_plus1 map_Suc_upt upt_conv_Cons zero_less_Suc)
  then show "tx_queue w = tx_buffer w ! (unat (tx_buffer_head w) mod 256) # tx_queue v"
    by (simp add: tx_queue_def) (simp add: v_def h)
qed

lemma ring_distinct: "i < n \<Longrightarrow> n < 256 \<Longrightarrow> (a + i) mod 256 \<noteq> (a + n) mod (256 :: nat)"
proof
  assume a: "i < n" "n < 256" "(a + i) mod 256 = (a + n) mod 256"
  then have "256 dvd (a + n) - (a + i)" by (metis add_le_cancel_left less_imp_le mod_eq_dvd_iff_nat)
  then have "256 dvd n - i" by simp
  then show False using a(1,2) by (auto dest: dvd_imp_le)
qed

lemma tx_push:
  fixes c :: uint8
  assumes "uart_ok w" "tx_size w < 256"
  defines "v \<equiv> w\<lparr>tx_buffer := (tx_buffer w)[unat (tx_buffer_tail w) mod 256 := c], tx_buffer_tail := tx_buffer_tail w + 1\<rparr>"
  shows "uart_ok v" "tx_queue v = tx_queue w @ [c]"
proof -
  let ?n = "tx_size w" and ?h = "unat (tx_buffer_head w)"
  have t: "unat (tx_buffer_tail w) mod 256 = (?h + ?n) mod 256"
    using unat_mod_256 [of "tx_buffer_head w" ?n] by (simp add: tx_size_def)
  have e: "tx_buffer_tail w + 1 - tx_buffer_head w = (tx_buffer_tail w - tx_buffer_head w) + 1" by simp
  have "unat ((tx_buffer_tail w - tx_buffer_head w) + 1) = ?n + 1" using assms(2) by (simp add: tx_size_def unat_word_ariths)
  then have s: "tx_size v = ?n + 1" by (simp add: tx_size_def v_def e)
  then show "uart_ok v" using assms(1,2) by (simp add: uart_ok_def v_def)
  have l: "length (tx_buffer w) = 256" using assms(1) by (simp add: uart_ok_def)
  have "(tx_buffer w)[(?h + ?n) mod 256 := c] ! ((?h + i) mod 256) = (if i = ?n then c else tx_buffer w ! ((?h + i) mod 256))" if "i \<le> ?n" for i
    using that l ring_distinct [of i ?n ?h] assms(2) by (cases "i = ?n") auto
  then show "tx_queue v = tx_queue w @ [c]" unfolding tx_queue_def s by (simp add: v_def t)
qed

section \<open>The port\<close>

text \<open>
  What the driver needs of the hardware: a load changes at most the state of the device, which is kept in the extension of the record, and
  a store to the transmit register appends the byte to the bytes sent.
\<close>

definition uart_hw :: "'a driver_state_scheme mmio \<Rightarrow> uint64 \<Rightarrow> ('a \<Rightarrow> uint8 list) \<Rightarrow> bool" where
  "uart_hw hw base sent \<longleftrightarrow>
     (\<forall>a s. \<exists>d. snd (mmio_ld8 hw a s) = driver_state.more_update (\<lambda>_. d) s \<and> sent d = sent (driver_state.more s)) \<and>
     (\<forall>c s. \<exists>d. mmio_st8 hw (UART_REG base UART_THR) c s = driver_state.more_update (\<lambda>_. d) s \<and> sent d = sent (driver_state.more s) @ [c])"

text \<open>What flushing leaves alone.\<close>

definition flush_frame :: "'a driver_state_scheme \<Rightarrow> 'a driver_state_scheme \<Rightarrow> bool" where
  "flush_frame s t \<longleftrightarrow> cpu_eq s t \<and> spinlocks t = spinlocks s \<and> devices t = devices s \<and> proc_list t = proc_list s"

lemma proc_frame_driver:
  fixes s :: "'a driver_state_scheme"
  assumes "proc_frame s t"
  shows "flush_frame s t" "uarts t = uarts s" "driver_state.more t = driver_state.more s"
  using assms by (auto simp: proc_frame_def flush_frame_def)

lemma flush_frame_same:
  fixes s :: "'a driver_state_scheme"
  shows "flush_frame s (driver_state.more_update (\<lambda>_. d) s)" "flush_frame s (set_uart u f s)"
  by (auto simp: flush_frame_def set_uart_def intro!: cpu_eq_same)

lemma flush_frame_trans: "flush_frame s t \<Longrightarrow> flush_frame t u \<Longrightarrow> cpu_ok s \<Longrightarrow> flush_frame s u"
  using cpu_eq_trans [of s t u] by (simp add: flush_frame_def)

lemma proc_ok_driver:
  fixes s :: "'a driver_state_scheme"
  assumes "proc_ok s ps"
  shows "proc_ok (driver_state.more_update (\<lambda>_. d) s) ps" "proc_ok (set_uart u f s) ps"
proof -
  have "cpu_ok s" using assms by (simp add: proc_ok_def)
  then have "cpu_ok (driver_state.more_update (\<lambda>_. d) s)" "cpu_ok (set_uart u f s)"
    by (rule cpu_ok_cong, simp_all add: set_uart_def)+
  then show "proc_ok (driver_state.more_update (\<lambda>_. d) s) ps" "proc_ok (set_uart u f s) ps"
    using assms by (simp_all add: proc_ok_def set_uart_def)
qed

lemma flush_correct:
  fixes s :: "'a driver_state_scheme"
  assumes "uart_hw hw base sent"
  shows "proc_ok s ps \<Longrightarrow> uart_ok (uarts s u) \<Longrightarrow> u_reg_base (uarts s u) = base \<Longrightarrow>
    \<exists>t. flush_loop hw u s = ret t \<and> proc_ok t ps \<and> uart_ok (uarts t u) \<and> flush_frame s t \<and>
      sent (driver_state.more t) @ tx_queue (uarts t u) = sent (driver_state.more s) @ tx_queue (uarts s u)"
proof (induction "tx_size (uarts s u)" arbitrary: s rule: less_induct)
  case less
  let ?w = "uarts s u"
  have refl: "flush_frame s s" by (simp add: flush_frame_def cpu_eq_refl)
  show ?case
  proof (cases "tx_buffer_head ?w = tx_buffer_tail ?w")
    case True
    then have "flush_loop hw u s = ret s" by (subst flush_loop.simps) simp
    then show ?thesis using less.prems refl by blast
  next
    case False
    obtain lsr d where l: "mmio_ld8 hw (UART_REG base UART_LSR) s = (lsr, driver_state.more_update (\<lambda>_. d) s)" "sent d = sent (driver_state.more s)"
      using assms unfolding uart_hw_def by (metis prod.collapse)
    let ?s1 = "driver_state.more_update (\<lambda>_. d) s"
    have s1: "uarts ?s1 = uarts s" "proc_ok ?s1 ps" "flush_frame s ?s1" "sent (driver_state.more ?s1) = sent (driver_state.more s)"
      using proc_ok_driver(1) [OF less.prems(1)] flush_frame_same(1) l(2) by simp_all
    show ?thesis
    proof (cases "lsr AND UART_LSR_TX_IDLE = 0")
      case True
      then have "flush_loop hw u s = ret ?s1" using False l(1) less.prems(3) by (subst flush_loop.simps) simp
      then show ?thesis using less.prems s1 by metis
    next
      case idle: False
      let ?v = "?w\<lparr>tx_buffer_head := tx_buffer_head ?w + 1\<rparr>" and ?c = "tx_buffer ?w ! (unat (tx_buffer_head ?w) mod 256)"
      let ?s2 = "set_uart u (\<lambda>w. w\<lparr>tx_buffer_head := tx_buffer_head w + 1\<rparr>) ?s1"
      note pop = tx_pop [OF less.prems(2) False]
      have s2: "uarts ?s2 u = ?v" "driver_state.more ?s2 = driver_state.more ?s1" "flush_frame ?s1 ?s2" "proc_ok ?s2 ps"
        by (simp_all add: set_uart_def) (use proc_ok_driver(2) [OF s1(2)] flush_frame_same(2) [of ?s1] in \<open>simp_all add: set_uart_def\<close>)
      obtain e where e: "mmio_st8 hw (UART_REG base UART_THR) ?c ?s2 = driver_state.more_update (\<lambda>_. e) ?s2" "sent e = sent (driver_state.more ?s2) @ [?c]"
        using assms unfolding uart_hw_def by blast
      let ?s3 = "driver_state.more_update (\<lambda>_. e) ?s2"
      have s3: "uarts ?s3 u = ?v" "proc_ok ?s3 ps" "flush_frame ?s2 ?s3" "sent (driver_state.more ?s3) = sent (driver_state.more s) @ [?c]"
        using proc_ok_driver(1) [OF s2(4)] flush_frame_same(1) [of ?s2 e] s2(1,2) s1(4) e(2) by simp_all
      obtain t where t: "proc_wakeup (tx_head_at u) ?s3 = ret t" "proc_ok t ps" "proc_frame ?s3 t" using wakeup_correct [OF s3(2)] by blast
      have u: "uarts t u = ?v" "sent (driver_state.more t) = sent (driver_state.more s) @ [?c]" "flush_frame ?s3 t"
        using proc_frame_driver [OF t(3)] s3(1,4) by simp_all
      have ok: "cpu_ok s" "cpu_ok ?s1" "cpu_ok ?s2" using less.prems(1) s1(2) s2(4) by (simp_all add: proc_ok_def)
      have fr: "flush_frame s t"
        using flush_frame_trans [OF s1(3) flush_frame_trans [OF s2(3) flush_frame_trans [OF s3(3) u(3) ok(3)] ok(2)] ok(1)] .
      have step: "flush_loop hw u s = flush_loop hw u t"
        using False idle l(1) less.prems(2,3) e(1) t(1) s2(1) by (subst flush_loop.simps) (simp add: rd_def uart_ok_def unat_mod TX_BUFFER_SIZE_def)
      have "tx_size (uarts t u) < tx_size ?w" using pop(1) u(1) by simp
      from less.hyps [OF this t(2)] pop(2) u(1) less.prems(3) obtain t' where
        t': "flush_loop hw u t = ret t'" "proc_ok t' ps" "uart_ok (uarts t' u)" "flush_frame t t'"
        "sent (driver_state.more t') @ tx_queue (uarts t' u) = sent (driver_state.more t) @ tx_queue ?v" by auto
      then show ?thesis using step flush_frame_trans [OF fr t'(4) ok(1)] pop(3) u(2) by (intro exI [of _ t']) simp
    qed
  qed
qed

section \<open>Putting a character\<close>

text \<open>A spinlock of a driver, taken and given back around a body that keeps the hart's state.\<close>

lemma driver_section:
  fixes s :: "'a driver_state_scheme"
  assumes "cpu_ok s" "locked (spinlocks s a) = 0"
  obtains x H lk s1 where
    "acquire_ref (Lock_At a) s = Inr s1" "s1 = s\<lparr>sstatus := x, harts := H, spinlocks := (spinlocks s)(a := lk)\<rparr>" "cpu_ok s1"
    "\<And>t :: 'a driver_state_scheme. cpu_eq s1 t \<Longrightarrow> spinlocks t = spinlocks s1 \<Longrightarrow>
       \<exists>y K l. release_ref (Lock_At a) t = Inr (t\<lparr>sstatus := y, harts := K, spinlocks := (spinlocks t)(a := l)\<rparr>) \<and> locked l = 0 \<and>
         cpu_eq s (t\<lparr>sstatus := y, harts := K, spinlocks := (spinlocks t)(a := l)\<rparr>)"
proof -
  let ?l = "spinlocks s a"
  let ?lk = "?l\<lparr>locked := 1, lk_hart := Some (current_hart s)\<rparr>"
  obtain x H H' where l:
    "spinlock_acquire ?l s = Inr (?lk, s\<lparr>sstatus := x, harts := H\<rparr>)" "cpu_ok (s\<lparr>sstatus := x, harts := H\<rparr>)"
    "\<And>t :: 'a driver_state_scheme. cpu_eq (s\<lparr>sstatus := x, harts := H\<rparr>) t \<Longrightarrow>
       spinlock_release ?lk t = Inr (?l\<lparr>locked := 0, lk_hart := None\<rparr>, t\<lparr>sstatus := sstatus s, harts := H'\<rparr>)"
    "\<And>t :: 'a driver_state_scheme. tp t = tp s \<Longrightarrow> sstatus t = sstatus s \<Longrightarrow> harts t = H' \<Longrightarrow> cpu_eq s t"
    by (rule lock_roundtrip [OF assms]) blast
  define s1 where "s1 = s\<lparr>sstatus := x, harts := H, spinlocks := (spinlocks s)(a := ?lk)\<rparr>"
  have c: "cpu_ok s1" by (rule cpu_ok_cong [OF l(2)]) (simp_all add: s1_def)
  have "\<exists>y K l. release_ref (Lock_At a) t = Inr (t\<lparr>sstatus := y, harts := K, spinlocks := (spinlocks t)(a := l)\<rparr>) \<and> locked l = 0 \<and>
      cpu_eq s (t\<lparr>sstatus := y, harts := K, spinlocks := (spinlocks t)(a := l)\<rparr>)"
    if t: "cpu_eq s1 t" "spinlocks t = spinlocks s1" for t :: "'a driver_state_scheme"
  proof -
    have "cpu_eq (s\<lparr>sstatus := x, harts := H\<rparr>) t" using t(1) by (simp add: cpu_eq_def s1_def current_hart_def current_hart_id_def)
    from l(3) [OF this] have "release_ref (Lock_At a) t =
        Inr (t\<lparr>sstatus := sstatus s, harts := H', spinlocks := (spinlocks t)(a := ?l\<lparr>locked := 0, lk_hart := None\<rparr>)\<rparr>)"
      using t(2) by (simp add: s1_def)
    moreover have "tp t = tp s" using t(1) by (simp add: cpu_eq_def s1_def)
    ultimately show ?thesis
      by (intro exI [of _ "sstatus s"] exI [of _ H'] exI [of _ "?l\<lparr>locked := 0, lk_hart := None\<rparr>"]) (simp add: l(4))
  qed
  then show thesis using c by (intro that [where ?s1.0 = s1 and x = x and H = H and lk = ?lk]) (simp_all add: s1_def l(1))
qed

lemma putc_correct:
  fixes s :: "'a driver_state_scheme"
  assumes "proc_ok s ps" "u = driver_internal (devices s dev)" "uart_hw hw (u_reg_base (uarts s u)) sent" "uart_ok (uarts s u)"
    "tx_size (uarts s u) < 256" "locked (spinlocks s (tx_lock_at u)) = 0"
  shows "\<exists>t. ns16550a_driver_putc_async hw sw dev c s = ret t \<and> proc_ok t ps \<and> uart_ok (uarts t u) \<and> locked (spinlocks t (tx_lock_at u)) = 0 \<and>
    sent (driver_state.more t) @ tx_queue (uarts t u) = sent (driver_state.more s) @ tx_queue (uarts s u) @ [c]"
proof -
  have "cpu_ok s" using assms(1) by (simp add: proc_ok_def)
  then show ?thesis
  proof (rule driver_section [OF _ assms(6)])
    fix x H lk and s1 :: "'a driver_state_scheme"
    assume a: "acquire_ref (Lock_At (tx_lock_at u)) s = Inr s1" "s1 = s\<lparr>sstatus := x, harts := H, spinlocks := (spinlocks s)(tx_lock_at u := lk)\<rparr>"
      "cpu_ok s1" "\<And>t :: 'a driver_state_scheme. cpu_eq s1 t \<Longrightarrow> spinlocks t = spinlocks s1 \<Longrightarrow>
       \<exists>y K l. release_ref (Lock_At (tx_lock_at u)) t = Inr (t\<lparr>sstatus := y, harts := K, spinlocks := (spinlocks t)(tx_lock_at u := l)\<rparr>) \<and> locked l = 0 \<and>
         cpu_eq s (t\<lparr>sstatus := y, harts := K, spinlocks := (spinlocks t)(tx_lock_at u := l)\<rparr>)"
    let ?w = "uarts s u"
    let ?buf = "(tx_buffer ?w)[unat (tx_buffer_tail ?w) mod 256 := c]"
    let ?s2 = "set_uart u (\<lambda>w. w\<lparr>tx_buffer := ?buf, tx_buffer_tail := tx_buffer_tail w + 1\<rparr>) s1"
    note push = tx_push [OF assms(4,5), of c]
    have s1: "uarts s1 = uarts s" "devices s1 = devices s" "proc_ok s1 ps" "driver_state.more s1 = driver_state.more s"
      using a(2,3) assms(1) by (simp_all add: proc_ok_def)
    have s2: "uarts ?s2 u = ?w\<lparr>tx_buffer := ?buf, tx_buffer_tail := tx_buffer_tail ?w + 1\<rparr>" "driver_state.more ?s2 = driver_state.more s" "devices ?s2 = devices s"
      by (simp_all add: set_uart_def s1)
    obtain t where t: "flush_loop hw u ?s2 = ret t" "proc_ok t ps" "uart_ok (uarts t u)" "flush_frame ?s2 t"
      "sent (driver_state.more t) @ tx_queue (uarts t u) = sent (driver_state.more s) @ tx_queue (uarts s u) @ [c]"
      using flush_correct [OF assms(3) proc_ok_driver(2) [OF s1(3), of u], of "\<lambda>w. w\<lparr>tx_buffer := ?buf, tx_buffer_tail := tx_buffer_tail w + 1\<rparr>" u]
        push s2 by auto
    have full: "tx_buffer_head ?w + TX_BUFFER_SIZE \<noteq> tx_buffer_tail ?w"
    proof
      assume "tx_buffer_head ?w + TX_BUFFER_SIZE = tx_buffer_tail ?w"
      then have "tx_buffer_tail ?w - tx_buffer_head ?w = 256" by (metis TX_BUFFER_SIZE_def add_diff_cancel_left')
      then show False using assms(5) by (simp add: tx_size_def)
    qed
    have fr: "flush_frame s1 t" by (rule flush_frame_trans [OF flush_frame_same(2) t(4) a(3)])
    then obtain y K l where r: "release_ref (Lock_At (tx_lock_at u)) t = Inr (t\<lparr>sstatus := y, harts := K, spinlocks := (spinlocks t)(tx_lock_at u := l)\<rparr>)"
      "locked l = 0" "cpu_eq s (t\<lparr>sstatus := y, harts := K, spinlocks := (spinlocks t)(tx_lock_at u := l)\<rparr>)"
      using a(4) [of t] by (auto simp: flush_frame_def)
    let ?t = "t\<lparr>sstatus := y, harts := K, spinlocks := (spinlocks t)(tx_lock_at u := l)\<rparr>"
    have "cpu_ok ?t" using cpu_eq_ok [OF r(3)] assms(1) by (simp add: proc_ok_def)
    then have "proc_ok ?t ps" using t(2) by (simp add: proc_ok_def)
    moreover have "tx_wait sw u s1 = ret s1" using full s1(1) by (subst tx_wait.simps) simp
    moreover have "unat (tx_buffer_tail ?w mod TX_BUFFER_SIZE) = unat (tx_buffer_tail ?w) mod 256" by (simp add: unat_mod TX_BUFFER_SIZE_def)
    ultimately show ?thesis using a(1) s1 s2(3) assms(2,4) t r(1,2)
      by (intro exI [of _ ?t]) (simp add: ns16550a_driver_putc_async_def ns16550a_driver_flush_def wr_def uart_ok_def)
  qed
qed

end
