(* ===== verification/Device_Props.thy ===== *)
theory Device_Props
  imports Sweep Console_Props Proc_Props Uart_Props
begin

text \<open>The properties of the components around the devices: the memory of the machine and the serial port.\<close>

section \<open>A sample state\<close>

definition sample_ram :: ram_segment where
  "sample_ram = \<lparr>pa_begin = 0x80000000, pa_len = 0x100000\<rparr>"

lemma sample_memory_state:
  "\<exists>s :: memory_state. sort_seg_num s = 0 \<and> length (sort_seg_begin s) = 1024 \<and> length (sort_seg_end s) = 1024 \<and>
     length (available_ram_segments s) = 1024 \<and> available_ram_segments_num s = 0 \<and> ram_range s = sample_ram"
proof -
  obtain k :: kernel_state where "proc_ok k [0x200]" using sample_kernel by blast
  define c :: console_state where "c = kernel_state.extend k \<lparr>console_lock = spinlock_init '''', locking_enabled = 0, kernel_stdout_dev = 0,
    kernel_stdin_dev = 0\<rparr>"
  define s :: memory_state where "s = console_state.extend c \<lparr>flatten_device_tree = 0, sort_seg_begin = replicate 1024 0, sort_seg_end = replicate 1024 0,
    sort_seg_num = 0, ram_range = sample_ram, available_ram_segments = replicate 1024 sample_ram, available_ram_segments_num = 0\<rparr>"
  show ?thesis by (rule exI [of _ s]) (simp add: s_def console_state.defs)
qed

text \<open>A port that is always ready and remembers the bytes sent to it.\<close>

definition sample_port :: "uint8 list driver_state_scheme mmio" where
  "sample_port = \<lparr>mmio_ld8 = (\<lambda>a s. (0x20, s)), mmio_st8 = (\<lambda>a c s. driver_state.more_update (\<lambda>d. d @ [c]) s),
     mmio_ld32 = (\<lambda>a s. (0, s)), mmio_st32 = (\<lambda>a c s. s)\<rparr>"

lemma sample_port_ok: "uart_hw sample_port base (\<lambda>d. d)"
proof -
  have "\<exists>d. snd (mmio_ld8 sample_port a s) = driver_state.more_update (\<lambda>_. d) s \<and> d = driver_state.more s" for a s
    by (simp add: sample_port_def)
  moreover have "\<exists>d. mmio_st8 sample_port a c s = driver_state.more_update (\<lambda>_. d) s \<and> d = driver_state.more s @ [c]" for a c s
    by (simp add: sample_port_def)
  ultimately show ?thesis by (simp add: uart_hw_def)
qed

lemma sample_driver_state:
  "\<exists>s :: uint8 list driver_state_scheme. proc_ok s [0x200] \<and> driver_internal (devices s 0x5000) = 0x6000 \<and> uart_ok (uarts s 0x6000) \<and>
     tx_size (uarts s 0x6000) = 0 \<and> (\<forall>a. locked (spinlocks s a) = 0) \<and> driver_state.more s = []"
proof -
  obtain k :: kernel_state where k: "proc_ok k [0x200]" using sample_kernel by blast
  define c :: console_state where "c = kernel_state.extend (k\<lparr>spinlocks := (\<lambda>_. spinlock_init '''')\<rparr>)
    \<lparr>console_lock = spinlock_init '''', locking_enabled = 0, kernel_stdout_dev = 0, kernel_stdin_dev = 0\<rparr>"
  define m :: memory_state where "m = console_state.extend c \<lparr>flatten_device_tree = 0, sort_seg_begin = [], sort_seg_end = [],
    sort_seg_num = 0, ram_range = sample_ram, available_ram_segments = [], available_ram_segments_num = 0\<rparr>"
  define d :: driver_state where "d = memory_state.extend m \<lparr>
    devices = (\<lambda>_. \<lparr>dev_name = '''', fdt_node_offset = 0, dev_devId = 1, dev_driver = Ns16550a_Driver, driver_internal = 0x6000,
      dev_parent = 0, dev_children = 0, dev_next = 0\<rparr>),
    plics = (\<lambda>_. \<lparr>plic_devId = 0, plic_reg_base = 0, plic_reg_size = 0\<rparr>),
    uarts = (\<lambda>_. \<lparr>u_devId = 1, u_interrupt_src_id = 10, u_clock_freq = 0, u_reg_base = 0x10000000, u_reg_size = 0x100,
      tx_buffer = replicate 256 0, rx_buffer = replicate 256 0, tx_buffer_head = 0, tx_buffer_tail = 0, rx_buffer_head = 0, rx_buffer_tail = 0\<rparr>),
    device_counter = 1, fdt_chosen_node_offset = 0, root_children = 0\<rparr>"
  define s :: "uint8 list driver_state_scheme" where "s = driver_state.extend d []"
  note defs = s_def d_def m_def c_def driver_state.defs memory_state.defs console_state.defs kernel_state.defs
  have "proc_ok s [0x200]"
    using k by (simp add: proc_ok_def cpu_ok_def current_hart_def current_hart_id_def read_interrupt_def defs)
  then show ?thesis by (intro exI [of _ s]) (simp add: defs uart_ok_def tx_size_def spinlock_init_def)
qed

section \<open>Properties\<close>

text \<open>C38. The available memory: when the arrays have room and no reserved segment ends below the memory, the sweep returns, and the
  segments it leaves are in order and hold exactly the addresses of the memory that lie in no reserved segment rounded out to pages, the kernel
  image included.\<close>

theorem device_calc_available_ram_spec:
  fixes s :: "'a memory_state_scheme"
  assumes "unat (sort_seg_num s) + 2 \<le> 1024" "length (sort_seg_begin s) = 1024" "length (sort_seg_end s) = 1024"
    "length (available_ram_segments s) = 1024" "available_ram_segments_num s = 0"
    "\<forall>g\<in>set (reserved img_end s). PAGE_ROUND_DOWN (fst g) \<le> PAGE_ROUND_UP (snd g) \<and> pa_begin (ram_range s) \<le> PAGE_ROUND_UP (snd g)"
  shows "\<exists>t. device_calc_available_ram img_end s = ret t \<and>
    (\<forall>x. free_in (found t) x \<longleftrightarrow> pa_begin (ram_range s) \<le> x \<and> x < ram_end s \<and> (\<forall>g\<in>set (reserved img_end s). \<not> covers (round_span g) x)) \<and>
    sorted_wrt (\<lambda>g h. pa_begin g + pa_len g \<le> pa_begin h) (found t)"
proof -
  obtain t where t: "device_calc_available_ram img_end s = ret t"
    "swept (pa_begin (ram_range s)) (mset (map round_span (reserved img_end s) @ [(ram_end s, - 1)])) (- 1) (found t)"
    using calc_available_correct [OF assms] by blast
  have "x < - 1 \<and> \<not> covers (ram_end s, - 1) x \<longleftrightarrow> x < ram_end s" for x
    by (auto simp: covers_def word_order.not_eq_extremum [symmetric])
  then show ?thesis using t by (fastforce simp: swept_def)
qed

theorem device_calc_available_ram_spec_witness:
  "\<exists>s t :: memory_state. device_calc_available_ram 0x80010000 s = ret t \<and> free_in (found t) 0x80010000 \<and> free_in (found t) 0x800fffff \<and>
     \<not> free_in (found t) 0x8000ffff \<and> \<not> free_in (found t) 0x80100000"
proof -
  obtain s :: memory_state where s: "sort_seg_num s = 0" "length (sort_seg_begin s) = 1024" "length (sort_seg_end s) = 1024"
    "length (available_ram_segments s) = 1024" "available_ram_segments_num s = 0" "ram_range s = sample_ram" using sample_memory_state by blast
  have r: "reserved 0x80010000 s = [(0x80000000, 0x80010000)]" "ram_end s = 0x80100000" "pa_begin (ram_range s) = 0x80000000"
    "round_span (0x80000000, 0x80010000) = (0x80000000, 0x80010000)"
    by (simp_all add: reserved_def ram_end_def round_span_def s sample_ram_def PAGE_ROUND_DOWN_def PAGE_ROUND_UP_def PAGE_SIZE_def)
  have "\<exists>t. device_calc_available_ram 0x80010000 s = ret t \<and>
    (\<forall>x. free_in (found t) x \<longleftrightarrow> pa_begin (ram_range s) \<le> x \<and> x < ram_end s \<and> (\<forall>g\<in>set (reserved 0x80010000 s). \<not> covers (round_span g) x)) \<and>
    sorted_wrt (\<lambda>g h. pa_begin g + pa_len g \<le> pa_begin h) (found t)"
    by (rule device_calc_available_ram_spec) (use r s in \<open>simp_all add: round_span_def\<close>)
  then obtain t where "device_calc_available_ram 0x80010000 s = ret t"
    "\<forall>x. free_in (found t) x \<longleftrightarrow> 0x80000000 \<le> x \<and> x < 0x80100000 \<and> \<not> covers (0x80000000, 0x80010000) x" unfolding r by (auto simp: r(4))
  then show ?thesis by (intro exI [of _ s] exI [of _ t]) (simp add: covers_def)
qed

text \<open>C39. The serial output is a queue: whatever the port answers, flushing returns and the bytes sent followed by the bytes in the
  ring buffer stay the same sequence; putting a character into a buffer that is not full returns with the lock free and appends exactly that
  character to the sequence. Neither loses, repeats or reorders a byte, also when the 64-bit indices wrap.\<close>

theorem uart_output_fifo:
  fixes s :: "'a driver_state_scheme"
  assumes "proc_ok s ps" "u = driver_internal (devices s dev)" "uart_hw hw (u_reg_base (uarts s u)) sent" "uart_ok (uarts s u)"
  shows "(\<exists>t. ns16550a_driver_flush hw dev s = ret t \<and> proc_ok t ps \<and> uart_ok (uarts t u) \<and>
      sent (driver_state.more t) @ tx_queue (uarts t u) = sent (driver_state.more s) @ tx_queue (uarts s u)) \<and>
    (tx_size (uarts s u) < 256 \<and> locked (spinlocks s (tx_lock_at u)) = 0 \<longrightarrow>
      (\<exists>t. ns16550a_driver_putc_async hw sw dev c s = ret t \<and> proc_ok t ps \<and> uart_ok (uarts t u) \<and> locked (spinlocks t (tx_lock_at u)) = 0 \<and>
        sent (driver_state.more t) @ tx_queue (uarts t u) = sent (driver_state.more s) @ tx_queue (uarts s u) @ [c]))"
proof
  show "\<exists>t. ns16550a_driver_flush hw dev s = ret t \<and> proc_ok t ps \<and> uart_ok (uarts t u) \<and>
      sent (driver_state.more t) @ tx_queue (uarts t u) = sent (driver_state.more s) @ tx_queue (uarts s u)"
    using flush_correct [OF assms(3,1,4) refl] assms(2) by (auto simp: ns16550a_driver_flush_def)
qed (use putc_correct [OF assms] in blast)

theorem uart_output_fifo_witness:
  "\<exists>s t :: uint8 list driver_state_scheme. ns16550a_driver_putc_async sample_port (\<lambda>_. None) 0x5000 65 s = ret t \<and>
     driver_state.more t @ tx_queue (uarts t 0x6000) = [65]"
proof -
  obtain s :: "uint8 list driver_state_scheme" where s: "proc_ok s [0x200]" "driver_internal (devices s 0x5000) = 0x6000" "uart_ok (uarts s 0x6000)"
    "tx_size (uarts s 0x6000) = 0" "\<forall>a. locked (spinlocks s a) = 0" "driver_state.more s = []" using sample_driver_state by blast
  have q: "driver_state.more s @ tx_queue (uarts s 0x6000) @ [65] = [65]" using s(4,6) by (simp add: tx_queue_def)
  have r: "tx_size (uarts s 0x6000) < 256 \<and> locked (spinlocks s (tx_lock_at 0x6000)) = 0" using s(4,5) by simp
  show ?thesis using uart_output_fifo [OF s(1) s(2) [symmetric] sample_port_ok s(3), of "\<lambda>_. None" 65] r unfolding q by blast
qed

end
