(* ===== verification/Setup_Mmu.thy ===== *)
theory Setup_Mmu
  imports Vmem Runs
begin

text \<open>
  \<^verbatim>\<open>kernel/boot/setup_mmu.c\<close>: the page table the kernel boots with. It identity-maps the lower half of the address space,
  maps physical memory at the start of the kernel's half, and maps the kernel image, all in pages of a gibibyte. The boundaries of
  the image and the physical addresses of the tables are set by the linker and are arguments.
\<close>

record boot_state =
  started :: int
  boot_pgtbl :: "uint64 list list"
  boot_satp :: uint64

definition boot_store :: "nat \<Rightarrow> nat \<Rightarrow> uint64 \<Rightarrow> boot_state \<Rightarrow> boot_state res" where
  "boot_store lv i pte b =
     bindR (rd (boot_pgtbl b) lv) (\<lambda>t. bindR (wr t i pte) (\<lambda>t. bindR (wr (boot_pgtbl b) lv t) (\<lambda>ts. Inr (b\<lparr>boot_pgtbl := ts\<rparr>))))"

definition boot_page :: "uint64 \<Rightarrow> uint64" where
  "boot_page phy_pn = push_bit ((VA_N_VPN - 1) * PN_WIDTH + PAGE_OFFSET_WIDTH) phy_pn"

text \<open>The two loops over \<^verbatim>\<open>phy_pn\<close>; the first argument counts the rounds that are left.\<close>

primrec idmap_loop :: "nat \<Rightarrow> uint64 \<Rightarrow> boot_state \<Rightarrow> boot_state res" where
  "idmap_loop 0 phy_pn b = Inr b"
| "idmap_loop (Suc n) phy_pn b =
     bindR (boot_store (VA_N_VPN - 3) (unat phy_pn)
              (PTE_FLAG_V OR PTE_FLAG_R OR PTE_FLAG_W OR PTE_FLAG_X OR PA_PTE (boot_page phy_pn)) b)
       (idmap_loop n (phy_pn + 1))"

primrec pma_loop :: "nat \<Rightarrow> uint64 \<Rightarrow> boot_state \<Rightarrow> boot_state res" where
  "pma_loop 0 phy_pn b = Inr b"
| "pma_loop (Suc n) phy_pn b =
     bindR (boot_store (VA_N_VPN - 3) (unat (phy_pn OR push_bit (PN_WIDTH - 1) 1))
              (PTE_FLAG_V OR PTE_FLAG_R OR PTE_FLAG_W OR PA_PTE (boot_page phy_pn)) b)
       (pma_loop n (phy_pn + 1))"

primrec connect_loop :: "(nat \<Rightarrow> uint64) \<Rightarrow> nat \<Rightarrow> boot_state \<Rightarrow> boot_state res" where
  "connect_loop pgtbl_at 0 b = Inr b"
| "connect_loop pgtbl_at (Suc i) b =
     bindR (boot_store (Suc i) (2 ^ PN_WIDTH - 1) (PTE_FLAG_V OR PA_PTE (pgtbl_at i)) b) (connect_loop pgtbl_at i)"

definition kimage_step :: uint64 where
  "kimage_step = push_bit (PAGE_OFFSET_WIDTH + PN_WIDTH * 2) 1"

partial_function (option) kimage_loop :: "uint64 \<Rightarrow> uint64 \<Rightarrow> uint64 \<Rightarrow> boot_state \<Rightarrow> boot_state run" where
  "kimage_loop kimage_va_end kimage_va kimage_pa b =
     (if kimage_va < kimage_va_end then
        bindM (Some (boot_store 0 (unat (VA_GET_PN 2 kimage_va))
                       (PTE_FLAG_V OR PTE_FLAG_R OR PTE_FLAG_W OR PTE_FLAG_X OR PA_PTE kimage_pa) b))
          (kimage_loop kimage_va_end (kimage_va + kimage_step) (kimage_pa + kimage_step))
      else ret b)"

definition setup_mmu :: "uint64 \<Rightarrow> uint64 \<Rightarrow> uint64 \<Rightarrow> (nat \<Rightarrow> uint64) \<Rightarrow> boot_state \<Rightarrow> boot_state run" where
  "setup_mmu img_pa_begin img_va_begin img_va_end pgtbl_at b =
     bindM (if started b = 0 then
              bindM (Some (idmap_loop (2 ^ (PN_WIDTH - 1)) 0 b)) (\<lambda>b.
              bindM (Some (pma_loop (2 ^ (PN_WIDTH - 2)) 0 b)) (\<lambda>b.
              bindM (Some (connect_loop pgtbl_at (VA_N_VPN - 3) b)) (\<lambda>b.
              bindM (kimage_loop img_va_end img_va_begin img_pa_begin b) (\<lambda>b.
              ret (b\<lparr>started := 1\<rparr>)))))
            else ret b) (\<lambda>b.
     ret (b\<lparr>boot_satp := SATP VMEM_MODE (pgtbl_at (VA_N_VPN - 3))\<rparr>))"

end
