(* ===== verification/Setup_Mmu_Props.thy ===== *)
theory Setup_Mmu_Props
  imports Setup_Mmu Vmem_Props
begin

text \<open>
  What the boot page table means: the addresses it gives to the hardware. \<open>giga\<close> is the translation of the RISC-V architecture
  for a leaf at the top of a table of three levels.
\<close>

section \<open>Leaves of a gibibyte\<close>

definition canonical :: "ulong \<Rightarrow> bool" where
  "canonical va \<longleftrightarrow> unat va < 2 ^ 38 \<or> 2 ^ 64 - 2 ^ 38 \<le> unat va"

definition giga :: "uint64 list \<Rightarrow> ulong \<Rightarrow> ulong option" where
  "giga t va =
     (let e = t ! unat (VA_GET_PN 2 va)
      in if canonical va \<and> bit e 0 \<and> (bit e 1 \<or> bit e 3) \<and> take_bit 30 (PTE_PA e) = 0 then Some (PTE_PA e + take_bit 30 va) else None)"

lemma unat_top: "unat (VA_GET_PN 2 va) = unat va div 2 ^ 30 mod 512"
proof -
  have "VA_GET_PN 2 va = take_bit 9 (drop_bit 30 va)"
    by (simp add: VA_GET_PN_def PN_WIDTH_def PAGE_OFFSET_WIDTH_def take_bit_eq_mask mask_eq_exp_minus_1)
  then show ?thesis by (simp only: unat_take_bit unat_shiftr) simp
qed

definition leaf_flags_ok :: "uint64 \<Rightarrow> bool" where
  "leaf_flags_ok f \<longleftrightarrow> drop_bit 10 f = 0 \<and> bit f 0 \<and> bit f 1"

lemma boot_flags: "leaf_flags_ok (PTE_FLAG_V OR PTE_FLAG_R OR PTE_FLAG_W OR PTE_FLAG_X)" "leaf_flags_ok (PTE_FLAG_V OR PTE_FLAG_R OR PTE_FLAG_W)"
  by (simp_all add: leaf_flags_ok_def PTE_FLAG_V_def PTE_FLAG_R_def PTE_FLAG_W_def PTE_FLAG_X_def bit_or_iff)

lemma giga_leaf:
  assumes "t ! unat (VA_GET_PN 2 va) = f OR PA_PTE pa" "leaf_flags_ok f" "take_bit 30 pa = 0" "canonical va"
  shows "giga t va = Some (pa + take_bit 30 va)"
proof -
  have low: "\<not> bit pa n" if "n < 30" for n
    using arg_cong [OF assms(3), of "\<lambda>w. bit w n"] that by (simp add: bit_simps)
  have "PTE_PA (f OR PA_PTE pa) = push_bit 12 (drop_bit 12 pa)"
    using PTE_PA_PA_PTE [of f pa] assms(2) by (simp add: leaf_flags_ok_def PTE_FLAGS_WIDTH_def or.commute)
  also have "\<dots> = pa"
  proof (rule bit_word_eqI)
    show "bit (push_bit 12 (drop_bit 12 pa)) n = bit pa n" if "n < LENGTH(64)" for n
      using low [of n] that by (cases "12 \<le> n") (auto simp: bit_simps)
  qed
  finally have "PTE_PA (f OR PA_PTE pa) = pa" .
  then show ?thesis using assms by (simp add: giga_def bit_or_iff leaf_flags_ok_def)
qed

section \<open>The loops\<close>

definition table_of :: "boot_state \<Rightarrow> uint64 list \<Rightarrow> bool" where
  "table_of b t \<longleftrightarrow> boot_pgtbl b = [t] \<and> length t = 512"

abbreviation id_entry :: "uint64 \<Rightarrow> uint64" where
  "id_entry k \<equiv> PTE_FLAG_V OR PTE_FLAG_R OR PTE_FLAG_W OR PTE_FLAG_X OR PA_PTE (boot_page k)"

abbreviation pma_entry :: "uint64 \<Rightarrow> uint64" where
  "pma_entry k \<equiv> PTE_FLAG_V OR PTE_FLAG_R OR PTE_FLAG_W OR PA_PTE (boot_page k)"

lemma boot_store_table: "table_of b t \<Longrightarrow> i < 512 \<Longrightarrow> boot_store 0 i e b = Inr (b\<lparr>boot_pgtbl := [t[i := e]]\<rparr>)"
  by (simp add: table_of_def boot_store_def rd_def wr_def)

lemma fill_step:
  assumes "\<forall>i<512. t' ! i = (if Suc k \<le> i \<and> i < Suc k + n then f i else t[k := f k] ! i)" "length t = 512" "k < 512"
  shows "\<forall>i<512. t' ! i = (if k \<le> i \<and> i < k + Suc n then f i else t ! i)"
proof (intro allI impI)
  show "t' ! i = (if k \<le> i \<and> i < k + Suc n then f i else t ! i)" if "i < 512" for i
    using assms that by (cases "i = k") auto
qed

lemma idmap_table:
  "table_of b t \<Longrightarrow> k + n \<le> 512 \<Longrightarrow> \<exists>t'. idmap_loop n (word_of_nat k) b = Inr (b\<lparr>boot_pgtbl := [t']\<rparr>) \<and> length t' = 512 \<and>
     (\<forall>i<512. t' ! i = (if k \<le> i \<and> i < k + n then id_entry (word_of_nat i) else t ! i))"
proof (induction n arbitrary: k b t)
  case 0
  then show ?case by (auto simp: table_of_def intro!: exI [of _ t])
next
  case (Suc n)
  let ?t = "t[k := id_entry (word_of_nat k)]"
  have k: "k < 512" "unat (word_of_nat k :: uint64) = k" "Suc k + n \<le> 512" using Suc.prems(2) by (simp_all add: unat_of_nat)
  have t: "table_of (b\<lparr>boot_pgtbl := [?t]\<rparr>) ?t" "length t = 512" using Suc.prems(1) by (simp_all add: table_of_def)
  have step: "idmap_loop (Suc n) (word_of_nat k) b = idmap_loop n (word_of_nat (Suc k)) (b\<lparr>boot_pgtbl := [?t]\<rparr>)"
    using boot_store_table [OF Suc.prems(1) k(1)] k(2) by (simp add: VA_N_VPN_def VMEM_SV39_N_VPN_def add.commute)
  from Suc.IH [OF t(1) k(3)] obtain t' where r: "idmap_loop n (word_of_nat (Suc k)) (b\<lparr>boot_pgtbl := [?t]\<rparr>) = Inr (b\<lparr>boot_pgtbl := [t']\<rparr>)"
    "length t' = 512" "\<forall>i<512. t' ! i = (if Suc k \<le> i \<and> i < Suc k + n then id_entry (word_of_nat i) else ?t ! i)" by auto
  show ?case using step r(1,2) fill_step [OF r(3) t(2) k(1)] by (intro exI [of _ t'] conjI) (simp_all only:)
qed

lemma pma_index: "k < 256 \<Longrightarrow> unat (word_of_nat k OR push_bit 8 1 :: uint64) = k + 256"
proof -
  assume k: "k < 256"
  have t: "take_bit 8 k = k" using k by (simp add: take_bit_nat_eq_self)
  have "n < 8" if "bit (word_of_nat k :: uint64) n" for n
    using that arg_cong [OF t, of "\<lambda>w. bit w n"] by (simp add: bit_take_bit_iff bit_simps)
  moreover have "8 \<le> n" if "bit (push_bit 8 1 :: uint64) n" for n using that by (simp only: bit_push_bit_iff)
  ultimately have "\<not> bit (word_of_nat k :: uint64) n \<or> \<not> bit (push_bit 8 1 :: uint64) n" for n by (meson not_le)
  then have "(word_of_nat k :: uint64) OR push_bit 8 1 = word_of_nat k + push_bit 8 1" by (metis disjunctive_add)
  then show ?thesis using k by (simp add: unat_word_ariths unat_of_nat)
qed

lemma pma_table:
  "table_of b t \<Longrightarrow> k + n \<le> 256 \<Longrightarrow> \<exists>t'. pma_loop n (word_of_nat k) b = Inr (b\<lparr>boot_pgtbl := [t']\<rparr>) \<and> length t' = 512 \<and>
     (\<forall>i<512. t' ! i = (if k + 256 \<le> i \<and> i < k + 256 + n then pma_entry (word_of_nat (i - 256)) else t ! i))"
proof (induction n arbitrary: k b t)
  case 0
  then show ?case by (auto simp: table_of_def intro!: exI [of _ t])
next
  case (Suc n)
  let ?t = "t[k + 256 := pma_entry (word_of_nat (k + 256 - 256))]"
  have k: "k + 256 < 512" "unat (word_of_nat k OR push_bit 8 1 :: uint64) = k + 256" "Suc k + n \<le> 256"
    using Suc.prems(2) pma_index [of k] by simp_all
  have t: "table_of (b\<lparr>boot_pgtbl := [?t]\<rparr>) ?t" "length t = 512" using Suc.prems(1) by (simp_all add: table_of_def)
  have step: "pma_loop (Suc n) (word_of_nat k) b = pma_loop n (word_of_nat (Suc k)) (b\<lparr>boot_pgtbl := [?t]\<rparr>)"
    using boot_store_table [OF Suc.prems(1) k(1)] k(2) by (simp add: VA_N_VPN_def VMEM_SV39_N_VPN_def PN_WIDTH_def add.commute)
  from Suc.IH [OF t(1) k(3)] obtain t' where r: "pma_loop n (word_of_nat (Suc k)) (b\<lparr>boot_pgtbl := [?t]\<rparr>) = Inr (b\<lparr>boot_pgtbl := [t']\<rparr>)"
    "length t' = 512" "\<forall>i<512. t' ! i = (if Suc (k + 256) \<le> i \<and> i < Suc (k + 256) + n then pma_entry (word_of_nat (i - 256)) else ?t ! i)" by auto
  show ?case using step r(1,2) fill_step [OF r(3) t(2) k(1)] by (intro exI [of _ t'] conjI) (simp_all only:)
qed

lemma kimage_step_eq: "kimage_step = 0x40000000"
  by (simp add: kimage_step_def PAGE_OFFSET_WIDTH_def PN_WIDTH_def)

lemma top_high:
  assumes "2 ^ 64 - 2 ^ 37 \<le> n" "n < 2 ^ 64"
  shows "n div 2 ^ 30 mod 512 = n div 2 ^ 30 - (2 ^ 34 - 512)" "2 ^ 34 - 128 \<le> n div 2 ^ 30" "n div 2 ^ 30 < (2 :: nat) ^ 34"
proof -
  show q: "2 ^ 34 - 128 \<le> n div 2 ^ 30" "n div 2 ^ 30 < (2 :: nat) ^ 34"
    using div_le_mono [OF assms(1), of "2 ^ 30"] less_mult_imp_div_less [of n "2 ^ 34" "2 ^ 30"] assms(2) by simp_all
  define r where "r = n div 2 ^ 30 - (2 ^ 34 - 512)"
  have "n div 2 ^ 30 = 512 * (2 ^ 25 - 1) + r" "r < 512" using q by (simp_all add: r_def)
  then have "n div 2 ^ 30 mod 512 = r" by (simp only: mod_mult_self4 mod_less)
  then show "n div 2 ^ 30 mod 512 = n div 2 ^ 30 - (2 ^ 34 - 512)" by (simp only: r_def)
qed

lemma aligned_gibi: "unat w mod 2 ^ 30 = 0 \<Longrightarrow> take_bit 30 w = 0" for w :: uint64
  by (simp add: word_unat_eq_iff unat_take_bit)

lemma next_gibi: "unat (w + 0x40000000) mod 2 ^ 30 = unat w mod 2 ^ 30" for w :: uint64
proof -
  have "unat (w + 0x40000000) = (unat w + 2 ^ 30) mod 2 ^ 64" by (simp add: unat_word_ariths)
  moreover have "(2 :: nat) ^ 30 dvd 2 ^ 64" by (rule le_imp_power_dvd) simp
  ultimately show ?thesis by (simp only: mod_mod_cancel mod_add_self2)
qed

lemma same_gibi:
  assumes "unat va mod 2 ^ 30 = 0" "va \<le> x" "unat x < unat va + 2 ^ 30"
  shows "unat x div 2 ^ 30 = unat va div 2 ^ 30" "take_bit 30 x = x - va"
proof -
  have le: "unat va \<le> unat x" using assms(2) by (simp add: word_le_nat_alt)
  obtain q where q: "unat va = 2 ^ 30 * q" using assms(1) by (auto simp: mod_eq_0_iff_dvd)
  define r where "r = unat x - unat va"
  have x: "unat x = r + 2 ^ 30 * q" "r < 2 ^ 30" using le assms(3) q by (simp_all add: r_def)
  then show "unat x div 2 ^ 30 = unat va div 2 ^ 30" by (simp add: q)
  have "unat (take_bit 30 x) = r" using x by (simp only: unat_take_bit mod_mult_self2 mod_less)
  moreover have "unat (x - va) = r" using assms(2) by (simp add: unat_sub r_def)
  ultimately show "take_bit 30 x = x - va" by (simp add: word_unat_eq_iff)
qed

lemma kimage_table:
  assumes "unat e \<le> 2 ^ 64 - 2 ^ 30"
  shows "table_of b t \<Longrightarrow> unat va mod 2 ^ 30 = 0 \<Longrightarrow> 2 ^ 64 - 2 ^ 37 \<le> unat va \<Longrightarrow> unat pa mod 2 ^ 30 = 0 \<Longrightarrow>
    \<exists>t'. kimage_loop e va pa b = ret (b\<lparr>boot_pgtbl := [t']\<rparr>) \<and> length t' = 512 \<and>
      (\<forall>i<unat va div 2 ^ 30 mod 512. t' ! i = t ! i) \<and> (\<forall>x. va \<le> x \<and> x < e \<longrightarrow> giga t' x = Some (pa + (x - va)))"
proof (induction "unat e - unat va" arbitrary: va pa b t rule: less_induct)
  case less
  let ?i = "unat va div 2 ^ 30 mod 512" and ?f = "PTE_FLAG_V OR PTE_FLAG_R OR PTE_FLAG_W OR PTE_FLAG_X"
  show ?case
  proof (cases "va < e")
    case False
    then have "kimage_loop e va pa b = ret b" by (subst kimage_loop.simps) simp
    moreover have "\<not> (va \<le> x \<and> x < e)" for x using False by force
    ultimately show ?thesis using less.prems(1) by (intro exI [of _ t]) (auto simp: table_of_def)
  next
    case True
    let ?t = "t[?i := ?f OR PA_PTE pa]" and ?va = "va + 0x40000000"
    have b: "unat va < 2 ^ 64 - 2 ^ 30" using True assms by (simp add: word_less_nat_alt)
    have va: "unat ?va = unat va + 2 ^ 30" using b by (simp add: unat_word_ariths)
    have i: "?i < 512" by simp
    have step: "kimage_loop e va pa b = kimage_loop e ?va (pa + 0x40000000) (b\<lparr>boot_pgtbl := [?t]\<rparr>)"
      using True boot_store_table [OF less.prems(1) i] by (subst kimage_loop.simps) (simp add: unat_top kimage_step_eq or.assoc)
    have t: "table_of (b\<lparr>boot_pgtbl := [?t]\<rparr>) ?t" "length t = 512" using less.prems(1) by (simp_all add: table_of_def)
    have q: "unat ?va div 2 ^ 30 = unat va div 2 ^ 30 + 1" unfolding va by simp
    have h: "2 ^ 64 - 2 ^ 37 \<le> unat ?va" "unat ?va < 2 ^ 64" using va b less.prems(3) by simp_all
    have lt64: "unat va < 2 ^ 64" using b by simp
    have nx: "unat ?va div 2 ^ 30 mod 512 = ?i + 1"
      using top_high [OF h] top_high [OF less.prems(3) lt64] q by linarith
    have m: "unat e - unat ?va < unat e - unat va" using va True by (simp add: word_less_nat_alt)
    have a: "unat ?va mod 2 ^ 30 = 0" "unat (pa + 0x40000000) mod 2 ^ 30 = 0"
      using next_gibi [of va] next_gibi [of pa] less.prems(2,4) by (simp_all only:)
    from less.hyps [OF m t(1) a(1) h(1) a(2), unfolded nx] obtain t' where
      r: "kimage_loop e ?va (pa + 0x40000000) (b\<lparr>boot_pgtbl := [?t]\<rparr>) = ret (b\<lparr>boot_pgtbl := [?t], boot_pgtbl := [t']\<rparr>)" "length t' = 512"
      "\<forall>i<?i + 1. t' ! i = ?t ! i" "\<forall>x. ?va \<le> x \<and> x < e \<longrightarrow> giga t' x = Some (pa + 0x40000000 + (x - ?va))" by blast
    have "giga t' x = Some (pa + (x - va))" if x: "va \<le> x" "x < e" for x
    proof (cases "?va \<le> x")
      case True
      then show ?thesis using r(4) x(2) by simp
    next
      case False
      then have lt: "unat x < unat va + 2 ^ 30" using va by (simp add: word_le_nat_alt)
      note g = same_gibi [OF less.prems(2) x(1) lt]
      have "t' ! ?i = ?f OR PA_PTE pa" using r(3) t(2) i by simp
      then have "t' ! unat (VA_GET_PN 2 x) = ?f OR PA_PTE pa" by (simp only: unat_top g(1))
      moreover have "2 ^ 64 - 2 ^ 38 \<le> unat x" using x(1) less.prems(3) by (simp add: word_le_nat_alt)
      ultimately have "giga t' x = Some (pa + take_bit 30 x)"
        using aligned_gibi [OF less.prems(4)] by (intro giga_leaf [OF _ boot_flags(1)]) (simp_all add: canonical_def)
      then show ?thesis by (simp add: g(2))
    qed
    moreover have "\<forall>i<?i. t' ! i = t ! i" using r(3) by auto
    ultimately show ?thesis using step r(1,2) by auto
  qed
qed

section \<open>The three mappings\<close>

lemma boot_page_aligned: "q < 2 ^ 34 \<Longrightarrow> unat (boot_page (word_of_nat q)) = q * 2 ^ 30"
proof -
  assume q: "q < 2 ^ 34"
  then have "unat (word_of_nat q :: uint64) = q" by (simp add: unat_of_nat)
  then show ?thesis using q unat_shiftl [of "word_of_nat q :: uint64" 30]
    by (simp add: boot_page_def VA_N_VPN_def VMEM_SV39_N_VPN_def PN_WIDTH_def PAGE_OFFSET_WIDTH_def)
qed

lemma page_and_offset:
  assumes "q = unat x div 2 ^ 30" "q < 2 ^ 34"
  shows "boot_page (word_of_nat q) + take_bit 30 x = x" "unat (boot_page (word_of_nat q)) mod 2 ^ 30 = 0"
proof -
  have b: "unat (boot_page (word_of_nat q)) = q * 2 ^ 30" by (rule boot_page_aligned [OF assms(2)])
  then show "unat (boot_page (word_of_nat q)) mod 2 ^ 30 = 0" by simp
  have "q * 2 ^ 30 + unat x mod 2 ^ 30 = unat x" unfolding assms(1) by (rule div_mult_mod_eq)
  then have "unat (boot_page (word_of_nat q)) + unat (take_bit 30 x) = unat x" by (simp only: b unat_take_bit)
  then have "word_of_nat (unat (boot_page (word_of_nat q)) + unat (take_bit 30 x)) = (word_of_nat (unat x) :: uint64)" by (simp only:)
  then show "boot_page (word_of_nat q) + take_bit 30 x = x" by simp
qed

lemma giga_id:
  assumes "unat x < 2 ^ 38" "\<forall>i<256. t ! i = id_entry (word_of_nat i)"
  shows "giga t x = Some x"
proof -
  let ?q = "unat x div 2 ^ 30"
  have q: "?q < 256" "?q < 2 ^ 34" using less_mult_imp_div_less [of "unat x" 256 "2 ^ 30"] assms(1) by simp_all
  have "t ! unat (VA_GET_PN 2 x) = (PTE_FLAG_V OR PTE_FLAG_R OR PTE_FLAG_W OR PTE_FLAG_X) OR PA_PTE (boot_page (word_of_nat ?q))"
    using assms(2) q(1) unfolding unat_top by (simp add: or.assoc)
  then have "giga t x = Some (boot_page (word_of_nat ?q) + take_bit 30 x)"
    using aligned_gibi [OF page_and_offset(2) [OF refl q(2)]] assms(1)
    by (intro giga_leaf [OF _ boot_flags(1)]) (simp_all add: canonical_def)
  then show ?thesis by (simp only: page_and_offset(1) [OF refl q(2)])
qed

lemma giga_pma:
  assumes "unat x < 2 ^ 37" "\<forall>i<128. t ! (256 + i) = pma_entry (word_of_nat i)"
  shows "giga t (PMA_PA2VA x) = Some x"
proof -
  let ?q = "unat x div 2 ^ 30" and ?v = "PMA_PA2VA x"
  have q: "?q < 128" "?q < 2 ^ 34" using less_mult_imp_div_less [of "unat x" 128 "2 ^ 30"] assms(1) by simp_all
  have v: "unat ?v = 2 ^ 30 * (2 ^ 34 - 256) + unat x" using unat_window [of x] assms(1) by simp
  have "unat ?v div 2 ^ 30 = 2 ^ 34 - 256 + ?q" unfolding v by (rule div_mult_self4) simp
  also have "\<dots> = 512 * (2 ^ 25 - 1) + (256 + ?q)" by simp
  finally have "unat ?v div 2 ^ 30 mod 512 = (256 + ?q) mod 512" by (simp only: mod_mult_self4)
  then have i: "unat (VA_GET_PN 2 ?v) = 256 + ?q" using q(1) by (simp add: unat_top)
  have o: "take_bit 30 ?v = take_bit 30 x" by (simp only: word_unat_eq_iff unat_take_bit v mod_mult_self4)
  have "t ! unat (VA_GET_PN 2 ?v) = (PTE_FLAG_V OR PTE_FLAG_R OR PTE_FLAG_W) OR PA_PTE (boot_page (word_of_nat ?q))"
    using assms(2) q(1) unfolding i by (simp add: or.assoc)
  then have "giga t ?v = Some (boot_page (word_of_nat ?q) + take_bit 30 ?v)"
    using aligned_gibi [OF page_and_offset(2) [OF refl q(2)]] v
    by (intro giga_leaf [OF _ boot_flags(2)]) (simp_all add: canonical_def)
  then show ?thesis by (simp only: o page_and_offset(1) [OF refl q(2)])
qed

section \<open>Properties\<close>

text \<open>C37. The boot page table is right: from a fresh state \<^verbatim>\<open>setup_mmu\<close> returns, and in the table it puts into \<^verbatim>\<open>satp\<close>
  every address below 256 GiB translates to itself, every kernel address of the physical window to the physical address it stands for, up to
  128 GiB, and every address of the kernel image to its place in physical memory. A second hart that runs it changes nothing.\<close>

theorem setup_mmu_maps:
  assumes "started b = 0" "boot_pgtbl b = [t]" "length t = 512" "unat va mod 2 ^ 30 = 0" "unat pa mod 2 ^ 30 = 0"
    "2 ^ 64 - 2 ^ 37 \<le> unat va" "unat e \<le> 2 ^ 64 - 2 ^ 30"
  shows "\<exists>b' t'. setup_mmu pa va e pgtbl_at b = ret b' \<and> boot_pgtbl b' = [t'] \<and> boot_satp b' = SATP VMEM_MODE (pgtbl_at 0) \<and>
    (\<forall>x. unat x < 2 ^ 38 \<longrightarrow> giga t' x = Some x) \<and> (\<forall>x. unat x < 2 ^ 37 \<longrightarrow> giga t' (PMA_PA2VA x) = Some x) \<and>
    (\<forall>x. va \<le> x \<and> x < e \<longrightarrow> giga t' x = Some (pa + (x - va))) \<and> setup_mmu pa va e pgtbl_at b' = ret b'"
proof -
  have "table_of b t" using assms by (simp add: table_of_def)
  from idmap_table [OF this, of 0 256] obtain t1 where 1: "idmap_loop 256 0 b = Inr (b\<lparr>boot_pgtbl := [t1]\<rparr>)" "length t1 = 512"
    "\<forall>i<512. t1 ! i = (if i < 256 then id_entry (word_of_nat i) else t ! i)" by auto
  let ?b1 = "b\<lparr>boot_pgtbl := [t1]\<rparr>"
  have "table_of ?b1 t1" using 1(2) by (simp add: table_of_def)
  from pma_table [OF this, of 0 128] obtain t2 where 2: "pma_loop 128 0 ?b1 = Inr (b\<lparr>boot_pgtbl := [t2]\<rparr>)" "length t2 = 512"
    "\<forall>i<512. t2 ! i = (if 256 \<le> i \<and> i < 384 then pma_entry (word_of_nat (i - 256)) else t1 ! i)" by auto
  let ?b2 = "b\<lparr>boot_pgtbl := [t2]\<rparr>"
  have "table_of ?b2 t2" using 2(2) by (simp add: table_of_def)
  from kimage_table [OF assms(7) this assms(4,6,5)] obtain t3 where 3: "kimage_loop e va pa ?b2 = ret (b\<lparr>boot_pgtbl := [t3]\<rparr>)" "length t3 = 512"
    "\<forall>i<unat va div 2 ^ 30 mod 512. t3 ! i = t2 ! i" "\<forall>x. va \<le> x \<and> x < e \<longrightarrow> giga t3 x = Some (pa + (x - va))" by auto
  have "unat va < 2 ^ 64" using unsigned_less [of va] by simp
  note high = top_high [OF assms(6) this]
  have "384 \<le> unat va div 2 ^ 30 - (2 ^ 34 - 512)" using high(2) by simp
  then have top: "384 \<le> unat va div 2 ^ 30 mod 512" by (simp only: high(1))
  define b' where "b' = b\<lparr>boot_pgtbl := [t3], started := 1, boot_satp := SATP VMEM_MODE (pgtbl_at 0)\<rparr>"
  have "setup_mmu pa va e pgtbl_at b = ret b'"
    using assms(1) 1(1) 2(1) 3(1) by (simp add: setup_mmu_def PN_WIDTH_def VA_N_VPN_def VMEM_SV39_N_VPN_def b'_def)
  moreover have "setup_mmu pa va e pgtbl_at b' = ret b'"
    by (simp add: setup_mmu_def VA_N_VPN_def VMEM_SV39_N_VPN_def b'_def)
  moreover have "\<forall>i<256. t3 ! i = id_entry (word_of_nat i)" "\<forall>i<128. t3 ! (256 + i) = pma_entry (word_of_nat i)"
    using 1(3) 2(3) 3(3) top by auto
  ultimately show ?thesis using 3(4) giga_id [of _ t3] giga_pma [of _ t3]
    by (intro exI [of _ b'] exI [of _ t3]) (simp add: b'_def)
qed

theorem setup_mmu_maps_witness:
  "\<exists>b' t'. setup_mmu 0x80000000 0xFFFFFFFF80000000 0xFFFFFFFF80800000 (\<lambda>_. 0x80300000)
       \<lparr>started = 0, boot_pgtbl = [replicate 512 0], boot_satp = 0\<rparr> = ret b' \<and> boot_pgtbl b' = [t'] \<and>
     boot_satp b' = SATP VMEM_MODE 0x80300000 \<and> giga t' 0x80200000 = Some 0x80200000 \<and> giga t' 0xFFFFFFFF80200000 = Some 0x80200000"
proof -
  let ?b = "\<lparr>started = 0, boot_pgtbl = [replicate 512 0], boot_satp = 0\<rparr>"
  have "\<exists>b' t'. setup_mmu 0x80000000 0xFFFFFFFF80000000 0xFFFFFFFF80800000 (\<lambda>_. 0x80300000) ?b = ret b' \<and> boot_pgtbl b' = [t'] \<and>
    boot_satp b' = SATP VMEM_MODE 0x80300000 \<and>
    (\<forall>x. unat x < 2 ^ 38 \<longrightarrow> giga t' x = Some x) \<and> (\<forall>x. unat x < 2 ^ 37 \<longrightarrow> giga t' (PMA_PA2VA x) = Some x) \<and>
    (\<forall>x. 0xFFFFFFFF80000000 \<le> x \<and> x < 0xFFFFFFFF80800000 \<longrightarrow> giga t' x = Some (0x80000000 + (x - 0xFFFFFFFF80000000))) \<and>
    setup_mmu 0x80000000 0xFFFFFFFF80000000 0xFFFFFFFF80800000 (\<lambda>_. 0x80300000) b' = ret b'"
    by (rule setup_mmu_maps [of ?b "replicate 512 0"]) simp_all
  then show ?thesis by (elim exE conjE) (intro exI conjI, assumption+, simp_all)
qed

end
