(* ===== verification/Plic.thy ===== *)
theory Plic
  imports Ns16550a
begin

text \<open>
  \<^verbatim>\<open>kernel/device/drivers/plic/plic.c\<close>: the driver of the platform-level interrupt controller.
\<close>

definition PLIC_REG :: "uint64 \<Rightarrow> ulong \<Rightarrow> addr" where
  "PLIC_REG base reg_id = PMA_PA2VA (base + reg_id)"

definition PLIC_SENABLE :: "uint64 \<Rightarrow> ulong \<Rightarrow> addr" where
  "PLIC_SENABLE base hart = PLIC_REG base (0x2080 + hart * 0x100)"

definition PLIC_SPRIORITY :: "uint64 \<Rightarrow> ulong \<Rightarrow> addr" where
  "PLIC_SPRIORITY base hart = PLIC_REG base (0x201000 + hart * 0x2000)"

definition PLIC_SCLAIM :: "uint64 \<Rightarrow> ulong \<Rightarrow> addr" where
  "PLIC_SCLAIM base hart = PLIC_REG base (0x201004 + hart * 0x2000)"

definition sizeof_plic :: ulong where "sizeof_plic = 24"

definition plic_base :: "addr \<Rightarrow> 'a driver_state_scheme \<Rightarrow> uint64" where
  "plic_base dev s = plic_reg_base (plics s (driver_internal (devices s dev)))"

definition set_u32_map_volatile_bit :: "'s mmio \<Rightarrow> addr \<Rightarrow> ulong \<Rightarrow> bool \<Rightarrow> 's \<Rightarrow> 's" where
  "set_u32_map_volatile_bit hw arr i b s =
     (let a = arr + 4 * drop_bit 5 i; (w, s) = mmio_ld32 hw a s
      in mmio_st32 hw a (if b then w OR push_bit (unat (i AND 0x1f)) 1 else w AND NOT (push_bit (unat (i AND 0x1f)) 1)) s)"

text \<open>The loops over the harts, from the hart \<open>i\<close> on; the first argument counts the harts that are left.\<close>

primrec enable_loop :: "nat \<Rightarrow> 'a driver_state_scheme mmio \<Rightarrow> uint64 \<Rightarrow> ulong \<Rightarrow> bool \<Rightarrow> nat \<Rightarrow> 'a driver_state_scheme \<Rightarrow> 'a driver_state_scheme res" where
  "enable_loop 0 hw base src b i s = Inr s"
| "enable_loop (Suc n) hw base src b i s =
     bindR (rd (harts s) i) (\<lambda>h.
     enable_loop n hw base src b (i + 1)
       (if enabled h then set_u32_map_volatile_bit hw (PLIC_SENABLE base (word_of_nat i)) src b s else s))"

definition plic_driver_hal_enable_src :: "'a driver_state_scheme mmio \<Rightarrow> addr \<Rightarrow> uint32 \<Rightarrow> 'a driver_state_scheme \<Rightarrow> 'a driver_state_scheme res" where
  "plic_driver_hal_enable_src hw dev src_id s =
     (let base = plic_base dev s; s = mmio_st32 hw (PLIC_REG base (ucast (4 * src_id))) 1 s
      in enable_loop MAX_CPU hw base (ucast src_id) True 0 s)"

definition plic_driver_hal_disable_src :: "'a driver_state_scheme mmio \<Rightarrow> addr \<Rightarrow> uint32 \<Rightarrow> 'a driver_state_scheme \<Rightarrow> 'a driver_state_scheme res" where
  "plic_driver_hal_disable_src hw dev src_id s =
     (let base = plic_base dev s; s = mmio_st32 hw (PLIC_REG base (ucast (4 * src_id))) 0 s
      in enable_loop MAX_CPU hw base (ucast src_id) False 0 s)"

definition plic_driver_hal_check_src_status :: "'a driver_state_scheme mmio \<Rightarrow> addr \<Rightarrow> uint32 \<Rightarrow> 'a driver_state_scheme \<Rightarrow> int \<times> 'a driver_state_scheme" where
  "plic_driver_hal_check_src_status hw dev src_id s =
     (let (w, s) = mmio_ld32 hw (PLIC_REG (plic_base dev s) (ucast (4 * src_id))) s in (sint w, s))"

definition plic_driver_hal_claim :: "'a driver_state_scheme mmio \<Rightarrow> addr \<Rightarrow> 'a driver_state_scheme \<Rightarrow> (uint64 \<times> 'a driver_state_scheme) run" where
  "plic_driver_hal_claim hw dev s =
     (let (w, s) = mmio_ld32 hw (PLIC_SCLAIM (plic_base dev s) (ucast (current_hart_id s))) s in ret (ucast w, s))"

definition plic_driver_hal_complete :: "'a driver_state_scheme mmio \<Rightarrow> addr \<Rightarrow> uint32 \<Rightarrow> 'a driver_state_scheme \<Rightarrow> 'a driver_state_scheme run" where
  "plic_driver_hal_complete hw dev irq_id s =
     ret (mmio_st32 hw (PLIC_SCLAIM (plic_base dev s) (ucast (current_hart_id s))) irq_id s)"

text \<open>The list of the registered interrupts, from \<open>irq\<close> on.\<close>

partial_function (option) plic_init_loop ::
  "('a driver_state_scheme mmio \<times> (addr \<Rightarrow> int \<times> addr)) \<Rightarrow> addr \<Rightarrow> addr \<Rightarrow> 'a driver_state_scheme \<Rightarrow> 'a driver_state_scheme run" where
  "plic_init_loop hi dev irq s =
     (if irq = 0 then ret s
      else bindM (Some (plic_driver_hal_enable_src (fst hi) dev (word_of_int (fst (snd hi irq))) s)) (\<lambda>s.
           plic_init_loop hi dev (snd (snd hi irq)) s))"

definition plic_driver_hal_init ::
  "'a driver_state_scheme mmio \<Rightarrow> addr \<Rightarrow> (addr \<Rightarrow> int \<times> addr) \<Rightarrow> addr \<Rightarrow> 'a driver_state_scheme \<Rightarrow> 'a driver_state_scheme run" where
  "plic_driver_hal_init hw dev h irq_list s = plic_init_loop (hw, h) dev (snd (h irq_list)) s"

definition plic_driver_recognize_device :: "literals \<Rightarrow> addr \<Rightarrow> int \<Rightarrow> memory \<Rightarrow> bool run" where
  "plic_driver_recognize_device lit fdt node_offset m =
     bindM (fdt_get_name fdt node_offset m) (\<lambda>(name, _).
     bindM (fdt_get_property fdt node_offset (lit ''compatible'') m) (\<lambda>(p, _).
     if p = 0 \<or> name = 0 then ret False
     else
       bindM (Some (strncmp name (lit ''interrupt-controller@'') 21 m)) (\<lambda>r.
       if r \<noteq> 0 then ret False else bindM (Some (strncmp (p + 12) (lit ''riscv,plic'') 10 m)) (\<lambda>r. ret (r = 0)))))"

primrec priority_loop :: "nat \<Rightarrow> 'a driver_state_scheme mmio \<Rightarrow> uint64 \<Rightarrow> nat \<Rightarrow> 'a driver_state_scheme \<Rightarrow> 'a driver_state_scheme res" where
  "priority_loop 0 hw base i s = Inr s"
| "priority_loop (Suc n) hw base i s =
     bindR (rd (harts s) i) (\<lambda>h.
     priority_loop n hw base (i + 1) (if enabled h then mmio_st32 hw (PLIC_SPRIORITY base (word_of_nat i)) 0 s else s))"

definition plic_register ::
  "'a driver_state_scheme mmio \<Rightarrow> literals \<Rightarrow> uint32 \<Rightarrow> addr \<Rightarrow> int \<Rightarrow> addr \<Rightarrow> addr \<Rightarrow> addr \<Rightarrow>
   'a driver_state_scheme hal \<Rightarrow> 'a driver_state_scheme \<Rightarrow> (addr \<times> 'a driver_state_scheme hal \<times> 'a driver_state_scheme) run" where
  "plic_register hw lit devId fdt node_offset u dev hal_entry hal s =
     (let s = s\<lparr>plics := (plics s)(u := (plics s u)\<lparr>plic_devId := devId\<rparr>)\<rparr>;
          cleanup = (\<lambda>s. bindM (Some (kmem_free u s)) (\<lambda>s. bindM (Some (kmem_free dev s)) (\<lambda>s.
                          bindM (Some (kmem_free hal_entry s)) (\<lambda>s. ret (0, hal, s)))))
      in bindM (fdt_get_property fdt node_offset (lit ''reg'') (ram s)) (\<lambda>(prop, _).
         if prop = 0 then cleanup s else bindM (Some (prop_len prop (ram s))) (\<lambda>len.
         if len \<noteq> 16 then cleanup s else bindM (Some (prop_u64 prop 0 (ram s))) (\<lambda>base.
         bindM (Some (prop_u64 prop 1 (ram s))) (\<lambda>siz.
         let s = s\<lparr>plics := (plics s)(u := (plics s u)\<lparr>plic_reg_base := base, plic_reg_size := siz\<rparr>)\<rparr>
         in bindM (Some (priority_loop MAX_CPU hw base 0 s)) (\<lambda>s.
            let s = set_device dev \<lparr>dev_name = ''RISC-V Platform Level Interrupt Controller'', fdt_node_offset = node_offset, dev_devId = devId,
                      dev_driver = Plic_Driver, driver_internal = u, dev_parent = 0, dev_children = 0, dev_next = 0\<rparr> s
            in ret (dev, (snd (hal_trap_register_interruptor
                 (Some \<lparr>int_dev = dev, int_init = plic_driver_hal_init hw,
                        int_enable_src = (\<lambda>d src s. Some (plic_driver_hal_enable_src hw d src s)),
                        int_disable_src = (\<lambda>d src s. Some (plic_driver_hal_disable_src hw d src s)),
                        int_check_src_status = (\<lambda>d src s. ret (plic_driver_hal_check_src_status hw d src s)),
                        int_claim = Some (plic_driver_hal_claim hw),
                        int_complete = Some (plic_driver_hal_complete hw)\<rparr>) (fst hal)), snd hal), s)))))))"

definition plic_driver_init ::
  "'a driver_state_scheme mmio \<Rightarrow> literals \<Rightarrow> uint32 \<Rightarrow> addr \<Rightarrow> int \<Rightarrow>
   'a driver_state_scheme hal \<Rightarrow> 'a driver_state_scheme \<Rightarrow> (addr \<times> 'a driver_state_scheme hal \<times> 'a driver_state_scheme) run" where
  "plic_driver_init hw lit devId fdt node_offset hal s =
     bindM (kmem_alloc sizeof_plic s) (\<lambda>(u, s).
     if u = 0 then ret (0, hal, s)
     else bindM (kmem_alloc sizeof_device_struct s) (\<lambda>(dev, s).
       if dev = 0 then bindM (Some (kmem_free u s)) (\<lambda>s. ret (0, hal, s))
       else bindM (kmem_alloc 56 s) (\<lambda>(hal_entry, s).
         if hal_entry = 0 then bindM (Some (kmem_free u s)) (\<lambda>s. bindM (Some (kmem_free dev s)) (\<lambda>s. ret (0, hal, s)))
         else plic_register hw lit devId fdt node_offset u dev hal_entry hal s)))"

end
