(* ===== verification/Spec2Isabelle.thy ===== *)
theory Spec2Isabelle
  imports Page_Props Qsort Fdt_Props Device_Props Setup_Mmu_Props Plic
begin

text \<open>
  A verification library for the kernel in \<^verbatim>\<open>src/\<close>, a small operating system kernel for 64-bit
  RISC-V written in C.

  \<^bold>\<open>The program.\<close> The kernel boots with a page table made by \<^verbatim>\<open>kernel/boot/setup_mmu.c\<close>, finds the memory in the
  device tree (\<^verbatim>\<open>kernel/device/libfdt\<close>, \<^verbatim>\<open>kernel/device/memory.c\<close>) and hands it to a boot allocator
  (\<^verbatim>\<open>kernel/memory/bootmem.c\<close>). The page allocator (\<^verbatim>\<open>buddy.c\<close>) takes over what the boot allocator left free; the object
  allocator (\<^verbatim>\<open>object.c\<close>, \<^verbatim>\<open>kmem.c\<close>) cuts its pages into objects, and virtual memory (\<^verbatim>\<open>vmem.c\<close>) builds page tables
  from them. Processes (\<^verbatim>\<open>kernel/proc\<close>) own page tables and are switched by the scheduler; traps (\<^verbatim>\<open>kernel/trap/trap.c\<close>) lead to
  system calls (\<^verbatim>\<open>syscall.c\<close>), the timer and, through \<^verbatim>\<open>kernel/device/hal\<close>, the drivers of the interrupt controller and the
  serial port (\<^verbatim>\<open>kernel/device/drivers\<close>). The console (\<^verbatim>\<open>kernel/console/print.c\<close>) prints through the serial port or the firmware
  (\<^verbatim>\<open>kernel/asm/sbi.c\<close>). Spinlocks (\<^verbatim>\<open>kernel/spinlock.c\<close>) with interrupt nesting (\<^verbatim>\<open>kernel/asm/hart.c\<close>) guard each of them.
  Utilities: strings, bitmaps, byte order, linked lists, quicksort (\<^verbatim>\<open>kernel/utilities\<close>).

  \<^bold>\<open>How the code is modelled.\<close> A C integer is a word of its width (\<^typ>\<open>uint64\<close>), so unsigned
  arithmetic wraps; a signed \<^verbatim>\<open>int\<close> is an integer whose overflow is undefined. A function returns a
  value of \<open>'a res\<close>: a fault (a panic with its message, undefined behaviour, a spin for ever) or a
  result, with the state passed explicitly. A function with a loop or recursion that may not end is
  a run (\<open>'a run\<close>), whose value is \<open>None\<close> when it never returns; theorems about those prove that
  it returns. States are extensible records, each component extending those it uses:
  \<open>cpu\<close>, \<open>uma_node\<close>, \<open>kmem_node\<close>, \<open>object_state\<close>, \<open>vm_state\<close>, \<open>kernel_state\<close>, \<open>console_state\<close>, \<open>memory_state\<close>,
  \<open>driver_state\<close>. What lies outside the C sources is an argument: the context switch and what the other harts do in between (\<open>sw\<close>), the
  firmware behind \<^verbatim>\<open>ecall\<close> (\<open>ec\<close>), the registers of the devices (\<open>hw\<close>), the addresses of string literals (\<open>lit\<close>) and those the
  linker sets. The callbacks of the drivers are fields of the records \<open>hal_trap_manager\<close> and \<open>hal_uart_manager\<close>.

  \<^bold>\<open>Theories.\<close>
  \<^item> \<open>Prelude\<close>: types, outcomes, checked array access, page macros (\<^verbatim>\<open>types.h\<close>, \<^verbatim>\<open>kmem.h\<close>,
    \<^verbatim>\<open>vmem.h\<close>), word lemmas. \<open>Runs\<close>: the monad of runs. \<open>Ram\<close>: words in a byte memory.
  \<^item> \<open>Bytes\<close> (\<^verbatim>\<open>bytes.c\<close>), \<open>Cstring\<close> (\<^verbatim>\<open>string.c\<close>, on a byte memory), \<open>Qsort\<close> (\<^verbatim>\<open>qsort.c\<close>): copies, scans,
    numerals and sorting do what the C library promises; two edges leave their buffers.
  \<^item> \<open>Intrusive_List\<close> (\<^verbatim>\<open>list.c\<close>): the locale \<open>intrusive_list\<close> is the contract of insertion and
    detachment; it is interpreted for \<^verbatim>\<open>list.c\<close> and for the object headers of \<^verbatim>\<open>object.c\<close>.
  \<^item> \<open>Locks\<close> (\<^verbatim>\<open>spinlock.c\<close>, \<^verbatim>\<open>hart.c\<close>): a critical section leaves the hart as it was. \<open>Sleeplock\<close> (\<^verbatim>\<open>sleeplock.c\<close>).
  \<^item> \<open>Bootmem\<close>, \<open>Bootmem_Correct\<close> (\<^verbatim>\<open>bootmem.c\<close>): areas handed out are free, aligned and disjoint.
  \<^item> \<open>Buddy_Spec\<close> is the page allocator as sets of free blocks, \<open>Buddy\<close> the code of \<^verbatim>\<open>buddy.c\<close>,
    \<open>Buddy_Refine\<close> and \<open>Buddy_Correct\<close> the proof that the lists, pair bits and page map implement the
    sets, \<open>Page_Alloc\<close> the contract \<open>page_allocator\<close> for its clients with histories of allocations,
    \<open>Buddy_Init\<close> the hand-over from the boot allocator, \<open>Page_Props\<close> the resulting properties.
  \<^item> \<open>Object\<close> (\<^verbatim>\<open>object.c\<close>) and \<open>Kmem\<close> (\<^verbatim>\<open>kmem.c\<close>); \<open>Object_Inv\<close>, \<open>Object_Correct\<close>, \<open>Object_Alloc\<close>, \<open>Object_Props\<close>: objects handed out are
    new and stay apart from each other and from free pages, in every history.
  \<^item> \<open>Vmem\<close> (\<^verbatim>\<open>vmem.c\<close> for SV39); \<open>Vmem_Table\<close>, \<open>Vmem_Map\<close>, \<open>Vmem_Refine\<close>, \<open>Vmem_Ops\<close>, \<open>Vmem_Reap\<close>, \<open>Vmem_User\<close>, \<open>Vmem_Copy\<close>,
    \<open>Vmem_Props\<close>: the tables implement a map from page numbers to entries, under mapping, unmapping, reaping, translation and copies.
    \<open>Setup_Mmu\<close>, \<open>Setup_Mmu_Props\<close> (\<^verbatim>\<open>setup_mmu.c\<close>): what the boot page table translates.
  \<^item> \<open>Fdt\<close>, \<open>Fdt_Ro\<close>, \<open>Fdt_Sw\<close>, \<open>Fdt_Rw\<close> (the files of \<^verbatim>\<open>libfdt\<close>), \<open>Fdt_Safe\<close>,
    \<open>Fdt_Query\<close>, \<open>Fdt_Bytes\<close>, \<open>Fdt_Props\<close>: reading a checked tree with sane property lengths stays inside it and returns; which
    lengths are not sane.
  \<^item> \<open>Proc\<close> (\<^verbatim>\<open>proc.c\<close>, \<^verbatim>\<open>scheduler.c\<close>), \<open>Syscall\<close> (\<^verbatim>\<open>syscall.c\<close>), \<open>Trap\<close> (\<^verbatim>\<open>trap.c\<close>), \<open>Hal_Trap\<close> (\<^verbatim>\<open>hal/trap.c\<close>);
    \<open>Proc_Correct\<close>, \<open>Proc_Props\<close>: the list of processes, wake-ups, and the defects of yield, exit and \<^verbatim>\<open>sbrk\<close>.
  \<^item> \<open>Sbi\<close> (\<^verbatim>\<open>sbi.c\<close>), \<open>Uart_Io\<close> (\<^verbatim>\<open>hal/uart_io.c\<close>), \<open>Console\<close> (\<^verbatim>\<open>print.c\<close>), \<open>Console_Props\<close>: what is printed reads back.
  \<^item> \<open>Device_Memory\<close> (\<^verbatim>\<open>device/memory.c\<close>), \<open>Sweep\<close>: the sweep over the sorted ends of the reserved segments finds exactly the rest.
  \<^item> \<open>Device\<close> (\<^verbatim>\<open>device.h\<close>), \<open>Ns16550a\<close>, \<open>Plic\<close> (the drivers), \<open>Uart_Props\<close>, \<open>Device_Props\<close>: the output of the serial driver is a queue.

  \<^bold>\<open>Bounds.\<close> The managed pages lie below the 38-bit window on physical memory. No fuel is used: loops
  that end are total functions with a termination proof, the others are runs.

  \<^bold>\<open>Where the model leaves something out.\<close> The nodes of the page allocator's lists lie in free pages in the code and in a heap of their own,
  \<open>list_mem\<close>, in the model: where a theorem says that memory does not change, it means the byte memory \<open>ram\<close>. The boot allocator's clearing of
  an area is left to the typed views of its callers. The progress messages of the memory and process code are not printed, since the console is
  layered above them. Fences have no effect in the model. Harts interleave only where a theorem says so: waiting for a lock another hart
  holds is the outcome \<open>Spins\<close>.

  \<^bold>\<open>Not modelled.\<close> Assembly and linker scripts; \<^verbatim>\<open>fdt_overlay.c\<close>, which nothing calls; the virtio drivers, which are unfinished and do not
  compile, and with them device discovery (\<^verbatim>\<open>device.c\<close>, \<^verbatim>\<open>drivers.c\<close>, \<^verbatim>\<open>hal.c\<close>), which calls every driver; the order of the start-up
  calls (\<^verbatim>\<open>main.c\<close>); the empty file system sources; the user library, which repeats \<^verbatim>\<open>string.c\<close>.
\<close>

end
